(* ===== verification/Mintlayer_Prelude.thy ===== *)
theory Mintlayer_Prelude
  imports Main "HOL-Library.Word" "HOL-Library.Finite_Map" "HOL-Library.Product_Lexorder"
begin

text \<open>
  Shared vocabulary of the development: the machine integers of the Rust sources, fallible
  computations (\<open>Result\<close>) as sums, \<open>&mut self\<close> methods as functions that return their result together
  with the state they leave behind (also when they fail), \<open>BTreeMap\<close> as a finite map iterated in key
  order, and the generic facts on these that the component theories use.
\<close>

section \<open>Collections of rewrite rules\<close>

named_theorems op_simps "success and failure of stateful computations"
named_theorems result_simps "success and failure of pure computations"
named_theorems checked_simps "checked integer operations as facts about their values"

section \<open>Machine integers and identifiers\<close>

type_synonym u8 = "8 word"
type_synonym u32 = "32 word"
type_synonym u64 = "64 word"
type_synonym u128 = "128 word"
type_synonym u256 = "256 word"

text \<open>A hash (\<open>H256\<close>): its byte-wise order is the order of the big-endian number.\<close>

type_synonym h256 = "256 word"

definition checked_add_u :: "'a::len word \<Rightarrow> 'a word \<Rightarrow> 'a word option" where
  "checked_add_u a b = (if uint a + uint b < 2 ^ LENGTH('a) then Some (a + b) else None)"

definition checked_sub_u :: "'a::len word \<Rightarrow> 'a word \<Rightarrow> 'a word option" where
  "checked_sub_u a b = (if b \<le> a then Some (a - b) else None)"

definition checked_mul_u :: "'a::len word \<Rightarrow> 'a word \<Rightarrow> 'a word option" where
  "checked_mul_u a b = (if uint a * uint b < 2 ^ LENGTH('a) then Some (a * b) else None)"

definition checked_div_u :: "'a::len word \<Rightarrow> 'a word \<Rightarrow> 'a word option" where
  "checked_div_u a b = (if b = 0 then None else Some (a div b))"

definition checked_rem_u :: "'a::len word \<Rightarrow> 'a word \<Rightarrow> 'a word option" where
  "checked_rem_u a b = (if b = 0 then None else Some (a mod b))"

definition in_signed :: "'a::len itself \<Rightarrow> int \<Rightarrow> bool" where
  "in_signed T x \<longleftrightarrow> - (2 ^ (LENGTH('a) - 1)) \<le> x \<and> x < 2 ^ (LENGTH('a) - 1)"

definition checked_of_int_s :: "int \<Rightarrow> 'a::len word option" where
  "checked_of_int_s x = (if in_signed TYPE('a) x then Some (word_of_int x) else None)"

definition checked_add_s :: "'a::len word \<Rightarrow> 'a word \<Rightarrow> 'a word option" where
  "checked_add_s a b = checked_of_int_s (sint a + sint b)"

definition checked_sub_s :: "'a::len word \<Rightarrow> 'a word \<Rightarrow> 'a word option" where
  "checked_sub_s a b = checked_of_int_s (sint a - sint b)"

definition checked_mul_s :: "'a::len word \<Rightarrow> 'a word \<Rightarrow> 'a word option" where
  "checked_mul_s a b = checked_of_int_s (sint a * sint b)"

definition checked_neg_s :: "'a::len word \<Rightarrow> 'a word option" where
  "checked_neg_s a = checked_of_int_s (- sint a)"

text \<open>Rust divides towards zero; the remainder has the sign of the dividend.\<close>

definition trunc_div :: "int \<Rightarrow> int \<Rightarrow> int" where
  "trunc_div a b = sgn a * sgn b * (\<bar>a\<bar> div \<bar>b\<bar>)"

definition trunc_rem :: "int \<Rightarrow> int \<Rightarrow> int" where
  "trunc_rem a b = a - trunc_div a b * b"

definition checked_div_s :: "'a::len word \<Rightarrow> 'a word \<Rightarrow> 'a word option" where
  "checked_div_s a b =
     (if b = 0 then None else checked_of_int_s (trunc_div (sint a) (sint b)))"

definition checked_rem_s :: "'a::len word \<Rightarrow> 'a word \<Rightarrow> 'a word option" where
  "checked_rem_s a b =
     (if b = 0 \<or> \<not> in_signed TYPE('a) (trunc_div (sint a) (sint b)) then None
      else Some (word_of_int (trunc_rem (sint a) (sint b))))"

section \<open>Pure fallible computations\<close>

abbreviation Ok :: "'a \<Rightarrow> 'e + 'a" where
  "Ok \<equiv> Inr"

abbreviation Err :: "'e \<Rightarrow> 'e + 'a" where
  "Err \<equiv> Inl"

definition and_then :: "'e + 'a \<Rightarrow> ('a \<Rightarrow> 'e + 'b) \<Rightarrow> 'e + 'b" where
  "and_then r f = (case r of Inl e \<Rightarrow> Inl e | Inr a \<Rightarrow> f a)"

definition ok_or :: "'a option \<Rightarrow> 'e \<Rightarrow> 'e + 'a" where
  "ok_or v e = (case v of None \<Rightarrow> Inl e | Some a \<Rightarrow> Inr a)"

definition ensure :: "bool \<Rightarrow> 'e \<Rightarrow> 'e + unit" where
  "ensure b e = (if b then Inr () else Inl e)"

definition map_err :: "('e \<Rightarrow> 'f) \<Rightarrow> 'e + 'a \<Rightarrow> 'f + 'a" where
  "map_err f r = (case r of Inl e \<Rightarrow> Inl (f e) | Inr a \<Rightarrow> Inr a)"

definition is_ok :: "'e + 'a \<Rightarrow> bool" where
  "is_ok r = (case r of Inl _ \<Rightarrow> False | Inr _ \<Rightarrow> True)"

text \<open>A failure is either an error value or a panic (\<open>expect\<close>, \<open>assert!\<close>).\<close>

datatype 'e failure = Fail 'e | Panic

section \<open>Stateful fallible computations\<close>

type_synonym ('s, 'e, 'a) op = "'s \<Rightarrow> ('e + 'a) \<times> 's"

definition returnS :: "'a \<Rightarrow> ('s, 'e, 'a) op" where
  "returnS a s = (Inr a, s)"

definition failS :: "'e \<Rightarrow> ('s, 'e, 'a) op" where
  "failS e s = (Inl e, s)"

definition bindS :: "('s, 'e, 'a) op \<Rightarrow> ('a \<Rightarrow> ('s, 'e, 'b) op) \<Rightarrow> ('s, 'e, 'b) op" where
  "bindS m f s = (case m s of (r, t) \<Rightarrow> (case r of Inl e \<Rightarrow> (Inl e, t) | Inr a \<Rightarrow> f a t))"

text \<open>The result of a pure computation, of a reading method, and of an assignment.\<close>

definition liftS :: "'e + 'a \<Rightarrow> ('s, 'e, 'a) op" where
  "liftS r s = (r, s)"

definition readS :: "('s \<Rightarrow> 'e + 'a) \<Rightarrow> ('s, 'e, 'a) op" where
  "readS f s = (f s, s)"

definition modifyS :: "('s \<Rightarrow> 's) \<Rightarrow> ('s, 'e, unit) op" where
  "modifyS f s = (Inr (), f s)"

definition ensureS :: "bool \<Rightarrow> 'e \<Rightarrow> ('s, 'e, unit) op" where
  "ensureS b e = liftS (ensure b e)"

text \<open>A method called on a field of the state, and a change of the error type.\<close>

definition zoomS :: "('s \<Rightarrow> 'f) \<Rightarrow> ('f \<Rightarrow> 's \<Rightarrow> 's) \<Rightarrow> ('f, 'e, 'a) op \<Rightarrow> ('s, 'e, 'a) op" where
  "zoomS get put m s = (case m (get s) of (r, x) \<Rightarrow> (r, put x s))"

definition map_errS :: "('e \<Rightarrow> 'f) \<Rightarrow> ('s, 'e, 'a) op \<Rightarrow> ('s, 'f, 'a) op" where
  "map_errS h m s = (case m s of (r, t) \<Rightarrow> (map_err h r, t))"

text \<open>
  \<open>iter.map(f).collect::<Result<Vec<_>, _>>()\<close>: the elements are produced in order and the first
  error ends the iteration, with the effects made so far in place; \<open>try_for_each\<close> likewise.
\<close>

fun mapS :: "('x \<Rightarrow> ('s, 'e, 'y) op) \<Rightarrow> 'x list \<Rightarrow> ('s, 'e, 'y list) op" where
  "mapS f [] = returnS []"
| "mapS f (x # xs) = bindS (f x) (\<lambda>y. bindS (mapS f xs) (\<lambda>ys. returnS (y # ys)))"

fun try_for_each :: "('x \<Rightarrow> ('s, 'e, unit) op) \<Rightarrow> 'x list \<Rightarrow> ('s, 'e, unit) op" where
  "try_for_each f [] = returnS ()"
| "try_for_each f (x # xs) = bindS (f x) (\<lambda>_. try_for_each f xs)"

section \<open>Ordered maps\<close>

type_synonym ('k, 'v) btree_map = "('k, 'v) fmap"

definition btree_iter :: "('k::linorder, 'v) btree_map \<Rightarrow> ('k \<times> 'v) list" where
  "btree_iter m = sorted_list_of_fmap m"

text \<open>\<open>BTreeMap::from_iter\<close>: a later pair overwrites an earlier one with the same key.\<close>

definition btree_of_list :: "('k \<times> 'v) list \<Rightarrow> ('k, 'v) btree_map" where
  "btree_of_list xs = fmap_of_list (rev xs)"

section \<open>Checked integer operations as facts about values\<close>

lemma checked_add_u_Some [checked_simps]:
  "checked_add_u a b = Some c \<longleftrightarrow> uint c = uint a + uint b"
  for a b c :: "'a::len word"
proof
  assume "uint c = uint a + uint b"
  then show "checked_add_u a b = Some c"
    using uint_lt2p [of c] by (simp add: checked_add_u_def uint_word_ariths word_uint_eq_iff)
qed (auto simp: checked_add_u_def uint_word_ariths word_uint_eq_iff split: if_splits)

lemma checked_add_u_None [checked_simps]:
  "checked_add_u a b = None \<longleftrightarrow> 2 ^ LENGTH('a) \<le> uint a + uint b"
  for a b :: "'a::len word"
  by (auto simp: checked_add_u_def)

lemma uint_sum_below: "uint s + uint a \<le> uint l \<Longrightarrow> \<exists>w::'a word. uint w = uint s + uint a"
  for s a l :: "'a::len word"
proof (cases "checked_add_u s a")
  case None
  moreover assume "uint s + uint a \<le> uint l"
  ultimately show ?thesis using uint_lt2p [of l] by (simp add: checked_add_u_None)
qed (auto simp: checked_add_u_Some)

lemma checked_sub_u_Some [checked_simps]:
  "checked_sub_u a b = Some c \<longleftrightarrow> uint c = uint a - uint b"
  for a b c :: "'a::len word"
proof -
  have "uint a - uint b < 2 ^ LENGTH('a)"
    using uint_lt2p [of a] uint_ge_0 [of b] by linarith
  moreover have "uint c = uint a - uint b \<Longrightarrow> uint b \<le> uint a"
    using uint_ge_0 [of c] by linarith
  ultimately show ?thesis
    by (auto simp: checked_sub_u_def uint_word_ariths word_uint_eq_iff word_le_def)
qed

lemma checked_sub_u_None [checked_simps]: "checked_sub_u a b = None \<longleftrightarrow> uint a < uint b"
  for a b :: "'a::len word"
  by (auto simp: checked_sub_u_def word_le_def)

lemma int_below_word: "0 \<le> x \<Longrightarrow> x \<le> uint l \<Longrightarrow> \<exists>w::'a word. uint w = x" for l :: "'a::len word"
  by (intro exI [of _ "word_of_int x"])
    (simp add: uint_word_of_int_eq take_bit_int_eq_self le_less_trans [OF _ uint_lt2p])

lemma checked_sub_u_nat:
  "checked_sub_u x y = (if unat y \<le> unat x then Some (of_nat (unat x - unat y)) else None)"
  for x y :: "'a::len word"
  by (simp add: checked_sub_u_def word_le_nat_alt of_nat_diff)

lemma checked_mul_u_Some [checked_simps]:
  "checked_mul_u a b = Some c \<longleftrightarrow> uint c = uint a * uint b"
  for a b c :: "'a::len word"
proof
  assume "uint c = uint a * uint b"
  then show "checked_mul_u a b = Some c"
    using uint_lt2p [of c] by (simp add: checked_mul_u_def uint_word_ariths word_uint_eq_iff)
qed (auto simp: checked_mul_u_def uint_word_ariths word_uint_eq_iff split: if_splits)

lemma checked_mul_u_None [checked_simps]:
  "checked_mul_u a b = None \<longleftrightarrow> 2 ^ LENGTH('a) \<le> uint a * uint b"
  for a b :: "'a::len word"
  by (auto simp: checked_mul_u_def)

lemma checked_div_u_Some [checked_simps]:
  "checked_div_u a b = Some c \<longleftrightarrow> b \<noteq> 0 \<and> uint c = uint a div uint b"
  for a b c :: "'a::len word"
  by (auto simp: checked_div_u_def word_uint_eq_iff uint_div)

lemma checked_div_u_None [checked_simps]: "checked_div_u a b = None \<longleftrightarrow> b = 0"
  by (simp add: checked_div_u_def)

lemma sint_in_signed [simp]: "in_signed TYPE('a) (sint (a::'a::len word))"
  unfolding in_signed_def using sint_greater_eq [of a] sint_less [of a] by simp

lemma checked_of_int_s_Some [checked_simps]:
  "checked_of_int_s x = Some (c::'a::len word) \<longleftrightarrow> sint c = x"
proof
  assume "checked_of_int_s x = Some c"
  then have "in_signed TYPE('a) x" "c = word_of_int x"
    by (auto simp: checked_of_int_s_def split: if_splits)
  then show "sint c = x"
    by (simp add: in_signed_def sint_sbintrunc' signed_take_bit_int_eq_self)
next
  assume "sint c = x"
  then show "checked_of_int_s x = Some c"
    using sint_in_signed [of c] by (auto simp: checked_of_int_s_def)
qed

lemma checked_of_int_s_None [checked_simps]:
  "(checked_of_int_s x :: 'a::len word option) = None \<longleftrightarrow> \<not> in_signed TYPE('a) x"
  by (auto simp: checked_of_int_s_def)

lemma checked_of_int_s_in_range:
  "in_signed TYPE('a) x \<Longrightarrow> \<exists>c::'a::len word. checked_of_int_s x = Some c \<and> sint c = x"
  using checked_of_int_s_Some [of x "word_of_int x :: 'a word"] by (simp add: checked_of_int_s_def)

text \<open>Products of 128-bit numbers taken in 256 bits.\<close>

lemma uint_ucast_256 [simp]: "uint (ucast (a :: u128) :: u256) = uint a"
  by (simp add: uint_up_ucast is_up)

lemma product_256: "\<exists>p. checked_mul_u (ucast (g :: u128) :: u256) (ucast (f :: u128)) = Some p \<and>
    uint p = uint g * uint f"
proof (cases "checked_mul_u (ucast g :: u256) (ucast f)")
  case None
  have "uint g * uint f < 2 ^ 128 * 2 ^ 128"
    using uint_lt2p [of g] uint_lt2p [of f] by (intro mult_strict_mono) auto
  with None show ?thesis by (simp add: checked_simps)
next
  case (Some p)
  then have "uint p = uint g * uint f" by (simp add: checked_simps)
  with Some show ?thesis by blast
qed

section \<open>Success and failure of computations\<close>

lemma bindS_Inr [op_simps]:
  "bindS m f s = (Inr b, t) \<longleftrightarrow> (\<exists>a u. m s = (Inr a, u) \<and> f a u = (Inr b, t))"
  by (auto simp: bindS_def split: prod.splits sum.splits)

lemma bindS_Inl [op_simps]:
  "bindS m f s = (Inl e, t) \<longleftrightarrow>
     m s = (Inl e, t) \<or> (\<exists>a u. m s = (Inr a, u) \<and> f a u = (Inl e, t))"
  by (auto simp: bindS_def split: prod.splits sum.splits)

lemma returnS_eq [op_simps]: "returnS a s = (r, t) \<longleftrightarrow> r = Inr a \<and> t = s"
  by (auto simp: returnS_def)

lemma failS_eq [op_simps]: "failS e s = (r, t) \<longleftrightarrow> r = Inl e \<and> t = s"
  by (auto simp: failS_def)

lemma liftS_eq [op_simps]: "liftS q s = (r, t) \<longleftrightarrow> q = r \<and> t = s"
  by (auto simp: liftS_def)

lemma readS_eq [op_simps]: "readS g s = (r, t) \<longleftrightarrow> g s = r \<and> t = s"
  by (auto simp: readS_def)

lemma modifyS_eq [op_simps]: "modifyS h s = (r, t) \<longleftrightarrow> r = Inr () \<and> t = h s"
  by (auto simp: modifyS_def)

lemma ensureS_Inr [op_simps]: "ensureS b e s = (Inr u, t) \<longleftrightarrow> b \<and> t = s"
  by (auto simp: ensureS_def ensure_def liftS_def)

lemma ensureS_Inl [op_simps]: "ensureS b e s = (Inl d, t) \<longleftrightarrow> \<not> b \<and> d = e \<and> t = s"
  by (auto simp: ensureS_def ensure_def liftS_def)

text \<open>Early returns: a guard in front of the rest of a method.\<close>

lemma guard_Inr [op_simps]:
  "(if b then failS e else m) s = (Inr y, t) \<longleftrightarrow> \<not> b \<and> m s = (Inr y, t)"
  by (simp add: failS_eq)

lemma guard_Inl [op_simps]:
  "(if b then failS e else m) s = (Inl d, t) \<longleftrightarrow> (if b then d = e \<and> t = s else m s = (Inl d, t))"
  by (auto simp: failS_eq)

lemma zoomS_eq [op_simps]:
  "zoomS get put m s = (r, t) \<longleftrightarrow> (\<exists>x. m (get s) = (r, x) \<and> t = put x s)"
  by (auto simp: zoomS_def split: prod.splits)

lemma map_errS_eq [op_simps]:
  "map_errS h m s = (Inr a, t) \<longleftrightarrow> m s = (Inr a, t)"
  "map_errS h m s = (Inl e, t) \<longleftrightarrow> (\<exists>d. m s = (Inl d, t) \<and> e = h d)"
  by (auto simp: map_errS_def map_err_def split: prod.splits sum.splits)

lemma and_then_eq [result_simps]:
  "and_then r f = Inr b \<longleftrightarrow> (\<exists>a. r = Inr a \<and> f a = Inr b)"
  "and_then r f = Inl e \<longleftrightarrow> r = Inl e \<or> (\<exists>a. r = Inr a \<and> f a = Inl e)"
  by (auto simp: and_then_def split: sum.splits)

lemma ok_or_eq [result_simps]:
  "ok_or v e = Inr a \<longleftrightarrow> v = Some a"
  "ok_or v e = Inl d \<longleftrightarrow> v = None \<and> d = e"
  by (auto simp: ok_or_def split: option.splits)

lemma ensure_eq [result_simps]:
  "ensure b e = Inr u \<longleftrightarrow> b"
  "ensure b e = Inl d \<longleftrightarrow> \<not> b \<and> d = e"
  by (auto simp: ensure_def)

lemma map_err_eq [result_simps]:
  "map_err h r = Inr a \<longleftrightarrow> r = Inr a"
  "map_err h r = Inl e \<longleftrightarrow> (\<exists>d. r = Inl d \<and> e = h d)"
  by (auto simp: map_err_def split: sum.splits)

lemma is_ok_iff [result_simps]: "is_ok r \<longleftrightarrow> (\<exists>a. r = Inr a)"
  by (auto simp: is_ok_def split: sum.splits)

lemma try_for_each_append:
  "try_for_each f (xs @ ys) = bindS (try_for_each f xs) (\<lambda>_. try_for_each f ys)"
  by (induction xs) (auto simp: fun_eq_iff bindS_def returnS_def split: prod.splits sum.splits)

lemma try_for_each_mapS: "try_for_each f xs = bindS (mapS f xs) (\<lambda>_. returnS ())"
  by (induction xs) (auto simp: fun_eq_iff bindS_def returnS_def split: prod.splits sum.splits)

lemma try_for_each_Inr:
  "try_for_each f xs s = (Inr u, t) \<longleftrightarrow> (\<exists>ys. mapS f xs s = (Inr ys, t))"
  by (auto simp: try_for_each_mapS op_simps)

lemma try_for_each_Inl:
  "try_for_each f xs s = (Inl e, t) \<Longrightarrow> \<exists>x\<in>set xs. \<exists>u. f x u = (Inl e, t)"
  by (induction xs arbitrary: s) (auto simp: op_simps)

lemma try_for_each_invariant:
  assumes "try_for_each f xs s = (r, t)" and "I s"
    and "\<And>x s r t. x \<in> set xs \<Longrightarrow> f x s = (r, t) \<Longrightarrow> I s \<Longrightarrow> I t"
  shows "I t"
  using assms
proof (induction xs arbitrary: s)
  case (Cons x xs)
  then show ?case
    by (auto simp: bindS_def split: prod.splits sum.splits) blast+
qed (auto simp: op_simps)

lemma mapS_invariant:
  assumes "mapS f xs s = (r, t)" and "I s"
    and "\<And>x s r t. x \<in> set xs \<Longrightarrow> f x s = (r, t) \<Longrightarrow> I s \<Longrightarrow> I t"
  shows "I t"
  using assms
proof (induction xs arbitrary: s r t)
  case (Cons x xs)
  obtain q u where q: "f x s = (q, u)" by (cases "f x s")
  with Cons.prems have "I u" by (meson list.set_intros(1))
  show ?case
  proof (cases q)
    case (Inl e)
    with q Cons.prems \<open>I u\<close> show ?thesis by (auto simp: bindS_def)
  next
    case (Inr y)
    obtain v w where v: "mapS f xs u = (v, w)" by (cases "mapS f xs u")
    with Cons.IH \<open>I u\<close> Cons.prems(3) have "I w" by (metis list.set_intros(2))
    with v q Inr Cons.prems(1) show ?thesis
      by (auto simp: bindS_def returnS_def split: sum.splits)
  qed
qed (auto simp: op_simps)

lemma mapS_Inl: "mapS f xs s = (Inl e, t) \<Longrightarrow> \<exists>x\<in>set xs. \<exists>u. f x u = (Inl e, t)"
  by (induction xs arbitrary: s) (auto simp: op_simps)

lemma try_for_each_map: "try_for_each f (map g xs) = try_for_each (\<lambda>x. f (g x)) xs"
  by (induction xs) simp_all

lemma try_for_each_filter:
  "try_for_each (\<lambda>x. if P x then f x else returnS ()) xs = try_for_each f (filter P xs)"
  by (induction xs) (auto simp: fun_eq_iff bindS_def returnS_def split: prod.splits sum.splits)

lemma try_for_each_mono:
  assumes "try_for_each f xs s = (Inr (), t)" and "\<And>x s t. f x s = (Inr (), t) \<Longrightarrow> g x s = (Inr (), t)"
  shows "try_for_each g xs s = (Inr (), t)"
  using assms(1) by (induction xs arbitrary: s) (auto simp: op_simps dest!: assms(2))

lemma bindS_lift_Inr: "bindS (liftS (Inr a)) f = f a"
  by (simp add: fun_eq_iff bindS_def liftS_def)

lemma try_for_each_cong:
  "(\<And>x. x \<in> set xs \<Longrightarrow> f x = g x) \<Longrightarrow> try_for_each f xs = try_for_each g xs"
  by (induction xs) auto

lemma result_of_ok:
  assumes "is_ok (fst (m c))"
  obtains a c' where "m c = (Inr a, c')"
  using assms by (cases "m c") (auto simp: is_ok_iff)

lemma mapS_pure:
  "(\<And>x. x \<in> set xs \<Longrightarrow> f x = Inr (g x)) \<Longrightarrow> mapS (\<lambda>x. liftS (f x)) xs s = (Inr (map g xs), s)"
  by (induction xs) (simp_all add: op_simps)

section \<open>Lookup in ordered maps\<close>

lemma btree_iter_lookup [simp]: "map_of (btree_iter m) = fmlookup m"
  by (simp add: btree_iter_def)

lemma btree_iter_distinct [simp]: "distinct (map fst (btree_iter m))"
  by (simp add: btree_iter_def sorted_list_of_fmap_def o_def sorted_list_of_fset.rep_eq)

lemma btree_iter_sorted [simp]: "sorted (map fst (btree_iter m))"
  by (simp add: btree_iter_def sorted_list_of_fmap_def o_def sorted_list_of_fset.rep_eq)

lemma btree_iter_set: "(k, v) \<in> set (btree_iter m) \<longleftrightarrow> fmlookup m k = Some v"
  using map_of_eq_Some_iff [OF btree_iter_distinct, of m k v] by simp

lemma map_of_rev_distinct: "distinct (map fst xs) \<Longrightarrow> map_of (rev xs) = map_of xs"
  by (rule map_of_inject_set [THEN iffD2]) (simp_all add: rev_map [symmetric])

lemma btree_of_list_lookup:
  "distinct (map fst xs) \<Longrightarrow> fmlookup (btree_of_list xs) = map_of xs"
  by (simp add: btree_of_list_def fmlookup_of_list map_of_rev_distinct)

lemma btree_of_list_iter [simp]: "btree_of_list (btree_iter m) = m"
  by (rule fmap_ext) (simp add: btree_of_list_lookup)

lemma btree_of_list_map_iter:
  "btree_of_list (map (\<lambda>(k, x). (k, f x)) (btree_iter m)) = fmmap f m"
proof (rule fmap_ext)
  fix k
  have "map_of (map (\<lambda>(k, x). (k, f x)) (btree_iter m)) k = map_option f (fmlookup m k)"
    by (simp add: map_of_map)
  moreover have "map fst (map (\<lambda>(k, x). (k, f x)) (btree_iter m)) = map fst (btree_iter m)"
    by (simp add: o_def case_prod_unfold)
  ultimately show "fmlookup (btree_of_list (map (\<lambda>(k, x). (k, f x)) (btree_iter m))) k =
      fmlookup (fmmap f m) k"
    by (simp add: btree_of_list_lookup del: map_map)
qed

lemma Some_eq_fmlookup [simp]: "Some v = fmlookup m k \<longleftrightarrow> fmlookup m k = Some v"
  by auto

lemma fmupd_fmdrop_same [simp]: "fmupd k v (fmdrop k m) = fmupd k v m"
  by (rule fmap_ext) simp

section \<open>Lists\<close>

lemma find_append:
  "List.find P (xs @ ys) = (case List.find P xs of Some x \<Rightarrow> Some x | None \<Rightarrow> List.find P ys)"
  by (induction xs) auto

lemma sort_pairs_fst: "sorted xs \<Longrightarrow> sorted (map fst xs)"
  for xs :: "('a::linorder \<times> 'b::linorder) list"
  by (rule sorted_map_mono) (auto intro!: monoI mono_onI simp: less_eq_prod_def)

section \<open>Iteration over the entries of a map\<close>

text \<open>
  The merging loops of the sources visit the entries of a \<open>BTreeMap\<close> and, for each key, read, combine
  and write one cell of the state. The interface of such a loop body: \<open>look\<close> observes a cell,
  \<open>comb\<close> says what the body makes of the observed value (\<open>None\<close> where the body fails), \<open>out\<close> what it
  returns, and the body leaves every other cell alone.
\<close>

locale keyed_step =
  fixes step :: "'k::linorder \<Rightarrow> 'x \<Rightarrow> ('s, 'e, 'y) op"
    and look :: "'s \<Rightarrow> 'k \<Rightarrow> 'v"
    and comb :: "'k \<Rightarrow> 'v \<Rightarrow> 'x \<Rightarrow> 'v option"
    and out :: "'k \<Rightarrow> 'v \<Rightarrow> 'x \<Rightarrow> 'y"
  assumes step_ok: "step k x s = (Inr y, t) \<Longrightarrow>
      comb k (look s k) x = Some (look t k) \<and> (\<forall>j. j \<noteq> k \<longrightarrow> look t j = look s j) \<and> y = out k (look s k) x"
begin

lemma mapS_ok:
  assumes "mapS (\<lambda>(k, x). step k x) xs s = (Inr ys, t)" and "distinct (map fst xs)"
  shows "ys = map (\<lambda>(k, x). out k (look s k) x) xs \<and>
    (\<forall>k. (k \<notin> fst ` set xs \<longrightarrow> look t k = look s k) \<and>
         (\<forall>x. (k, x) \<in> set xs \<longrightarrow> comb k (look s k) x = Some (look t k)))"
  using assms
proof (induction xs arbitrary: s ys)
  case Nil
  then show ?case by (simp add: op_simps)
next
  case (Cons p xs)
  obtain j x where p: "p = (j, x)" by (cases p)
  with Cons.prems obtain y u zs where st: "step j x s = (Inr y, u)"
      "mapS (\<lambda>(k, x). step k x) xs u = (Inr zs, t)" "ys = y # zs"
    by (auto simp: op_simps)
  note ok = step_ok [OF st(1)]
  from Cons.prems(2) p have j: "j \<notin> fst ` set xs" and d: "distinct (map fst xs)" by auto
  note IH = Cons.IH [OF st(2) d]
  have "look t j = look u j" using IH j by blast
  moreover have "look u k = look s k" if "k \<noteq> j" for k using ok that by blast
  moreover have "k \<noteq> j" if "(k, z) \<in> set xs" for k z using j that by force
  ultimately have agree: "\<And>k z. (k, z) \<in> set xs \<Longrightarrow> look u k = look s k" by blast
  then have "map (\<lambda>(k, x). out k (look u k) x) xs = map (\<lambda>(k, x). out k (look s k) x) xs"
    by auto
  with ok IH st(3) p j agree show ?case by auto
qed

lemma iter_ok:
  assumes "mapS (\<lambda>(k, x). step k x) (btree_iter m) s = (Inr ys, t)"
  shows "ys = map (\<lambda>(k, x). out k (look s k) x) (btree_iter m)"
    and "fmlookup m k = None \<Longrightarrow> look t k = look s k"
    and "fmlookup m k = Some x \<Longrightarrow> comb k (look s k) x = Some (look t k)"
proof -
  note ok = mapS_ok [OF assms btree_iter_distinct]
  have "k \<notin> fst ` set (btree_iter m)" if "fmlookup m k = None"
    using that map_of_eq_None_iff [of "btree_iter m" k] by simp
  then show "fmlookup m k = None \<Longrightarrow> look t k = look s k"
    and "ys = map (\<lambda>(k, x). out k (look s k) x) (btree_iter m)"
    using ok by auto
  show "fmlookup m k = Some x \<Longrightarrow> comb k (look s k) x = Some (look t k)"
    using ok btree_iter_set [of k x m] by blast
qed

end

text \<open>A loop body that does its work wherever the combination is defined.\<close>

locale keyed_progress = keyed_step +
  assumes step_progress: "comb k (look s k) x = Some v \<Longrightarrow> \<exists>y t. step k x s = (Inr y, t)"
begin

lemma mapS_progress:
  assumes "distinct (map fst xs)"
    and "\<And>k x. (k, x) \<in> set xs \<Longrightarrow> \<exists>v. comb k (look s k) x = Some v"
  shows "\<exists>t. mapS (\<lambda>(k, x). step k x) xs s = (Inr (map (\<lambda>(k, x). out k (look s k) x) xs), t)"
  using assms
proof (induction xs arbitrary: s)
  case Nil
  then show ?case by (simp add: op_simps)
next
  case (Cons p xs)
  obtain j x where p: "p = (j, x)" by (cases p)
  from Cons.prems(2) [of j x] p obtain y u where st: "step j x s = (Inr y, u)"
    using step_progress by fastforce
  note ok = step_ok [OF st]
  have "\<exists>v. comb k (look u k) z = Some v" if "(k, z) \<in> set xs" for k z
  proof -
    from that Cons.prems(1) p have "k \<noteq> j" by force
    with ok Cons.prems(2) [of k z] that show ?thesis by auto
  qed
  with Cons.IH [of u] Cons.prems(1) p
  obtain t where "mapS (\<lambda>(k, x). step k x) xs u = (Inr (map (\<lambda>(k, x). out k (look u k) x) xs), t)"
    by auto
  moreover have "look u k = look s k" if "(k, z) \<in> set xs" for k z
    using ok that Cons.prems(1) p by force
  then have "map (\<lambda>(k, x). out k (look u k) x) xs = map (\<lambda>(k, x). out k (look s k) x) xs"
    by auto
  ultimately show ?case using st p ok by (auto simp: op_simps)
qed

lemma iter_progress:
  assumes "\<And>k x. fmlookup m k = Some x \<Longrightarrow> \<exists>v. comb k (look s k) x = Some v"
  shows "\<exists>t. mapS (\<lambda>(k, x). step k x) (btree_iter m) s =
           (Inr (map (\<lambda>(k, x). out k (look s k) x) (btree_iter m)), t)"
  by (rule mapS_progress) (auto simp: btree_iter_set intro: assms)

end

section \<open>Loops over results\<close>

text \<open>
  \<open>try_for_each\<close> of a check, a \<open>for\<close> loop that returns at the first error, and
  \<open>map(f).collect::<Result<Vec<_>, _>>()\<close> without a state.
\<close>

fun try_each :: "('x \<Rightarrow> 'e + unit) \<Rightarrow> 'x list \<Rightarrow> 'e + unit" where
  "try_each f [] = Ok ()"
| "try_each f (x # xs) = and_then (f x) (\<lambda>_. try_each f xs)"

fun collect_each :: "('x \<Rightarrow> 'e + 'y) \<Rightarrow> 'x list \<Rightarrow> 'e + 'y list" where
  "collect_each f [] = Ok []"
| "collect_each f (x # xs) = and_then (f x) (\<lambda>y. and_then (collect_each f xs) (\<lambda>ys. Ok (y # ys)))"

definition enumerated :: "'x list \<Rightarrow> (nat \<times> 'x) list" where
  "enumerated xs = zip [0..<length xs] xs"

text \<open>\<open>slice.get(i)\<close>\<close>

definition get_index :: "'x list \<Rightarrow> nat \<Rightarrow> 'x option" where
  "get_index xs i = (if i < length xs then Some (xs ! i) else None)"

lemma get_index_eq: "get_index xs i = Some x \<longleftrightarrow> i < length xs \<and> xs ! i = x"
  by (simp add: get_index_def)

lemma try_each_eq: "try_each f xs = Ok u \<longleftrightarrow> (\<forall>x\<in>set xs. f x = Ok ())"
  by (induction xs) (auto simp: result_simps)

lemma try_each_Err: "try_each f xs = Err e \<Longrightarrow> \<exists>x\<in>set xs. f x = Err e"
  by (induction xs) (auto simp: result_simps)

lemma set_enumerated: "set (enumerated xs) = {(n, xs ! n) |n. n < length xs}"
  by (force simp: enumerated_def set_zip)

lemma try_each_enumerated:
  "try_each f (enumerated xs) = Ok u \<longleftrightarrow> (\<forall>n<length xs. f (n, xs ! n) = Ok ())"
  by (auto simp: try_each_eq set_enumerated)

lemma collect_each_eq:
  "collect_each f xs = Ok ys \<longleftrightarrow> length ys = length xs \<and> (\<forall>n<length xs. f (xs ! n) = Ok (ys ! n))"
proof (induction xs arbitrary: ys)
  case (Cons x xs)
  then show ?case by (cases ys) (auto simp: result_simps All_less_Suc2)
qed auto

end
