(* ===== verification/Amounts.thy ===== *)
theory Amounts
  imports Mintlayer_Prelude
begin

text \<open>
  Amounts of coins and tokens: \<open>common/src/primitives/amount\<close>. An \<open>Amount\<close> is a \<open>u128\<close> number of
  atoms, a \<open>SignedAmount\<close> an \<open>i128\<close> one (a 128-bit word read by \<^const>\<open>sint\<close>), and every arithmetic
  operation is checked. \<open>DecimalAmount\<close> is the presentation form with a number of decimals.
\<close>

unbundle bit_operations_syntax

section \<open>Unsigned amounts\<close>

type_synonym amount = u128

definition amount_max :: amount where
  "amount_max = - 1"

definition amount_zero :: amount where
  "amount_zero = 0"

datatype signed_amount = SignedAmount (signed_atoms: "128 word")

abbreviation sval :: "signed_amount \<Rightarrow> int" where
  "sval a \<equiv> sint (signed_atoms a)"

abbreviation in_i128 :: "int \<Rightarrow> bool" where
  "in_i128 x \<equiv> in_signed TYPE(128) x"

definition amount_from_signed :: "signed_amount \<Rightarrow> amount option" where
  "amount_from_signed a = (if 0 \<le> sval a then Some (word_of_int (sval a)) else None)"

definition amount_into_signed :: "amount \<Rightarrow> signed_amount option" where
  "amount_into_signed a = map_option SignedAmount (checked_of_int_s (uint a))"

definition amount_add :: "amount \<Rightarrow> amount \<Rightarrow> amount option" where
  "amount_add a b = checked_add_u a b"

definition amount_sub :: "amount \<Rightarrow> amount \<Rightarrow> amount option" where
  "amount_sub a b = checked_sub_u a b"

definition amount_mul :: "amount \<Rightarrow> u128 \<Rightarrow> amount option" where
  "amount_mul a n = checked_mul_u a n"

definition amount_div :: "amount \<Rightarrow> u128 \<Rightarrow> amount option" where
  "amount_div a n = checked_div_u a n"

definition amount_rem :: "amount \<Rightarrow> u128 \<Rightarrow> amount option" where
  "amount_rem a n = checked_rem_u a n"

text \<open>\<open>None\<close> is the panic of \<open>expect\<close>.\<close>

definition abs_diff :: "amount \<Rightarrow> amount \<Rightarrow> amount option" where
  "abs_diff a b = (if a > b then amount_sub a b else amount_sub b a)"

definition amount_bitand :: "amount \<Rightarrow> amount \<Rightarrow> amount" where
  "amount_bitand a b = a AND b"

definition amount_bitor :: "amount \<Rightarrow> amount \<Rightarrow> amount" where
  "amount_bitor a b = a OR b"

definition amount_bitxor :: "amount \<Rightarrow> amount \<Rightarrow> amount" where
  "amount_bitxor a b = a XOR b"

definition amount_not :: "amount \<Rightarrow> amount" where
  "amount_not a = NOT a"

definition amount_shl :: "amount \<Rightarrow> u32 \<Rightarrow> amount option" where
  "amount_shl a n = (if unat n < 128 then Some (push_bit (unat n) a) else None)"

definition amount_shr :: "amount \<Rightarrow> u32 \<Rightarrow> amount option" where
  "amount_shr a n = (if unat n < 128 then Some (drop_bit (unat n) a) else None)"

fun amount_try_fold :: "amount \<Rightarrow> amount list \<Rightarrow> amount option" where
  "amount_try_fold acc [] = Some acc"
| "amount_try_fold acc (a # as) =
     (case amount_add acc a of None \<Rightarrow> None | Some acc' \<Rightarrow> amount_try_fold acc' as)"

definition amount_sum :: "amount list \<Rightarrow> amount option" where
  "amount_sum as = amount_try_fold amount_zero as"

section \<open>Signed amounts\<close>

definition signed_from_unsigned :: "amount \<Rightarrow> signed_amount option" where
  "signed_from_unsigned a = map_option SignedAmount (checked_of_int_s (uint a))"

definition signed_into_unsigned :: "signed_amount \<Rightarrow> amount option" where
  "signed_into_unsigned a = (if 0 \<le> sval a then Some (word_of_int (sval a)) else None)"

definition signed_zero :: signed_amount where
  "signed_zero = SignedAmount 0"

definition signed_min :: signed_amount where
  "signed_min = SignedAmount (word_of_int (- (2 ^ 127)))"

definition signed_max :: signed_amount where
  "signed_max = SignedAmount (word_of_int (2 ^ 127 - 1))"

definition signed_add :: "signed_amount \<Rightarrow> signed_amount \<Rightarrow> signed_amount option" where
  "signed_add a b = map_option SignedAmount (checked_add_s (signed_atoms a) (signed_atoms b))"

definition signed_sub :: "signed_amount \<Rightarrow> signed_amount \<Rightarrow> signed_amount option" where
  "signed_sub a b = map_option SignedAmount (checked_sub_s (signed_atoms a) (signed_atoms b))"

definition signed_mul :: "signed_amount \<Rightarrow> 128 word \<Rightarrow> signed_amount option" where
  "signed_mul a n = map_option SignedAmount (checked_mul_s (signed_atoms a) n)"

definition signed_div :: "signed_amount \<Rightarrow> 128 word \<Rightarrow> signed_amount option" where
  "signed_div a n = map_option SignedAmount (checked_div_s (signed_atoms a) n)"

definition signed_rem :: "signed_amount \<Rightarrow> 128 word \<Rightarrow> signed_amount option" where
  "signed_rem a n = map_option SignedAmount (checked_rem_s (signed_atoms a) n)"

definition signed_neg :: "signed_amount \<Rightarrow> signed_amount option" where
  "signed_neg a = map_option SignedAmount (checked_neg_s (signed_atoms a))"

fun signed_try_fold :: "signed_amount \<Rightarrow> signed_amount list \<Rightarrow> signed_amount option" where
  "signed_try_fold acc [] = Some acc"
| "signed_try_fold acc (a # as) =
     (case signed_add acc a of None \<Rightarrow> None | Some acc' \<Rightarrow> signed_try_fold acc' as)"

definition signed_sum :: "signed_amount list \<Rightarrow> signed_amount option" where
  "signed_sum as = signed_try_fold signed_zero as"

section \<open>Decimal amounts\<close>

record decimal_amount =
  mantissa :: u128
  decimals :: u8

definition from_amount_full_padding :: "amount \<Rightarrow> u8 \<Rightarrow> decimal_amount" where
  "from_amount_full_padding a d = \<lparr>mantissa = a, decimals = d\<rparr>"

function without_padding :: "decimal_amount \<Rightarrow> decimal_amount" where
  "without_padding x =
     (if decimals x > 0 \<and> mantissa x mod 10 = 0
      then without_padding (x\<lparr>mantissa := mantissa x div 10, decimals := decimals x - 1\<rparr>)
      else x)"
  by pat_completeness auto
termination
  by (relation "measure (\<lambda>x. unat (decimals x))") (auto simp: word_gt_0 unat_minus_one unat_gt_0)

declare without_padding.simps [simp del]

definition from_amount_no_padding :: "amount \<Rightarrow> u8 \<Rightarrow> decimal_amount" where
  "from_amount_no_padding a d = without_padding (from_amount_full_padding a d)"

text \<open>\<open>10u128.checked_pow(n)\<close>.\<close>

definition checked_pow10 :: "u8 \<Rightarrow> u128 option" where
  "checked_pow10 n = (if (10::int) ^ unat n < 2 ^ 128 then Some (10 ^ unat n) else None)"

definition with_decimals :: "decimal_amount \<Rightarrow> u8 \<Rightarrow> decimal_amount option" where
  "with_decimals x d =
     Option.bind (checked_sub_u d (decimals x)) (\<lambda>extra.
     Option.bind (checked_pow10 extra) (\<lambda>p.
     Option.bind (checked_mul_u (mantissa x) p) (\<lambda>m.
     Some \<lparr>mantissa = m, decimals = d\<rparr>)))"

definition to_amount :: "decimal_amount \<Rightarrow> u8 \<Rightarrow> amount option" where
  "to_amount x d = map_option mantissa (with_decimals (without_padding x) d)"

definition is_same :: "decimal_amount \<Rightarrow> decimal_amount \<Rightarrow> bool" where
  "is_same x y \<longleftrightarrow> (mantissa x, decimals x) = (mantissa y, decimals y)"

section \<open>Amounts as facts about their values\<close>

lemma signed_amount_eq_iff: "a = b \<longleftrightarrow> sval a = sval b"
  by (cases a; cases b) (auto intro: signed_word_eqI)

lemma sval_ex: "(\<exists>s. sval s = x) \<longleftrightarrow> in_i128 x"
proof
  assume "in_i128 x"
  then obtain c :: "128 word" where "sint c = x" using checked_of_int_s_in_range by blast
  then show "\<exists>s. sval s = x" by (intro exI [of _ "SignedAmount c"]) simp
qed auto

lemma uint_of_nonneg_sint: "0 \<le> sint w \<Longrightarrow> uint (word_of_int (sint w) :: 128 word) = sint w"
  for w :: "128 word"
  using sint_less [of w] by (simp add: uint_word_of_int del: of_int_sint)

lemma amount_into_signed_Some [checked_simps]:
  "amount_into_signed a = Some s \<longleftrightarrow> sval s = uint a"
  by (cases s) (simp add: amount_into_signed_def checked_simps)

lemma amount_into_signed_None [checked_simps]:
  "amount_into_signed a = None \<longleftrightarrow> 2 ^ 127 \<le> uint a"
  using order_trans [OF _ uint_ge_0 [of a], of "- (2 ^ 127)"]
  by (simp add: amount_into_signed_def checked_simps in_signed_def not_less)

lemma signed_into_unsigned_Some [checked_simps]:
  "signed_into_unsigned s = Some a \<longleftrightarrow> uint a = sval s"
proof (cases "0 \<le> sval s")
  case True
  then show ?thesis
    using uint_of_nonneg_sint [of "signed_atoms s"]
    by (auto simp: signed_into_unsigned_def word_uint_eq_iff simp del: of_int_sint)
next
  case False
  then have "uint a \<noteq> sval s" using uint_ge_0 [of a] by linarith
  with False show ?thesis by (simp add: signed_into_unsigned_def)
qed

lemma signed_into_unsigned_None [checked_simps]:
  "signed_into_unsigned s = None \<longleftrightarrow> sval s < 0"
  by (auto simp: signed_into_unsigned_def)

lemma signed_add_Some [checked_simps]: "signed_add a b = Some c \<longleftrightarrow> sval c = sval a + sval b"
  by (cases c) (simp add: signed_add_def checked_add_s_def checked_simps)

lemma signed_add_None [checked_simps]:
  "signed_add a b = None \<longleftrightarrow> \<not> in_signed TYPE(128) (sval a + sval b)"
  by (simp add: signed_add_def checked_add_s_def checked_simps)

lemma signed_neg_Some [checked_simps]: "signed_neg a = Some c \<longleftrightarrow> sval c = - sval a"
  by (cases c) (simp add: signed_neg_def checked_neg_s_def checked_simps)

lemma signed_neg_None [checked_simps]: "signed_neg a = None \<longleftrightarrow> sval a = - (2 ^ 127)"
  using sint_in_signed [of "signed_atoms a"]
  by (auto simp: signed_neg_def checked_neg_s_def checked_simps in_signed_def)

lemma sval_signed_zero [simp]: "sval signed_zero = 0"
  by (simp add: signed_zero_def)

lemma amount_add_Some [checked_simps]: "amount_add a b = Some c \<longleftrightarrow> uint c = uint a + uint b"
  by (simp add: amount_add_def checked_simps)

lemma amount_add_None [checked_simps]: "amount_add a b = None \<longleftrightarrow> 2 ^ 128 \<le> uint a + uint b"
  by (simp add: amount_add_def checked_simps)

lemma amount_sub_Some [checked_simps]: "amount_sub a b = Some c \<longleftrightarrow> uint c = uint a - uint b"
  by (simp add: amount_sub_def checked_simps)

lemma amount_sub_None [checked_simps]: "amount_sub a b = None \<longleftrightarrow> uint a < uint b"
  by (simp add: amount_sub_def checked_simps)

lemma amount_try_fold_Some:
  "amount_try_fold acc as = Some s \<longleftrightarrow> uint s = uint acc + sum_list (map uint as)"
proof (induction as arbitrary: acc)
  case Nil
  then show ?case by (auto simp: word_uint_eq_iff)
next
  case (Cons a as)
  have pos: "0 \<le> sum_list (map uint as)" by (rule sum_list_nonneg) auto
  show ?case
  proof (cases "amount_add acc a")
    case None
    then have "2 ^ 128 \<le> uint acc + uint a" by (simp add: checked_simps)
    with pos uint_lt2p [of s] None show ?thesis by auto
  next
    case (Some acc')
    then have "uint acc' = uint acc + uint a" by (simp add: checked_simps)
    with Some Cons show ?thesis by (simp add: add.assoc)
  qed
qed

lemma abs_diff_total: "\<exists>d. abs_diff a b = Some d \<and> uint d = \<bar>uint a - uint b\<bar>"
  by (cases "a > b")
    (auto simp: abs_diff_def amount_sub_def checked_sub_u_def word_less_def word_le_def uint_sub_if')


section \<open>Decimal amounts keep their value\<close>

text \<open>
  Removing the padding keeps the value (the mantissa, scaled by the decimals taken away) and ends with
  no decimals or with a last digit that is not zero.
\<close>

lemma without_padding_spec:
  "decimals (without_padding x) \<le> decimals x \<and>
   unat (mantissa (without_padding x)) * 10 ^ (unat (decimals x) - unat (decimals (without_padding x))) =
     unat (mantissa x) \<and>
   (decimals (without_padding x) = 0 \<or> unat (mantissa (without_padding x)) mod 10 \<noteq> 0)"
proof (induction x rule: without_padding.induct)
  case (1 x)
  show ?case
  proof (cases "decimals x > 0 \<and> mantissa x mod 10 = 0")
    case False
    then show ?thesis by (subst (1 2 3 4 5) without_padding.simps) (auto simp: word_gt_0 unat_arith_simps)
  next
    case True
    define y where "y = x\<lparr>mantissa := mantissa x div 10, decimals := decimals x - 1\<rparr>"
    have eq: "without_padding x = without_padding y"
      using True by (subst without_padding.simps) (simp add: y_def)
    have dec: "unat (decimals y) = unat (decimals x) - 1" "0 < unat (decimals x)"
      using True by (simp_all add: y_def unat_minus_one word_gt_0 unat_gt_0)
    have "unat (mantissa x) mod 10 = 0" using True by (simp add: unat_arith_simps)
    then have man: "unat (mantissa x) = unat (mantissa y) * 10"
      using div_mult_mod_eq [of "unat (mantissa x)" 10] by (simp add: y_def unat_div)
    note IH = "1.IH" [OF True, folded y_def]
    from IH have le: "unat (decimals (without_padding y)) \<le> unat (decimals y)"
      by (simp add: word_le_nat_alt)
    then have "unat (decimals x) - unat (decimals (without_padding y)) =
        Suc (unat (decimals y) - unat (decimals (without_padding y)))"
      using dec by linarith
    with IH man eq le dec show ?thesis by (simp add: word_le_nat_alt)
  qed
qed

lemma without_padding_idem [simp]: "without_padding (without_padding x) = without_padding x"
  using without_padding_spec [of x]
  by (subst without_padding.simps) (auto simp: word_gt_0 unat_arith_simps)

lemma uint_pow10: "(10::int) ^ k < 2 ^ 128 \<Longrightarrow> uint ((10::u128) ^ k) = 10 ^ k"
proof -
  assume "(10::int) ^ k < 2 ^ 128"
  moreover have "(10 :: u128) ^ k = word_of_int (10 ^ k)" by simp
  ultimately show ?thesis by (simp add: uint_word_of_int del: of_int_power)
qed

lemma checked_pow10_Some [checked_simps]: "checked_pow10 n = Some p \<longleftrightarrow> uint p = 10 ^ unat n"
  using uint_lt2p [of p] uint_pow10 [of "unat n"]
  by (auto simp: checked_pow10_def word_uint_eq_iff)

lemma pow10_bound: "(10::int) ^ k < 2 ^ 128 \<longleftrightarrow> k \<le> 38"
proof
  assume "(10::int) ^ k < 2 ^ 128"
  then have "(10::int) ^ k < 10 ^ 39" by (rule less_trans) simp
  then have "k < 39" by (rule power_less_imp_less_exp [rotated]) simp
  then show "k \<le> 38" by simp
next
  assume "k \<le> 38"
  then have "(10::int) ^ k \<le> 10 ^ 38" by (rule power_increasing) simp
  then show "(10::int) ^ k < 2 ^ 128" by (rule le_less_trans) simp
qed

lemma to_amount_full_padding:
  "to_amount (from_amount_full_padding a d) d = (if a = 0 \<and> d > 38 then None else Some a)"
proof -
  define w where "w = without_padding (from_amount_full_padding a d)"
  define e where "e = d - decimals w"
  have le: "decimals w \<le> d"
    and val: "unat (mantissa w) * 10 ^ unat e = unat a"
    and zero: "decimals w = 0 \<or> unat (mantissa w) mod 10 \<noteq> 0"
    using without_padding_spec [of "from_amount_full_padding a d"]
    by (auto simp: w_def e_def from_amount_full_padding_def unat_sub)
  from arg_cong [OF val, of int] have ival: "uint (mantissa w) * 10 ^ unat e = uint a" by simp
  have conv: "to_amount (from_amount_full_padding a d) d =
      Option.bind (checked_pow10 e) (\<lambda>p. checked_mul_u (mantissa w) p)"
    using le by (cases "checked_pow10 e"; cases "checked_mul_u (mantissa w) (the (checked_pow10 e))")
      (auto simp: to_amount_def with_decimals_def w_def [symmetric] e_def checked_sub_u_def)
  show ?thesis
  proof (cases "a = 0 \<and> d > 38")
    case True
    with val have "unat (mantissa w) = 0" by simp
    with zero have "e = d" by (auto simp: e_def)
    with True have "checked_pow10 e = None"
      using pow10_bound [of "unat e"] by (auto simp: checked_pow10_def unat_arith_simps)
    with True conv show ?thesis by simp
  next
    case False
    have lt: "(10::int) ^ unat e < 2 ^ 128"
    proof (cases "a = 0")
      case True
      with False le show ?thesis
        unfolding pow10_bound by (auto simp: e_def unat_sub word_le_nat_alt word_less_nat_alt)
    next
      case False
      with ival have "uint (mantissa w) \<noteq> 0" by (auto simp: word_uint_eq_iff)
      then have "1 \<le> uint (mantissa w)" using uint_ge_0 [of "mantissa w"] by linarith
      from mult_right_mono [OF this, of "10 ^ unat e"] ival have "10 ^ unat e \<le> uint a" by simp
      then show ?thesis using uint_lt2p [of a] by simp
    qed
    then obtain p where p: "checked_pow10 e = Some p" by (auto simp: checked_pow10_def)
    then have "uint p = 10 ^ unat e" by (simp add: checked_simps)
    with ival have "checked_mul_u (mantissa w) p = Some a" by (simp add: checked_simps)
    with p False conv show ?thesis by auto
  qed
qed

section \<open>Properties of amounts\<close>

text \<open>
  \<open>Amount\<close>'s \<open>sum\<close> over an iterator is exact: it returns an amount precisely when the mathematical sum
  of all the items fits in 128 bits, and then it returns that sum; an overflow at any point of the
  iteration makes it return \<open>None\<close>.
\<close>

theorem amount_sum_exact:
  "amount_sum as =
     (if sum_list (map uint as) < 2 ^ 128 then Some (word_of_int (sum_list (map uint as))) else None)"
proof -
  have pos: "0 \<le> sum_list (map uint as)" by (rule sum_list_nonneg) auto
  have eq: "amount_sum as = Some s \<longleftrightarrow> uint s = sum_list (map uint as)" for s
    by (simp add: amount_sum_def amount_zero_def amount_try_fold_Some)
  show ?thesis
  proof (cases "amount_sum as")
    case None
    with eq [of "word_of_int (sum_list (map uint as))"] pos show ?thesis
      by (auto simp: uint_word_of_int)
  next
    case (Some s)
    with eq [of s] pos uint_lt2p [of s] show ?thesis
      by (auto simp: word_uint_eq_iff uint_word_of_int)
  qed
qed

text \<open>
  Printing an amount as a decimal amount, with or without trailing zeros, and reading it back with
  the same number of decimals gives the amount again, except that a zero amount of a token with more
  than 38 decimals is read back as \<open>None\<close>: the power of ten overflows before it is multiplied by zero.
\<close>

theorem decimal_amount_round_trip:
  "to_amount (from_amount_full_padding a d) d = (if a = 0 \<and> d > 38 then None else Some a) \<and>
   to_amount (from_amount_no_padding a d) d = (if a = 0 \<and> d > 38 then None else Some a)"
proof -
  have "to_amount (from_amount_no_padding a d) d = to_amount (from_amount_full_padding a d) d"
    by (simp add: to_amount_def from_amount_no_padding_def)
  then show ?thesis by (simp add: to_amount_full_padding)
qed

end
