(* ===== verification/Chain_Types.thy ===== *)
theory Chain_Types
  imports Amounts
begin

text \<open>
  The data of the chain the accounting components share (\<open>common/src/chain\<close>): destinations, token and
  order data, transaction outputs and inputs. Public keys (of the signature and of the VRF schemes) are
  kept in their encoded form, hashes and identifiers as words.
\<close>

section \<open>Identifiers and keys\<close>

type_synonym tx_id = h256
type_synonym gen_block_id = h256
type_synonym block_id = h256
type_synonym token_id = h256
type_synonym order_id = h256
type_synonym pool_id = h256
type_synonym delegation_id = h256
type_synonym public_key = "u8 list"
type_synonym vrf_public_key = "u8 list"
type_synonym public_key_hash = "160 word"
type_synonym htlc_secret_hash = "160 word"
type_synonym script_id = h256
type_synonym block_height = u64
type_synonym block_timestamp = u64

datatype destination =
    AnyoneCanSpend
  | PublicKeyHash public_key_hash
  | PublicKey public_key
  | ScriptHash script_id
  | ClassicMultisig public_key_hash

section \<open>Numbers with a range\<close>

text \<open>\<open>PerThousand\<close> is built by its checked constructor only.\<close>

type_synonym u16 = "16 word"

datatype per_thousand = PerThousand (per_thousand_value: u16)

definition per_thousand_new :: "u16 \<Rightarrow> per_thousand option" where
  "per_thousand_new v = (if v \<le> 1000 then Some (PerThousand v) else None)"

datatype account_nonce = AccountNonce (nonce_value: u64)

definition nonce_increment :: "account_nonce \<Rightarrow> account_nonce option" where
  "nonce_increment n = map_option AccountNonce (checked_add_u (nonce_value n) 1)"

definition nonce_decrement :: "account_nonce \<Rightarrow> account_nonce option" where
  "nonce_decrement n = map_option AccountNonce (checked_sub_u (nonce_value n) 1)"

section \<open>Tokens\<close>

datatype token_total_supply = Fixed amount | Lockable | Unlimited

datatype is_token_freezable = NotFreezable | Freezable

datatype is_token_unfreezable = NotUnfreezable | Unfreezable

datatype is_token_frozen = NotFrozen is_token_freezable | Frozen is_token_unfreezable

record token_issuance_v1 =
  iss_token_ticker :: "u8 list"
  iss_number_of_decimals :: u8
  iss_metadata_uri :: "u8 list"
  iss_total_supply :: token_total_supply
  iss_authority :: destination
  iss_is_freezable :: is_token_freezable

datatype token_issuance = TokenIssuanceV1 token_issuance_v1

record nft_metadata =
  nft_creator :: "public_key option"
  nft_name :: "u8 list"
  nft_description :: "u8 list"
  nft_ticker :: "u8 list"
  nft_icon_uri :: "u8 list option"
  nft_additional_metadata_uri :: "u8 list option"
  nft_media_uri :: "u8 list option"
  nft_media_hash :: "u8 list"

datatype nft_issuance = NftIssuanceV0 nft_metadata

record token_transfer_v0 =
  transfer_token_id :: token_id
  transfer_amount :: amount

record token_issuance_v0 =
  v0_token_ticker :: "u8 list"
  v0_amount_to_issue :: amount
  v0_number_of_decimals :: u8
  v0_metadata_uri :: "u8 list"

datatype token_data_v0 =
    TokenTransfer token_transfer_v0
  | TokenIssuanceV0 token_issuance_v0
  | NftIssuance nft_metadata

section \<open>Values, orders, outputs\<close>

datatype output_value = Coin amount | TokenV0 token_data_v0 | TokenV1 token_id amount

definition coin_amount :: "output_value \<Rightarrow> amount option" where
  "coin_amount v = (case v of Coin a \<Rightarrow> Some a | TokenV0 _ \<Rightarrow> None | TokenV1 _ _ \<Rightarrow> None)"

definition output_amount :: "output_value \<Rightarrow> amount" where
  "output_amount v = (case v of
      Coin a \<Rightarrow> a
    | TokenV0 d \<Rightarrow> (case d of
          TokenTransfer t \<Rightarrow> transfer_amount t
        | TokenIssuanceV0 i \<Rightarrow> v0_amount_to_issue i
        | NftIssuance _ \<Rightarrow> 1)
    | TokenV1 _ a \<Rightarrow> a)"

definition token_v1_id :: "output_value \<Rightarrow> token_id option" where
  "token_v1_id v = (case v of Coin _ \<Rightarrow> None | TokenV0 _ \<Rightarrow> None | TokenV1 i _ \<Rightarrow> Some i)"

record chain_order_data =
  chain_conclude_key :: destination
  chain_ask :: output_value
  chain_give :: output_value

datatype output_time_lock =
    UntilHeight block_height
  | UntilTime block_timestamp
  | ForBlockCount u64
  | ForSeconds u64

record hashed_timelock_contract =
  secret_hash :: htlc_secret_hash
  spend_key :: destination
  refund_timelock :: output_time_lock
  refund_key :: destination

record stake_pool_data =
  sp_pledge :: amount
  sp_staker :: destination
  sp_vrf_public_key :: vrf_public_key
  sp_decommission_key :: destination
  sp_margin_ratio_per_thousand :: per_thousand
  sp_cost_per_block :: amount

datatype tx_output =
    Transfer output_value destination
  | LockThenTransfer output_value destination output_time_lock
  | Burn output_value
  | CreateStakePool pool_id stake_pool_data
  | ProduceBlockFromStake destination pool_id
  | CreateDelegationId destination pool_id
  | DelegateStaking amount delegation_id
  | IssueFungibleToken token_issuance
  | IssueNft token_id nft_issuance destination
  | DataDeposit "u8 list"
  | Htlc output_value hashed_timelock_contract
  | CreateOrder chain_order_data

datatype orders_version = OrdersV0 | OrdersV1

section \<open>Inputs\<close>

datatype outpoint_source_id =
    TransactionSource tx_id
  | BlockRewardSource gen_block_id

datatype utxo_outpoint = UtxoOutPoint (outpoint_source: outpoint_source_id) (output_index: u32)

datatype account_spending = DelegationBalance delegation_id amount

datatype account_command =
    MintTokens token_id amount
  | UnmintTokens token_id
  | LockTokenSupply token_id
  | FreezeToken token_id is_token_unfreezable
  | UnfreezeToken token_id
  | ChangeTokenAuthority token_id destination
  | ConcludeOrder order_id
  | FillOrder order_id amount destination
  | ChangeTokenMetadataUri token_id "u8 list"

datatype order_account_command =
    FillOrderV1 order_id amount
  | FreezeOrder order_id
  | ConcludeOrderV1 order_id

datatype account_outpoint = AccountOutPoint account_nonce account_spending

text \<open>What a nonce is kept for.\<close>

datatype account_type =
    DelegationAccount delegation_id
  | TokenAccount token_id
  | OrderAccount order_id

fun account_of_spending :: "account_spending \<Rightarrow> account_type" where
  "account_of_spending (DelegationBalance i _) = DelegationAccount i"

fun account_of_command :: "account_command \<Rightarrow> account_type" where
  "account_of_command (MintTokens i _) = TokenAccount i"
| "account_of_command (UnmintTokens i) = TokenAccount i"
| "account_of_command (LockTokenSupply i) = TokenAccount i"
| "account_of_command (FreezeToken i _) = TokenAccount i"
| "account_of_command (UnfreezeToken i) = TokenAccount i"
| "account_of_command (ChangeTokenAuthority i _) = TokenAccount i"
| "account_of_command (ChangeTokenMetadataUri i _) = TokenAccount i"
| "account_of_command (ConcludeOrder i) = OrderAccount i"
| "account_of_command (FillOrder i _ _) = OrderAccount i"

datatype tx_input =
    UtxoInput utxo_outpoint
  | AccountInput account_outpoint
  | AccountCommandInput account_nonce account_command
  | OrderAccountCommandInput order_account_command

section \<open>Transactions and block rewards\<close>

text \<open>
  The identifier of a transaction is the hash of its encoding; where an operation takes it, it is a
  parameter \<open>get_id\<close>. The witness of a block reward is not looked at by the components modelled here.
\<close>

record transaction =
  tx_flags :: "128 word"
  tx_inputs :: "tx_input list"
  tx_outputs :: "tx_output list"

definition is_replaceable :: "transaction \<Rightarrow> bool" where
  "is_replaceable tx \<longleftrightarrow> and (tx_flags tx) 1 \<noteq> 0"

datatype block_reward = BlockReward (reward_outputs: "tx_output list")

record block_reward_transactable =
  reward_tx_inputs :: "tx_input list option"
  reward_tx_outputs :: "tx_output list option"

section \<open>Orders of keys\<close>

text \<open>The derived orders: variants in their order of declaration, fields from left to right.\<close>

fun source_key :: "outpoint_source_id \<Rightarrow> nat \<times> h256" where
  "source_key (TransactionSource i) = (0, i)"
| "source_key (BlockRewardSource i) = (1, i)"

definition outpoint_key :: "utxo_outpoint \<Rightarrow> (nat \<times> h256) \<times> u32" where
  "outpoint_key o' = (source_key (outpoint_source o'), output_index o')"

lemma source_key_inject [simp]: "source_key a = source_key b \<longleftrightarrow> a = b"
  by (cases a; cases b) auto

lemma outpoint_key_inject [simp]: "outpoint_key a = outpoint_key b \<longleftrightarrow> a = b"
  by (cases a; cases b) (auto simp: outpoint_key_def)

instantiation outpoint_source_id :: linorder
begin

definition less_eq_outpoint_source_id :: "outpoint_source_id \<Rightarrow> outpoint_source_id \<Rightarrow> bool" where
  "less_eq_outpoint_source_id a b \<longleftrightarrow> source_key a \<le> source_key b"

definition less_outpoint_source_id :: "outpoint_source_id \<Rightarrow> outpoint_source_id \<Rightarrow> bool" where
  "less_outpoint_source_id a b \<longleftrightarrow> source_key a < source_key b"

instance
proof
  fix a b :: outpoint_source_id
  show "a \<le> b \<Longrightarrow> b \<le> a \<Longrightarrow> a = b"
    by (metis less_eq_outpoint_source_id_def order_antisym source_key_inject)
  show "a < b \<longleftrightarrow> a \<le> b \<and> \<not> b \<le> a"
    by (simp only: less_eq_outpoint_source_id_def less_outpoint_source_id_def less_le_not_le)
qed (auto simp: less_eq_outpoint_source_id_def)

end

instantiation utxo_outpoint :: linorder
begin

definition less_eq_utxo_outpoint :: "utxo_outpoint \<Rightarrow> utxo_outpoint \<Rightarrow> bool" where
  "less_eq_utxo_outpoint a b \<longleftrightarrow> outpoint_key a \<le> outpoint_key b"

definition less_utxo_outpoint :: "utxo_outpoint \<Rightarrow> utxo_outpoint \<Rightarrow> bool" where
  "less_utxo_outpoint a b \<longleftrightarrow> outpoint_key a < outpoint_key b"

instance
proof
  fix a b :: utxo_outpoint
  show "a \<le> b \<Longrightarrow> b \<le> a \<Longrightarrow> a = b"
    by (metis less_eq_utxo_outpoint_def order_antisym outpoint_key_inject)
  show "a < b \<longleftrightarrow> a \<le> b \<and> \<not> b \<le> a"
    by (simp only: less_eq_utxo_outpoint_def less_utxo_outpoint_def less_le_not_le)
qed (auto simp: less_eq_utxo_outpoint_def)

end

end
