(* ===== verification/Chain_Config.thy ===== *)
theory Chain_Config
  imports Chain_Types
begin

text \<open>
  The parameters of a chain (\<open>common/src/chain/config\<close>, \<open>common/src/chain/upgrades\<close>): block heights, the
  table of network upgrades and what is in force at a height, the fees and maturities that depend on it,
  the division of the chain into epochs and the emission schedule of coins. The build checks integer
  overflow in every profile, so an overflowing \<open>+\<close>, \<open>-\<close> or \<open>*\<close> is a panic; a computation that can panic
  and cannot fail otherwise has an option as its result, with \<open>None\<close> for the panic.
\<close>

section \<open>Block heights\<close>

definition next_height :: "block_height \<Rightarrow> block_height option" where
  "next_height h = checked_add_u h 1"

definition prev_height :: "block_height \<Rightarrow> block_height option" where
  "prev_height h = checked_sub_u h 1"

section \<open>Coins and tokens\<close>

datatype coin_or_token_id = CoinId | TokenId token_id

definition from_output_value :: "output_value \<Rightarrow> coin_or_token_id option" where
  "from_output_value v = (case v of
      Coin _ \<Rightarrow> Some CoinId
    | TokenV0 _ \<Rightarrow> None
    | TokenV1 i _ \<Rightarrow> Some (TokenId i))"

definition to_output_value :: "coin_or_token_id \<Rightarrow> amount \<Rightarrow> output_value" where
  "to_output_value c a = (case c of CoinId \<Rightarrow> Coin a | TokenId i \<Rightarrow> TokenV1 i a)"

text \<open>The derived order: coins first, then the tokens by identifier.\<close>

fun currency_key :: "coin_or_token_id \<Rightarrow> nat \<times> h256" where
  "currency_key CoinId = (0, 0)"
| "currency_key (TokenId i) = (1, i)"

lemma currency_key_inject [simp]: "currency_key a = currency_key b \<longleftrightarrow> a = b"
  by (cases a; cases b) auto

instantiation coin_or_token_id :: linorder
begin

definition less_eq_coin_or_token_id :: "coin_or_token_id \<Rightarrow> coin_or_token_id \<Rightarrow> bool" where
  "less_eq_coin_or_token_id a b \<longleftrightarrow> currency_key a \<le> currency_key b"

definition less_coin_or_token_id :: "coin_or_token_id \<Rightarrow> coin_or_token_id \<Rightarrow> bool" where
  "less_coin_or_token_id a b \<longleftrightarrow> currency_key a < currency_key b"

instance
proof
  fix a b :: coin_or_token_id
  show "a \<le> b \<Longrightarrow> b \<le> a \<Longrightarrow> a = b"
    by (metis less_eq_coin_or_token_id_def order_antisym currency_key_inject)
  show "a < b \<longleftrightarrow> a \<le> b \<and> \<not> b \<le> a"
    by (simp only: less_eq_coin_or_token_id_def less_coin_or_token_id_def less_le_not_le)
qed (auto simp: less_eq_coin_or_token_id_def)

end

text \<open>An amount of coins counted in atoms, \<open>10 ^ 11\<close> of them to the coin.\<close>

type_synonym coin_unit = amount

definition coin_decimals :: u8 where
  "coin_decimals = 11"

definition atoms_per_coin :: u128 where
  "atoms_per_coin = 10 ^ unat coin_decimals"

definition from_coins :: "u64 \<Rightarrow> coin_unit" where
  "from_coins n = ucast n * atoms_per_coin"

section \<open>Network upgrades\<close>

datatype 't net_upgrades = NetUpgrades (all_upgrades: "(block_height \<times> 't) list")

datatype net_upgrades_initialize_error = NoUpgrades | FirstUpgradeNotAtGenesis

definition initialize ::
  "(block_height \<times> 't::linorder) list \<Rightarrow> net_upgrades_initialize_error + 't net_upgrades" where
  "initialize upgrades = (let sorted = sort upgrades in
     case sorted of
       (height, _) # _ \<Rightarrow>
         if height = 0 then Ok (NetUpgrades sorted) else Err FirstUpgradeNotAtGenesis
     | [] \<Rightarrow> Err NoUpgrades)"

fun find_version ::
  "'t \<Rightarrow> (block_height \<times> 't) list \<Rightarrow> (block_height \<times> block_height) option" where
  "find_version version [] = None"
| "find_version version ((start_h, v) # rest) =
     (if v = version
      then Some (start_h, case rest of [] \<Rightarrow> - 1 | (end_h, _) # _ \<Rightarrow> end_h)
      else find_version version rest)"

definition height_range :: "'t net_upgrades \<Rightarrow> 't \<Rightarrow> (block_height \<times> block_height) option" where
  "height_range u version = find_version version (all_upgrades u)"

definition version_at_height :: "'t net_upgrades \<Rightarrow> block_height \<Rightarrow> (block_height \<times> 't) option" where
  "version_at_height u height =
     List.find (\<lambda>(upgrade_height, _). upgrade_height \<le> height) (rev (all_upgrades u))"

datatype token_issuance_version = TokenIssuanceVersionV0 | TokenIssuanceVersionV1
datatype reward_distribution_version = RewardDistributionV0 | RewardDistributionV1
datatype tokens_fee_version = TokensFeeV0 | TokensFeeV1
datatype data_deposit_fee_version = DataDepositFeeV0 | DataDepositFeeV1
datatype frozen_tokens_validation_version = FrozenTokensValidationV0 | FrozenTokensValidationV1
datatype token_id_generation_version = TokenIdGenerationV0 | TokenIdGenerationV1
datatype sighash_input_commitment_version = SighashInputCommitmentV0 | SighashInputCommitmentV1

record chainstate_upgrade =
  token_issuance_version :: token_issuance_version
  reward_distribution_version :: reward_distribution_version
  tokens_fee_version :: tokens_fee_version
  data_deposit_fee_version :: data_deposit_fee_version
  change_token_metadata_uri_activated :: bool
  frozen_tokens_validation_version :: frozen_tokens_validation_version
  htlc_activated :: bool
  orders_activated :: bool
  upgrade_orders_version :: orders_version
  staker_destination_update_forbidden :: bool
  token_id_generation_version :: token_id_generation_version
  sighash_input_commitment_version :: sighash_input_commitment_version

type_synonym compact = u32
type_synonym block_count = u64

datatype pos_consensus_version = PoSConsensusVersion u32

record pos_chain_config =
  target_limit :: u256
  spend_maturity_block_count :: block_count
  block_count_to_average_for_blocktime :: u64
  difficulty_change_limit :: per_thousand
  consensus_version :: pos_consensus_version

datatype consensus_upgrade =
    UpgradePoW compact
  | UpgradePoS "compact option" pos_chain_config
  | UpgradeIgnoreConsensus

datatype pow_status = PoWOngoing | PoWThreshold compact

datatype pos_status = PoSOngoing pos_chain_config | PoSThreshold "compact option" pos_chain_config

datatype required_consensus = RequirePoW pow_status | RequirePoS pos_status | RequireIgnoreConsensus

definition get_chain_config :: "pos_status \<Rightarrow> pos_chain_config" where
  "get_chain_config s = (case s of PoSOngoing config \<Rightarrow> config | PoSThreshold _ config \<Rightarrow> config)"

definition required_consensus_of :: "consensus_upgrade \<Rightarrow> required_consensus" where
  "required_consensus_of u = (case u of
      UpgradePoW initial_difficulty \<Rightarrow> RequirePoW (PoWThreshold initial_difficulty)
    | UpgradePoS initial_difficulty config \<Rightarrow> RequirePoS (PoSThreshold initial_difficulty config)
    | UpgradeIgnoreConsensus \<Rightarrow> RequireIgnoreConsensus)"

definition consensus_status ::
  "consensus_upgrade net_upgrades \<Rightarrow> block_height \<Rightarrow> required_consensus option" where
  "consensus_status u height = map_option (\<lambda>(last_upgrade_height, last_consensus_upgrade).
     case last_consensus_upgrade of
       UpgradePoW initial_difficulty \<Rightarrow>
         if last_upgrade_height < height then RequirePoW PoWOngoing
         else RequirePoW (PoWThreshold initial_difficulty)
     | UpgradePoS initial_difficulty config \<Rightarrow>
         if last_upgrade_height < height then RequirePoS (PoSOngoing config)
         else RequirePoS (PoSThreshold initial_difficulty config)
     | UpgradeIgnoreConsensus \<Rightarrow> RequireIgnoreConsensus)
   (version_at_height u height)"

section \<open>The chain configuration\<close>

text \<open>The fields the modelled code reads.\<close>

record chain_config =
  consensus_upgrades :: "consensus_upgrade net_upgrades"
  chainstate_upgrades :: "chainstate_upgrade net_upgrades"
  emission_schedule :: "block_height \<Rightarrow> coin_unit option"
  epoch_length :: u64
  sealed_epoch_distance_from_tip :: u64
  config_data_deposit_max_size :: "nat option"
  empty_consensus_reward_maturity_block_count :: block_count
  min_stake_pool_pledge :: amount
  max_block_size_from_std_scripts :: nat
  max_block_size_from_smart_contracts :: nat
  data_in_no_signature_witness_allowed :: bool
  data_in_no_signature_witness_max_size :: nat
  token_max_uri_len :: nat
  token_max_dec_count :: u8
  token_max_description_len :: nat
  token_max_name_len :: nat
  min_hash_len :: nat
  max_hash_len :: nat
  max_classic_multisig_public_keys_count :: nat

definition token_max_ticker_len :: nat where
  "token_max_ticker_len = 12"

definition upgrade_at :: "chain_config \<Rightarrow> block_height \<Rightarrow> chainstate_upgrade option" where
  "upgrade_at cfg height = map_option snd (version_at_height (chainstate_upgrades cfg) height)"

definition data_deposit_max_size :: "chain_config \<Rightarrow> block_height \<Rightarrow> nat option" where
  "data_deposit_max_size cfg height = (case config_data_deposit_max_size cfg of
      Some n \<Rightarrow> Some n
    | None \<Rightarrow> map_option (\<lambda>u. case data_deposit_fee_version u of
          DataDepositFeeV0 \<Rightarrow> 128 | DataDepositFeeV1 \<Rightarrow> 384) (upgrade_at cfg height))"

definition data_deposit_fee :: "chain_config \<Rightarrow> block_height \<Rightarrow> amount option" where
  "data_deposit_fee cfg height = map_option (\<lambda>u. case data_deposit_fee_version u of
      DataDepositFeeV0 \<Rightarrow> from_coins 100 | DataDepositFeeV1 \<Rightarrow> from_coins 20) (upgrade_at cfg height)"

definition fungible_token_issuance_fee :: amount where
  "fungible_token_issuance_fee = from_coins 100"

definition nft_issuance_fee :: "chain_config \<Rightarrow> block_height \<Rightarrow> amount option" where
  "nft_issuance_fee cfg height = map_option (\<lambda>u. case tokens_fee_version u of
      TokensFeeV0 \<Rightarrow> from_coins 100 | TokensFeeV1 \<Rightarrow> from_coins 5) (upgrade_at cfg height)"

definition token_supply_change_fee :: "chain_config \<Rightarrow> block_height \<Rightarrow> amount option" where
  "token_supply_change_fee cfg height = map_option (\<lambda>u. case tokens_fee_version u of
      TokensFeeV0 \<Rightarrow> from_coins 100 | TokensFeeV1 \<Rightarrow> from_coins 50) (upgrade_at cfg height)"

definition token_freeze_fee :: "chain_config \<Rightarrow> block_height \<Rightarrow> amount option" where
  "token_freeze_fee cfg height = map_option (\<lambda>u. case tokens_fee_version u of
      TokensFeeV0 \<Rightarrow> from_coins 100 | TokensFeeV1 \<Rightarrow> from_coins 50) (upgrade_at cfg height)"

definition token_change_authority_fee :: "chain_config \<Rightarrow> block_height \<Rightarrow> amount option" where
  "token_change_authority_fee cfg height = map_option (\<lambda>u. case tokens_fee_version u of
      TokensFeeV0 \<Rightarrow> from_coins 100 | TokensFeeV1 \<Rightarrow> from_coins 20) (upgrade_at cfg height)"

definition token_change_metadata_uri_fee :: amount where
  "token_change_metadata_uri_fee = from_coins 20"

definition staking_pool_spend_maturity_block_count ::
  "chain_config \<Rightarrow> block_height \<Rightarrow> block_count option" where
  "staking_pool_spend_maturity_block_count cfg height = map_option (\<lambda>status. case status of
      RequireIgnoreConsensus \<Rightarrow> empty_consensus_reward_maturity_block_count cfg
    | RequirePoW _ \<Rightarrow> empty_consensus_reward_maturity_block_count cfg
    | RequirePoS s \<Rightarrow> spend_maturity_block_count (get_chain_config s))
   (consensus_status (consensus_upgrades cfg) height)"

section \<open>Epochs\<close>

definition epoch_index_from_height :: "chain_config \<Rightarrow> block_height \<Rightarrow> u64" where
  "epoch_index_from_height cfg height = height div epoch_length cfg"

definition is_last_block_in_epoch :: "chain_config \<Rightarrow> block_height \<Rightarrow> bool option" where
  "is_last_block_in_epoch cfg height =
     map_option (\<lambda>next. next mod epoch_length cfg = 0) (next_height height)"

definition is_due_for_epoch_seal :: "chain_config \<Rightarrow> block_height \<Rightarrow> bool option" where
  "is_due_for_epoch_seal cfg height =
     map_option (\<lambda>last. last \<and> sealed_epoch_distance_from_tip cfg \<le> epoch_index_from_height cfg height)
       (is_last_block_in_epoch cfg height)"

definition sealed_epoch_index :: "chain_config \<Rightarrow> block_height \<Rightarrow> u64 option option" where
  "sealed_epoch_index cfg height =
     (let current = epoch_index_from_height cfg height; distance = sealed_epoch_distance_from_tip cfg in
      case is_last_block_in_epoch cfg height of
        None \<Rightarrow> None
      | Some True \<Rightarrow> Some (checked_sub_u current distance)
      | Some False \<Rightarrow> map_option (checked_sub_u current) (checked_add_u distance 1))"

section \<open>Emission of coins\<close>

definition subsidy :: "(block_height \<Rightarrow> coin_unit option) \<Rightarrow> block_height \<Rightarrow> coin_unit option" where
  "subsidy amount_at ht = Option.bind (prev_height ht) (\<lambda>prev_ht.
     Option.bind (amount_at ht) (\<lambda>a. Option.bind (amount_at prev_ht) (\<lambda>b. amount_sub a b)))"

definition block_subsidy_at_height :: "chain_config \<Rightarrow> block_height \<Rightarrow> amount option" where
  "block_subsidy_at_height cfg height = subsidy (emission_schedule cfg) height"

record emission_schedule_tabular =
  initial_supply :: coin_unit
  initial_subsidy :: coin_unit
  periods :: "(block_height, coin_unit) btree_map"

definition subsidy_periods :: "emission_schedule_tabular \<Rightarrow> (block_height \<times> coin_unit) list" where
  "subsidy_periods t = (0, initial_subsidy t) # btree_iter (periods t)"

definition tail_emission :: "emission_schedule_tabular \<Rightarrow> block_height \<times> coin_unit" where
  "tail_emission t = (case rev (btree_iter (periods t)) of
      [] \<Rightarrow> (0, initial_subsidy t)
    | entry # _ \<Rightarrow> entry)"

text \<open>
  The table of \<open>schedule\<close>: for every period the supply when it starts and its subsidy, with the seed
  carried along by \<open>scan\<close>.
\<close>

fun schedule_table :: "coin_unit \<Rightarrow> coin_unit \<Rightarrow> block_height \<Rightarrow> (block_height \<times> coin_unit) list \<Rightarrow>
    (block_height \<times> coin_unit \<times> coin_unit) list option" where
  "schedule_table supply old_subsidy start_block [] = Some []"
| "schedule_table supply old_subsidy start_block ((end_block, new_subsidy) # rest) =
     Option.bind (checked_sub_u end_block start_block) (\<lambda>n_blocks.
     Option.bind (amount_mul old_subsidy (ucast n_blocks)) (\<lambda>cur_period.
     Option.bind (amount_add supply cur_period) (\<lambda>supply'.
     map_option ((#) (end_block, supply', new_subsidy))
       (schedule_table supply' new_subsidy end_block rest))))"

text \<open>\<open>table.range(0..height).next_back()\<close>: the last entry whose key is below the height.\<close>

definition last_entry_below :: "block_height \<Rightarrow> (block_height \<times> 'a) list \<Rightarrow> (block_height \<times> 'a) option" where
  "last_entry_below height table = List.find (\<lambda>(start, _). start < height) (rev table)"

definition schedule_at :: "emission_schedule_tabular \<Rightarrow> (block_height \<times> coin_unit \<times> coin_unit) list \<Rightarrow>
    block_height \<Rightarrow> coin_unit option" where
  "schedule_at t table height =
     (let (start, start_supply, subsidy) =
        (case last_entry_below height table of
           Some entry \<Rightarrow> entry
         | None \<Rightarrow> (0, initial_supply t, initial_subsidy t)) in
      if start \<le> height then
        Option.bind (checked_sub_u height start) (\<lambda>n_blocks.
        Option.bind (amount_mul subsidy (ucast n_blocks)) (\<lambda>period_subsidy.
        amount_add start_supply period_subsidy))
      else None)"

definition schedule :: "emission_schedule_tabular \<Rightarrow> (block_height \<Rightarrow> coin_unit option) option" where
  "schedule t = map_option (schedule_at t)
     (schedule_table (initial_supply t) (initial_subsidy t) 0 (btree_iter (periods t)))"

definition final_supply :: "emission_schedule_tabular \<Rightarrow> coin_unit option option" where
  "final_supply t = (case tail_emission t of (tail_block, tail_subsidy) \<Rightarrow>
     if tail_subsidy = 0
     then Option.bind (schedule t) (\<lambda>amount_at. map_option Some (amount_at tail_block))
     else Some None)"

definition mainnet_schedule_table :: "u64 \<Rightarrow> emission_schedule_tabular option" where
  "mainnet_schedule_table block_interval_secs =
     Option.bind (checked_div_u (365 * 24 * 60 * 60) block_interval_secs) (\<lambda>blocks_per_year.
     map_option (\<lambda>years. \<lparr> initial_supply = from_coins 400000000, initial_subsidy = from_coins 202,
         periods = btree_of_list (zip years
           (map from_coins [151, 113, 85, 64, 48, 36, 27, 20, 15, 0])) \<rparr>)
       (those (map (checked_mul_u blocks_per_year) [1, 2, 3, 4, 5, 6, 7, 8, 9, 10])))"

section \<open>Upgrades in force\<close>

definition upgrades_ok :: "'t net_upgrades \<Rightarrow> bool" where
  "upgrades_ok u \<longleftrightarrow> sorted (map fst (all_upgrades u)) \<and> 0 \<in> fst ` set (all_upgrades u)"

lemma initialize_ok: "initialize upgrades = Ok u \<Longrightarrow> upgrades_ok u \<and> all_upgrades u = sort upgrades"
  using sorted_sort [of upgrades, THEN sort_pairs_fst]
  by (auto simp: initialize_def upgrades_ok_def Let_def simp del: sorted_sort split: list.splits if_splits)

lemma find_rev_sorted:
  assumes "sorted (map fst xs)" and "k \<in> fst ` set xs" and "k \<le> h"
  obtains p v where "List.find (\<lambda>(p, _). p \<le> h) (rev xs) = Some (p, v)"
    and "(p, v) \<in> set xs" and "p \<le> h" and "\<forall>(q, w)\<in>set xs. q \<le> h \<longrightarrow> q \<le> p"
proof -
  have "\<exists>p v. List.find (\<lambda>(p, _). p \<le> h) (rev xs) = Some (p, v) \<and> (p, v) \<in> set xs \<and> p \<le> h \<and>
      (\<forall>(q, w)\<in>set xs. q \<le> h \<longrightarrow> q \<le> p)"
    using assms
  proof (induction xs rule: rev_induct)
    case (snoc x xs)
    obtain q w where x: "x = (q, w)" by (cases x)
    show ?case
    proof (cases "q \<le> h")
      case True
      with snoc.prems(1) x show ?thesis by (auto simp: sorted_append)
    next
      case False
      with snoc.prems x have "sorted (map fst xs)" "k \<in> fst ` set xs" by (auto simp: sorted_append)
      from snoc.IH [OF this snoc.prems(3)] False x show ?thesis by auto
    qed
  qed simp
  then show thesis by (auto intro: that)
qed

lemma version_at_height_ok:
  assumes "upgrades_ok u"
  obtains p v where "version_at_height u h = Some (p, v)" and "(p, v) \<in> set (all_upgrades u)"
    and "p \<le> h" and "\<forall>(q, w)\<in>set (all_upgrades u). q \<le> h \<longrightarrow> q \<le> p"
  using assms unfolding upgrades_ok_def version_at_height_def
  by (elim conjE) (erule (1) find_rev_sorted [where h = h], auto)

section \<open>The supply of an emission schedule\<close>

definition subsidy_in :: "coin_unit \<Rightarrow> (block_height \<times> coin_unit) list \<Rightarrow> block_height \<Rightarrow> coin_unit" where
  "subsidy_in initial ps h = (case last_entry_below h ps of Some (_, s) \<Rightarrow> s | None \<Rightarrow> initial)"

definition block_subsidy :: "emission_schedule_tabular \<Rightarrow> block_height \<Rightarrow> coin_unit" where
  "block_subsidy t = subsidy_in (initial_subsidy t) (btree_iter (periods t))"

definition emitted :: "emission_schedule_tabular \<Rightarrow> block_height \<Rightarrow> int" where
  "emitted t h = uint (initial_supply t) + (\<Sum>i\<in>{1..unat h}. uint (block_subsidy t (of_nat i)))"

lemma last_entry_below_Cons:
  "last_entry_below h ((p, x) # xs) = (case last_entry_below h xs of
      Some e \<Rightarrow> Some e | None \<Rightarrow> if p < h then Some (p, x) else None)"
  by (auto simp: last_entry_below_def find_append split: option.splits)

lemma last_entry_below_None: "\<forall>k\<in>fst ` set xs. h \<le> k \<Longrightarrow> last_entry_below h xs = None"
  by (auto simp: last_entry_below_def find_None_iff not_less)

lemma schedule_table_keys: "schedule_table s b p ps = Some tab \<Longrightarrow> map fst tab = map fst ps"
  by (induction ps arbitrary: s b p tab) (auto simp: bind_eq_Some_conv)

definition supply_from :: "coin_unit \<Rightarrow> coin_unit \<Rightarrow> block_height \<Rightarrow>
    (block_height \<times> coin_unit \<times> coin_unit) list \<Rightarrow> block_height \<Rightarrow> int" where
  "supply_from s b p tab h = (case last_entry_below h tab of
      Some (q, t, c) \<Rightarrow> uint t + uint c * (uint h - uint q)
    | None \<Rightarrow> uint s + uint b * (uint h - uint p))"

lemma const_sum_upto:
  assumes "p \<le> h" and "\<And>i. p < i \<Longrightarrow> i \<le> h \<Longrightarrow> f i = (c::int)"
  shows "(\<Sum>i\<in>{p + 1..h}. f i) = c * (int h - int p)"
proof -
  have "(\<Sum>i\<in>{p + 1..h}. f i) = (\<Sum>i\<in>{p + 1..h}. c)" using assms(2) by (intro sum.cong) auto
  with assms(1) show ?thesis by (simp add: algebra_simps)
qed

lemma split_sum_upto: "p \<le> q \<Longrightarrow> q \<le> h \<Longrightarrow>
    (\<Sum>i\<in>{p + 1..h}. f i) = (\<Sum>i\<in>{p + 1..q}. f i) + (\<Sum>i\<in>{q + 1..h}. f i)"
  for f :: "nat \<Rightarrow> int"
  by (subst sum.union_disjoint [symmetric]) (auto intro!: sum.cong)

lemma schedule_table_supply:
  assumes "schedule_table s b p ps = Some tab" and "sorted (map fst ps)" and "\<forall>k\<in>fst ` set ps. p \<le> k" and "p \<le> h"
  shows "supply_from s b p tab h = uint s + (\<Sum>i\<in>{unat p + 1..unat h}. uint (subsidy_in b ps (of_nat i)))"
  using assms
proof (induction ps arbitrary: s b p tab)
  case Nil
  have "(\<Sum>i\<in>{unat p + 1..unat h}. uint (subsidy_in b [] (of_nat i))) = uint b * (int (unat h) - int (unat p))"
    using Nil.prems(4) by (intro const_sum_upto) (auto simp: subsidy_in_def last_entry_below_def word_le_nat_alt)
  with Nil.prems show ?case by (simp add: supply_from_def last_entry_below_def)
next
  case (Cons e ps)
  obtain q c where e: "e = (q, c)" by (cases e)
  from Cons.prems(1) e obtain n cur s' tab' where tab: "checked_sub_u q p = Some n"
      "amount_mul b (ucast n) = Some cur" "amount_add s cur = Some s'"
      "schedule_table s' c q ps = Some tab'" "tab = (q, s', c) # tab'"
    by (auto simp: bind_eq_Some_conv)
  have "uint (ucast n :: u128) = uint n" by (simp add: uint_up_ucast is_up)
  with tab(1-3) have s': "uint s' = uint s + uint b * (uint q - uint p)"
    by (simp add: checked_simps amount_mul_def amount_add_def)
  have q: "p \<le> q" "sorted (map fst ps)" "\<forall>k\<in>fst ` set ps. q \<le> k"
    using Cons.prems e by auto
  have early: "subsidy_in b (e # ps) (of_nat i) = b" if "i \<le> unat q" for i
  proof -
    have "(of_nat i :: u64) \<le> q"
      using that by (metis le_unat_uoi word_le_nat_alt)
    with q(3) have "last_entry_below (of_nat i) (e # ps) = None"
      by (intro last_entry_below_None) (auto simp: e)
    then show ?thesis by (simp add: subsidy_in_def)
  qed
  show ?case
  proof (cases "q < h")
    case True
    have "supply_from s b p tab h = supply_from s' c q tab' h"
      using True by (auto simp: supply_from_def tab(5) last_entry_below_Cons split: option.splits)
    also have "\<dots> = uint s' + (\<Sum>i\<in>{unat q + 1..unat h}. uint (subsidy_in c ps (of_nat i)))"
      using Cons.IH [OF tab(4) q(2,3)] True by simp
    also have "(\<Sum>i\<in>{unat q + 1..unat h}. uint (subsidy_in c ps (of_nat i))) =
        (\<Sum>i\<in>{unat q + 1..unat h}. uint (subsidy_in b (e # ps) (of_nat i)))"
    proof (rule sum.cong)
      fix i assume "i \<in> {unat q + 1..unat h}"
      then have "unat (of_nat i :: u64) = i" and "unat q < i"
        by (auto intro: le_unat_uoi)
      then have "q < (of_nat i :: u64)" by (simp add: word_less_nat_alt)
      then show "uint (subsidy_in c ps (of_nat i)) = uint (subsidy_in b (e # ps) (of_nat i))"
        by (simp add: subsidy_in_def e last_entry_below_Cons split: option.split)
    qed simp
    also have "uint s' = uint s + (\<Sum>i\<in>{unat p + 1..unat q}. uint (subsidy_in b (e # ps) (of_nat i)))"
      unfolding s' using q(1)
      by (subst const_sum_upto [where c = "uint b"]) (auto simp: early word_le_nat_alt)
    finally show ?thesis
      using split_sum_upto [of "unat p" "unat q" "unat h" "\<lambda>i. uint (subsidy_in b (e # ps) (of_nat i))"]
        q(1) True unfolding word_le_nat_alt word_less_nat_alt by linarith
  next
    case False
    have "set (map fst tab) = insert q (fst ` set ps)"
      unfolding schedule_table_keys [OF Cons.prems(1)] by (simp add: e)
    with False q(3) have "last_entry_below h tab = None"
      by (intro last_entry_below_None) (auto simp: not_less intro: order_trans)
    moreover have "(\<Sum>i\<in>{unat p + 1..unat h}. uint (subsidy_in b (e # ps) (of_nat i))) =
        uint b * (int (unat h) - int (unat p))"
      using Cons.prems(4) False unfolding word_le_nat_alt word_less_nat_alt
      by (intro const_sum_upto) (simp_all add: early)
    ultimately show ?thesis by (simp add: supply_from_def)
  qed
qed

lemma linear_supply:
  fixes h q :: u64
  assumes "q \<le> h"
  shows "Option.bind (checked_sub_u h q) (\<lambda>n. Option.bind (amount_mul c (ucast n)) (amount_add s)) = Some a \<longleftrightarrow>
    uint a = uint s + uint c * (uint h - uint q)"
proof -
  define n where "n = h - q"
  have n: "checked_sub_u h q = Some n" "uint n = uint h - uint q"
    using assms by (simp_all add: checked_sub_u_def n_def uint_minus_simple_alt)
  then have cast: "uint (ucast n :: u128) = uint h - uint q" by (simp add: uint_up_ucast is_up)
  have "uint a = uint s + uint c * (uint h - uint q) \<Longrightarrow>
      \<exists>m::u128. uint m = uint c * (uint h - uint q)"
    using assms by (intro int_below_word [of _ a]) (simp_all add: word_le_def)
  then show ?thesis
    unfolding n(1) bind.simps using cast
    by (auto simp: bind_eq_Some_conv amount_mul_def amount_add_def checked_simps) metis
qed

lemma schedule_at_supply:
  "schedule_at t tab h = Some a \<longleftrightarrow> uint a = supply_from (initial_supply t) (initial_subsidy t) 0 tab h"
proof (cases "last_entry_below h tab")
  case None
  then show ?thesis
    by (simp add: schedule_at_def supply_from_def linear_supply)
next
  case (Some e)
  then obtain q s c where e: "e = (q, s, c)" by (cases e)
  from Some e have "q < h" by (auto simp: last_entry_below_def find_Some_iff)
  with Some e show ?thesis
    by (simp add: schedule_at_def supply_from_def linear_supply less_imp_le)
qed

lemma schedule_emitted: "schedule t = Some amount_at \<Longrightarrow> amount_at h = Some a \<longleftrightarrow> uint a = emitted t h"
  using schedule_table_supply [of "initial_supply t" "initial_subsidy t" 0 "btree_iter (periods t)" _ h]
  by (auto simp: schedule_def schedule_at_supply emitted_def block_subsidy_def)

lemma emitted_step: "prev_height h = Some p \<Longrightarrow> emitted t h = emitted t p + uint (block_subsidy t h)"
proof -
  assume "prev_height h = Some p"
  then have "uint p = uint h - 1" by (simp add: prev_height_def checked_simps)
  then have "int (unat h) = int (unat p) + 1" by (simp only: uint_nat)
  then have "unat h = Suc (unat p)" by linarith
  moreover from this have "of_nat (Suc (unat p)) = h" by (metis of_nat_unat ucast_id)
  ultimately show ?thesis by (simp add: emitted_def del: of_nat_Suc)
qed

lemma emitted_mono: "p \<le> h \<Longrightarrow> emitted t p \<le> emitted t h"
  by (auto simp: emitted_def word_le_nat_alt intro!: sum_mono2)

lemma subsidy_after_tail: "fst (tail_emission t) < h \<Longrightarrow> block_subsidy t h = snd (tail_emission t)"
  by (auto simp: tail_emission_def block_subsidy_def subsidy_in_def last_entry_below_def split: list.splits)

lemma emitted_after_tail:
  assumes "tail_emission t = (p, 0)" and "p \<le> h"
  shows "emitted t h = emitted t p"
proof -
  have "block_subsidy t (of_nat i) = 0" if "i \<in> {unat p + 1..unat h}" for i
  proof -
    from that have "unat (of_nat i :: u64) = i" and "unat p < i" by (auto intro: le_unat_uoi)
    then have "p < of_nat i" by (simp add: word_less_nat_alt)
    with subsidy_after_tail [of t] assms(1) show ?thesis by simp
  qed
  then show ?thesis
    using split_sum_upto [of 0 "unat p" "unat h" "\<lambda>i. uint (block_subsidy t (of_nat i))"] assms(2)
    by (simp add: emitted_def word_le_nat_alt)
qed

lemma emitted_cap: "tail_emission t = (p, 0) \<Longrightarrow> emitted t h \<le> emitted t p"
  using emitted_after_tail [of t p h] emitted_mono [of h p t] by (cases "p \<le> h") auto

lemma final_supply_Some:
  assumes "final_supply t = Some (Some s)" and "schedule t = Some amount_at"
  shows "\<exists>a. amount_at h = Some a \<and> a \<le> s" and "snd (tail_emission t) = 0"
    and "fst (tail_emission t) \<le> h \<Longrightarrow> amount_at h = Some s"
proof -
  obtain p c where p: "tail_emission t = (p, c)" by (cases "tail_emission t")
  with assms have c: "c = 0" and s: "amount_at p = Some s"
    by (auto simp: final_supply_def split: if_splits)
  note em = schedule_emitted [OF assms(2)]
  have s: "uint s = emitted t p" using s em by simp
  have "0 \<le> emitted t h" by (auto simp: emitted_def intro!: add_nonneg_nonneg sum_nonneg)
  moreover have le: "emitted t h \<le> uint s" using emitted_cap [of t p h] p c s by simp
  ultimately obtain a :: u128 where "uint a = emitted t h" using int_below_word [of "emitted t h" s] by blast
  with em le show "\<exists>a. amount_at h = Some a \<and> a \<le> s" by (auto simp: word_le_def)
  show "snd (tail_emission t) = 0" using p c by simp
  show "fst (tail_emission t) \<le> h \<Longrightarrow> amount_at h = Some s"
    using p c s emitted_after_tail [of t p h] by (simp add: em)
qed

section \<open>Sealed epochs\<close>

lemma div_next:
  fixes n e :: nat
  assumes "0 < e"
  shows "Suc n mod e = 0 \<Longrightarrow> Suc n div e = Suc (n div e)" and "Suc n mod e \<noteq> 0 \<Longrightarrow> Suc n div e = n div e"
  using assms by (auto simp: div_Suc mod_Suc split: if_splits)

lemma next_height_Some: "next_height h = Some n \<longleftrightarrow> unat n = Suc (unat h)"
  unfolding next_height_def checked_add_u_Some uint_nat unat_1 by (rule iffI; linarith)

lemma sealed_epoch_index_eq:
  assumes "next_height h = Some n" and "epoch_length cfg \<noteq> 0"
    and "checked_add_u (sealed_epoch_distance_from_tip cfg) 1 = Some d"
  shows "sealed_epoch_index cfg h = Some (checked_sub_u (n div epoch_length cfg) d)"
    and "is_due_for_epoch_seal cfg h =
      Some (n mod epoch_length cfg = 0 \<and> d \<le> n div epoch_length cfg)"
proof -
  define e where "e = unat (epoch_length cfg)"
  have e: "0 < e" using assms(2) by (simp add: e_def unat_gt_0)
  have n: "unat n = Suc (unat h)" using assms(1) by (simp add: next_height_Some)
  have d: "unat d = Suc (unat (sealed_epoch_distance_from_tip cfg))"
    using assms(3) unfolding next_height_def [symmetric] next_height_Some .
  have last: "is_last_block_in_epoch cfg h = Some (n mod epoch_length cfg = 0)"
    by (simp add: is_last_block_in_epoch_def assms(1))
  have mod: "n mod epoch_length cfg = 0 \<longleftrightarrow> Suc (unat h) mod e = 0"
    by (simp add: word_unat_eq_iff unat_mod_distrib n e_def)
  show "sealed_epoch_index cfg h = Some (checked_sub_u (n div epoch_length cfg) d)"
    using div_next [OF e, of "unat h"] mod d n
    by (auto simp: sealed_epoch_index_def epoch_index_from_height_def last assms(3) unat_div_distrib
        e_def [symmetric] checked_sub_u_nat split: bool.split)
  show "is_due_for_epoch_seal cfg h = Some (n mod epoch_length cfg = 0 \<and> d \<le> n div epoch_length cfg)"
    using div_next [OF e, of "unat h"] mod d n
    by (auto simp: is_due_for_epoch_seal_def epoch_index_from_height_def last unat_div_distrib
        e_def [symmetric] word_le_nat_alt)
qed

section \<open>Properties\<close>

text \<open>
  C31: The supply that \<open>schedule\<close> computes from its table of periods is the initial supply plus the
  subsidy of every block up to the height, where a block has the subsidy of the last period that starts
  below it; it panics exactly where that sum exceeds 128 bits, and \<open>subsidy\<close> returns the subsidy of
  the block.
\<close>
theorem emission_is_sum_of_subsidies:
  assumes "schedule t = Some amount_at"
  shows "(amount_at h = Some a \<longleftrightarrow> uint a =
      uint (initial_supply t) + (\<Sum>i\<in>{1..unat h}. uint (block_subsidy t (of_nat i)))) \<and>
    (amount_at h = Some a \<longrightarrow> 0 < h \<longrightarrow> subsidy amount_at h = Some (block_subsidy t h))"
proof (intro conjI impI)
  note em = schedule_emitted [OF assms]
  show "amount_at h = Some a \<longleftrightarrow> uint a =
      uint (initial_supply t) + (\<Sum>i\<in>{1..unat h}. uint (block_subsidy t (of_nat i)))"
    by (simp add: em emitted_def)
  assume a: "amount_at h = Some a" "0 < h"
  then have "prev_height h = Some (h - 1)"
    by (simp add: prev_height_def checked_sub_u_def) (metis word_gt_0 word_less_1 not_le)
  note step = emitted_step [OF this, of t]
  moreover have "0 \<le> emitted t (h - 1)" by (auto simp: emitted_def intro!: add_nonneg_nonneg sum_nonneg)
  ultimately obtain b :: amount where b: "uint b = emitted t (h - 1)"
    using int_below_word [of "emitted t (h - 1)" a] a by (auto simp: em)
  with step a \<open>prev_height h = Some (h - 1)\<close>
  show "subsidy amount_at h = Some (block_subsidy t h)"
    by (simp add: subsidy_def em amount_sub_def bind_eq_Some_conv checked_sub_u_Some)
      (metis add_diff_cancel_left')
qed

definition sample_emission :: emission_schedule_tabular where
  "sample_emission = \<lparr> initial_supply = 1000, initial_subsidy = 1, periods = btree_of_list [(500, 0)] \<rparr>"

lemma sample_emission_schedule:
  "schedule sample_emission = Some (schedule_at sample_emission [(500, 1500, 0)])"
  by code_simp

theorem emission_is_sum_of_subsidies_witness:
  "schedule_at sample_emission [(500, 1500, 0)] 600 = Some 1500 \<and>
   subsidy (schedule_at sample_emission [(500, 1500, 0)]) 600 = Some (block_subsidy sample_emission 600)"
proof -
  have "schedule_at sample_emission [(500, 1500, 0)] 600 = Some 1500" by code_simp
  with emission_is_sum_of_subsidies [OF sample_emission_schedule, of 600 1500] show ?thesis by simp
qed

text \<open>
  A schedule that has a final supply never emits more: at every height the supply is defined and at
  most the final one, and from the start of the last period on it is the final one.
\<close>
theorem final_supply_caps_emission:
  assumes "final_supply t = Some (Some s)" and "schedule t = Some amount_at"
  shows "(\<exists>a. amount_at h = Some a \<and> a \<le> s) \<and>
    (fst (tail_emission t) \<le> h \<longrightarrow> amount_at h = Some s)"
  using final_supply_Some [OF assms] by blast

lemma mainnet_evaluates: "Option.bind (mainnet_schedule_table 120) final_supply = Some (Some (from_coins 599990800))"
  by code_simp

theorem final_supply_caps_emission_witness:
  "\<exists>t amount_at. mainnet_schedule_table 120 = Some t \<and> schedule t = Some amount_at \<and>
     (\<forall>h. \<exists>a. amount_at h = Some a \<and> a \<le> from_coins 599990800)"
proof -
  obtain t where t: "mainnet_schedule_table 120 = Some t" "final_supply t = Some (Some (from_coins 599990800))"
    using mainnet_evaluates by (auto simp: bind_eq_Some_conv)
  then obtain f where "schedule t = Some f"
    by (auto simp: final_supply_def bind_eq_Some_conv split: prod.splits if_splits)
  with t final_supply_caps_emission [OF t(2) this] show ?thesis by blast
qed

text \<open>
  A table of upgrades accepted by \<open>initialize\<close> has a version at every height: the one of the given
  upgrades that starts last among those that have started, whatever the order they were given in.
\<close>
theorem version_at_height_is_latest:
  assumes "initialize upgrades = Ok u"
  shows "\<exists>p v. version_at_height u h = Some (p, v) \<and> (p, v) \<in> set upgrades \<and> p \<le> h \<and>
    (\<forall>(q, w)\<in>set upgrades. q \<le> h \<longrightarrow> q \<le> p)"
proof -
  from initialize_ok [OF assms] have "upgrades_ok u" and "set (all_upgrades u) = set upgrades" by simp_all
  from version_at_height_ok [OF this(1), of h, unfolded this(2)] show ?thesis by blast
qed

theorem version_at_height_is_latest_witness:
  "\<exists>u p v. initialize [(80000, 3), (0, 0 :: nat), (3500, 2), (1, 1)] = Ok u \<and>
     version_at_height u 5000 = Some (p, v) \<and> p \<le> 5000 \<and> 3500 \<le> p"
proof -
  have "initialize [(80000, 3), (0, 0 :: nat), (3500, 2), (1, 1)] =
      Ok (NetUpgrades [(0, 0), (1, 1), (3500, 2), (80000, 3)])" by code_simp
  note ok = this version_at_height_is_latest [OF this, of 5000]
  from ok(2) obtain p v where "version_at_height (NetUpgrades [(0, 0), (1, 1), (3500, 2), (80000, 3)]) 5000 =
      Some (p, v :: nat)" "p \<le> 5000" "3500 \<le> p" by auto
  with ok(1) show ?thesis by blast
qed

section \<open>A sample configuration\<close>

text \<open>Every upgrade is active from the start, and the limits are small.\<close>

definition sample_config :: chain_config where
  "sample_config = \<lparr>
     consensus_upgrades = NetUpgrades [(0, UpgradePoS None \<lparr> target_limit = 1, spend_maturity_block_count = 2000,
       block_count_to_average_for_blocktime = 100, difficulty_change_limit = PerThousand 1,
       consensus_version = PoSConsensusVersion 1 \<rparr>)],
     chainstate_upgrades = NetUpgrades [(0, \<lparr> token_issuance_version = TokenIssuanceVersionV1,
       reward_distribution_version = RewardDistributionV1, tokens_fee_version = TokensFeeV1,
       data_deposit_fee_version = DataDepositFeeV1, change_token_metadata_uri_activated = True,
       frozen_tokens_validation_version = FrozenTokensValidationV1, htlc_activated = True, orders_activated = True,
       upgrade_orders_version = OrdersV1, staker_destination_update_forbidden = True,
       token_id_generation_version = TokenIdGenerationV1,
       sighash_input_commitment_version = SighashInputCommitmentV1 \<rparr>)],
     emission_schedule = (\<lambda>_. Some 0), epoch_length = 5, sealed_epoch_distance_from_tip = 2,
     config_data_deposit_max_size = None, empty_consensus_reward_maturity_block_count = 0,
     min_stake_pool_pledge = 40, max_block_size_from_std_scripts = 50,
     max_block_size_from_smart_contracts = 50, data_in_no_signature_witness_allowed = False,
     data_in_no_signature_witness_max_size = 0, token_max_uri_len = 20, token_max_dec_count = 18,
     token_max_description_len = 20, token_max_name_len = 10, min_hash_len = 4, max_hash_len = 32,
     max_classic_multisig_public_keys_count = 32 \<rparr>"

end
