(* ===== verification/Accounting.thy ===== *)
theory Accounting
  imports Amounts
begin

text \<open>
  The \<open>accounting\<close> crate: deltas of balances and of data, how deltas are combined with each other and
  with the state below them, the undo of a merge, and the undo records of a block. A collection of
  deltas is an ordered map; a method with \<open>&mut self\<close> returns the collection it leaves behind, also
  when it fails.
\<close>

section \<open>Errors\<close>

datatype accounting_error =
    ArithmeticErrorToUnsignedFailed
  | ArithmeticErrorToSignedFailed
  | ArithmeticErrorDeltaAdditionFailed
  | ArithmeticErrorSumToUnsignedFailed
  | ArithmeticErrorSumToSignedFailed
  | DataCreatedMultipleTimes
  | ModifyNonexistingData
  | RemoveNonexistingData
  | DeltaDataCreatedMultipleTimes
  | DeltaDataDeletedMultipleTimes
  | DeltaDataModifyAfterDelete
  | DeltaUndoNegationError
  | DeltaOverUndoApplied
  | DeltaDataMismatch

section \<open>Deltas of data\<close>

record 't data_delta =
  delta_old :: "'t option"
  delta_new :: "'t option"

datatype 't data_delta_undo = DataDeltaUndo (as_delta: "'t data_delta")

definition new_delta :: "'t option \<Rightarrow> 't option \<Rightarrow> 't data_delta" where
  "new_delta prev next = \<lparr>delta_old = prev, delta_new = next\<rparr>"

definition invert :: "'t data_delta \<Rightarrow> 't data_delta_undo" where
  "invert d = DataDeltaUndo (new_delta (delta_new d) (delta_old d))"

definition consume_delta :: "'t data_delta \<Rightarrow> 't option \<times> 't option" where
  "consume_delta d = (delta_old d, delta_new d)"

definition combine_data_with_delta ::
    "'t option \<Rightarrow> 't data_delta option \<Rightarrow> accounting_error + 't option" where
  "combine_data_with_delta lhs rhs = (case (lhs, rhs) of
      (lhs, None) \<Rightarrow> Ok lhs
    | (None, Some d) \<Rightarrow>
        (case consume_delta d of
           (None, next) \<Rightarrow> Ok next
         | (Some _, None) \<Rightarrow> Err RemoveNonexistingData
         | (Some _, Some _) \<Rightarrow> Err ModifyNonexistingData)
    | (Some data, Some d) \<Rightarrow>
        (case consume_delta d of
           (None, None) \<Rightarrow> Err DeltaDataMismatch
         | (None, Some _) \<Rightarrow> Err DataCreatedMultipleTimes
         | (Some old, new) \<Rightarrow>
             and_then (ensure (data = old) DeltaDataMismatch) (\<lambda>_. Ok new)))"

definition combine_amount_delta ::
    "amount \<Rightarrow> signed_amount option \<Rightarrow> accounting_error + amount" where
  "combine_amount_delta lhs rhs = (case (lhs, rhs) of
      (v, None) \<Rightarrow> Ok v
    | (v1, Some v2) \<Rightarrow>
        and_then (ok_or (amount_into_signed v1) ArithmeticErrorToSignedFailed) (\<lambda>v1.
        and_then (ok_or (signed_add v1 v2) ArithmeticErrorDeltaAdditionFailed) (\<lambda>sum.
        and_then (ok_or (signed_into_unsigned sum) ArithmeticErrorSumToUnsignedFailed) (\<lambda>sum.
        Ok sum))))"

datatype 't get_data_result = Present 't | Deleted | Missing

type_synonym ('k, 't) delta_data_collection = "('k, 't data_delta) btree_map"
type_synonym ('k, 't) delta_data_undo_collection = "('k, 't data_delta_undo) btree_map"

definition get_data :: "('k, 't) delta_data_collection \<Rightarrow> 'k \<Rightarrow> 't get_data_result" where
  "get_data m k = (case fmlookup m k of
      Some d \<Rightarrow> (case delta_new d of None \<Rightarrow> Deleted | Some x \<Rightarrow> Present x)
    | None \<Rightarrow> Missing)"

definition combine_delta_data ::
    "'t data_delta \<Rightarrow> 't data_delta \<Rightarrow> accounting_error + 't data_delta" where
  "combine_delta_data lhs rhs =
     and_then (ensure (delta_new lhs = delta_old rhs) DeltaDataMismatch) (\<lambda>_.
     Ok (new_delta (delta_old lhs) (delta_new rhs)))"

text \<open>
  The occupied entry is removed before the two deltas are combined: when they do not fit, the error
  is returned and the entry is gone.
\<close>

definition merge_delta_data_element ::
    "'k \<Rightarrow> 't data_delta \<Rightarrow>
     (('k, 't) delta_data_collection, accounting_error, 't data_delta_undo) op" where
  "merge_delta_data_element key other m =
     (let undo = invert other in
      bindS
        (case fmlookup m key of
           Some e \<Rightarrow> bindS (modifyS (fmdrop key)) (\<lambda>_. liftS (combine_delta_data e other))
         | None \<Rightarrow> returnS other)
        (\<lambda>el. bindS (modifyS (fmupd key el)) (\<lambda>_. returnS undo)) m)"

definition merge_delta_data ::
    "('k::linorder, 't) delta_data_collection \<Rightarrow>
     (('k, 't) delta_data_collection, accounting_error, ('k, 't) delta_data_undo_collection) op" where
  "merge_delta_data other =
     bindS (mapS (\<lambda>(key, d). bindS (merge_delta_data_element key d) (\<lambda>u. returnS (key, u)))
              (btree_iter other))
       (\<lambda>us. returnS (btree_of_list us))"

definition undo_merge_delta_data_element ::
    "'k \<Rightarrow> 't data_delta_undo \<Rightarrow> (('k, 't) delta_data_collection, accounting_error, unit) op" where
  "undo_merge_delta_data_element key undo =
     bindS (merge_delta_data_element key (as_delta undo)) (\<lambda>_. returnS ())"

definition undo_merge_delta_data ::
    "('k::linorder, 't) delta_data_undo_collection \<Rightarrow>
     (('k, 't) delta_data_collection, accounting_error, unit) op" where
  "undo_merge_delta_data undo_data =
     try_for_each (\<lambda>(key, u). undo_merge_delta_data_element key u) (btree_iter undo_data)"

section \<open>Deltas of balances\<close>

type_synonym 'k delta_amount_collection = "('k, signed_amount) btree_map"

definition combine_signed_amount_delta ::
    "signed_amount option \<Rightarrow> signed_amount \<Rightarrow> accounting_error + signed_amount" where
  "combine_signed_amount_delta lhs rhs = (case lhs of
      None \<Rightarrow> Ok rhs
    | Some v1 \<Rightarrow>
        and_then (ok_or (signed_add v1 rhs) ArithmeticErrorDeltaAdditionFailed) (\<lambda>sum. Ok sum))"

definition merge_delta_amount_element ::
    "'k \<Rightarrow> signed_amount \<Rightarrow> ('k delta_amount_collection, accounting_error, unit) op" where
  "merge_delta_amount_element key other_amount =
     bindS (readS (\<lambda>m. combine_signed_amount_delta (fmlookup m key) other_amount)) (\<lambda>new_bal.
     if new_bal = signed_zero then modifyS (fmdrop key) else modifyS (fmupd key new_bal))"

definition merge_delta_amounts ::
    "('k::linorder) delta_amount_collection \<Rightarrow>
     ('k delta_amount_collection, accounting_error, unit) op" where
  "merge_delta_amounts delta_to_apply =
     try_for_each (\<lambda>(key, a). merge_delta_amount_element key a) (btree_iter delta_to_apply)"

definition undo_merge_delta_amount_element ::
    "'k \<Rightarrow> signed_amount \<Rightarrow> ('k delta_amount_collection, accounting_error, unit) op" where
  "undo_merge_delta_amount_element key other_amount =
     bindS (liftS (ok_or (signed_neg other_amount) DeltaUndoNegationError))
       (merge_delta_amount_element key)"

definition undo_merge_delta_amounts ::
    "('k::linorder) delta_amount_collection \<Rightarrow>
     ('k delta_amount_collection, accounting_error, unit) op" where
  "undo_merge_delta_amounts delta_to_remove =
     try_for_each (\<lambda>(key, a). undo_merge_delta_amount_element key a) (btree_iter delta_to_remove)"

definition add_unsigned ::
    "'k \<Rightarrow> amount \<Rightarrow> ('k delta_amount_collection, accounting_error, unit) op" where
  "add_unsigned key to_add =
     bindS (liftS (ok_or (amount_into_signed to_add) ArithmeticErrorToSignedFailed))
       (merge_delta_amount_element key)"

definition sub_unsigned ::
    "'k \<Rightarrow> amount \<Rightarrow> ('k delta_amount_collection, accounting_error, unit) op" where
  "sub_unsigned key to_sub =
     bindS (liftS
        (and_then (ok_or (amount_into_signed to_sub) ArithmeticErrorToSignedFailed) (\<lambda>s.
         ok_or (signed_neg s) ArithmeticErrorToSignedFailed)))
       (merge_delta_amount_element key)"

section \<open>Undo records of a block\<close>

type_synonym transaction_id = h256

datatype block_undo_error =
    UndoAlreadyExists transaction_id
  | MissingTxUndo transaction_id
  | UndoAlreadyExistsForReward

datatype 'u block_reward_undo = BlockRewardUndo (reward_undo_inner: "'u list")

datatype 'u tx_undo = TxUndo (tx_undo_inner: "'u list")

record 'u block_undo =
  reward_undos :: "'u block_reward_undo option"
  tx_undos :: "(transaction_id, 'u tx_undo) btree_map"

definition consume_block_undo ::
    "'u block_undo \<Rightarrow> 'u block_reward_undo option \<times> (transaction_id, 'u tx_undo) btree_map" where
  "consume_block_undo b = (reward_undos b, tx_undos b)"

section \<open>Combination of deltas\<close>

lemma new_delta_simps [simp]: "delta_old (new_delta a b) = a" "delta_new (new_delta a b) = b"
  by (simp_all add: new_delta_def)

lemma as_delta_invert [simp]: "as_delta (invert d) = new_delta (delta_new d) (delta_old d)"
  by (simp add: invert_def)

lemma combine_data_with_delta_Ok [result_simps]:
  "combine_data_with_delta lhs rhs = Inr r \<longleftrightarrow>
     (case rhs of None \<Rightarrow> r = lhs | Some d \<Rightarrow> lhs = delta_old d \<and> r = delta_new d)"
  by (auto simp: combine_data_with_delta_def consume_delta_def result_simps split: option.splits)

lemma combine_amount_delta_Ok [result_simps]:
  "combine_amount_delta a (Some d) = Inr r \<longleftrightarrow>
     in_i128 (uint a) \<and> in_i128 (uint r) \<and> uint r = uint a + sval d"
proof -
  have "combine_amount_delta a (Some d) = Inr r \<longleftrightarrow>
      (\<exists>v. sval v = uint a) \<and> (\<exists>s. sval s = uint r) \<and> uint r = uint a + sval d"
    by (auto simp: combine_amount_delta_def result_simps checked_simps) metis
  then show ?thesis by (simp add: sval_ex)
qed

lemma combine_amount_delta_None [result_simps, simp]: "combine_amount_delta a None = Inr a"
  by (simp add: combine_amount_delta_def)

lemma combine_delta_data_Ok [result_simps]:
  "combine_delta_data a b = Inr c \<longleftrightarrow>
     delta_new a = delta_old b \<and> c = new_delta (delta_old a) (delta_new b)"
  by (auto simp: combine_delta_data_def result_simps)

section \<open>Collections of data deltas as changes of the data below\<close>

text \<open>
  The data seen through a collection of deltas on top of the data \<open>p\<close> of the layer below, and the
  condition that every delta starts from what the layer below holds.
\<close>

definition delta_read :: "('k \<Rightarrow> 't option) \<Rightarrow> ('k, 't) delta_data_collection \<Rightarrow> 'k \<Rightarrow> 't option" where
  "delta_read p m k = (case fmlookup m k of None \<Rightarrow> p k | Some d \<Rightarrow> delta_new d)"

definition delta_fits :: "('k \<Rightarrow> 't option) \<Rightarrow> ('k, 't) delta_data_collection \<Rightarrow> bool" where
  "delta_fits p m \<longleftrightarrow> fmpred (\<lambda>k d. p k = delta_old d) m"

definition merge_cell :: "'t data_delta option \<Rightarrow> 't data_delta \<Rightarrow> 't data_delta option option" where
  "merge_cell v d = (case v of
      None \<Rightarrow> Some (Some d)
    | Some e \<Rightarrow> (if delta_new e = delta_old d then Some (Some (new_delta (delta_old e) (delta_new d)))
               else None))"

lemma merge_delta_data_element_eq:
  "merge_delta_data_element k d m = (case merge_cell (fmlookup m k) d of
      Some (Some e) \<Rightarrow> (Inr (invert d), fmupd k e m)
    | _ \<Rightarrow> (Inl DeltaDataMismatch, fmdrop k m))"
  by (auto simp: merge_delta_data_element_def merge_cell_def combine_delta_data_def bindS_def
      modifyS_def returnS_def liftS_def and_then_def ensure_def split: option.splits sum.splits)


interpretation data: keyed_progress
  "\<lambda>k d. bindS (merge_delta_data_element k d) (\<lambda>u. returnS (k, u))" fmlookup
  "\<lambda>_. merge_cell" "\<lambda>k _ d. (k, invert d)"
  by unfold_locales
    (auto simp: merge_delta_data_element_eq op_simps merge_cell_def split: option.splits if_splits)

interpretation data_undo: keyed_progress
  undo_merge_delta_data_element fmlookup "\<lambda>_ v u. merge_cell v (as_delta u)" "\<lambda>_ _ _. ()"
  by unfold_locales
    (auto simp: undo_merge_delta_data_element_def merge_delta_data_element_eq op_simps merge_cell_def
      split: option.splits if_splits)

text \<open>A merge succeeds exactly when every pair of deltas of one key fits, and then it puts them together.\<close>

definition merge_fits :: "('k, 't) delta_data_collection \<Rightarrow> ('k, 't) delta_data_collection \<Rightarrow> bool" where
  "merge_fits m d \<longleftrightarrow> fmpred (\<lambda>k x. merge_cell (fmlookup m k) x \<noteq> None) d"

lemma merge_delta_data_ok:
  assumes "merge_delta_data d m = (Inr u, m')"
  shows "u = fmmap invert d"
    and "fmlookup d k = None \<Longrightarrow> fmlookup m' k = fmlookup m k"
    and "fmlookup d k = Some x \<Longrightarrow> merge_cell (fmlookup m k) x = Some (fmlookup m' k)"
  using assms data.iter_ok [of d m _ m']
  by (auto simp: merge_delta_data_def op_simps btree_of_list_map_iter)

lemma merge_delta_data_progress:
  assumes "merge_fits m d"
  shows "\<exists>m'. merge_delta_data d m = (Inr (fmmap invert d), m')"
proof -
  have "\<exists>t. mapS (\<lambda>(k, x). bindS (merge_delta_data_element k x) (\<lambda>u. returnS (k, u))) (btree_iter d) m =
      (Inr (map (\<lambda>(k, x). (k, invert x)) (btree_iter d)), t)"
    by (rule data.iter_progress) (use assms in \<open>auto simp: merge_fits_def dest: fmpredD\<close>)
  then show ?thesis by (auto simp: merge_delta_data_def op_simps btree_of_list_map_iter)
qed

lemma undo_merge_delta_data_ok:
  assumes "undo_merge_delta_data u m = (Inr v, m')"
  shows "fmlookup u k = None \<Longrightarrow> fmlookup m' k = fmlookup m k"
    and "fmlookup u k = Some x \<Longrightarrow> merge_cell (fmlookup m k) (as_delta x) = Some (fmlookup m' k)"
  using assms data_undo.iter_ok [of u m _ m']
  by (auto simp: undo_merge_delta_data_def try_for_each_Inr)

lemma undo_merge_delta_data_progress:
  assumes "merge_fits m (fmmap as_delta u)"
  shows "\<exists>m'. undo_merge_delta_data u m = (Inr (), m')"
proof -
  have "\<exists>t. mapS (\<lambda>(k, x). undo_merge_delta_data_element k x) (btree_iter u) m =
      (Inr (map (\<lambda>(k, x). ()) (btree_iter u)), t)"
    by (rule data_undo.iter_progress) (use assms in \<open>auto simp: merge_fits_def dest: fmpredD\<close>)
  then show ?thesis by (auto simp: undo_merge_delta_data_def try_for_each_Inr)
qed

lemma delta_fitsD: "delta_fits p m \<Longrightarrow> fmlookup m k = Some d \<Longrightarrow> p k = delta_old d"
  by (auto simp: delta_fits_def dest: fmpredD)

lemma delta_fitsI: "(\<And>k d. fmlookup m k = Some d \<Longrightarrow> p k = delta_old d) \<Longrightarrow> delta_fits p m"
  by (auto simp: delta_fits_def intro: fmpredI)

text \<open>On fitting layers merging is stacking.\<close>

lemma merge_fits_stacked:
  "delta_fits p m \<Longrightarrow> delta_fits (delta_read p m) d \<Longrightarrow> merge_fits m d"
  unfolding merge_fits_def
  by (rule fmpredI, drule (1) delta_fitsD) (auto simp: merge_cell_def delta_read_def split: option.splits)

lemma merge_cells_stack:
  assumes "delta_fits p m"
    and "\<And>k. fmlookup d k = None \<Longrightarrow> fmlookup m' k = fmlookup m k"
    and "\<And>k x. fmlookup d k = Some x \<Longrightarrow> merge_cell (fmlookup m k) x = Some (fmlookup m' k)"
    and "delta_fits (delta_read p m) d"
  shows "delta_fits p m' \<and> delta_read p m' = delta_read (delta_read p m) d"
proof -
  have "(\<forall>e. fmlookup m' k = Some e \<longrightarrow> p k = delta_old e) \<and>
      delta_read p m' k = delta_read (delta_read p m) d k" for k
    using assms(2,3) [of k] delta_fitsD [OF assms(1), of k] delta_fitsD [OF assms(4), of k]
    by (auto simp: merge_cell_def delta_read_def split: option.splits if_splits)
  then show ?thesis by (auto intro: delta_fitsI)
qed


section \<open>Collections of balance deltas\<close>

text \<open>The change of the balance of a key (no entry: no change), and the collections without idle entries.\<close>

definition delta_at :: "'k delta_amount_collection \<Rightarrow> 'k \<Rightarrow> int" where
  "delta_at m k = (case fmlookup m k of None \<Rightarrow> 0 | Some a \<Rightarrow> sval a)"

definition no_zero_deltas :: "'k delta_amount_collection \<Rightarrow> bool" where
  "no_zero_deltas m \<longleftrightarrow> fmpred (\<lambda>_ a. sval a \<noteq> 0) m"

definition no_min_deltas :: "'k delta_amount_collection \<Rightarrow> bool" where
  "no_min_deltas m \<longleftrightarrow> fmpred (\<lambda>_ a. sval a \<noteq> - (2 ^ 127)) m"

lemma delta_at_in_range [simp]: "in_i128 (delta_at m k)"
  by (auto simp: delta_at_def split: option.split) (simp add: in_signed_def)

lemma no_zero_deltas_eqI:
  assumes "no_zero_deltas m" "no_zero_deltas m'" "\<And>k. delta_at m k = delta_at m' k"
  shows "m = m'"
proof (rule fmap_ext)
  fix k
  show "fmlookup m k = fmlookup m' k"
    using assms(1,2) assms(3) [of k]
    by (auto simp: no_zero_deltas_def delta_at_def signed_amount_eq_iff dest: fmpredD
        split: option.splits)
qed

lemma combine_signed_amount_delta_Ok [result_simps]:
  "combine_signed_amount_delta (fmlookup m k) a = Inr b \<longleftrightarrow> sval b = delta_at m k + sval a"
  by (auto simp: combine_signed_amount_delta_def delta_at_def result_simps checked_simps
      signed_amount_eq_iff split: option.splits)

lemma combine_signed_amount_delta_Err [result_simps]:
  "combine_signed_amount_delta (fmlookup m k) a = Inl e \<longleftrightarrow>
     e = ArithmeticErrorDeltaAdditionFailed \<and> \<not> in_i128 (delta_at m k + sval a)"
  by (auto simp: combine_signed_amount_delta_def delta_at_def result_simps checked_simps
      split: option.splits)

lemma merge_delta_amount_element_iff:
  "merge_delta_amount_element k a m = (Inr u, m') \<longleftrightarrow>
     (\<exists>b. sval b = delta_at m k + sval a \<and> m' = (if b = signed_zero then fmdrop k m else fmupd k b m))"
proof -
  have "(if c then modifyS f else modifyS g) = modifyS (if c then f else g)"
    for c and f g :: "'a delta_amount_collection \<Rightarrow> 'a delta_amount_collection" by simp
  then show ?thesis
    by (simp add: merge_delta_amount_element_def op_simps result_simps if_distrib [of "\<lambda>f. f m"])
qed

lemma merge_delta_amount_element_ok:
  assumes "merge_delta_amount_element k a m = (Inr u, m')"
  shows "delta_at m' k = delta_at m k + sval a"
    and "j \<noteq> k \<Longrightarrow> fmlookup m' j = fmlookup m j"
    and "no_zero_deltas m \<Longrightarrow> no_zero_deltas m'"
proof -
  from assms obtain b where b: "sval b = delta_at m k + sval a"
    and m': "m' = (if b = signed_zero then fmdrop k m else fmupd k b m)"
    unfolding merge_delta_amount_element_iff by blast
  then show "delta_at m' k = delta_at m k + sval a"
    by (auto simp: delta_at_def)
  show "j \<noteq> k \<Longrightarrow> fmlookup m' j = fmlookup m j" using m' by auto
  show "no_zero_deltas m \<Longrightarrow> no_zero_deltas m'"
    using m' by (auto simp: no_zero_deltas_def signed_amount_eq_iff)
qed

lemma merge_delta_amount_element_Inr:
  "(\<exists>m'. merge_delta_amount_element k a m = (Inr (), m')) \<longleftrightarrow> in_i128 (delta_at m k + sval a)"
  unfolding merge_delta_amount_element_iff sval_ex [symmetric] by blast

lemma merge_delta_amount_element_Inl:
  "merge_delta_amount_element k a m = (Inl e, m') \<longleftrightarrow>
     m' = m \<and> e = ArithmeticErrorDeltaAdditionFailed \<and> \<not> in_i128 (delta_at m k + sval a)"
  by (auto simp: merge_delta_amount_element_def op_simps result_simps split: if_splits)

definition add_cell :: "int \<Rightarrow> int \<Rightarrow> int option" where
  "add_cell v d = (if in_i128 (v + d) then Some (v + d) else None)"

interpretation amounts: keyed_progress merge_delta_amount_element delta_at
  "\<lambda>_ v a. add_cell v (sval a)" "\<lambda>_ _ _. ()"
proof
  show "add_cell (delta_at s k) (sval x) = Some (delta_at t k) \<and>
      (\<forall>j. j \<noteq> k \<longrightarrow> delta_at t j = delta_at s j) \<and> y = ()"
    if "merge_delta_amount_element k x s = (Inr y, t)" for k x y and s t :: "'a delta_amount_collection"
    using merge_delta_amount_element_ok [OF that] delta_at_in_range [of t k]
    by (simp add: add_cell_def) (simp add: delta_at_def)
  show "\<exists>y t. merge_delta_amount_element k x s = (Inr y, t)"
    if "add_cell (delta_at s k) (sval x) = Some v" for k x v and s :: "'a delta_amount_collection"
    using that merge_delta_amount_element_Inr [of k x s] by (auto simp: add_cell_def split: if_splits)
qed

interpretation amounts_undo: keyed_progress undo_merge_delta_amount_element delta_at
  "\<lambda>_ v a. if sval a = - (2 ^ 127) then None else add_cell v (- sval a)" "\<lambda>_ _ _. ()"
proof
  show "(if sval x = - (2 ^ 127) then None else add_cell (delta_at s k) (- sval x)) = Some (delta_at t k) \<and>
      (\<forall>j. j \<noteq> k \<longrightarrow> delta_at t j = delta_at s j) \<and> y = ()"
    if st: "undo_merge_delta_amount_element k x s = (Inr y, t)"
    for k x y and s t :: "'a delta_amount_collection"
  proof -
    from st obtain n where n: "signed_neg x = Some n" "merge_delta_amount_element k n s = (Inr y, t)"
      by (auto simp: undo_merge_delta_amount_element_def op_simps result_simps)
    then have "sval n = - sval x" "sval x \<noteq> - (2 ^ 127)"
      using signed_neg_None [of x] by (simp_all add: signed_neg_Some [symmetric])
    with amounts.step_ok [OF n(2)] show ?thesis by simp
  qed
  show "\<exists>y t. undo_merge_delta_amount_element k x s = (Inr y, t)"
    if "(if sval x = - (2 ^ 127) then None else add_cell (delta_at s k) (- sval x)) = Some v"
    for k x v and s :: "'a delta_amount_collection"
  proof -
    from that obtain n where n: "signed_neg x = Some n"
      using signed_neg_None [of x] by (cases "signed_neg x") (auto split: if_splits)
    with that have "add_cell (delta_at s k) (sval n) = Some v"
      by (auto simp: signed_neg_Some split: if_splits)
    from amounts.step_progress [OF this] n show ?thesis
      by (auto simp: undo_merge_delta_amount_element_def op_simps result_simps)
  qed
qed

lemma merge_delta_amounts_ok:
  assumes "merge_delta_amounts d m = (Inr u, m')"
  shows "delta_at m' k = delta_at m k + delta_at d k"
proof -
  from assms obtain ys where "mapS (\<lambda>(k, a). merge_delta_amount_element k a) (btree_iter d) m = (Inr ys, m')"
    by (auto simp: merge_delta_amounts_def try_for_each_Inr)
  from amounts.iter_ok(2,3) [OF this, of k] show ?thesis
    by (cases "fmlookup d k") (auto simp: delta_at_def [of d] add_cell_def split: if_splits)
qed

lemma merge_delta_amounts_no_zero:
  "merge_delta_amounts d m = (r, m') \<Longrightarrow> no_zero_deltas m \<Longrightarrow> no_zero_deltas m'"
  unfolding merge_delta_amounts_def
proof (erule try_for_each_invariant)
  fix x s r t
  assume "(case x of (k :: 'a, a) \<Rightarrow> merge_delta_amount_element k a) s = (r, t)" "no_zero_deltas s"
  then show "no_zero_deltas t"
    by (cases x; cases r) (auto simp: merge_delta_amount_element_Inl dest: merge_delta_amount_element_ok(3))
qed

lemma merge_delta_amounts_progress:
  assumes "\<And>k. in_i128 (delta_at m k + delta_at d k)"
  shows "\<exists>m'. merge_delta_amounts d m = (Inr (), m')"
proof -
  have "\<exists>v. add_cell (delta_at m k) (sval a) = Some v" if "fmlookup d k = Some a" for k a
    using assms [of k] that by (simp add: delta_at_def [of d] add_cell_def)
  from amounts.iter_progress [of d, OF this] show ?thesis
    by (auto simp: merge_delta_amounts_def try_for_each_Inr)
qed

lemma undo_merge_delta_amounts_ok:
  assumes "undo_merge_delta_amounts d m = (Inr u, m')"
  shows "delta_at m' k = delta_at m k - delta_at d k"
proof -
  from assms obtain ys where
    "mapS (\<lambda>(k, a). undo_merge_delta_amount_element k a) (btree_iter d) m = (Inr ys, m')"
    by (auto simp: undo_merge_delta_amounts_def try_for_each_Inr)
  from amounts_undo.iter_ok(2,3) [OF this, of k] show ?thesis
    by (cases "fmlookup d k") (auto simp: delta_at_def [of d] add_cell_def split: if_splits)
qed

lemma undo_merge_delta_amounts_no_zero:
  "undo_merge_delta_amounts d m = (r, m') \<Longrightarrow> no_zero_deltas m \<Longrightarrow> no_zero_deltas m'"
  unfolding undo_merge_delta_amounts_def
proof (erule try_for_each_invariant)
  fix x s r t
  assume "(case x of (k :: 'a, a) \<Rightarrow> undo_merge_delta_amount_element k a) s = (r, t)" "no_zero_deltas s"
  then show "no_zero_deltas t"
    by (cases x; cases r)
      (auto simp: undo_merge_delta_amount_element_def op_simps merge_delta_amount_element_Inl
        dest: merge_delta_amount_element_ok(3))
qed

lemma undo_merge_delta_amounts_progress:
  assumes "no_min_deltas d" and "\<And>k. in_i128 (delta_at m k - delta_at d k)"
  shows "\<exists>m'. undo_merge_delta_amounts d m = (Inr (), m')"
proof -
  have "\<exists>v. (if sval a = - (2 ^ 127) then None else add_cell (delta_at m k) (- sval a)) = Some v"
    if "fmlookup d k = Some a" for k a
    using assms(1) assms(2) [of k] that
    by (auto simp: delta_at_def [of d] add_cell_def no_min_deltas_def dest: fmpredD)
  from amounts_undo.iter_progress [of d, OF this] show ?thesis
    by (auto simp: undo_merge_delta_amounts_def try_for_each_Inr)
qed

lemma undo_merge_delta_amounts_exact:
  assumes "no_zero_deltas m" and "no_min_deltas d"
    and "merge_delta_amounts d m = (Inr (), m')"
  shows "undo_merge_delta_amounts d m' = (Inr (), m)"
proof -
  have diff: "delta_at m' k - delta_at d k = delta_at m k" for k
    using merge_delta_amounts_ok [OF assms(3)] by simp
  then obtain m2 where m2: "undo_merge_delta_amounts d m' = (Inr (), m2)"
    using undo_merge_delta_amounts_progress [OF assms(2), of m'] by (metis delta_at_in_range)
  have "m2 = m"
    using no_zero_deltas_eqI undo_merge_delta_amounts_ok [OF m2] diff assms(1)
      undo_merge_delta_amounts_no_zero [OF m2] merge_delta_amounts_no_zero [OF assms(3,1)]
    by metis
  with m2 show ?thesis by simp
qed

lemma add_unsigned_Ok:
  "add_unsigned k a m = (Inr u, m') \<Longrightarrow>
     in_i128 (uint a) \<and> delta_at m' k = delta_at m k + uint a \<and>
     (\<forall>j. j \<noteq> k \<longrightarrow> fmlookup m' j = fmlookup m j) \<and> (no_zero_deltas m \<longrightarrow> no_zero_deltas m')"
  by (auto simp: add_unsigned_def op_simps result_simps checked_simps dest: merge_delta_amount_element_ok)
    (metis sint_in_signed)

lemma sub_unsigned_Ok:
  "sub_unsigned k a m = (Inr u, m') \<Longrightarrow>
     in_i128 (uint a) \<and> delta_at m' k = delta_at m k - uint a \<and>
     (\<forall>j. j \<noteq> k \<longrightarrow> fmlookup m' j = fmlookup m j) \<and> (no_zero_deltas m \<longrightarrow> no_zero_deltas m')"
  by (auto simp: sub_unsigned_def op_simps result_simps checked_simps dest: merge_delta_amount_element_ok)
    (metis sint_in_signed)

lemma add_unsigned_progress:
  assumes "in_i128 (uint a)" and "in_i128 (delta_at m k + uint a)"
  shows "\<exists>m'. add_unsigned k a m = (Inr (), m')"
proof -
  obtain s where "sval s = uint a" using assms(1) sval_ex by metis
  then show ?thesis
    using assms(2) merge_delta_amount_element_Inr [of k s m]
    by (auto simp: add_unsigned_def op_simps result_simps checked_simps)
qed

lemma sub_unsigned_progress:
  assumes "in_i128 (uint a)" and "in_i128 (delta_at m k - uint a)"
  shows "\<exists>m'. sub_unsigned k a m = (Inr (), m')"
proof -
  obtain s where s: "sval s = uint a" using assms(1) sval_ex by metis
  have "in_i128 (- uint a)" using assms(1) uint_ge_0 [of a] unfolding in_signed_def by linarith
  then obtain n where "sval n = - uint a" using sval_ex by metis
  then show ?thesis
    using assms(2) s merge_delta_amount_element_Inr [of k n m]
    by (auto simp: sub_unsigned_def op_simps result_simps checked_simps) metis
qed

lemma add_unsigned_Err: "add_unsigned k a m = (Inl e, m') \<Longrightarrow> m' = m"
  by (auto simp: add_unsigned_def op_simps merge_delta_amount_element_Inl)

lemma sub_unsigned_Err: "sub_unsigned k a m = (Inl e, m') \<Longrightarrow> m' = m"
  by (auto simp: sub_unsigned_def op_simps merge_delta_amount_element_Inl)

text \<open>Adding and subtracting the same amount are inverse on collections without idle entries.\<close>

lemma delta_at_other: "fmlookup m j = fmlookup m' j \<Longrightarrow> delta_at m j = delta_at m' j"
  by (simp add: delta_at_def)

lemma sub_after_add:
  assumes "no_zero_deltas m" and "add_unsigned k a m = (Inr u, m')"
  shows "sub_unsigned k a m' = (Inr (), m)"
proof -
  note add = add_unsigned_Ok [OF assms(2)]
  then obtain m2 where m2: "sub_unsigned k a m' = (Inr (), m2)"
    using sub_unsigned_progress [of a m' k] by auto
  note sub = sub_unsigned_Ok [OF m2]
  have "m2 = m"
  proof (rule no_zero_deltas_eqI)
    show "delta_at m2 j = delta_at m j" for j
      using add sub by (cases "j = k") (auto intro: delta_at_other)
  qed (use add sub assms(1) in auto)
  with m2 show ?thesis by simp
qed

lemma add_after_sub:
  assumes "no_zero_deltas m" and "sub_unsigned k a m = (Inr u, m')"
  shows "add_unsigned k a m' = (Inr (), m)"
proof -
  note sub = sub_unsigned_Ok [OF assms(2)]
  then obtain m2 where m2: "add_unsigned k a m' = (Inr (), m2)"
    using add_unsigned_progress [of a m' k] by auto
  note add = add_unsigned_Ok [OF m2]
  have "m2 = m"
  proof (rule no_zero_deltas_eqI)
    show "delta_at m2 j = delta_at m j" for j
      using add sub by (cases "j = k") (auto intro: delta_at_other)
  qed (use add sub assms(1) in auto)
  with m2 show ?thesis by simp
qed

section \<open>Balances read through a delta\<close>

text \<open>The balance \<open>s\<close> a cache reports for a key, on top of the balance \<open>p\<close> of its parent.\<close>

definition bal_reads :: "amount \<Rightarrow> 'k delta_amount_collection \<Rightarrow> 'k \<Rightarrow> amount \<Rightarrow> bool" where
  "bal_reads p m k s \<longleftrightarrow> combine_amount_delta p (fmlookup m k) = Inr s"

lemma bal_reads_iff:
  "bal_reads p m k s \<longleftrightarrow> uint s = uint p + delta_at m k \<and>
     (fmlookup m k = None \<or> in_i128 (uint p) \<and> in_i128 (uint s))"
  by (cases "fmlookup m k") (auto simp: bal_reads_def result_simps delta_at_def word_uint_eq_iff)

lemma bal_reads_other: "fmlookup m' j = fmlookup m j \<Longrightarrow> bal_reads p m' j s = bal_reads p m j s"
  by (simp add: bal_reads_def)

lemma in_i128_iff: "in_i128 x \<longleftrightarrow> - (2 ^ 127) \<le> x \<and> x < 2 ^ 127"
  by (simp add: in_signed_def)

lemma in_i128_amount: "in_i128 (uint a) \<longleftrightarrow> uint a < 2 ^ 127" for a :: amount
  using order_trans [OF _ uint_ge_0 [of a], of "- (2 ^ 127)"] by (simp add: in_i128_iff)

lemma in_i128_mono: "a \<le> b \<Longrightarrow> in_i128 (uint b) \<Longrightarrow> in_i128 (uint a)" for a b :: amount
  by (simp add: in_i128_amount word_le_def)

lemma in_i128_diff: "in_i128 (uint a) \<Longrightarrow> in_i128 (uint b) \<Longrightarrow> in_i128 (uint a - uint b)"
  for a b :: amount
  using uint_ge_0 [of a] uint_ge_0 [of b] unfolding in_i128_amount in_i128_iff
  by (intro conjI; linarith)

lemma uint_add_small: "in_i128 (uint a + uint b) \<Longrightarrow> uint (a + b) = uint a + uint b" for a b :: amount
  by (simp add: in_signed_def uint_add_lem [THEN iffD1])

lemma uint_sub_small: "b \<le> a \<Longrightarrow> uint (a - b) = uint a - uint b" for a b :: amount
  by (simp add: word_le_def uint_sub_if')

lemma bal_add_ok:
  assumes "bal_reads p m k s" and "in_i128 (uint s + uint a)"
  shows "\<exists>m'. add_unsigned k a m = (Inr (), m')"
proof (rule add_unsigned_progress)
  have "uint s + uint a < 2 ^ 127" using assms(2) by (simp add: in_signed_def)
  then show "in_i128 (uint a)" using uint_ge_0 [of s] unfolding in_i128_amount by linarith
  show "in_i128 (delta_at m k + uint a)"
  proof (cases "fmlookup m k")
    case None
    with \<open>in_i128 (uint a)\<close> show ?thesis by (simp add: delta_at_def)
  next
    case (Some d)
    with assms(1) have "uint p < 2 ^ 127" "delta_at m k = uint s - uint p"
      by (auto simp: bal_reads_iff in_i128_amount)
    with \<open>uint s + uint a < 2 ^ 127\<close> show ?thesis
      using uint_ge_0 [of p] uint_ge_0 [of s] uint_ge_0 [of a] unfolding in_i128_iff
      by (intro conjI; linarith)
  qed
qed

lemma bal_sub_ok:
  assumes "bal_reads p m k s" and "in_i128 (uint s)" and "a \<le> s"
  shows "\<exists>m'. sub_unsigned k a m = (Inr (), m')"
proof (rule sub_unsigned_progress)
  show "in_i128 (uint a)" using assms(2,3) in_i128_mono by blast
  then have "uint a < 2 ^ 127" by (simp add: in_i128_amount)
  show "in_i128 (delta_at m k - uint a)"
  proof (cases "fmlookup m k")
    case None
    with \<open>uint a < 2 ^ 127\<close> show ?thesis
      using uint_ge_0 [of a] order_le_less_trans [of "- uint a" 0 "2 ^ 127"]
      by (simp add: in_i128_iff delta_at_def)
  next
    case (Some d)
    with assms have "uint p < 2 ^ 127" "delta_at m k = uint s - uint p" "uint s < 2 ^ 127" "uint a \<le> uint s"
      by (auto simp: bal_reads_iff in_i128_amount word_le_def)
    then show ?thesis
      using uint_ge_0 [of p] uint_ge_0 [of s] uint_ge_0 [of a] unfolding in_i128_iff
      by (intro conjI; linarith)
  qed
qed

lemma bal_reads_add:
  assumes "bal_reads p m k s" and "add_unsigned k a m = (Inr u, m')" and "in_i128 (uint s + uint a)"
  shows "bal_reads p m' k (s + a)"
proof -
  have v: "uint (s + a) = uint s + uint a" using assms(3) by (rule uint_add_small)
  have "in_i128 (uint p) \<or> fmlookup m k = None \<and> p = s"
    using assms(1) by (auto simp: bal_reads_iff delta_at_def word_uint_eq_iff)
  moreover have "uint s + uint a < 2 ^ 127" using assms(3) by (simp add: in_i128_iff)
  then have "in_i128 (uint s)" using uint_ge_0 [of a] unfolding in_i128_amount by linarith
  ultimately show ?thesis
    using assms add_unsigned_Ok [OF assms(2)] v by (auto simp: bal_reads_iff)
qed

lemma bal_reads_sub:
  assumes "bal_reads p m k s" and "sub_unsigned k a m = (Inr u, m')" and "in_i128 (uint s)" and "a \<le> s"
  shows "bal_reads p m' k (s - a)"
proof -
  have v: "uint (s - a) = uint s - uint a" using assms(4) by (rule uint_sub_small)
  have "in_i128 (uint p) \<or> fmlookup m k = None \<and> p = s"
    using assms(1) by (auto simp: bal_reads_iff delta_at_def word_uint_eq_iff)
  moreover have "in_i128 (uint s - uint a)"
    using assms(3,4) in_i128_diff in_i128_mono by blast
  ultimately show ?thesis
    using assms sub_unsigned_Ok [OF assms(2)] v by (auto simp: bal_reads_iff)
qed

section \<open>Properties of delta collections\<close>

text \<open>
  Merging one collection of balance deltas into another adds them key by key. The merge succeeds
  exactly when no sum leaves the range of \<open>i128\<close>, its only error is
  \<open>ArithmeticErrorDeltaAdditionFailed\<close>, and it never leaves an entry whose delta is zero.
\<close>

theorem merge_delta_amounts_spec:
  assumes "no_zero_deltas m"
  shows "case merge_delta_amounts d m of
      (Inr _, m') \<Rightarrow> no_zero_deltas m' \<and> (\<forall>k. delta_at m' k = delta_at m k + delta_at d k)
    | (Inl e, m') \<Rightarrow> no_zero_deltas m' \<and> e = ArithmeticErrorDeltaAdditionFailed \<and>
        (\<exists>k. \<not> in_i128 (delta_at m k + delta_at d k))"
proof -
  obtain r m' where eq: "merge_delta_amounts d m = (r, m')" by (cases "merge_delta_amounts d m")
  note nz = merge_delta_amounts_no_zero [OF eq assms]
  show ?thesis
  proof (cases r)
    case (Inl e)
    with eq have "merge_delta_amounts d m = (Inl e, m')" by simp
    then have "e = ArithmeticErrorDeltaAdditionFailed"
      unfolding merge_delta_amounts_def
      by (auto dest!: try_for_each_Inl simp: merge_delta_amount_element_Inl)
    moreover have "\<exists>k. \<not> in_i128 (delta_at m k + delta_at d k)"
      using merge_delta_amounts_progress [of m d] eq Inl by auto
    ultimately show ?thesis using eq Inl nz by simp
  qed (use eq nz merge_delta_amounts_ok in auto)
qed

theorem merge_delta_amounts_spec_witness:
  "no_zero_deltas (fmap_of_list [(1::nat, SignedAmount 5)]) \<and>
   (case merge_delta_amounts (fmap_of_list [(1, SignedAmount (- 5)), (2, SignedAmount 7)])
       (fmap_of_list [(1::nat, SignedAmount 5)]) of
      (Inr _, m') \<Rightarrow> no_zero_deltas m' \<and>
        (\<forall>k. delta_at m' k = delta_at (fmap_of_list [(1::nat, SignedAmount 5)]) k +
           delta_at (fmap_of_list [(1, SignedAmount (- 5)), (2, SignedAmount 7)]) k)
    | (Inl e, m') \<Rightarrow> False) \<and>
   merge_delta_amounts (fmap_of_list [(1, SignedAmount (- 5)), (2, SignedAmount 7)])
     (fmap_of_list [(1::nat, SignedAmount 5)]) = (Inr (), fmap_of_list [(2, SignedAmount 7)])"
proof -
  have nz: "no_zero_deltas (fmap_of_list [(1::nat, SignedAmount 5)])" by code_simp
  moreover have "merge_delta_amounts (fmap_of_list [(1, SignedAmount (- 5)), (2, SignedAmount 7)])
     (fmap_of_list [(1::nat, SignedAmount 5)]) = (Inr (), fmap_of_list [(2, SignedAmount 7)])" by code_simp
  ultimately show ?thesis
    using merge_delta_amounts_spec [OF nz, of "fmap_of_list [(1, SignedAmount (- 5)), (2, SignedAmount 7)]"]
    by simp
qed

text \<open>
  Undoing a merge of balance deltas is exact: \<open>undo_merge_delta_amounts\<close> after a successful
  \<open>merge_delta_amounts\<close> of the same collection succeeds and gives back the very collection there was
  before (no delta being the one \<open>i128\<close> value that cannot be negated).
\<close>

theorem undo_merge_delta_amounts_restores:
  assumes "no_zero_deltas m" and "no_min_deltas d"
    and "merge_delta_amounts d m = (Inr (), m')"
  shows "undo_merge_delta_amounts d m' = (Inr (), m)"
  using assms by (rule undo_merge_delta_amounts_exact)

theorem undo_merge_delta_amounts_restores_witness:
  "merge_delta_amounts (fmap_of_list [(1, SignedAmount (- 5)), (2, SignedAmount 7)])
     (fmap_of_list [(1::nat, SignedAmount 5)]) = (Inr (), fmap_of_list [(2, SignedAmount 7)]) \<and>
   undo_merge_delta_amounts (fmap_of_list [(1, SignedAmount (- 5)), (2, SignedAmount 7)])
     (fmap_of_list [(2::nat, SignedAmount 7)]) = (Inr (), fmap_of_list [(1, SignedAmount 5)])"
proof
  show merged: "merge_delta_amounts (fmap_of_list [(1, SignedAmount (- 5)), (2, SignedAmount 7)])
     (fmap_of_list [(1::nat, SignedAmount 5)]) = (Inr (), fmap_of_list [(2, SignedAmount 7)])" by code_simp
  show "undo_merge_delta_amounts (fmap_of_list [(1, SignedAmount (- 5)), (2, SignedAmount 7)])
     (fmap_of_list [(2::nat, SignedAmount 7)]) = (Inr (), fmap_of_list [(1, SignedAmount 5)])"
    by (rule undo_merge_delta_amounts_restores [OF _ _ merged]; code_simp)
qed

text \<open>
  Combining data deltas is associative, an error on one side being the same error on the other,
  and inversion undoes: a delta, its inverse and the delta again combine to the delta.
\<close>

theorem combine_delta_data_laws:
  "and_then (combine_delta_data d1 d2) (\<lambda>x. combine_delta_data x d3) =
     and_then (combine_delta_data d2 d3) (combine_delta_data d1) \<and>
   and_then (combine_delta_data d (as_delta (invert d))) (\<lambda>x. combine_delta_data x d) = Ok (d :: 't data_delta)"
  by (auto simp: combine_delta_data_def and_then_def ensure_def new_delta_def split: sum.splits)

text \<open>
  A collection of data deltas on top of a layer of data, merged with a further collection that fits
  the data seen through it, succeeds and behaves like the two collections stacked; the undo it returns
  can be applied and brings back the data seen before the merge.
\<close>

theorem merge_delta_data_stacks:
  assumes "delta_fits p m" and "delta_fits (delta_read p m) d"
  shows "\<exists>u m' m''. merge_delta_data d m = (Inr u, m') \<and> delta_fits p m' \<and>
      delta_read p m' = delta_read (delta_read p m) d \<and>
      undo_merge_delta_data u m' = (Inr (), m'') \<and> delta_fits p m'' \<and>
      delta_read p m'' = delta_read p m"
proof -
  obtain m' where m': "merge_delta_data d m = (Inr (fmmap invert d), m')"
    using merge_delta_data_progress [OF merge_fits_stacked [OF assms]] by blast
  note cells = merge_delta_data_ok(2,3) [OF m']
  have st: "delta_fits p m'" "delta_read p m' = delta_read (delta_read p m) d"
    using merge_cells_stack [OF assms(1) cells assms(2)] by auto
  let ?u = "fmmap as_delta (fmmap invert d)"
  have fits: "delta_fits (delta_read p m') ?u"
    unfolding st(2) by (rule delta_fitsI) (auto simp: delta_read_def)
  obtain m'' where m'': "undo_merge_delta_data (fmmap invert d) m' = (Inr (), m'')"
    using undo_merge_delta_data_progress [OF merge_fits_stacked [OF st(1) fits]] by blast
  have "delta_fits p m'' \<and> delta_read p m'' = delta_read (delta_read p m') ?u"
    by (rule merge_cells_stack [OF st(1) _ _ fits])
      (use undo_merge_delta_data_ok [OF m''] in auto)
  moreover have "delta_read (delta_read p m') ?u = delta_read p m"
    using delta_fitsD [OF assms(2)] by (auto simp: st(2) delta_read_def [of _ ?u] fun_eq_iff
      delta_read_def [of "delta_read p m"] split: option.splits)
  ultimately show ?thesis using m' st m'' by auto
qed

theorem merge_delta_data_stacks_witness:
  "\<exists>u m' m''. merge_delta_data (fmap_of_list [(2, new_delta (Some ''b'') (Some ''c''))])
       (fmap_of_list [(1::nat, new_delta None (Some ''a''))]) = (Inr u, m') \<and>
     delta_read [2 \<mapsto> ''b''] m' 2 = Some ''c'' \<and>
     undo_merge_delta_data u m' = (Inr (), m'') \<and> delta_read [2 \<mapsto> ''b''] m'' 2 = Some ''b''"
proof -
  let ?m = "fmap_of_list [(1::nat, new_delta None (Some ''a''))]"
  let ?d = "fmap_of_list [(2::nat, new_delta (Some ''b'') (Some ''c''))]"
  have "delta_fits [2 \<mapsto> ''b''] ?m" "delta_fits (delta_read [2 \<mapsto> ''b''] ?m) ?d"
    by code_simp+
  moreover have "delta_read (delta_read [2 \<mapsto> ''b''] ?m) ?d 2 = Some ''c''"
      "delta_read [2 \<mapsto> ''b''] ?m 2 = Some ''b''"
    by code_simp+
  ultimately show ?thesis using merge_delta_data_stacks [of "[2 \<mapsto> ''b'']" ?m ?d] by metis
qed

end
