(* ===== verification/Storage_Columns.thy ===== *)
theory Storage_Columns
  imports Accounting
begin

text \<open>
  The persistent side of the accounting crates. A column of a store is what
  \<open>BorrowedStorageValue\<close> of the \<open>pos-accounting\<close> crate bundles: a getter, a setter and a deleter of one
  kind of value. Deltas of data and of balances are merged into a column entry by entry, the same way
  in \<open>PoSAccountingDB\<close>, \<open>TokensAccountingDB\<close> and \<open>OrdersAccountingDB\<close>; the loops are parameters of the
  errors of the crate: \<open>ve\<close> for a failed read, \<open>we\<close> for a failed write, \<open>acc\<close> for an accounting error.
\<close>

section \<open>Errors of a store\<close>

text \<open>\<open>chainstate_types::storage_result::Error\<close>; the kind of an I/O error is kept by its name.\<close>

datatype recoverable =
    TransactionFailed
  | TemporarilyUnavailable
  | MemMapFull
  | DbInit
  | Io string string

datatype storage_error = StorageFailure recoverable

definition is_intermittent :: "storage_error \<Rightarrow> bool" where
  "is_intermittent e = (case e of StorageFailure r \<Rightarrow> (case r of
      TransactionFailed \<Rightarrow> True
    | TemporarilyUnavailable \<Rightarrow> True
    | MemMapFull \<Rightarrow> True
    | DbInit \<Rightarrow> False
    | Io _ _ \<Rightarrow> False))"

section \<open>Columns and the merging loops\<close>

record ('s, 'e, 'k, 'v) column =
  col_get :: "'s \<Rightarrow> 'k \<Rightarrow> 'e + 'v option"
  col_set :: "'k \<Rightarrow> 'v \<Rightarrow> ('s, 'e, unit) op"
  col_del :: "'k \<Rightarrow> ('s, 'e, unit) op"

definition store_get :: "'x \<Rightarrow> ('s, 'e, 'k, 'v) column \<Rightarrow> 'k \<Rightarrow> ('s, 'x failure, 'v option) op" where
  "store_get ve col k = map_errS (\<lambda>_. Fail ve) (readS (\<lambda>s. col_get col s k))"

definition store_set :: "'x \<Rightarrow> ('s, 'e, 'k, 'v) column \<Rightarrow> 'k \<Rightarrow> 'v \<Rightarrow> ('s, 'x failure, unit) op" where
  "store_set we col k v = map_errS (\<lambda>_. Fail we) (col_set col k v)"

definition store_delete :: "'x \<Rightarrow> ('s, 'e, 'k, 'v) column \<Rightarrow> 'k \<Rightarrow> ('s, 'x failure, unit) op" where
  "store_delete we col k = map_errS (\<lambda>_. Fail we) (col_del col k)"

definition merge_data_entry ::
    "'x \<Rightarrow> 'x \<Rightarrow> (accounting_error \<Rightarrow> 'x) \<Rightarrow> ('s, 'e, 'k, 'v) column \<Rightarrow> 'k \<Rightarrow> 'v data_delta \<Rightarrow>
     ('s, 'x failure, 'k \<times> 'v data_delta_undo) op" where
  "merge_data_entry ve we acc col k delta =
     (let undo = invert delta in
      bindS (store_get ve col k) (\<lambda>old_data.
      bindS (liftS (map_err (Fail \<circ> acc) (combine_data_with_delta old_data (Some delta)))) (\<lambda>r.
      bindS (case r of Some result \<Rightarrow> store_set we col k result | None \<Rightarrow> store_delete we col k) (\<lambda>_.
      returnS (k, undo)))))"

definition merge_data_generic ::
    "'x \<Rightarrow> 'x \<Rightarrow> (accounting_error \<Rightarrow> 'x) \<Rightarrow> ('s, 'e, 'k::linorder, 'v) column \<Rightarrow>
     ('k, 'v) delta_data_collection \<Rightarrow>
     ('s, 'x failure, ('k, 'v) delta_data_undo_collection) op" where
  "merge_data_generic ve we acc col delta =
     bindS (mapS (\<lambda>(k, d). merge_data_entry ve we acc col k d) (btree_iter delta))
       (\<lambda>undo. returnS (btree_of_list undo))"

definition undo_merge_data_entry ::
    "'x \<Rightarrow> 'x \<Rightarrow> (accounting_error \<Rightarrow> 'x) \<Rightarrow> ('s, 'e, 'k, 'v) column \<Rightarrow> 'k \<Rightarrow> 'v data_delta_undo \<Rightarrow>
     ('s, 'x failure, unit) op" where
  "undo_merge_data_entry ve we acc col k delta =
     bindS (store_get ve col k) (\<lambda>old_data.
     bindS (liftS (map_err (Fail \<circ> acc) (combine_data_with_delta old_data (Some (as_delta delta)))))
       (\<lambda>r.
     bindS (case r of Some result \<Rightarrow> store_set we col k result | None \<Rightarrow> store_delete we col k) (\<lambda>_.
     returnS ())))"

definition undo_merge_data_generic ::
    "'x \<Rightarrow> 'x \<Rightarrow> (accounting_error \<Rightarrow> 'x) \<Rightarrow> ('s, 'e, 'k::linorder, 'v) column \<Rightarrow>
     ('k, 'v) delta_data_undo_collection \<Rightarrow> ('s, 'x failure, unit) op" where
  "undo_merge_data_generic ve we acc col undo =
     try_for_each (\<lambda>(k, d). undo_merge_data_entry ve we acc col k d) (btree_iter undo)"

text \<open>The negation that makes the undo of a balance is an \<open>expect\<close>.\<close>

definition merge_balance_entry ::
    "'x \<Rightarrow> 'x \<Rightarrow> (accounting_error \<Rightarrow> 'x) \<Rightarrow> ('s, 'e, 'k, amount) column \<Rightarrow> 'k \<Rightarrow> signed_amount \<Rightarrow>
     ('s, 'x failure, 'k \<times> signed_amount) op" where
  "merge_balance_entry ve we acc col k delta =
     bindS (store_get ve col k) (\<lambda>v.
     let balance = (case v of None \<Rightarrow> amount_zero | Some b \<Rightarrow> b) in
     bindS (liftS (map_err (Fail \<circ> acc) (combine_amount_delta balance (Some delta)))) (\<lambda>result.
     bindS (if result > amount_zero then store_set we col k result else store_delete we col k) (\<lambda>_.
     bindS (liftS (ok_or (signed_neg delta) Panic)) (\<lambda>balance_undo.
     returnS (k, balance_undo)))))"

definition merge_balances_generic ::
    "'x \<Rightarrow> 'x \<Rightarrow> (accounting_error \<Rightarrow> 'x) \<Rightarrow> ('s, 'e, 'k::linorder, amount) column \<Rightarrow>
     'k delta_amount_collection \<Rightarrow> ('s, 'x failure, 'k delta_amount_collection) op" where
  "merge_balances_generic ve we acc col delta =
     bindS (mapS (\<lambda>(k, d). merge_balance_entry ve we acc col k d) (btree_iter delta))
       (\<lambda>undo. returnS (btree_of_list undo))"

text \<open>A balance column read with \<open>unwrap_or(Amount::ZERO)\<close>, as the database views read it.\<close>

definition col_balance :: "('s, 'e, 'k, amount) column \<Rightarrow> 's \<Rightarrow> 'k \<Rightarrow> 'e + amount" where
  "col_balance col s k =
     and_then (col_get col s k) (\<lambda>v. Ok (case v of None \<Rightarrow> amount_zero | Some b \<Rightarrow> b))"

text \<open>A column kept in a \<open>BTreeMap\<close> field of an in-memory store.\<close>

definition map_column ::
    "('s \<Rightarrow> ('k, 'v) btree_map) \<Rightarrow> (('k, 'v) btree_map \<Rightarrow> 's \<Rightarrow> 's) \<Rightarrow> ('s, 'e, 'k, 'v) column" where
  "map_column get put =
     \<lparr>col_get = (\<lambda>s k. Ok (fmlookup (get s) k)),
      col_set = (\<lambda>k v. modifyS (\<lambda>s. put (fmupd k v (get s)) s)),
      col_del = (\<lambda>k. modifyS (\<lambda>s. put (fmdrop k (get s)) s))\<rparr>"

section \<open>The laws of a column\<close>

text \<open>
  What the merging loops rely on: a value written is the value read back, and only that key changes.
  A column may fail; a reliable one does not. Two columns of a store are independent when writing one
  leaves what is read of the other.
\<close>

locale kv_column =
  fixes col :: "('s, 'e, 'k::linorder, 'v) column"
  assumes get_set: "col_set col k v s = (Inr u, t) \<Longrightarrow>
      col_get col t j = (if j = k then Inr (Some v) else col_get col s j)"
    and get_del: "col_del col k s = (Inr u, t) \<Longrightarrow>
      col_get col t j = (if j = k then Inr None else col_get col s j)"

locale reliable_column = kv_column +
  assumes get_ok: "\<exists>v. col_get col s k = Inr v"
    and set_ok: "\<exists>t. col_set col k v s = (Inr (), t)"
    and del_ok: "\<exists>t. col_del col k s = (Inr (), t)"

locale column_frame =
  fixes col :: "('s, 'e, 'k::linorder, 'v) column" and other :: "('s, 'f, 'j, 'w) column"
  assumes set_frame: "col_set col k v s = (r, t) \<Longrightarrow> col_get other t j = col_get other s j"
    and del_frame: "col_del col k s = (r, t) \<Longrightarrow> col_get other t j = col_get other s j"

text \<open>What merging a delta makes of the cell of a column (\<open>None\<close>: it fails).\<close>

definition data_cell :: "'e + 'v option \<Rightarrow> 'v data_delta \<Rightarrow> ('e + 'v option) option" where
  "data_cell v d = (case v of
      Inl _ \<Rightarrow> None
    | Inr x \<Rightarrow> if x = delta_old d then Some (Inr (delta_new d)) else None)"

definition balance_cell :: "'e + amount \<Rightarrow> signed_amount \<Rightarrow> ('e + amount) option" where
  "balance_cell v d = (case v of
      Inl _ \<Rightarrow> None
    | Inr a \<Rightarrow> (case combine_amount_delta a (Some d) of Inl _ \<Rightarrow> None | Inr b \<Rightarrow> Some (Inr b)))"

lemmas store_op_defs = store_get_def store_set_def store_delete_def

lemma combine_amount_delta_negatable:
  assumes "combine_amount_delta a (Some d) = Inr r"
  shows "\<exists>n. signed_neg d = Some n"
proof (cases "signed_neg d")
  case None
  with assms show ?thesis
    using uint_ge_0 [of r] by (auto simp: checked_simps result_simps in_signed_def)
qed simp

lemma balance_cell_Some [result_simps]:
  "balance_cell v d = Some w \<longleftrightarrow>
     (\<exists>a b. v = Inr a \<and> w = Inr b \<and> in_i128 (uint a) \<and> in_i128 (uint b) \<and> uint b = uint a + sval d)"
  unfolding combine_amount_delta_Ok [symmetric]
  by (auto simp: balance_cell_def split: sum.splits)

lemma data_cell_Some [result_simps]:
  "data_cell v d = Some w \<longleftrightarrow> v = Inr (delta_old d) \<and> w = Inr (delta_new d)"
  by (auto simp: data_cell_def split: sum.splits if_splits)

lemma merge_balance_entry_no_panic: "merge_balance_entry ve we acc col k d s \<noteq> (Inl Panic, t)"
proof
  assume "merge_balance_entry ve we acc col k d s = (Inl Panic, t)"
  then obtain a r where "combine_amount_delta a (Some d) = Inr r" "signed_neg d = None"
    by (auto simp: merge_balance_entry_def store_op_defs op_simps result_simps Let_def
        simp del: combine_amount_delta_Ok split: if_splits)
  with combine_amount_delta_negatable show False by fastforce
qed

lemma merge_balances_generic_no_panic:
  "merge_balances_generic ve we acc col delta s \<noteq> (Inl Panic, t)"
proof
  assume "merge_balances_generic ve we acc col delta s = (Inl Panic, t)"
  then have "mapS (\<lambda>(k, d). merge_balance_entry ve we acc col k d) (btree_iter delta) s = (Inl Panic, t)"
    by (auto simp: merge_balances_generic_def op_simps)
  from mapS_Inl [OF this] show False by (auto simp: merge_balance_entry_no_panic)
qed

lemma merge_data_generic_no_panic:
  "merge_data_generic ve we acc col delta s \<noteq> (Inl Panic, t)"
proof
  assume "merge_data_generic ve we acc col delta s = (Inl Panic, t)"
  then have "mapS (\<lambda>(k, d). merge_data_entry ve we acc col k d) (btree_iter delta) s = (Inl Panic, t)"
    by (auto simp: merge_data_generic_def op_simps)
  from mapS_Inl [OF this] show False
    by (auto simp: merge_data_entry_def store_op_defs op_simps result_simps split: option.splits)
qed

context kv_column
begin

lemma data_entry_keyed:
  "keyed_step (merge_data_entry ve we acc col) (col_get col) (\<lambda>_. data_cell) (\<lambda>k _ d. (k, invert d))"
  by unfold_locales
    (auto simp: merge_data_entry_def store_op_defs op_simps result_simps get_set get_del
      split: option.splits)

lemma undo_data_entry_keyed:
  "keyed_step (undo_merge_data_entry ve we acc col) (col_get col)
     (\<lambda>_ v u. data_cell v (as_delta u)) (\<lambda>_ _ _. ())"
  by unfold_locales
    (auto simp: undo_merge_data_entry_def store_op_defs op_simps result_simps get_set get_del
      split: option.splits)

lemma merge_data_generic_ok:
  assumes "merge_data_generic ve we acc col delta s = (Inr u, t)"
  shows "u = fmmap invert delta"
    and "fmlookup delta k = None \<Longrightarrow> col_get col t k = col_get col s k"
    and "fmlookup delta k = Some d \<Longrightarrow> col_get col s k = Inr (delta_old d)"
    and "fmlookup delta k = Some d \<Longrightarrow> col_get col t k = Inr (delta_new d)"
  using assms keyed_step.iter_ok [OF data_entry_keyed, of ve we acc delta s _ t]
  by (auto simp: merge_data_generic_def op_simps result_simps btree_of_list_map_iter)

lemma undo_merge_data_generic_ok:
  assumes "undo_merge_data_generic ve we acc col undo s = (Inr u, t)"
  shows "fmlookup undo k = None \<Longrightarrow> col_get col t k = col_get col s k"
    and "fmlookup undo k = Some d \<Longrightarrow> col_get col s k = Inr (delta_old (as_delta d))"
    and "fmlookup undo k = Some d \<Longrightarrow> col_get col t k = Inr (delta_new (as_delta d))"
  using assms keyed_step.iter_ok [OF undo_data_entry_keyed, of ve we acc undo s _ t]
  by (auto simp: undo_merge_data_generic_def try_for_each_Inr result_simps)

end

context reliable_column
begin

lemma store_ops_total:
  "\<exists>v. col_get col s k = Inr v" "\<exists>t. col_set col k v s = (Inr (), t)" "\<exists>t. col_del col k s = (Inr (), t)"
  by (rule get_ok set_ok del_ok)+

lemma data_entry_progress:
  "keyed_progress (merge_data_entry ve we acc col) (col_get col) (\<lambda>_. data_cell) (\<lambda>k _ d. (k, invert d))"
proof (intro keyed_progress.intro data_entry_keyed keyed_progress_axioms.intro)
  fix k s d v
  assume "data_cell (col_get col s k) d = Some v"
  then have "col_get col s k = Inr (delta_old d)" by (simp add: result_simps)
  then show "\<exists>y t. merge_data_entry ve we acc col k d s = (Inr y, t)"
    using set_ok [of k _ s] del_ok [of k s]
    by (cases "delta_new d") (auto simp: merge_data_entry_def store_op_defs op_simps result_simps)
qed

lemma undo_data_entry_progress:
  "keyed_progress (undo_merge_data_entry ve we acc col) (col_get col)
     (\<lambda>_ v u. data_cell v (as_delta u)) (\<lambda>_ _ _. ())"
proof (intro keyed_progress.intro undo_data_entry_keyed keyed_progress_axioms.intro)
  fix k s d v
  assume "data_cell (col_get col s k) (as_delta d) = Some v"
  then have "col_get col s k = Inr (delta_old (as_delta d))" by (simp add: result_simps)
  then show "\<exists>y t. undo_merge_data_entry ve we acc col k d s = (Inr y, t)"
    using set_ok [of k _ s] del_ok [of k s]
    by (cases "delta_new (as_delta d)") (auto simp: undo_merge_data_entry_def store_op_defs op_simps result_simps)
qed

lemma merge_data_generic_progress:
  assumes "\<And>k d. fmlookup delta k = Some d \<Longrightarrow> col_get col s k = Inr (delta_old d)"
  shows "\<exists>t. merge_data_generic ve we acc col delta s = (Inr (fmmap invert delta), t)"
  using keyed_progress.iter_progress [OF data_entry_progress, of delta s ve we acc] assms
  by (auto simp: merge_data_generic_def op_simps result_simps btree_of_list_map_iter)

lemma undo_merge_data_generic_progress:
  assumes "\<And>k d. fmlookup undo k = Some d \<Longrightarrow> col_get col s k = Inr (delta_old (as_delta d))"
  shows "\<exists>t. undo_merge_data_generic ve we acc col undo s = (Inr (), t)"
  using keyed_progress.iter_progress [OF undo_data_entry_progress, of undo s ve we acc] assms
  by (auto simp: undo_merge_data_generic_def try_for_each_Inr result_simps)

end

locale balance_column = kv_column col for col :: "('s, 'e, 'k::linorder, amount) column"

context balance_column
begin

lemma col_balance_set:
  "col_set col k v s = (Inr u, t) \<Longrightarrow> col_balance col t j = (if j = k then Inr v else col_balance col s j)"
  by (simp add: col_balance_def get_set and_then_def)

lemma col_balance_del:
  "col_del col k s = (Inr u, t) \<Longrightarrow> col_balance col t j = (if j = k then Inr 0 else col_balance col s j)"
  by (simp add: col_balance_def get_del and_then_def amount_zero_def)

lemma balance_entry_keyed:
  "keyed_step (merge_balance_entry ve we acc col) (col_balance col) (\<lambda>_. balance_cell)
     (\<lambda>k _ d. (k, the (signed_neg d)))"
proof
  fix k d s y t
  assume "merge_balance_entry ve we acc col k d s = (Inr y, t)"
  then obtain a r n where st: "col_balance col s k = Inr a" "combine_amount_delta a (Some d) = Inr r"
      "signed_neg d = Some n" "y = (k, n)"
      "if r > 0 then col_set col k r s = (Inr (), t) else col_del col k s = (Inr (), t)"
    by (auto simp: merge_balance_entry_def store_op_defs op_simps result_simps Let_def col_balance_def
        amount_zero_def and_then_def simp del: combine_amount_delta_Ok split: if_splits)
  then have "col_balance col t j = (if j = k then Inr r else col_balance col s j)" for j
    by (auto simp: col_balance_set col_balance_del word_gt_0 split: if_splits)
  with st show "balance_cell (col_balance col s k) d = Some (col_balance col t k) \<and>
      (\<forall>j. j \<noteq> k \<longrightarrow> col_balance col t j = col_balance col s j) \<and> y = (k, the (signed_neg d))"
    by (simp add: balance_cell_def)
qed

lemma merge_balances_generic_ok:
  assumes "merge_balances_generic ve we acc col delta s = (Inr u, t)"
  shows "u = fmmap (\<lambda>d. the (signed_neg d)) delta"
    and "fmlookup delta k = None \<Longrightarrow> col_balance col t k = col_balance col s k"
    and "fmlookup delta k = Some d \<Longrightarrow> balance_cell (col_balance col s k) d = Some (col_balance col t k)"
  using assms keyed_step.iter_ok [OF balance_entry_keyed, of ve we acc delta s _ t]
  by (auto simp: merge_balances_generic_def op_simps btree_of_list_map_iter)

end

locale reliable_balance_column = balance_column col + reliable_column col
  for col :: "('s, 'e, 'k::linorder, amount) column"

context reliable_balance_column
begin

lemma balance_entry_progress:
  "keyed_progress (merge_balance_entry ve we acc col) (col_balance col) (\<lambda>_. balance_cell)
     (\<lambda>k _ d. (k, the (signed_neg d)))"
proof (intro keyed_progress.intro balance_entry_keyed keyed_progress_axioms.intro)
  fix k s d v
  assume "balance_cell (col_balance col s k) d = Some v"
  then obtain a r where a: "col_balance col s k = Inr a" "combine_amount_delta a (Some d) = Inr r"
    by (auto simp: balance_cell_def split: sum.splits)
  moreover from a(2) obtain n where "signed_neg d = Some n" using combine_amount_delta_negatable by blast
  moreover obtain t1 t2 where "col_set col k r s = (Inr (), t1)" "col_del col k s = (Inr (), t2)"
    using set_ok del_ok by metis
  ultimately have "merge_balance_entry ve we acc col k d s = (Inr (k, n), if 0 < r then t1 else t2)"
    by (auto simp: merge_balance_entry_def store_op_defs col_balance_def bindS_def map_errS_def
        readS_def liftS_def returnS_def ok_or_def map_err_def amount_zero_def and_then_def Let_def
        split: sum.splits)
  then show "\<exists>y t. merge_balance_entry ve we acc col k d s = (Inr y, t)" by blast
qed

lemma merge_balances_generic_progress:
  assumes "\<And>k d. fmlookup delta k = Some d \<Longrightarrow> \<exists>v. balance_cell (col_balance col s k) d = Some v"
  shows "\<exists>t. merge_balances_generic ve we acc col delta s =
     (Inr (fmmap (\<lambda>d. the (signed_neg d)) delta), t)"
  using keyed_progress.iter_progress [OF balance_entry_progress, of delta s ve we acc] assms
  by (auto simp: merge_balances_generic_def op_simps btree_of_list_map_iter)

end

context column_frame
begin

lemma frame_entries:
  assumes "col_get other s j = v"
  shows "merge_data_entry ve we acc col k d s = (r, t) \<Longrightarrow> col_get other t j = v"
    and "undo_merge_data_entry ve we acc col k u s = (q, t) \<Longrightarrow> col_get other t j = v"
  using assms set_frame del_frame
  by (auto simp: merge_data_entry_def undo_merge_data_entry_def store_op_defs bindS_def map_errS_def
      readS_def liftS_def returnS_def Let_def split: prod.splits sum.splits option.splits)

lemma merge_data_generic_frame:
  assumes "merge_data_generic ve we acc col delta s = (r, t)"
  shows "col_get other t j = col_get other s j"
proof -
  obtain q where "mapS (\<lambda>(k, d). merge_data_entry ve we acc col k d) (btree_iter delta) s = (q, t)"
    using assms by (auto simp: merge_data_generic_def bindS_def returnS_def split: prod.splits sum.splits)
  then show ?thesis
    by (rule mapS_invariant [where I = "\<lambda>t. col_get other t j = col_get other s j"])
      (auto dest: frame_entries)
qed

lemma undo_merge_data_generic_frame:
  assumes "undo_merge_data_generic ve we acc col undo s = (r, t)"
  shows "col_get other t j = col_get other s j"
  using assms unfolding undo_merge_data_generic_def
  by (rule try_for_each_invariant [where I = "\<lambda>t. col_get other t j = col_get other s j"])
    (auto dest: frame_entries)

end

locale balance_frame = column_frame col other
  for col :: "('s, 'e, 'k::linorder, amount) column" and other :: "('s, 'f, 'j, 'w) column"

context balance_frame
begin

lemma frame_balance_entry:
  assumes "col_get other s j = v"
  shows "merge_balance_entry ve we acc col k d s = (r, t) \<Longrightarrow> col_get other t j = v"
  using assms set_frame del_frame
  by (auto simp: merge_balance_entry_def store_op_defs bindS_def map_errS_def
      readS_def liftS_def returnS_def Let_def split: prod.splits sum.splits if_splits)

lemma merge_balances_generic_frame:
  assumes "merge_balances_generic ve we acc col delta s = (r, t)"
  shows "col_get other t j = col_get other s j"
proof -
  obtain q where "mapS (\<lambda>(k, d). merge_balance_entry ve we acc col k d) (btree_iter delta) s = (q, t)"
    using assms by (auto simp: merge_balances_generic_def bindS_def returnS_def split: prod.splits sum.splits)
  then show ?thesis
    by (rule mapS_invariant [where I = "\<lambda>t. col_get other t j = col_get other s j"])
      (auto dest: frame_balance_entry)
qed

end

section \<open>In-memory columns keep the laws\<close>

lemma map_column_reliable:
  assumes "\<And>m s. get (put m s) = m"
  shows "reliable_column (map_column get put)"
  by unfold_locales (auto simp: map_column_def op_simps assms)

lemma map_column_frame:
  assumes "\<And>m s. get' (put m s) = get' s"
  shows "column_frame (map_column get put) (map_column get' put')"
  by unfold_locales (auto simp: map_column_def op_simps assms)

end
