(* ===== verification/Cached_Views.thy ===== *)
theory Cached_Views
  imports Storage_Columns
begin

text \<open>
  What the caches of the three accounting crates have in common: data and balances read through a
  collection of deltas over the reads of a parent. A collection is coherent with the parent when every
  data delta starts from what the parent holds. Merging the deltas of a child into a coherent cache, and
  merging the deltas of a cache into a reliable column of a store, keeps what is read.
\<close>

section \<open>Reads through deltas\<close>

definition cached_data :: "('k \<Rightarrow> 'e + 't option) \<Rightarrow> ('k, 't) delta_data_collection \<Rightarrow> 'k \<Rightarrow> 'e + 't option" where
  "cached_data p m k = (case fmlookup m k of Some d \<Rightarrow> Inr (delta_new d) | None \<Rightarrow> p k)"

definition data_coherent :: "('k \<Rightarrow> 'e + 't option) \<Rightarrow> ('k, 't) delta_data_collection \<Rightarrow> bool" where
  "data_coherent p m \<longleftrightarrow> fmpred (\<lambda>k d. p k = Inr (delta_old d)) m"

definition cached_balance ::
    "(accounting_error \<Rightarrow> 'e) \<Rightarrow> ('k \<Rightarrow> 'e + amount) \<Rightarrow> 'k delta_amount_collection \<Rightarrow> 'k \<Rightarrow> 'e + amount" where
  "cached_balance acc p m k = and_then (p k) (\<lambda>b. map_err acc (combine_amount_delta b (fmlookup m k)))"

lemma data_coherentD: "data_coherent p m \<Longrightarrow> fmlookup m k = Some d \<Longrightarrow> p k = Inr (delta_old d)"
  by (auto simp: data_coherent_def dest: fmpredD)

lemma data_coherentI: "(\<And>k d. fmlookup m k = Some d \<Longrightarrow> p k = Inr (delta_old d)) \<Longrightarrow> data_coherent p m"
  by (auto simp: data_coherent_def intro: fmpredI)

lemma data_coherent_empty [simp]: "data_coherent p fmempty"
  by (simp add: data_coherent_def)

lemma cached_data_empty [simp]: "cached_data p fmempty = p"
  by (simp add: cached_data_def fun_eq_iff)

lemma cached_balance_Ok:
  "cached_balance acc p m k = Inr a \<longleftrightarrow> (\<exists>b. p k = Inr b \<and> bal_reads b m k a)"
  by (simp add: cached_balance_def bal_reads_def and_then_eq map_err_eq)

lemma cached_balance_empty [simp]: "cached_balance acc p fmempty = p"
  by (auto simp: cached_balance_def and_then_def map_err_def fun_eq_iff split: sum.splits)

lemma cached_balance_other:
  "fmlookup m' k = fmlookup m k \<Longrightarrow> cached_balance acc p m' k = cached_balance acc p m k"
  by (simp add: cached_balance_def)

text \<open>Writing one datum: the entry keeps the old value of the parent and takes the new one.\<close>

definition put_delta ::
    "'k \<Rightarrow> 't option \<Rightarrow> 't option \<Rightarrow> ('k, 't) delta_data_collection \<Rightarrow> ('k, 't) delta_data_collection" where
  "put_delta k x y m = fmupd k (new_delta (case fmlookup m k of None \<Rightarrow> x | Some e \<Rightarrow> delta_old e) y) m"

lemma cached_data_put [simp]: "cached_data p (put_delta k x y m) = (cached_data p m)(k := Inr y)"
  by (auto simp: cached_data_def put_delta_def fun_eq_iff)

lemma data_coherent_put:
  "data_coherent p m \<Longrightarrow> cached_data p m k = Inr x \<Longrightarrow> data_coherent p (put_delta k x y m)"
  using data_coherentD [of p m]
  by (intro data_coherentI) (auto simp: put_delta_def cached_data_def split: option.splits if_splits)

lemma merge_delta_data_element_read:
  "cached_data p m k = Inr x \<Longrightarrow>
     merge_delta_data_element k (new_delta x y) m = (Inr (invert (new_delta x y)), put_delta k x y m)"
  by (auto simp: merge_delta_data_element_eq merge_cell_def cached_data_def put_delta_def new_delta_def
      split: option.splits)

lemma undo_merge_delta_data_element_read:
  "cached_data p m k = Inr y \<Longrightarrow>
     undo_merge_delta_data_element k (invert (new_delta x y)) m = (Inr (), put_delta k y x m)"
  using merge_delta_data_element_read [of p m k y x]
  by (auto simp: undo_merge_delta_data_element_def bindS_def returnS_def split: prod.splits sum.splits)

section \<open>Balances through add and sub\<close>

lemma add_unsigned_no_zero: "add_unsigned k a m = (r, m') \<Longrightarrow> no_zero_deltas m \<Longrightarrow> no_zero_deltas m'"
  by (cases r) (auto dest: add_unsigned_Ok add_unsigned_Err)

lemma sub_unsigned_no_zero: "sub_unsigned k a m = (r, m') \<Longrightarrow> no_zero_deltas m \<Longrightarrow> no_zero_deltas m'"
  by (cases r) (auto dest: sub_unsigned_Ok sub_unsigned_Err)

lemma cached_balance_add:
  assumes "cached_balance acc p m k = Inr s" and "add_unsigned k a m = (Inr u, m')" and "in_i128 (uint s + uint a)"
  shows "cached_balance acc p m' = (cached_balance acc p m)(k := Inr (s + a))"
proof
  fix j
  show "cached_balance acc p m' j = ((cached_balance acc p m)(k := Inr (s + a))) j"
    using assms add_unsigned_Ok [OF assms(2)] bal_reads_add [OF _ assms(2,3)]
    by (cases "j = k") (auto simp: cached_balance_Ok intro!: cached_balance_other)
qed

lemma cached_balance_sub:
  assumes "cached_balance acc p m k = Inr s" and "sub_unsigned k a m = (Inr u, m')" and "in_i128 (uint s)"
    and "a \<le> s"
  shows "cached_balance acc p m' = (cached_balance acc p m)(k := Inr (s - a))"
proof
  fix j
  show "cached_balance acc p m' j = ((cached_balance acc p m)(k := Inr (s - a))) j"
    using assms sub_unsigned_Ok [OF assms(2)] bal_reads_sub [OF _ assms(2,3,4)]
    by (cases "j = k") (auto simp: cached_balance_Ok intro!: cached_balance_other)
qed

lemma cached_balance_add_ok:
  "cached_balance acc p m k = Inr s \<Longrightarrow> in_i128 (uint s + uint a) \<Longrightarrow> \<exists>m'. add_unsigned k a m = (Inr (), m')"
  by (auto simp: cached_balance_Ok dest: bal_add_ok)

lemma cached_balance_sub_ok:
  "cached_balance acc p m k = Inr s \<Longrightarrow> in_i128 (uint s) \<Longrightarrow> a \<le> s \<Longrightarrow> \<exists>m'. sub_unsigned k a m = (Inr (), m')"
  by (auto simp: cached_balance_Ok dest: bal_sub_ok)

section \<open>Balances as numbers\<close>

text \<open>The balance of a key below and above a collection of deltas, in the integers.\<close>

definition total_at :: "('k \<Rightarrow> 'e + amount) \<Rightarrow> 'k delta_amount_collection \<Rightarrow> 'k \<Rightarrow> int" where
  "total_at p m k = uint (projr (p k)) + delta_at m k"

lemma cached_balance_total: "cached_balance acc p m k = Inr a \<Longrightarrow> uint a = total_at p m k"
  by (auto simp: cached_balance_Ok bal_reads_iff total_at_def)

lemma total_at_add:
  "add_unsigned k a m = (Inr u, m') \<Longrightarrow> total_at p m' = (total_at p m)(k := total_at p m k + uint a)"
  by (auto simp: total_at_def fun_eq_iff dest!: add_unsigned_Ok intro: delta_at_other)

lemma total_at_sub:
  "sub_unsigned k a m = (Inr u, m') \<Longrightarrow> total_at p m' = (total_at p m)(k := total_at p m k - uint a)"
  by (auto simp: total_at_def fun_eq_iff dest!: sub_unsigned_Ok intro: delta_at_other)

section \<open>Merging a child into its parent\<close>

lemma merge_delta_data_coherent:
  assumes "data_coherent p m" and "data_coherent (cached_data p m) d"
  shows "\<exists>m'. merge_delta_data d m = (Inr (fmmap invert d), m') \<and> data_coherent p m' \<and>
    cached_data p m' = cached_data (cached_data p m) d"
proof -
  have "merge_fits m d"
    unfolding merge_fits_def
    by (rule fmpredI, drule data_coherentD [OF assms(2)])
      (auto simp: merge_cell_def cached_data_def split: option.splits)
  then obtain m' where m': "merge_delta_data d m = (Inr (fmmap invert d), m')"
    using merge_delta_data_progress by blast
  note cells = merge_delta_data_ok(2,3) [OF m']
  have "(\<forall>e. fmlookup m' k = Some e \<longrightarrow> p k = Inr (delta_old e)) \<and>
      cached_data p m' k = cached_data (cached_data p m) d k" for k
    using cells [of k] data_coherentD [OF assms(1), of k] data_coherentD [OF assms(2), of k]
    by (cases "fmlookup d k"; cases "fmlookup m k")
      (auto simp: merge_cell_def cached_data_def split: if_splits)
  with m' show ?thesis by (auto intro: data_coherentI)
qed

lemma undo_merge_delta_data_coherent:
  assumes "data_coherent p m" and "data_coherent (cached_data p m) d" and "merge_delta_data d m = (Inr u, m')"
  shows "\<exists>m2. undo_merge_delta_data u m' = (Inr (), m2) \<and> data_coherent p m2 \<and> cached_data p m2 = cached_data p m"
proof -
  obtain n where "merge_delta_data d m = (Inr (fmmap invert d), n)" "data_coherent p n"
      "cached_data p n = cached_data (cached_data p m) d"
    using merge_delta_data_coherent [OF assms(1,2)] by blast
  with assms(3) have m': "u = fmmap invert d" "data_coherent p m'"
      "cached_data p m' = cached_data (cached_data p m) d" by simp_all
  let ?d = "fmmap as_delta u"
  have look: "cached_data p m' k = Inr (delta_new x) \<and> cached_data p m k = Inr (delta_old x)"
    if "fmlookup d k = Some x" for k x
    using that data_coherentD [OF assms(2) that] by (simp add: m'(3) cached_data_def)
  have "merge_fits m' ?d"
    unfolding merge_fits_def
  proof (rule fmpredI)
    fix k y
    assume "fmlookup ?d k = Some y"
    then obtain x where "fmlookup d k = Some x" "y = new_delta (delta_new x) (delta_old x)"
      by (auto simp: m'(1))
    then show "merge_cell (fmlookup m' k) y \<noteq> None"
      using look [of k x] by (auto simp: merge_cell_def cached_data_def split: option.splits)
  qed
  then obtain m2 where m2: "undo_merge_delta_data u m' = (Inr (), m2)"
    using undo_merge_delta_data_progress by blast
  have "(\<forall>e. fmlookup m2 k = Some e \<longrightarrow> p k = Inr (delta_old e)) \<and> cached_data p m2 k = cached_data p m k" for k
  proof (cases "fmlookup d k")
    case None
    with undo_merge_delta_data_ok(1) [OF m2, of k] m'(3) data_coherentD [OF m'(2), of k] show ?thesis
      by (auto simp: m'(1) cached_data_def fun_eq_iff split: option.splits dest!: spec [of _ k])
  next
    case (Some x)
    with undo_merge_delta_data_ok(2) [OF m2, of k "invert x"] look [OF Some] data_coherentD [OF m'(2), of k]
    show ?thesis by (auto simp: m'(1) merge_cell_def cached_data_def split: option.splits if_splits)
  qed
  with m2 show ?thesis by (auto intro: data_coherentI)
qed

lemma delta_at_None [simp]: "fmlookup m k = None \<Longrightarrow> delta_at m k = 0"
  by (simp add: delta_at_def)

lemma no_zero_deltas_at: "no_zero_deltas m \<Longrightarrow> delta_at m k = 0 \<Longrightarrow> fmlookup m k = None"
  by (cases "fmlookup m k") (auto simp: delta_at_def no_zero_deltas_def dest: fmpredD)

lemma bal_reads_stack:
  assumes "bal_reads p m k q" and "bal_reads q d k a"
    and "delta_at m' k = delta_at m k + delta_at d k" and "no_zero_deltas m'"
  shows "bal_reads p m' k a"
proof (cases "fmlookup d k = None")
  case True
  then have "q = a" "delta_at m' k = delta_at m k" using assms(2,3) by (simp_all add: bal_reads_def)
  moreover have "fmlookup m k = None \<Longrightarrow> fmlookup m' k = None"
    using calculation(2) no_zero_deltas_at [OF assms(4)] by simp
  ultimately show ?thesis using assms(1) unfolding bal_reads_iff by metis
next
  case False
  then have a: "uint a = uint q + delta_at d k" "in_i128 (uint q)" "in_i128 (uint a)"
    using assms(2) False unfolding bal_reads_iff by blast+
  have "uint q = uint p + delta_at m k" "in_i128 (uint p)"
    using assms(1) a(2) by (auto simp: bal_reads_iff word_uint_eq_iff)
  with a assms(3) show ?thesis by (simp add: bal_reads_iff)
qed

lemma bal_reads_stack_in_range:
  assumes "bal_reads p m k q" and "bal_reads q d k a"
  shows "in_i128 (delta_at m k + delta_at d k)"
proof (cases "fmlookup m k = None \<or> fmlookup d k = None")
  case True
  then show ?thesis by auto
next
  case False
  with assms have "in_i128 (uint p)" "in_i128 (uint a)" "delta_at m k + delta_at d k = uint a - uint p"
    by (auto simp: bal_reads_iff)
  then show ?thesis by (simp add: in_i128_diff)
qed

lemma merge_delta_amounts_stack:
  assumes "\<And>k. \<exists>a. cached_balance acc' (cached_balance acc p m) d k = Inr a" and "no_zero_deltas m"
  shows "\<exists>m'. merge_delta_amounts d m = (Inr (), m') \<and> no_zero_deltas m' \<and>
    cached_balance acc p m' = cached_balance acc' (cached_balance acc p m) d"
proof -
  have reads: "\<exists>b q a. p k = Inr b \<and> bal_reads b m k q \<and> bal_reads q d k a" for k
    using assms(1) [of k] by (auto simp: cached_balance_Ok)
  then have "in_i128 (delta_at m k + delta_at d k)" for k
    using bal_reads_stack_in_range by meson
  then obtain m' where m': "merge_delta_amounts d m = (Inr (), m')"
    using merge_delta_amounts_progress by blast
  have nz: "no_zero_deltas m'" by (rule merge_delta_amounts_no_zero [OF m' assms(2)])
  have "cached_balance acc p m' k = cached_balance acc' (cached_balance acc p m) d k" for k
  proof -
    obtain b q a where r: "p k = Inr b" "bal_reads b m k q" "bal_reads q d k a" using reads by blast
    then have "cached_balance acc' (cached_balance acc p m) d k = Inr a"
      by (auto simp: cached_balance_Ok)
    moreover have "cached_balance acc p m' k = Inr a"
      using bal_reads_stack [OF r(2,3) merge_delta_amounts_ok [OF m'] nz] r(1) by (auto simp: cached_balance_Ok)
    ultimately show ?thesis by simp
  qed
  with m' nz show ?thesis by (auto simp: fun_eq_iff)
qed

section \<open>Merging a cache into a column\<close>

context reliable_column
begin

lemma flush_data:
  assumes "data_coherent (col_get col s) delta"
  shows "\<exists>t. merge_data_generic ve we acc col delta s = (Inr (fmmap invert delta), t) \<and>
    col_get col t = cached_data (col_get col s) delta"
proof -
  obtain t where t: "merge_data_generic ve we acc col delta s = (Inr (fmmap invert delta), t)"
    using merge_data_generic_progress [of delta s ve we acc] data_coherentD [OF assms] by auto
  have "col_get col t = cached_data (col_get col s) delta"
    using merge_data_generic_ok(2,4) [OF t] by (auto simp: cached_data_def fun_eq_iff split: option.splits)
  with t show ?thesis by blast
qed

lemma undo_flush_data:
  assumes "data_coherent old delta" and "col_get col t = cached_data old delta"
  shows "\<exists>t'. undo_merge_data_generic ve we acc col (fmmap invert delta) t = (Inr (), t') \<and>
    col_get col t' = old"
proof -
  have "\<exists>t'. undo_merge_data_generic ve we acc col (fmmap invert delta) t = (Inr (), t')"
    by (rule undo_merge_data_generic_progress) (auto simp: assms(2) cached_data_def)
  then obtain t' where t': "undo_merge_data_generic ve we acc col (fmmap invert delta) t = (Inr (), t')" ..
  have "col_get col t' k = old k" for k
    using undo_merge_data_generic_ok [OF t', of k] data_coherentD [OF assms(1), of k]
    by (cases "fmlookup delta k") (auto simp: assms(2) cached_data_def)
  with t' show ?thesis by (auto simp: fun_eq_iff)
qed

end

context reliable_balance_column
begin

lemma balance_ok: "\<exists>a. col_balance col s k = Inr a"
  using get_ok [of s k] by (auto simp: col_balance_def and_then_def)

lemma flush_balances:
  assumes "\<And>k. \<exists>a. cached_balance acc' (\<lambda>k. map_err g (col_balance col s k)) delta k = Inr a"
  shows "\<exists>t. merge_balances_generic ve we acc col delta s = (Inr (fmmap (\<lambda>d. the (signed_neg d)) delta), t) \<and>
    (\<forall>k. map_err g (col_balance col t k) = cached_balance acc' (\<lambda>k. map_err g (col_balance col s k)) delta k)"
proof -
  have cell: "\<exists>v. balance_cell (col_balance col s k) d = Some v" if "fmlookup delta k = Some d" for k d
    using assms [of k] that by (auto simp: cached_balance_Ok result_simps bal_reads_def)
  obtain t where t: "merge_balances_generic ve we acc col delta s =
      (Inr (fmmap (\<lambda>d. the (signed_neg d)) delta), t)"
    using merge_balances_generic_progress [of delta s ve we acc] cell by blast
  have "map_err g (col_balance col t k) = cached_balance acc' (\<lambda>k. map_err g (col_balance col s k)) delta k" for k
  proof -
    obtain b where b: "col_balance col s k = Inr b" using balance_ok by blast
    with merge_balances_generic_ok(2,3) [OF t, of k] show ?thesis
      by (cases "fmlookup delta k")
        (auto simp: cached_balance_def and_then_def balance_cell_def map_err_def split: sum.splits)
  qed
  with t show ?thesis by blast
qed

lemma undo_flush_balances:
  assumes t: "merge_balances_generic ve we acc col delta s = (Inr u, t)"
    and same: "\<And>k. col_balance col t' k = col_balance col t k"
  shows "\<exists>t2. merge_balances_generic ve' we' acc' col u t' = (Inr delta, t2) \<and>
    (\<forall>k. col_balance col t2 k = col_balance col s k)"
proof -
  note ok = merge_balances_generic_ok [OF t]
  have cell: "\<exists>a b. col_balance col s k = Inr a \<and> col_balance col t k = Inr b \<and> in_i128 (uint a) \<and>
      in_i128 (uint b) \<and> uint b = uint a + sval d" if "fmlookup delta k = Some d" for k d
    using ok(3) [OF that] by (auto simp: result_simps)
  have neg: "\<exists>n. signed_neg d = Some n \<and> sval n = - sval d \<and> signed_neg n = Some d"
    if look: "fmlookup delta k = Some d" for k d
  proof -
    obtain a b :: amount where ab: "in_i128 (uint a)" "in_i128 (uint b)" "uint b = uint a + sval d"
      using cell [OF look] by auto
    then have "- sval d = uint a - uint b" by simp
    with in_i128_diff [OF ab(1,2)] have "in_i128 (- sval d)" by simp
    then obtain n where "sval n = - sval d" using sval_ex by blast
    then have "signed_neg d = Some n \<and> sval n = - sval d \<and> signed_neg n = Some d"
      by (simp add: checked_simps)
    then show ?thesis ..
  qed
  have revert: "\<exists>v. balance_cell (col_balance col t' k) n = Some v" if "fmlookup u k = Some n" for k n
  proof -
    from that ok(1) obtain d where d: "fmlookup delta k = Some d" "n = the (signed_neg d)" by auto
    with cell [OF d(1)] neg [OF d(1)] show ?thesis by (fastforce simp: result_simps same)
  qed
  have neg2: "fmmap (\<lambda>d. the (signed_neg d)) u = delta"
  proof (rule fmap_ext)
    show "fmlookup (fmmap (\<lambda>d. the (signed_neg d)) u) k = fmlookup delta k" for k
      using neg [of k] ok(1) by (cases "fmlookup delta k") auto
  qed
  obtain t2 where t2: "merge_balances_generic ve' we' acc' col u t' = (Inr delta, t2)"
    using merge_balances_generic_progress [of u t' ve' we' acc'] revert neg2 by auto
  have "col_balance col t2 k = col_balance col s k" for k
  proof (cases "fmlookup delta k")
    case None
    then have "fmlookup u k = None" using ok(1) by simp
    then show ?thesis using merge_balances_generic_ok(2) [OF t2] ok(2) [OF None] same by simp
  next
    case (Some d)
    then obtain n where n: "fmlookup u k = Some n" "sval n = - sval d" using neg [OF Some] ok(1) by fastforce
    show ?thesis using merge_balances_generic_ok(3) [OF t2 n(1)] cell [OF Some] n(2) same [of k]
      by (auto simp: result_simps word_uint_eq_iff)
  qed
  with t2 show ?thesis by blast
qed

end

end
