(* ===== verification/Tokens_Accounting.thy ===== *)
theory Tokens_Accounting
  imports Chain_Types Cached_Views
begin

text \<open>
  The \<open>tokens-accounting\<close> crate: the data of fungible tokens and the operations on it, in a cache of
  deltas over a parent view (\<open>cache.rs\<close>), and the database the deltas are flushed to
  (\<open>storage/db.rs\<close>) over an arbitrary store, with the in-memory store as the instance.
\<close>

section \<open>Token data\<close>

record fungible_token_data =
  ft_token_ticker :: "u8 list"
  ft_number_of_decimals :: u8
  ft_metadata_uri :: "u8 list"
  ft_total_supply :: token_total_supply
  ft_locked :: bool
  ft_frozen :: is_token_frozen
  ft_authority :: destination

datatype token_data = FungibleToken fungible_token_data

definition try_lock :: "fungible_token_data \<Rightarrow> fungible_token_data + fungible_token_data" where
  "try_lock d = (case ft_total_supply d of
      Fixed _ \<Rightarrow> Err d
    | Unlimited \<Rightarrow> Err d
    | Lockable \<Rightarrow> Ok (d\<lparr>ft_locked := True\<rparr>))"

definition is_frozen :: "fungible_token_data \<Rightarrow> bool" where
  "is_frozen d = (case ft_frozen d of NotFrozen _ \<Rightarrow> False | Frozen _ \<Rightarrow> True)"

definition can_be_frozen :: "fungible_token_data \<Rightarrow> bool" where
  "can_be_frozen d = (case ft_frozen d of
      NotFrozen freezable \<Rightarrow> (case freezable of NotFreezable \<Rightarrow> False | Freezable \<Rightarrow> True)
    | Frozen _ \<Rightarrow> False)"

definition can_be_unfrozen :: "fungible_token_data \<Rightarrow> bool" where
  "can_be_unfrozen d = (case ft_frozen d of
      NotFrozen _ \<Rightarrow> False
    | Frozen unfreezable \<Rightarrow> (case unfreezable of NotUnfreezable \<Rightarrow> False | Unfreezable \<Rightarrow> True))"

definition try_freeze ::
    "is_token_unfreezable \<Rightarrow> fungible_token_data \<Rightarrow> fungible_token_data + fungible_token_data" where
  "try_freeze unfreezable d =
     (if can_be_frozen d then Ok (d\<lparr>ft_frozen := Frozen unfreezable\<rparr>) else Err d)"

definition try_unfreeze :: "fungible_token_data \<Rightarrow> fungible_token_data + fungible_token_data" where
  "try_unfreeze d =
     (if can_be_unfrozen d then Ok (d\<lparr>ft_frozen := NotFrozen Freezable\<rparr>) else Err d)"

definition change_authority :: "destination \<Rightarrow> fungible_token_data \<Rightarrow> fungible_token_data" where
  "change_authority a d = d\<lparr>ft_authority := a\<rparr>"

definition change_metadata_uri :: "u8 list \<Rightarrow> fungible_token_data \<Rightarrow> fungible_token_data" where
  "change_metadata_uri u d = d\<lparr>ft_metadata_uri := u\<rparr>"

definition token_data_from_issuance :: "token_issuance \<Rightarrow> fungible_token_data" where
  "token_data_from_issuance i = (case i of TokenIssuanceV1 v \<Rightarrow>
     \<lparr>ft_token_ticker = iss_token_ticker v,
      ft_number_of_decimals = iss_number_of_decimals v,
      ft_metadata_uri = iss_metadata_uri v,
      ft_total_supply = iss_total_supply v,
      ft_locked = False,
      ft_frozen = NotFrozen (iss_is_freezable v),
      ft_authority = iss_authority v\<rparr>)"

section \<open>Deltas, views and errors\<close>

record tokens_delta_data =
  td_token_data :: "(token_id, token_data) delta_data_collection"
  td_circulating_supply :: "token_id delta_amount_collection"

record tokens_delta_undo_data =
  tdu_token_data :: "(token_id, token_data) delta_data_undo_collection"
  tdu_circulating_supply :: "token_id delta_amount_collection"

datatype tokens_error =
    TokensStorageError storage_error
  | TokensAccountingError accounting_error
  | TokenAlreadyExists token_id
  | TokenDataNotFound token_id
  | TokenDataNotFoundOnReversal token_id
  | MintExceedsSupplyLimit amount amount token_id
  | TokensAmountOverflow
  | CannotMintFromLockedSupply token_id
  | CannotMintFrozenToken token_id
  | CannotUnmintFromLockedSupply token_id
  | CannotUnmintFrozenToken token_id
  | NotEnoughCirculatingSupplyToUnmint amount amount token_id
  | SupplyIsAlreadyLocked token_id
  | CannotLockNotLockableSupply token_id
  | CannotLockFrozenToken token_id
  | CannotUnlockNotLockedSupplyOnReversal token_id
  | CannotUndoMintForLockedSupplyOnReversal token_id
  | CannotUndoUnmintForLockedSupplyOnReversal token_id
  | TokenIsAlreadyFrozen token_id
  | CannotFreezeNotFreezableToken token_id
  | CannotUnfreezeNotUnfreezableToken token_id
  | CannotUnfreezeTokenThatIsNotFrozen token_id
  | CannotUndoFreezeTokenThatIsNotFrozen token_id
  | CannotUndoUnfreezeTokenThatIsFrozen token_id
  | CannotChangeAuthorityForFrozenToken token_id
  | CannotUndoChangeAuthorityForFrozenToken token_id
  | InvariantErrorNonZeroSupplyForNonExistingToken
  | CannotChangeMetadataUriForFrozenToken token_id
  | CannotUndoChangeMetadataUriForFrozenToken token_id
  | TokensViewFail
  | TokensStorageWrite

text \<open>\<open>TokensAccountingView\<close>: the two queries a parent answers.\<close>

record 'e tokens_view =
  view_token_data :: "token_id \<Rightarrow> 'e + token_data option"
  view_circulating_supply :: "token_id \<Rightarrow> 'e + amount"

definition tokens_merge_with_delta ::
    "tokens_delta_data \<Rightarrow> (tokens_delta_data, tokens_error, tokens_delta_undo_data) op" where
  "tokens_merge_with_delta other =
     bindS (zoomS td_token_data (\<lambda>x. td_token_data_update (\<lambda>_. x))
       (map_errS TokensAccountingError (merge_delta_data (td_token_data other)))) (\<lambda>token_data_undo.
     bindS (zoomS td_circulating_supply (\<lambda>x. td_circulating_supply_update (\<lambda>_. x))
       (map_errS TokensAccountingError (merge_delta_amounts (td_circulating_supply other)))) (\<lambda>_.
     returnS \<lparr>tdu_token_data = token_data_undo,
              tdu_circulating_supply = td_circulating_supply other\<rparr>))"

section \<open>The cache\<close>

record 'e tokens_cache =
  tc_parent :: "'e tokens_view"
  tc_data :: tokens_delta_data

definition tokens_cache_new :: "'e tokens_view \<Rightarrow> 'e tokens_cache" where
  "tokens_cache_new p =
     \<lparr>tc_parent = p, tc_data = \<lparr>td_token_data = fmempty, td_circulating_supply = fmempty\<rparr>\<rparr>"

definition get_token_data :: "'e tokens_cache \<Rightarrow> token_id \<Rightarrow> tokens_error + token_data option" where
  "get_token_data c tid = (case get_data (td_token_data (tc_data c)) tid of
      Present d \<Rightarrow> Ok (Some d)
    | Deleted \<Rightarrow> Ok None
    | Missing \<Rightarrow> map_err (\<lambda>_. TokensViewFail) (view_token_data (tc_parent c) tid))"

definition get_circulating_supply :: "'e tokens_cache \<Rightarrow> token_id \<Rightarrow> tokens_error + amount" where
  "get_circulating_supply c tid =
     and_then (map_err (\<lambda>_. TokensViewFail) (view_circulating_supply (tc_parent c) tid))
       (\<lambda>parent_supply.
        map_err TokensAccountingError
          (combine_amount_delta parent_supply (fmlookup (td_circulating_supply (tc_data c)) tid)))"

definition tokens_cache_view :: "'e tokens_cache \<Rightarrow> tokens_error tokens_view" where
  "tokens_cache_view c =
     \<lparr>view_token_data = get_token_data c, view_circulating_supply = get_circulating_supply c\<rparr>"

definition batch_write_tokens_data ::
    "tokens_delta_data \<Rightarrow> ('e tokens_cache, tokens_error, tokens_delta_undo_data) op" where
  "batch_write_tokens_data delta =
     zoomS tc_data (\<lambda>x. tc_data_update (\<lambda>_. x)) (tokens_merge_with_delta delta)"

datatype token_accounting_undo =
    IssueTokenUndo token_id "token_data data_delta_undo"
  | MintTokenUndo token_id amount
  | UnmintTokenUndo token_id amount
  | LockSupplyUndo token_id "token_data data_delta_undo"
  | FreezeTokenUndo token_id "token_data data_delta_undo"
  | UnfreezeTokenUndo token_id "token_data data_delta_undo"
  | ChangeTokenAuthorityUndo token_id "token_data data_delta_undo"
  | ChangeTokenMetadataUriUndo token_id "token_data data_delta_undo"

text \<open>Calls on the two collections of the cache, with the error converted.\<close>

definition on_token_data ::
    "((token_id, token_data) delta_data_collection, accounting_error, 'a) op \<Rightarrow>
     ('e tokens_cache, tokens_error, 'a) op" where
  "on_token_data m = zoomS (\<lambda>c. td_token_data (tc_data c))
     (\<lambda>x. tc_data_update (td_token_data_update (\<lambda>_. x))) (map_errS TokensAccountingError m)"

definition on_supply ::
    "(token_id delta_amount_collection, accounting_error, 'a) op \<Rightarrow>
     ('e tokens_cache, tokens_error, 'a) op" where
  "on_supply m = zoomS (\<lambda>c. td_circulating_supply (tc_data c))
     (\<lambda>x. tc_data_update (td_circulating_supply_update (\<lambda>_. x))) (map_errS TokensAccountingError m)"

text \<open>\<open>self.get_token_data(&id)?.ok_or(e)?\<close>\<close>

definition require_token ::
    "token_id \<Rightarrow> tokens_error \<Rightarrow> ('e tokens_cache, tokens_error, fungible_token_data) op" where
  "require_token tid e =
     bindS (readS (\<lambda>c. get_token_data c tid)) (\<lambda>d.
     bindS (liftS (ok_or d e)) (\<lambda>d. case d of FungibleToken d \<Rightarrow> returnS d))"

text \<open>The update of the data of a token from \<open>data\<close> to \<open>new_data\<close> that five operations end with.\<close>

definition merge_token_change ::
    "token_id \<Rightarrow> fungible_token_data \<Rightarrow> fungible_token_data \<Rightarrow>
     ('e tokens_cache, tokens_error, token_data data_delta_undo) op" where
  "merge_token_change tid data new_data =
     on_token_data (merge_delta_data_element tid
       (new_delta (Some (FungibleToken data)) (Some (FungibleToken new_data))))"

definition issue_token ::
    "token_id \<Rightarrow> token_data \<Rightarrow> ('e tokens_cache, tokens_error, token_accounting_undo) op" where
  "issue_token tid data =
     bindS (readS (\<lambda>c. get_token_data c tid)) (\<lambda>present.
     if present \<noteq> None then failS (TokenAlreadyExists tid) else
     bindS (readS (\<lambda>c. get_circulating_supply c tid)) (\<lambda>supply.
     if supply > amount_zero then failS (TokenAlreadyExists tid) else
     bindS (on_token_data (merge_delta_data_element tid (new_delta None (Some data)))) (\<lambda>undo_data.
     returnS (IssueTokenUndo tid undo_data))))"

definition mint_tokens ::
    "token_id \<Rightarrow> amount \<Rightarrow> ('e tokens_cache, tokens_error, token_accounting_undo) op" where
  "mint_tokens tid amount_to_add =
     bindS (require_token tid (TokenDataNotFound tid)) (\<lambda>data.
     if is_frozen data then failS (CannotMintFrozenToken tid) else
     bindS (case ft_total_supply data of
         Fixed limit \<Rightarrow>
           bindS (readS (\<lambda>c. get_circulating_supply c tid)) (\<lambda>circulating_supply.
           bindS (liftS (ok_or (amount_add circulating_supply amount_to_add) TokensAmountOverflow))
             (\<lambda>expected_circulating_supply.
           if expected_circulating_supply > limit
           then failS (MintExceedsSupplyLimit amount_to_add limit tid) else returnS ()))
       | Lockable \<Rightarrow> if ft_locked data then failS (CannotMintFromLockedSupply tid) else returnS ()
       | Unlimited \<Rightarrow> returnS ()) (\<lambda>_.
     bindS (on_supply (add_unsigned tid amount_to_add)) (\<lambda>_.
     returnS (MintTokenUndo tid amount_to_add))))"

definition unmint_tokens ::
    "token_id \<Rightarrow> amount \<Rightarrow> ('e tokens_cache, tokens_error, token_accounting_undo) op" where
  "unmint_tokens tid amount_to_burn =
     bindS (require_token tid (TokenDataNotFound tid)) (\<lambda>data.
     if ft_locked data then failS (CannotUnmintFromLockedSupply tid)
     else if is_frozen data then failS (CannotUnmintFrozenToken tid) else
     bindS (readS (\<lambda>c. get_circulating_supply c tid)) (\<lambda>circulating_supply.
     if circulating_supply < amount_to_burn
     then failS (NotEnoughCirculatingSupplyToUnmint circulating_supply amount_to_burn tid) else
     bindS (on_supply (sub_unsigned tid amount_to_burn)) (\<lambda>_.
     returnS (UnmintTokenUndo tid amount_to_burn))))"

definition lock_circulating_supply ::
    "token_id \<Rightarrow> ('e tokens_cache, tokens_error, token_accounting_undo) op" where
  "lock_circulating_supply tid =
     bindS (require_token tid (TokenDataNotFound tid)) (\<lambda>data.
     if ft_locked data then failS (SupplyIsAlreadyLocked tid)
     else if is_frozen data then failS (CannotLockFrozenToken tid) else
     bindS (liftS (map_err (\<lambda>_. CannotLockNotLockableSupply tid) (try_lock data))) (\<lambda>new_data.
     bindS (merge_token_change tid data new_data) (\<lambda>undo_data.
     returnS (LockSupplyUndo tid undo_data))))"

definition freeze_token ::
    "token_id \<Rightarrow> is_token_unfreezable \<Rightarrow>
     ('e tokens_cache, tokens_error, token_accounting_undo) op" where
  "freeze_token tid is_unfreezable =
     bindS (require_token tid (TokenDataNotFound tid)) (\<lambda>data.
     if is_frozen data then failS (TokenIsAlreadyFrozen tid) else
     bindS (liftS (map_err (\<lambda>_. CannotFreezeNotFreezableToken tid) (try_freeze is_unfreezable data)))
       (\<lambda>new_data.
     bindS (merge_token_change tid data new_data) (\<lambda>undo_data.
     returnS (FreezeTokenUndo tid undo_data))))"

definition unfreeze_token ::
    "token_id \<Rightarrow> ('e tokens_cache, tokens_error, token_accounting_undo) op" where
  "unfreeze_token tid =
     bindS (require_token tid (TokenDataNotFound tid)) (\<lambda>data.
     if \<not> is_frozen data then failS (CannotUnfreezeTokenThatIsNotFrozen tid) else
     bindS (liftS (map_err (\<lambda>_. CannotUnfreezeNotUnfreezableToken tid) (try_unfreeze data)))
       (\<lambda>new_data.
     bindS (merge_token_change tid data new_data) (\<lambda>undo_data.
     returnS (UnfreezeTokenUndo tid undo_data))))"

definition change_token_authority ::
    "token_id \<Rightarrow> destination \<Rightarrow> ('e tokens_cache, tokens_error, token_accounting_undo) op" where
  "change_token_authority tid new_authority =
     bindS (require_token tid (TokenDataNotFound tid)) (\<lambda>data.
     if is_frozen data then failS (CannotChangeAuthorityForFrozenToken tid) else
     bindS (merge_token_change tid data (change_authority new_authority data)) (\<lambda>undo_data.
     returnS (ChangeTokenAuthorityUndo tid undo_data)))"

definition change_token_metadata_uri ::
    "token_id \<Rightarrow> u8 list \<Rightarrow> ('e tokens_cache, tokens_error, token_accounting_undo) op" where
  "change_token_metadata_uri tid new_metadata_uri =
     bindS (require_token tid (TokenDataNotFound tid)) (\<lambda>data.
     if is_frozen data then failS (CannotChangeMetadataUriForFrozenToken tid) else
     bindS (merge_token_change tid data (change_metadata_uri new_metadata_uri data)) (\<lambda>undo_data.
     returnS (ChangeTokenMetadataUriUndo tid undo_data)))"

text \<open>The reversal of an operation: the token must be there, and in the state the operation left.\<close>

definition undo_token_change ::
    "token_id \<Rightarrow> token_data data_delta_undo \<Rightarrow> (fungible_token_data \<Rightarrow> bool) \<Rightarrow> tokens_error \<Rightarrow>
     ('e tokens_cache, tokens_error, unit) op" where
  "undo_token_change tid undo_data forbidden e =
     bindS (require_token tid (TokenDataNotFoundOnReversal tid)) (\<lambda>data.
     if forbidden data then failS e else
     on_token_data (undo_merge_delta_data_element tid undo_data))"

fun tokens_undo :: "token_accounting_undo \<Rightarrow> ('e tokens_cache, tokens_error, unit) op" where
  "tokens_undo (IssueTokenUndo tid u) =
     bindS (require_token tid (TokenDataNotFoundOnReversal tid)) (\<lambda>_.
     on_token_data (undo_merge_delta_data_element tid u))"
| "tokens_undo (MintTokenUndo tid amount_to_add) =
     bindS (require_token tid (TokenDataNotFoundOnReversal tid)) (\<lambda>data.
     if ft_locked data then failS (CannotUndoMintForLockedSupplyOnReversal tid) else
     on_supply (sub_unsigned tid amount_to_add))"
| "tokens_undo (UnmintTokenUndo tid amount_to_burn) =
     bindS (require_token tid (TokenDataNotFoundOnReversal tid)) (\<lambda>data.
     if ft_locked data then failS (CannotUndoUnmintForLockedSupplyOnReversal tid) else
     on_supply (add_unsigned tid amount_to_burn))"
| "tokens_undo (LockSupplyUndo tid u) =
     undo_token_change tid u (\<lambda>d. \<not> ft_locked d) (CannotUnlockNotLockedSupplyOnReversal tid)"
| "tokens_undo (FreezeTokenUndo tid u) =
     undo_token_change tid u (\<lambda>d. \<not> is_frozen d) (CannotUndoFreezeTokenThatIsNotFrozen tid)"
| "tokens_undo (UnfreezeTokenUndo tid u) =
     undo_token_change tid u is_frozen (CannotUndoUnfreezeTokenThatIsFrozen tid)"
| "tokens_undo (ChangeTokenAuthorityUndo tid u) =
     undo_token_change tid u is_frozen (CannotUndoChangeAuthorityForFrozenToken tid)"
| "tokens_undo (ChangeTokenMetadataUriUndo tid u) =
     undo_token_change tid u is_frozen (CannotUndoChangeMetadataUriForFrozenToken tid)"

section \<open>The database\<close>

text \<open>\<open>TokensAccountingStorageRead\<close> and \<open>TokensAccountingStorageWrite\<close> of a store: its two columns.\<close>

record ('s, 'e) tokens_storage =
  st_token_data :: "('s, 'e, token_id, token_data) column"
  st_circulating_supply :: "('s, 'e, token_id, amount) column"

definition tokens_db_merge_with_delta ::
    "('s, 'e) tokens_storage \<Rightarrow> tokens_delta_data \<Rightarrow>
     ('s, tokens_error failure, tokens_delta_undo_data) op" where
  "tokens_db_merge_with_delta S other =
     bindS (merge_data_generic TokensViewFail TokensStorageWrite TokensAccountingError
              (st_token_data S) (td_token_data other)) (\<lambda>data_undo.
     bindS (merge_balances_generic TokensViewFail TokensStorageWrite TokensAccountingError
              (st_circulating_supply S) (td_circulating_supply other)) (\<lambda>circulating_supply_undo.
     returnS \<lparr>tdu_token_data = data_undo, tdu_circulating_supply = circulating_supply_undo\<rparr>))"

definition tokens_db_batch_write ::
    "('s, 'e) tokens_storage \<Rightarrow> tokens_delta_data \<Rightarrow>
     ('s, tokens_error failure, tokens_delta_undo_data) op" where
  "tokens_db_batch_write S delta =
     map_errS (\<lambda>e. case e of Fail _ \<Rightarrow> Fail TokensStorageWrite | Panic \<Rightarrow> Panic)
       (tokens_db_merge_with_delta S delta)"

definition tokens_db_view :: "('s, 'e) tokens_storage \<Rightarrow> 's \<Rightarrow> 'e tokens_view" where
  "tokens_db_view S s =
     \<lparr>view_token_data = col_get (st_token_data S) s,
      view_circulating_supply = col_balance (st_circulating_supply S) s\<rparr>"

record in_memory_tokens =
  im_tokens_data :: "(token_id, token_data) btree_map"
  im_circulating_supply :: "(token_id, amount) btree_map"

definition in_memory_tokens_storage :: "(in_memory_tokens, storage_error) tokens_storage" where
  "in_memory_tokens_storage =
     \<lparr>st_token_data = map_column im_tokens_data (\<lambda>m. im_tokens_data_update (\<lambda>_. m)),
      st_circulating_supply =
        map_column im_circulating_supply (\<lambda>m. im_circulating_supply_update (\<lambda>_. m))\<rparr>"

section \<open>Reading through the cache\<close>

lemma get_token_data_eq:
  "get_token_data c tid = (case fmlookup (td_token_data (tc_data c)) tid of
      Some d \<Rightarrow> Inr (delta_new d)
    | None \<Rightarrow> map_err (\<lambda>_. TokensViewFail) (view_token_data (tc_parent c) tid))"
  by (auto simp: get_token_data_def get_data_def split: option.splits)

lemma get_circulating_supply_Ok:
  "get_circulating_supply c tid = Inr s \<longleftrightarrow>
     (\<exists>p. view_circulating_supply (tc_parent c) tid = Inr p \<and>
        (case fmlookup (td_circulating_supply (tc_data c)) tid of
           None \<Rightarrow> s = p
         | Some d \<Rightarrow> in_i128 (uint p) \<and> in_i128 (uint s) \<and> uint s = uint p + sval d))"
  by (cases "fmlookup (td_circulating_supply (tc_data c)) tid")
    (auto simp: get_circulating_supply_def result_simps)

text \<open>The cache after the data of a token changed from \<open>x\<close> to \<open>y\<close>.\<close>

definition with_token ::
    "'e tokens_cache \<Rightarrow> token_id \<Rightarrow> token_data option \<Rightarrow> token_data option \<Rightarrow> 'e tokens_cache" where
  "with_token c tid x y =
     (let m = td_token_data (tc_data c) in
      c\<lparr>tc_data := (tc_data c)\<lparr>td_token_data :=
        fmupd tid (new_delta (case fmlookup m tid of None \<Rightarrow> x | Some e \<Rightarrow> delta_old e) y) m\<rparr>\<rparr>)"

lemma with_token_simps [simp]:
  "tc_parent (with_token c tid x y) = tc_parent c"
  "td_circulating_supply (tc_data (with_token c tid x y)) = td_circulating_supply (tc_data c)"
  "get_circulating_supply (with_token c tid x y) = get_circulating_supply c"
  by (simp_all add: with_token_def get_circulating_supply_def fun_eq_iff Let_def)

lemma get_token_data_with_token [simp]:
  "get_token_data (with_token c tid x y) j = (if j = tid then Inr y else get_token_data c j)"
  by (simp add: with_token_def get_token_data_eq Let_def split: option.split)

lemma merge_token_read:
  "get_token_data c tid = Inr x \<Longrightarrow>
   on_token_data (merge_delta_data_element tid (new_delta x y)) c =
     (Inr (invert (new_delta x y)), with_token c tid x y)"
  by (auto simp: on_token_data_def merge_delta_data_element_eq merge_cell_def get_token_data_eq
      zoomS_def map_errS_def map_err_def with_token_def Let_def new_delta_def split: option.splits)

lemma undo_merge_token_read:
  "get_token_data c tid = Inr y \<Longrightarrow>
   on_token_data (undo_merge_delta_data_element tid (invert (new_delta x y))) c =
     (Inr (), with_token c tid y x)"
  using merge_token_read [of c tid y x]
  by (auto simp: on_token_data_def undo_merge_delta_data_element_def zoomS_def map_errS_def map_err_def
      bindS_def returnS_def split: prod.splits sum.splits)

lemma require_token_Ok [op_simps]:
  "require_token tid e c = (Inr d, c') \<longleftrightarrow> c' = c \<and> get_token_data c tid = Inr (Some (FungibleToken d))"
  by (auto simp: require_token_def bindS_def readS_def liftS_def ok_or_def returnS_def
      split: sum.splits option.splits token_data.splits)

lemma require_token_Err [op_simps]:
  "require_token tid e c = (Inl f, c') \<longleftrightarrow>
     c' = c \<and> (get_token_data c tid = Inl f \<or> get_token_data c tid = Inr None \<and> f = e)"
  by (auto simp: require_token_def bindS_def readS_def liftS_def ok_or_def returnS_def
      split: sum.splits option.splits token_data.splits)

lemma token_data_ex [simp]: "\<exists>d. x = FungibleToken d"
  by (cases x) simp

lemma get_token_data_cases:
  obtains e where "get_token_data c tid = Inl e"
  | "get_token_data c tid = Inr None"
  | d where "get_token_data c tid = Inr (Some (FungibleToken d))"
  by (cases "get_token_data c tid"; cases "projr (get_token_data c tid)")
    (auto, metis token_data.exhaust)

section \<open>What a successful operation does\<close>

lemma issue_token_Ok:
  "issue_token tid d c = (Inr u, c') \<longleftrightarrow>
     get_token_data c tid = Inr None \<and> get_circulating_supply c tid = Inr 0 \<and>
     u = IssueTokenUndo tid (invert (new_delta None (Some d))) \<and> c' = with_token c tid None (Some d)"
  by (auto simp: issue_token_def op_simps merge_token_read amount_zero_def word_gt_0)

lemma mint_tokens_Ok:
  "mint_tokens tid a c = (Inr u, c') \<longleftrightarrow>
     (\<exists>d. get_token_data c tid = Inr (Some (FungibleToken d)) \<and> \<not> is_frozen d \<and>
        (\<forall>limit. ft_total_supply d = Fixed limit \<longrightarrow>
           (\<exists>s. get_circulating_supply c tid = Inr s \<and> uint s + uint a \<le> uint limit)) \<and>
        (ft_total_supply d = Lockable \<longrightarrow> \<not> ft_locked d)) \<and>
     u = MintTokenUndo tid a \<and> on_supply (add_unsigned tid a) c = (Inr (), c')"
  by (cases rule: get_token_data_cases [of c tid])
    (auto simp: mint_tokens_def op_simps result_simps checked_simps word_less_def not_less
      split: token_total_supply.splits, metis uint_sum_below)

lemma unmint_tokens_Ok:
  "unmint_tokens tid a c = (Inr u, c') \<longleftrightarrow>
     (\<exists>d s. get_token_data c tid = Inr (Some (FungibleToken d)) \<and> \<not> is_frozen d \<and> \<not> ft_locked d \<and>
        get_circulating_supply c tid = Inr s \<and> a \<le> s) \<and>
     u = UnmintTokenUndo tid a \<and> on_supply (sub_unsigned tid a) c = (Inr (), c')"
  by (cases rule: get_token_data_cases [of c tid]) (auto simp: unmint_tokens_def op_simps)

lemmas token_change_defs = lock_circulating_supply_def freeze_token_def unfreeze_token_def
  change_token_authority_def change_token_metadata_uri_def merge_token_change_def

lemma lock_circulating_supply_Ok:
  "lock_circulating_supply tid c = (Inr u, c') \<longleftrightarrow>
     (\<exists>d. get_token_data c tid = Inr (Some (FungibleToken d)) \<and> \<not> ft_locked d \<and> \<not> is_frozen d \<and>
        ft_total_supply d = Lockable \<and>
        (let x = Some (FungibleToken d); y = Some (FungibleToken (d\<lparr>ft_locked := True\<rparr>)) in
         u = LockSupplyUndo tid (invert (new_delta x y)) \<and> c' = with_token c tid x y))"
  by (cases rule: get_token_data_cases [of c tid])
    (auto simp: token_change_defs op_simps result_simps merge_token_read try_lock_def Let_def
      split: token_total_supply.splits)

lemma freeze_token_Ok:
  "freeze_token tid f c = (Inr u, c') \<longleftrightarrow>
     (\<exists>d. get_token_data c tid = Inr (Some (FungibleToken d)) \<and> ft_frozen d = NotFrozen Freezable \<and>
        (let x = Some (FungibleToken d); y = Some (FungibleToken (d\<lparr>ft_frozen := Frozen f\<rparr>)) in
         u = FreezeTokenUndo tid (invert (new_delta x y)) \<and> c' = with_token c tid x y))"
  by (cases rule: get_token_data_cases [of c tid])
    (auto simp: token_change_defs op_simps result_simps merge_token_read try_freeze_def Let_def
      is_frozen_def can_be_frozen_def split: is_token_frozen.splits is_token_freezable.splits)

lemma unfreeze_token_Ok:
  "unfreeze_token tid c = (Inr u, c') \<longleftrightarrow>
     (\<exists>d. get_token_data c tid = Inr (Some (FungibleToken d)) \<and> ft_frozen d = Frozen Unfreezable \<and>
        (let x = Some (FungibleToken d); y = Some (FungibleToken (d\<lparr>ft_frozen := NotFrozen Freezable\<rparr>)) in
         u = UnfreezeTokenUndo tid (invert (new_delta x y)) \<and> c' = with_token c tid x y))"
  by (cases rule: get_token_data_cases [of c tid])
    (auto simp: token_change_defs op_simps result_simps merge_token_read try_unfreeze_def Let_def
      is_frozen_def can_be_unfrozen_def split: is_token_frozen.splits is_token_unfreezable.splits)

lemma change_token_authority_Ok:
  "change_token_authority tid a c = (Inr u, c') \<longleftrightarrow>
     (\<exists>d. get_token_data c tid = Inr (Some (FungibleToken d)) \<and> \<not> is_frozen d \<and>
        (let x = Some (FungibleToken d); y = Some (FungibleToken (d\<lparr>ft_authority := a\<rparr>)) in
         u = ChangeTokenAuthorityUndo tid (invert (new_delta x y)) \<and> c' = with_token c tid x y))"
  by (cases rule: get_token_data_cases [of c tid])
    (auto simp: token_change_defs op_simps merge_token_read change_authority_def Let_def)

lemma change_token_metadata_uri_Ok:
  "change_token_metadata_uri tid m c = (Inr u, c') \<longleftrightarrow>
     (\<exists>d. get_token_data c tid = Inr (Some (FungibleToken d)) \<and> \<not> is_frozen d \<and>
        (let x = Some (FungibleToken d); y = Some (FungibleToken (d\<lparr>ft_metadata_uri := m\<rparr>)) in
         u = ChangeTokenMetadataUriUndo tid (invert (new_delta x y)) \<and> c' = with_token c tid x y))"
  by (cases rule: get_token_data_cases [of c tid])
    (auto simp: token_change_defs op_simps merge_token_read change_metadata_uri_def Let_def)

section \<open>Sequences of operations\<close>

datatype tokens_call =
    CallIssue token_id token_data
  | CallMint token_id amount
  | CallUnmint token_id amount
  | CallLock token_id
  | CallFreeze token_id is_token_unfreezable
  | CallUnfreeze token_id
  | CallChangeAuthority token_id destination
  | CallChangeMetadataUri token_id "u8 list"

fun tokens_exec :: "tokens_call \<Rightarrow> ('e tokens_cache, tokens_error, token_accounting_undo) op" where
  "tokens_exec (CallIssue tid d) = issue_token tid d"
| "tokens_exec (CallMint tid a) = mint_tokens tid a"
| "tokens_exec (CallUnmint tid a) = unmint_tokens tid a"
| "tokens_exec (CallLock tid) = lock_circulating_supply tid"
| "tokens_exec (CallFreeze tid f) = freeze_token tid f"
| "tokens_exec (CallUnfreeze tid) = unfreeze_token tid"
| "tokens_exec (CallChangeAuthority tid a) = change_token_authority tid a"
| "tokens_exec (CallChangeMetadataUri tid m) = change_token_metadata_uri tid m"

lemmas token_Ok = issue_token_Ok mint_tokens_Ok unmint_tokens_Ok lock_circulating_supply_Ok
  freeze_token_Ok unfreeze_token_Ok change_token_authority_Ok change_token_metadata_uri_Ok

lemma on_supply_Err: "on_supply m c = (Inl e, c') \<Longrightarrow> (\<And>x e x'. m x = (Inl e, x') \<Longrightarrow> x' = x) \<Longrightarrow> c' = c"
  by (auto simp: on_supply_def op_simps)

text \<open>A failing operation leaves the cache as it was.\<close>

lemma tokens_exec_Err: "tokens_exec call c = (Inl e, c') \<Longrightarrow> c' = c"
  by (cases call)
    (auto simp: issue_token_def mint_tokens_def unmint_tokens_def token_change_defs op_simps
      merge_token_read split: if_splits token_total_supply.splits
      dest!: on_supply_Err dest: add_unsigned_Err sub_unsigned_Err)

inductive tokens_steps :: "'e tokens_cache \<Rightarrow> 'e tokens_cache \<Rightarrow> bool" for c where
  no_call: "tokens_steps c c"
| one_call: "tokens_steps c a \<Longrightarrow> tokens_exec call a = (r, b) \<Longrightarrow> tokens_steps c b"

section \<open>Coherence of a cache with its parent\<close>

text \<open>Every change of token data starts from what the parent holds, and no supply change is idle.\<close>

definition tokens_cache_ok :: "'e tokens_cache \<Rightarrow> bool" where
  "tokens_cache_ok c \<longleftrightarrow>
     fmpred (\<lambda>tid d. view_token_data (tc_parent c) tid = Inr (delta_old d)) (td_token_data (tc_data c)) \<and>
     no_zero_deltas (td_circulating_supply (tc_data c))"

lemma tokens_cache_new_parent [simp]: "tc_parent (tokens_cache_new p) = p"
  by (simp add: tokens_cache_new_def)

lemma tokens_cache_ok_new [simp]: "tokens_cache_ok (tokens_cache_new p)"
  by (simp add: tokens_cache_ok_def tokens_cache_new_def no_zero_deltas_def)

lemma tokens_cache_ok_with_token:
  "tokens_cache_ok c \<Longrightarrow> get_token_data c tid = Inr x \<Longrightarrow> tokens_cache_ok (with_token c tid x y)"
  by (auto simp: tokens_cache_ok_def with_token_def Let_def get_token_data_eq result_simps
      split: option.splits dest: fmpredD intro!: fmpred_upd)

lemma on_supply_Ok:
  "on_supply m c = (Inr u, c') \<longleftrightarrow>
     (\<exists>x. m (td_circulating_supply (tc_data c)) = (Inr u, x) \<and>
        c' = tc_data_update (td_circulating_supply_update (\<lambda>_. x)) c)"
  by (auto simp: on_supply_def op_simps)

lemma on_supply_get_token_data: "on_supply m c = (r, c') \<Longrightarrow> get_token_data c' = get_token_data c"
  by (auto simp: on_supply_def op_simps get_token_data_def fun_eq_iff split: get_data_result.splits)

lemma on_supply_parent: "on_supply m c = (r, c') \<Longrightarrow> tc_parent c' = tc_parent c"
  by (auto simp: on_supply_def op_simps)

lemma on_supply_cache_ok:
  "on_supply m c = (Inr u, c') \<Longrightarrow> tokens_cache_ok c \<Longrightarrow>
     (\<And>x u x'. m x = (Inr u, x') \<Longrightarrow> no_zero_deltas x \<Longrightarrow> no_zero_deltas x') \<Longrightarrow> tokens_cache_ok c'"
  by (auto simp: on_supply_Ok tokens_cache_ok_def)

lemma tokens_exec_parent: "tokens_exec call c = (r, c') \<Longrightarrow> tc_parent c' = tc_parent c"
proof (cases r)
  case (Inr u)
  moreover assume "tokens_exec call c = (r, c')"
  ultimately have "tokens_exec call c = (Inr u, c')" by simp
  then show ?thesis by (cases call) (auto simp: token_Ok Let_def dest: on_supply_parent)
qed (auto dest: tokens_exec_Err)

lemma tokens_exec_cache_ok:
  "tokens_exec call c = (r, c') \<Longrightarrow> tokens_cache_ok c \<Longrightarrow> tokens_cache_ok c'"
proof (cases r)
  case (Inr u)
  moreover assume "tokens_exec call c = (r, c')" and ok: "tokens_cache_ok c"
  ultimately have "tokens_exec call c = (Inr u, c')" by simp
  then show ?thesis using ok
    by (cases call) (auto simp: token_Ok Let_def intro: tokens_cache_ok_with_token on_supply_cache_ok
      dest: add_unsigned_Ok sub_unsigned_Ok)
qed (auto dest: tokens_exec_Err)

lemma tokens_steps_cache_ok:
  "tokens_steps c c' \<Longrightarrow> tokens_cache_ok c \<Longrightarrow> tokens_cache_ok c' \<and> tc_parent c' = tc_parent c"
  by (induction rule: tokens_steps.induct) (auto dest: tokens_exec_cache_ok tokens_exec_parent)

section \<open>Supplies\<close>

lemma supply_value:
  "get_circulating_supply c tid = Inr s \<Longrightarrow> view_circulating_supply (tc_parent c) tid = Inr p \<Longrightarrow>
     uint s = uint p + delta_at (td_circulating_supply (tc_data c)) tid"
  by (auto simp: get_circulating_supply_Ok delta_at_def split: option.splits)

lemma supply_after_add:
  assumes "on_supply (add_unsigned tid a) c = (Inr u, c')"
    and "get_circulating_supply c tid = Inr s" and "get_circulating_supply c' tid = Inr s'"
  shows "uint s' = uint s + uint a"
proof -
  from assms(2) obtain p where p: "view_circulating_supply (tc_parent c) tid = Inr p"
    by (auto simp: get_circulating_supply_Ok)
  from supply_value [OF assms(2) p] supply_value [OF assms(3)] assms(1) p show ?thesis
    by (auto simp: on_supply_Ok dest!: add_unsigned_Ok)
qed

lemma supply_after_sub:
  assumes "on_supply (sub_unsigned tid a) c = (Inr u, c')"
    and "get_circulating_supply c tid = Inr s" and "get_circulating_supply c' tid = Inr s'"
  shows "uint s' = uint s - uint a"
proof -
  from assms(2) obtain p where p: "view_circulating_supply (tc_parent c) tid = Inr p"
    by (auto simp: get_circulating_supply_Ok)
  from supply_value [OF assms(2) p] supply_value [OF assms(3)] assms(1) p show ?thesis
    by (auto simp: on_supply_Ok dest!: sub_unsigned_Ok)
qed

lemma supply_add_other:
  "on_supply (add_unsigned tid a) c = (Inr u, c') \<Longrightarrow> j \<noteq> tid \<Longrightarrow>
     get_circulating_supply c' j = get_circulating_supply c j"
  by (auto simp: on_supply_Ok get_circulating_supply_def dest!: add_unsigned_Ok)

lemma supply_sub_other:
  "on_supply (sub_unsigned tid a) c = (Inr u, c') \<Longrightarrow> j \<noteq> tid \<Longrightarrow>
     get_circulating_supply c' j = get_circulating_supply c j"
  by (auto simp: on_supply_Ok get_circulating_supply_def dest!: sub_unsigned_Ok)

lemma undo_mint_supply:
  "on_supply (add_unsigned tid a) c = (Inr u, c') \<Longrightarrow> tokens_cache_ok c \<Longrightarrow>
     on_supply (sub_unsigned tid a) c' = (Inr (), c)"
  by (auto simp: on_supply_Ok tokens_cache_ok_def sub_after_add)

lemma undo_unmint_supply:
  "on_supply (sub_unsigned tid a) c = (Inr u, c') \<Longrightarrow> tokens_cache_ok c \<Longrightarrow>
     on_supply (add_unsigned tid a) c' = (Inr (), c)"
  by (auto simp: on_supply_Ok tokens_cache_ok_def add_after_sub)

text \<open>Only the supply of a lockable token is ever locked.\<close>

definition tokens_wf :: "'e tokens_cache \<Rightarrow> bool" where
  "tokens_wf c \<longleftrightarrow> (\<forall>tid d. get_token_data c tid = Inr (Some (FungibleToken d)) \<longrightarrow>
     ft_locked d \<longrightarrow> ft_total_supply d = Lockable)"

definition same_tokens :: "'e tokens_cache \<Rightarrow> 'e tokens_cache \<Rightarrow> bool" where
  "same_tokens c c' \<longleftrightarrow> get_token_data c = get_token_data c' \<and>
     get_circulating_supply c = get_circulating_supply c'"

lemma undo_token_restores:
  assumes "get_token_data c tid = Inr x" and "tokens_cache_ok c"
  shows "\<exists>c2. on_token_data (undo_merge_delta_data_element tid (invert (new_delta x y))) (with_token c tid x y) =
      (Inr (), c2) \<and> same_tokens c c2 \<and> tokens_cache_ok c2"
  using assms undo_merge_token_read [of "with_token c tid x y" tid y x]
  by (auto simp: same_tokens_def fun_eq_iff intro!: tokens_cache_ok_with_token)

lemma tokens_undo_restores_aux:
  assumes "tokens_exec call c = (Inr u, c')" and "tokens_cache_ok c" and "tokens_wf c"
  shows "\<exists>c2. tokens_undo u c' = (Inr (), c2) \<and> same_tokens c c2 \<and> tokens_cache_ok c2"
proof (cases call)
  case (CallMint tid a)
  with assms(1) obtain d where d: "get_token_data c tid = Inr (Some (FungibleToken d))"
      "ft_total_supply d = Lockable \<longrightarrow> \<not> ft_locked d" "u = MintTokenUndo tid a"
      "on_supply (add_unsigned tid a) c = (Inr (), c')"
    by (auto simp: token_Ok)
  then have "\<not> ft_locked d" using assms(3) by (auto simp: tokens_wf_def)
  with d undo_mint_supply [OF d(4) assms(2)] assms(2) on_supply_get_token_data [OF d(4)] show ?thesis
    by (auto simp: op_simps same_tokens_def)
next
  case (CallUnmint tid a)
  with assms(1) obtain d where d: "get_token_data c tid = Inr (Some (FungibleToken d))"
      "\<not> ft_locked d" "u = UnmintTokenUndo tid a" "on_supply (sub_unsigned tid a) c = (Inr (), c')"
    by (auto simp: token_Ok)
  with undo_unmint_supply [OF d(4) assms(2)] assms(2) on_supply_get_token_data [OF d(4)] show ?thesis
    by (auto simp: op_simps same_tokens_def)
qed (use assms in \<open>auto simp: token_Ok Let_def undo_token_change_def op_simps is_frozen_def
      intro: undo_token_restores split: token_data.splits\<close>)

section \<open>A cache as generic cached reads\<close>

lemma get_token_data_cached:
  "get_token_data c = cached_data (\<lambda>tid. map_err (\<lambda>_. TokensViewFail) (view_token_data (tc_parent c) tid))
     (td_token_data (tc_data c))"
  by (simp add: fun_eq_iff get_token_data_eq cached_data_def split: option.splits)

lemma get_circulating_supply_cached:
  "get_circulating_supply c = cached_balance TokensAccountingError
     (\<lambda>tid. map_err (\<lambda>_. TokensViewFail) (view_circulating_supply (tc_parent c) tid))
     (td_circulating_supply (tc_data c))"
  by (simp add: fun_eq_iff get_circulating_supply_def cached_balance_def)

lemma tokens_cache_ok_coherent:
  "tokens_cache_ok c \<longleftrightarrow>
     data_coherent (\<lambda>tid. map_err (\<lambda>_. TokensViewFail) (view_token_data (tc_parent c) tid))
       (td_token_data (tc_data c)) \<and>
     no_zero_deltas (td_circulating_supply (tc_data c))"
  by (simp add: tokens_cache_ok_def data_coherent_def map_err_eq)

lemma token_data_error: "map_err (\<lambda>_. TokensViewFail) (get_token_data c tid) = get_token_data c tid"
  by (simp add: get_token_data_eq map_err_def split: option.splits sum.splits)

lemma child_supply_parent:
  assumes "tc_parent k = tokens_cache_view c" and "\<And>tid. is_ok (get_circulating_supply k tid)"
  shows "map_err (\<lambda>_. TokensViewFail) (get_circulating_supply c tid) = get_circulating_supply c tid"
  using assms(2) [of tid] assms(1)
  by (auto simp: is_ok_iff get_circulating_supply_Ok [of k] tokens_cache_view_def map_err_def)

section \<open>Flushing a cache to the database\<close>

text \<open>The interface of a store: two reliable columns that do not touch each other.\<close>

locale tokens_store =
  data: reliable_column "st_token_data S" +
  bal: reliable_balance_column "st_circulating_supply S" +
  data_frame: column_frame "st_token_data S" "st_circulating_supply S" +
  bal_frame: balance_frame "st_circulating_supply S" "st_token_data S"
  for S :: "('s, 'e) tokens_storage"
begin

lemma flush:
  assumes "tokens_cache_ok c" and "tc_parent c = tokens_db_view S s"
    and "\<And>tid. \<exists>a. get_circulating_supply c tid = Inr a"
  shows "\<exists>u s'. tokens_db_merge_with_delta S (tc_data c) s = (Inr u, s') \<and>
    (\<forall>tid. get_token_data c tid = map_err (\<lambda>_. TokensViewFail) (view_token_data (tokens_db_view S s') tid)) \<and>
    (\<forall>tid. get_circulating_supply c tid =
      map_err (\<lambda>_. TokensViewFail) (view_circulating_supply (tokens_db_view S s') tid))"
proof -
  let ?m = "td_token_data (tc_data c)" and ?b = "td_circulating_supply (tc_data c)"
  have "data_coherent (col_get (st_token_data S) s) ?m"
    using assms(1,2) by (simp add: tokens_cache_ok_def data_coherent_def tokens_db_view_def)
  from data.flush_data [OF this, of TokensViewFail TokensStorageWrite TokensAccountingError] obtain t where t:
    "merge_data_generic TokensViewFail TokensStorageWrite TokensAccountingError (st_token_data S) ?m s =
       (Inr (fmmap invert ?m), t)" "col_get (st_token_data S) t = cached_data (col_get (st_token_data S) s) ?m"
    by blast
  have same: "col_balance (st_circulating_supply S) t = col_balance (st_circulating_supply S) s"
    using data_frame.merge_data_generic_frame [OF t(1)] by (simp add: col_balance_def fun_eq_iff)
  have supply_eq: "get_circulating_supply c = cached_balance TokensAccountingError
      (\<lambda>tid. map_err (\<lambda>_. TokensViewFail) (col_balance (st_circulating_supply S) t tid)) ?b"
    by (simp add: get_circulating_supply_cached assms(2) tokens_db_view_def same)
  from bal.flush_balances [OF assms(3) [unfolded supply_eq], of TokensViewFail TokensStorageWrite
    TokensAccountingError] obtain s' where s':
    "merge_balances_generic TokensViewFail TokensStorageWrite TokensAccountingError
       (st_circulating_supply S) ?b t = (Inr (fmmap (\<lambda>d. the (signed_neg d)) ?b), s')"
    "\<And>tid. map_err (\<lambda>_. TokensViewFail) (col_balance (st_circulating_supply S) s' tid) =
       get_circulating_supply c tid"
    unfolding supply_eq by blast
  have "col_get (st_token_data S) s' tid = cached_data (col_get (st_token_data S) s) ?m tid" for tid
    using bal_frame.merge_balances_generic_frame [OF s'(1)] t(2) by simp
  then have "get_token_data c tid = map_err (\<lambda>_. TokensViewFail) (view_token_data (tokens_db_view S s') tid)" for tid
    by (simp add: get_token_data_cached assms(2) tokens_db_view_def cached_data_def map_err_def split: option.splits)
  with s'(2) t(1) s'(1) show ?thesis
    by (auto simp: tokens_db_merge_with_delta_def op_simps tokens_db_view_def)
qed

lemma flush_combines:
  assumes "tokens_db_merge_with_delta S d s = (Inr u, s')" and "fmlookup (td_circulating_supply d) tid = Some x"
    and "view_circulating_supply (tokens_db_view S s) tid = Inr p"
  shows "\<exists>r. combine_amount_delta p (Some x) = Inr r"
proof -
  obtain v w t where t: "merge_data_generic TokensViewFail TokensStorageWrite TokensAccountingError (st_token_data S)
      (td_token_data d) s = (Inr v, t)" "merge_balances_generic TokensViewFail TokensStorageWrite TokensAccountingError
      (st_circulating_supply S) (td_circulating_supply d) t = (Inr w, s')"
    using assms(1) by (auto simp: tokens_db_merge_with_delta_def op_simps)
  have "col_balance (st_circulating_supply S) t tid = Inr p"
    using data_frame.merge_data_generic_frame [OF t(1)] assms(3) by (simp add: col_balance_def tokens_db_view_def)
  with bal.merge_balances_generic_ok(3) [OF t(2) assms(2)] show ?thesis
    by (auto simp: balance_cell_def split: sum.splits)
qed

end

lemma in_memory_tokens_columns:
  "reliable_column (st_token_data in_memory_tokens_storage)"
  "reliable_column (st_circulating_supply in_memory_tokens_storage)"
  "column_frame (st_token_data in_memory_tokens_storage) (st_circulating_supply in_memory_tokens_storage)"
  "column_frame (st_circulating_supply in_memory_tokens_storage) (st_token_data in_memory_tokens_storage)"
  by (simp_all add: in_memory_tokens_storage_def map_column_reliable map_column_frame)

interpretation in_memory: tokens_store in_memory_tokens_storage
  by (intro tokens_store.intro reliable_balance_column.intro balance_column.intro balance_frame.intro
      in_memory_tokens_columns reliable_column.axioms(1))

definition tokens_within_limit :: "'e tokens_view \<Rightarrow> bool" where
  "tokens_within_limit v \<longleftrightarrow> (\<forall>tid d limit s.
     view_token_data v tid = Inr (Some (FungibleToken d)) \<longrightarrow> ft_total_supply d = Fixed limit \<longrightarrow>
     view_circulating_supply v tid = Inr s \<longrightarrow> s \<le> limit)"

lemma tokens_within_limit_with_token:
  assumes "tokens_within_limit (tokens_cache_view c)"
    and "get_token_data c tid = Inr (Some (FungibleToken d)) \<and> ft_total_supply d' = ft_total_supply d \<or>
      get_circulating_supply c tid = Inr 0"
  shows "tokens_within_limit (tokens_cache_view (with_token c tid x (Some (FungibleToken d'))))"
  using assms by (auto simp: tokens_within_limit_def tokens_cache_view_def split: if_splits)

lemma tokens_within_limit_supply:
  assumes "tokens_within_limit (tokens_cache_view c)" and "on_supply m c = (Inr u, c')"
    and "\<And>j. j \<noteq> tid \<Longrightarrow> get_circulating_supply c' j = get_circulating_supply c j"
    and "\<And>d limit s. get_token_data c tid = Inr (Some (FungibleToken d)) \<Longrightarrow>
      ft_total_supply d = Fixed limit \<Longrightarrow> get_circulating_supply c' tid = Inr s \<Longrightarrow> s \<le> limit"
  shows "tokens_within_limit (tokens_cache_view c')"
  using assms on_supply_get_token_data [OF assms(2)]
  unfolding tokens_within_limit_def tokens_cache_view_def by (metis tokens_view.select_convs)

lemma tokens_exec_within_limit:
  assumes "tokens_exec call c = (r, c')" and lim: "tokens_within_limit (tokens_cache_view c)"
  shows "tokens_within_limit (tokens_cache_view c')"
proof (cases r)
  case (Inl e)
  with assms tokens_exec_Err show ?thesis by blast
next
  case (Inr u)
  with assms have ex: "tokens_exec call c = (Inr u, c')" by simp
  show ?thesis
  proof (cases call)
    case (CallMint tid a)
    with ex obtain d where d: "get_token_data c tid = Inr (Some (FungibleToken d))"
        "\<And>limit. ft_total_supply d = Fixed limit \<Longrightarrow>
           \<exists>s. get_circulating_supply c tid = Inr s \<and> uint s + uint a \<le> uint limit"
        "on_supply (add_unsigned tid a) c = (Inr (), c')"
      by (auto simp: token_Ok)
    show ?thesis
      by (rule tokens_within_limit_supply [OF lim d(3), of tid])
        (use d supply_after_add [OF d(3)] supply_add_other [OF d(3)] in \<open>fastforce simp: word_le_def\<close>)+
  next
    case (CallUnmint tid a)
    with ex obtain s where s: "get_circulating_supply c tid = Inr s" "a \<le> s"
        "on_supply (sub_unsigned tid a) c = (Inr (), c')"
      by (auto simp: token_Ok)
    show ?thesis
    proof (rule tokens_within_limit_supply [OF lim s(3), of tid])
      show "s' \<le> limit" if "get_token_data c tid = Inr (Some (FungibleToken d))"
        "ft_total_supply d = Fixed limit" "get_circulating_supply c' tid = Inr s'" for d limit s'
      proof -
        have "s \<le> limit"
          using lim that(1,2) s(1) by (auto simp: tokens_within_limit_def tokens_cache_view_def)
        with supply_after_sub [OF s(3,1) that(3)] show ?thesis
          using uint_ge_0 [of a] unfolding word_le_def by linarith
      qed
    qed (use supply_sub_other [OF s(3)] in blast)
  next
    case (CallIssue tid y)
    with ex lim show ?thesis
      by (cases y) (auto simp: token_Ok intro: tokens_within_limit_with_token)
  qed (use ex lim in \<open>auto simp: token_Ok Let_def intro: tokens_within_limit_with_token\<close>)
qed

text \<open>What any call can change: a supply only of a token that can be minted, token data only forward.\<close>

lemma tokens_exec_supply:
  assumes "tokens_exec call a = (r, b)" and "get_circulating_supply b tid \<noteq> get_circulating_supply a tid"
  shows "\<exists>d. get_token_data a tid = Inr (Some (FungibleToken d)) \<and> \<not> is_frozen d \<and>
    (ft_total_supply d = Lockable \<longrightarrow> \<not> ft_locked d)"
proof (cases r)
  case (Inl e)
  with assms show ?thesis by (auto dest: tokens_exec_Err)
next
  case (Inr u)
  with assms have ex: "tokens_exec call a = (Inr u, b)" by simp
  show ?thesis
  proof (cases call)
    case (CallMint k n)
    with ex assms(2) show ?thesis by (cases "k = tid") (auto simp: token_Ok dest: supply_add_other)
  next
    case (CallUnmint k n)
    with ex assms(2) show ?thesis by (cases "k = tid") (auto simp: token_Ok dest: supply_sub_other)
  qed (use ex assms(2) in \<open>auto simp: token_Ok Let_def\<close>)
qed

lemma tokens_exec_data:
  assumes "tokens_exec call a = (r, b)" and "get_token_data a tid = Inr (Some (FungibleToken d))"
  shows "\<exists>d'. get_token_data b tid = Inr (Some (FungibleToken d')) \<and> (ft_locked d \<longrightarrow> ft_locked d') \<and>
    ft_total_supply d' = ft_total_supply d \<and> (ft_frozen d = Frozen NotUnfreezable \<longrightarrow> d' = d)"
proof (cases r)
  case (Inl e)
  with assms show ?thesis by (auto dest: tokens_exec_Err)
next
  case (Inr u)
  with assms have "tokens_exec call a = (Inr u, b)" by simp
  with assms(2) show ?thesis
    by (cases call) (auto simp: token_Ok Let_def is_frozen_def on_supply_get_token_data)
qed

text \<open>Minting where no limit is set: only the amount the cache has added is checked, not what it is added to.\<close>

lemma combine_too_large:
  assumes "in_i128 (uint p)" and "2 ^ 127 \<le> uint p + sval d"
  shows "combine_amount_delta p (Some d) = Inl ArithmeticErrorDeltaAdditionFailed"
proof -
  obtain v where v: "sval v = uint p" using assms(1) sval_ex by metis
  then have "amount_into_signed p = Some v" "signed_add v d = None" using assms(2) by (simp_all add: checked_simps in_i128_iff)
  then show ?thesis by (simp add: combine_amount_delta_def and_then_def ok_or_def)
qed

lemma supply_added:
  assumes "on_supply (add_unsigned tid a) c = (Inr u, c')" and "get_circulating_supply c tid = Inr s"
    and "view_circulating_supply (tc_parent c) tid = Inr p" and "in_i128 (uint p)" and "2 ^ 127 \<le> uint s + uint a"
  shows "\<exists>x. fmlookup (td_circulating_supply (tc_data c')) tid = Some x \<and> 2 ^ 127 \<le> uint p + sval x"
proof -
  have "delta_at (td_circulating_supply (tc_data c')) tid = uint s - uint p + uint a"
    using assms(1) supply_value [OF assms(2,3)] by (auto simp: on_supply_Ok dest!: add_unsigned_Ok)
  with assms(4,5) show ?thesis
    by (cases "fmlookup (td_circulating_supply (tc_data c')) tid") (auto simp: delta_at_def in_i128_amount)
qed

lemma minted_supply_read:
  assumes "on_supply (add_unsigned tid a) c = (Inr u, c')" and "get_circulating_supply c tid = Inr s"
    and "view_circulating_supply (tc_parent c) tid = Inr p" and "in_i128 (uint p)"
  shows "get_circulating_supply c' tid = (if uint s + uint a < 2 ^ 127 then Inr (s + a)
    else Inl (TokensAccountingError ArithmeticErrorDeltaAdditionFailed))"
proof (cases "uint s + uint a < 2 ^ 127")
  case True
  have "bal_reads p (td_circulating_supply (tc_data c)) tid s"
    using assms(2,3) by (auto simp: bal_reads_def get_circulating_supply_def result_simps simp del: combine_amount_delta_Ok)
  moreover have "in_i128 (uint s + uint a)"
    using True uint_ge_0 [of s] uint_ge_0 [of a] unfolding in_i128_iff by (intro conjI; linarith)
  ultimately have "bal_reads p (td_circulating_supply (tc_data c')) tid (s + a)"
    using assms(1,4) uint_add_small [of s a] by (fastforce simp: on_supply_Ok bal_reads_iff dest!: add_unsigned_Ok)
  with True assms(1,3) show ?thesis
    by (auto simp: on_supply_Ok bal_reads_def get_circulating_supply_def and_then_def map_err_def)
next
  case False
  with supply_added [OF assms] obtain x where "fmlookup (td_circulating_supply (tc_data c')) tid = Some x"
    "2 ^ 127 \<le> uint p + sval x" by (auto simp: not_less)
  with False assms(1,3) combine_too_large [OF assms(4)] show ?thesis
    by (auto simp: on_supply_Ok get_circulating_supply_def and_then_def map_err_def)
qed

lemma add_unsigned_ok_iff:
  "is_ok (fst (add_unsigned k a m)) \<longleftrightarrow> in_i128 (uint a) \<and> in_i128 (delta_at m k + uint a)"
proof
  assume "is_ok (fst (add_unsigned k a m))"
  then obtain m' where m': "add_unsigned k a m = (Inr (), m')" by (cases "add_unsigned k a m") (auto simp: is_ok_iff)
  from add_unsigned_Ok [OF m'] delta_at_in_range [of m' k]
  show "in_i128 (uint a) \<and> in_i128 (delta_at m k + uint a)" by simp
qed (use add_unsigned_progress [of a m k] in \<open>auto simp: is_ok_iff\<close>)

section \<open>Concrete runs\<close>

text \<open>A token of a fixed supply of 100 issued in a cache over an empty database.\<close>

fun tokens_run :: "tokens_call list \<Rightarrow> 'e tokens_cache \<Rightarrow> 'e tokens_cache" where
  "tokens_run [] c = c"
| "tokens_run (call # calls) c = tokens_run calls (snd (tokens_exec call c))"

lemma tokens_steps_run: "tokens_steps c a \<Longrightarrow> tokens_steps c (tokens_run calls a)"
  by (induction calls arbitrary: a) (auto intro: tokens_steps.one_call [OF _ prod.collapse [symmetric]])

definition sample_token :: "token_total_supply \<Rightarrow> bool \<Rightarrow> is_token_frozen \<Rightarrow> fungible_token_data" where
  "sample_token supply locked frozen =
     \<lparr>ft_token_ticker = [77], ft_number_of_decimals = 2, ft_metadata_uri = [], ft_total_supply = supply,
      ft_locked = locked, ft_frozen = frozen, ft_authority = AnyoneCanSpend\<rparr>"

definition empty_tokens :: in_memory_tokens where
  "empty_tokens = \<lparr>im_tokens_data = fmempty, im_circulating_supply = fmempty\<rparr>"

definition sample_calls :: "tokens_call list" where
  "sample_calls =
     [CallIssue 1 (FungibleToken (sample_token (Fixed 100) False (NotFrozen Freezable))),
      CallMint 1 60, CallMint 1 60, CallUnmint 1 10]"

definition sample_cache :: "storage_error tokens_cache" where
  "sample_cache = tokens_run sample_calls
     (tokens_cache_new (tokens_db_view in_memory_tokens_storage empty_tokens))"

lemma sample_cache_steps:
  "tokens_steps (tokens_cache_new (tokens_db_view in_memory_tokens_storage empty_tokens)) sample_cache"
  unfolding sample_cache_def by (rule tokens_steps_run) (rule tokens_steps.no_call)

lemma sample_cache_data:
  "td_token_data (tc_data sample_cache) = fmap_of_list
     [(1, new_delta None (Some (FungibleToken (sample_token (Fixed 100) False (NotFrozen Freezable)))))]"
  "td_circulating_supply (tc_data sample_cache) = fmap_of_list [(1, SignedAmount 50)]"
  by code_simp+

lemma sample_cache_parent:
  "tc_parent sample_cache = tokens_db_view in_memory_tokens_storage empty_tokens"
  using tokens_steps_cache_ok [OF sample_cache_steps] by simp

lemma sample_cache_reads:
  "get_token_data sample_cache tid = Inr (if tid = 1
     then Some (FungibleToken (sample_token (Fixed 100) False (NotFrozen Freezable))) else None)"
  "get_circulating_supply sample_cache tid = Inr (if tid = 1 then 50 else 0)"
  by (simp_all add: get_token_data_eq get_circulating_supply_Ok sample_cache_data sample_cache_parent
      tokens_db_view_def in_memory_tokens_storage_def map_column_def empty_tokens_def col_balance_def
      and_then_def map_err_def amount_zero_def in_signed_def fmlookup_of_list)

definition locked_cache :: "unit tokens_cache" where
  "locked_cache = tokens_cache_new
     \<lparr>view_token_data = (\<lambda>_. Inr (Some (FungibleToken (sample_token Lockable True (NotFrozen Freezable))))),
      view_circulating_supply = (\<lambda>_. Inr 9)\<rparr>"

definition frozen_cache :: "unit tokens_cache" where
  "frozen_cache = tokens_cache_new
     \<lparr>view_token_data = (\<lambda>_. Inr (Some (FungibleToken (sample_token Unlimited False (Frozen NotUnfreezable))))),
      view_circulating_supply = (\<lambda>_. Inr 9)\<rparr>"

definition full_supply_store :: in_memory_tokens where
  "full_supply_store =
     \<lparr>im_tokens_data = fmap_of_list [(1, FungibleToken (sample_token Unlimited False (NotFrozen Freezable)))],
      im_circulating_supply = fmap_of_list [(1, 170141183460469231731687303715884105727)]\<rparr>"

section \<open>Properties of the tokens accounting\<close>

text \<open>
  Whatever operations a cache over the database has performed, successful or not, flushing its
  deltas to the database succeeds when every supply can be read through the cache, and the database
  then answers every query for token data and for circulating supply as the cache did.
\<close>

theorem tokens_flush_refines:
  assumes "tokens_steps (tokens_cache_new (tokens_db_view in_memory_tokens_storage s)) c"
    and "\<And>tid. is_ok (get_circulating_supply c tid)"
  shows "\<exists>u s'. tokens_db_batch_write in_memory_tokens_storage (tc_data c) s = (Inr u, s') \<and>
    (\<forall>tid. get_token_data c tid =
        map_err (\<lambda>_. TokensViewFail) (view_token_data (tokens_db_view in_memory_tokens_storage s') tid)) \<and>
    (\<forall>tid. get_circulating_supply c tid =
        map_err (\<lambda>_. TokensViewFail) (view_circulating_supply (tokens_db_view in_memory_tokens_storage s') tid))"
proof -
  have ok: "tokens_cache_ok c" "tc_parent c = tokens_db_view in_memory_tokens_storage s"
    using tokens_steps_cache_ok [OF assms(1)] by simp_all
  from in_memory.flush [OF ok] assms(2) show ?thesis
    by (fastforce simp: is_ok_iff tokens_db_batch_write_def op_simps)
qed

theorem tokens_flush_refines_witness:
  "\<exists>u s'. tokens_db_batch_write in_memory_tokens_storage (tc_data sample_cache) empty_tokens = (Inr u, s') \<and>
     view_circulating_supply (tokens_db_view in_memory_tokens_storage s') 1 = Inr 50"
proof -
  have "is_ok (get_circulating_supply sample_cache tid)" for tid
    by (simp add: sample_cache_reads is_ok_def)
  from tokens_flush_refines [OF sample_cache_steps this] obtain u s' where
    w: "tokens_db_batch_write in_memory_tokens_storage (tc_data sample_cache) empty_tokens = (Inr u, s')" and
    r: "\<And>tid. get_circulating_supply sample_cache tid = map_err (\<lambda>_. TokensViewFail)
      (view_circulating_supply (tokens_db_view in_memory_tokens_storage s') tid)"
    by blast
  from r [of 1] have "view_circulating_supply (tokens_db_view in_memory_tokens_storage s') 1 = Inr 50"
    by (simp add: sample_cache_reads eq_commute [of "Inr _"] result_simps)
  with w show ?thesis by blast
qed

text \<open>
  Undoing a successful token operation right after it succeeds and gives back a cache that answers
  every query as before the operation (for tokens of which only a lockable supply is ever locked).
\<close>

theorem tokens_undo_restores:
  assumes "tokens_steps (tokens_cache_new p) c" and "tokens_wf c"
    and "tokens_exec call c = (Inr u, c')"
  shows "\<exists>c2. tokens_undo u c' = (Inr (), c2) \<and> get_token_data c2 = get_token_data c \<and>
    get_circulating_supply c2 = get_circulating_supply c"
proof -
  have "tokens_cache_ok c" using tokens_steps_cache_ok [OF assms(1)] by simp
  from tokens_undo_restores_aux [OF assms(3) this assms(2)] show ?thesis
    by (auto simp: same_tokens_def)
qed

theorem tokens_undo_restores_witness:
  "\<exists>u c2 c3. mint_tokens 1 7 sample_cache = (Inr u, c2) \<and> tokens_undo u c2 = (Inr (), c3) \<and>
     get_circulating_supply c3 1 = Inr 50"
proof -
  have "is_ok (fst (tokens_exec (CallMint 1 7) sample_cache))" by code_simp
  then obtain u c2 where m: "tokens_exec (CallMint 1 7) sample_cache = (Inr u, c2)"
    by (auto simp: is_ok_iff) (metis prod.collapse)
  have "tokens_wf sample_cache" by (auto simp: tokens_wf_def sample_cache_reads sample_token_def split: if_splits)
  from tokens_undo_restores [OF sample_cache_steps this m] m show ?thesis
    by (auto simp: sample_cache_reads)
qed

text \<open>
  A token operation that returns an error has changed nothing: the cache is the one before the call.
\<close>

theorem tokens_failed_call_changes_nothing:
  assumes "tokens_exec call c = (Inl e, c')"
  shows "c' = c"
  using assms by (rule tokens_exec_Err)

theorem tokens_failed_call_changes_nothing_witness:
  "\<exists>e c2. mint_tokens 1 51 sample_cache = (Inl e, c2) \<and> c2 = sample_cache"
proof -
  have "\<not> is_ok (fst (tokens_exec (CallMint 1 51) sample_cache))" by code_simp
  then obtain e c2 where m: "tokens_exec (CallMint 1 51) sample_cache = (Inl e, c2)"
    by (cases "tokens_exec (CallMint 1 51) sample_cache"; cases "fst (tokens_exec (CallMint 1 51) sample_cache)")
      (auto simp: is_ok_def)
  with tokens_failed_call_changes_nothing [OF m] show ?thesis by auto
qed

text \<open>
  C6: The circulating supply of a token with a fixed total supply never exceeds that supply: if no
  supply of the parent does, none seen through the cache does after any sequence of operations.
\<close>

theorem tokens_supply_within_limit:
  assumes "tokens_steps (tokens_cache_new p) c" and "tokens_within_limit p"
  shows "tokens_within_limit (tokens_cache_view c)"
  using assms
proof (induction rule: tokens_steps.induct)
  case no_call
  have "get_token_data (tokens_cache_new p) tid = map_err (\<lambda>_. TokensViewFail) (view_token_data p tid)"
    "get_circulating_supply (tokens_cache_new p) tid =
       map_err (\<lambda>_. TokensViewFail) (view_circulating_supply p tid)" for tid
    by (simp_all add: get_token_data_eq get_circulating_supply_def tokens_cache_new_def and_then_def
        map_err_def split: sum.splits)
  with no_call show ?case
    by (auto simp: tokens_within_limit_def tokens_cache_view_def result_simps)
qed (auto dest: tokens_exec_within_limit)

theorem tokens_supply_within_limit_witness:
  "tokens_within_limit (tokens_cache_view sample_cache)"
  by (rule tokens_supply_within_limit [OF sample_cache_steps])
    (simp add: tokens_within_limit_def tokens_db_view_def in_memory_tokens_storage_def map_column_def
      empty_tokens_def)

text \<open>
  C32: Locking is final: once the supply of a lockable token is locked, no sequence of operations
  unlocks it, changes its kind or changes its circulating supply.
\<close>

theorem tokens_locked_supply_is_final:
  assumes "tokens_steps c c'" and "get_token_data c tid = Inr (Some (FungibleToken d))"
    and "ft_locked d" and "ft_total_supply d = Lockable"
  shows "get_circulating_supply c' tid = get_circulating_supply c tid \<and>
    (\<exists>d'. get_token_data c' tid = Inr (Some (FungibleToken d')) \<and> ft_locked d' \<and>
       ft_total_supply d' = Lockable)"
  using assms
proof (induction rule: tokens_steps.induct)
  case (one_call a call r b)
  then obtain d' where d': "get_circulating_supply a tid = get_circulating_supply c tid"
      "get_token_data a tid = Inr (Some (FungibleToken d'))" "ft_locked d'" "ft_total_supply d' = Lockable"
    by blast
  with tokens_exec_data [OF one_call.hyps(2) d'(2)] tokens_exec_supply [OF one_call.hyps(2), of tid]
  show ?case by (metis Inr_inject option.inject token_data.inject)
qed simp

theorem tokens_locked_supply_is_final_witness:
  "get_circulating_supply (tokens_run [CallMint 1 5, CallFreeze 1 Unfreezable, CallUnmint 1 2] locked_cache) 1 = Inr 9"
proof -
  have st: "tokens_steps locked_cache (tokens_run [CallMint 1 5, CallFreeze 1 Unfreezable, CallUnmint 1 2] locked_cache)"
    by (rule tokens_steps_run) (rule tokens_steps.no_call)
  have c: "get_token_data locked_cache 1 = Inr (Some (FungibleToken (sample_token Lockable True (NotFrozen Freezable))))"
      "get_circulating_supply locked_cache 1 = Inr 9"
    by (simp_all add: locked_cache_def get_token_data_eq get_circulating_supply_Ok tokens_cache_new_def map_err_def)
  have "ft_locked (sample_token Lockable True (NotFrozen Freezable))"
      "ft_total_supply (sample_token Lockable True (NotFrozen Freezable)) = Lockable"
    by (simp_all add: sample_token_def)
  from tokens_locked_supply_is_final [OF st c(1) this] c(2) show ?thesis by metis
qed

text \<open>
  A token frozen without the option to unfreeze is inert: no sequence of operations changes its
  data or its circulating supply.
\<close>

theorem tokens_frozen_is_inert:
  assumes "tokens_steps c c'" and "get_token_data c tid = Inr (Some (FungibleToken d))"
    and "ft_frozen d = Frozen NotUnfreezable"
  shows "get_token_data c' tid = get_token_data c tid \<and>
    get_circulating_supply c' tid = get_circulating_supply c tid"
  using assms
proof (induction rule: tokens_steps.induct)
  case (one_call a call r b)
  then have d: "get_circulating_supply a tid = get_circulating_supply c tid"
      "get_token_data a tid = Inr (Some (FungibleToken d))" "is_frozen d"
    by (auto simp: is_frozen_def)
  with one_call tokens_exec_data [OF one_call.hyps(2) d(2)] tokens_exec_supply [OF one_call.hyps(2), of tid]
  show ?case by (metis Inr_inject option.inject token_data.inject)
qed simp

theorem tokens_frozen_is_inert_witness:
  "get_circulating_supply (tokens_run [CallMint 1 5, CallUnfreeze 1, CallMint 1 5] frozen_cache) 1 = Inr 9"
proof -
  have st: "tokens_steps frozen_cache (tokens_run [CallMint 1 5, CallUnfreeze 1, CallMint 1 5] frozen_cache)"
    by (rule tokens_steps_run) (rule tokens_steps.no_call)
  have c: "get_token_data frozen_cache 1 = Inr (Some (FungibleToken (sample_token Unlimited False (Frozen NotUnfreezable))))"
      "get_circulating_supply frozen_cache 1 = Inr 9"
    by (simp_all add: frozen_cache_def get_token_data_eq get_circulating_supply_Ok tokens_cache_new_def map_err_def)
  have "ft_frozen (sample_token Unlimited False (Frozen NotUnfreezable)) = Frozen NotUnfreezable"
    by (simp_all add: sample_token_def)
  from tokens_frozen_is_inert [OF st c(1) this] c(2) show ?thesis by metis
qed

text \<open>
  Caches stack: writing the deltas of a child cache into the cache it was opened on succeeds when
  every supply can be read through the child, and the cache then answers every query as the child did,
  staying coherent with its own parent.
\<close>

theorem tokens_child_flush_refines:
  assumes "tokens_cache_ok c" and "tokens_steps (tokens_cache_new (tokens_cache_view c)) k"
    and "\<And>tid. is_ok (get_circulating_supply k tid)"
  shows "\<exists>u c'. batch_write_tokens_data (tc_data k) c = (Inr u, c') \<and> tokens_cache_ok c' \<and>
    get_token_data c' = get_token_data k \<and> get_circulating_supply c' = get_circulating_supply k"
proof -
  have ok: "tokens_cache_ok k" "tc_parent k = tokens_cache_view c"
    using tokens_steps_cache_ok [OF assms(2)] by simp_all
  have parent: "(\<lambda>tid. map_err (\<lambda>_. TokensViewFail) (view_token_data (tc_parent k) tid)) = get_token_data c"
    "(\<lambda>tid. map_err (\<lambda>_. TokensViewFail) (view_circulating_supply (tc_parent k) tid)) = get_circulating_supply c"
    using child_supply_parent [OF ok(2) assms(3)] by (simp_all add: ok(2) tokens_cache_view_def token_data_error)
  note reads = get_token_data_cached [of k] get_circulating_supply_cached [of k]
  obtain m' where m': "merge_delta_data (td_token_data (tc_data k)) (td_token_data (tc_data c)) =
      (Inr (fmmap invert (td_token_data (tc_data k))), m')"
      "data_coherent (\<lambda>tid. map_err (\<lambda>_. TokensViewFail) (view_token_data (tc_parent c) tid)) m'"
      "cached_data (\<lambda>tid. map_err (\<lambda>_. TokensViewFail) (view_token_data (tc_parent c) tid)) m' = get_token_data k"
    using merge_delta_data_coherent [of _ "td_token_data (tc_data c)" "td_token_data (tc_data k)"] assms(1) ok(1)
    unfolding tokens_cache_ok_coherent parent reads get_token_data_cached [of c] by blast
  have "\<exists>a. cached_balance TokensAccountingError (get_circulating_supply c)
      (td_circulating_supply (tc_data k)) tid = Inr a" for tid
    using assms(3) [of tid] unfolding is_ok_iff reads parent .
  then obtain s' where s': "merge_delta_amounts (td_circulating_supply (tc_data k))
      (td_circulating_supply (tc_data c)) = (Inr (), s')" "no_zero_deltas s'"
      "cached_balance TokensAccountingError
        (\<lambda>tid. map_err (\<lambda>_. TokensViewFail) (view_circulating_supply (tc_parent c) tid)) s' =
       get_circulating_supply k"
    using merge_delta_amounts_stack [of TokensAccountingError TokensAccountingError _
      "td_circulating_supply (tc_data c)"] assms(1)
    unfolding tokens_cache_ok_coherent parent reads get_circulating_supply_cached [of c] by blast
  define c' where "c' = c\<lparr>tc_data := \<lparr>td_token_data = m', td_circulating_supply = s'\<rparr>\<rparr>"
  have "\<exists>u. batch_write_tokens_data (tc_data k) c = (Inr u, c')"
    using m'(1) s'(1) by (auto simp: batch_write_tokens_data_def tokens_merge_with_delta_def op_simps c'_def)
  moreover have "tokens_cache_ok c'" using m'(2) s'(2) by (simp add: tokens_cache_ok_coherent c'_def)
  moreover have "get_token_data c' = get_token_data k" "get_circulating_supply c' = get_circulating_supply k"
    using m'(3) s'(3) unfolding get_token_data_cached [of c'] get_circulating_supply_cached [of c']
    by (simp_all add: c'_def)
  ultimately show ?thesis by blast
qed

theorem tokens_child_flush_refines_witness:
  "\<exists>u c'. batch_write_tokens_data (tc_data (tokens_cache_new (tokens_cache_view sample_cache))) sample_cache =
     (Inr u, c') \<and> get_circulating_supply c' 1 = Inr 50"
proof -
  have ok: "tokens_cache_ok sample_cache" using tokens_steps_cache_ok [OF sample_cache_steps] by simp
  have "get_circulating_supply (tokens_cache_new (tokens_cache_view sample_cache)) tid =
      Inr (if tid = 1 then 50 else 0)" for tid
    by (subst get_circulating_supply_def)
      (simp add: tokens_cache_new_def tokens_cache_view_def sample_cache_reads and_then_def map_err_def)
  with tokens_child_flush_refines [OF ok tokens_steps.no_call] show ?thesis
    by (auto simp: sample_cache_reads is_ok_def)
qed

text \<open>
  C40: Minting is checked against the supply of the parent only for a fixed supply. For a token of unlimited
  supply, or of lockable supply not locked, that is not frozen, minting succeeds exactly when the amount, and
  the sum of what the cache has added and the amount, fit a signed amount. If the supply and the amount come
  to a signed amount the supply read afterwards is their sum; otherwise minting has succeeded all the same,
  the circulating supply cannot be read through the cache any more, and no in-memory store with the
  supply of the parent takes the deltas.
\<close>

theorem mint_can_overflow_supply:
  assumes "get_token_data c tid = Inr (Some (FungibleToken d))" and "\<not> is_frozen d"
    and "ft_total_supply d = Unlimited \<or> ft_total_supply d = Lockable \<and> \<not> ft_locked d"
    and "get_circulating_supply c tid = Inr s"
    and "view_circulating_supply (tc_parent c) tid = Inr p" and "in_i128 (uint p)"
  shows "(is_ok (fst (mint_tokens tid a c)) \<longleftrightarrow> in_i128 (uint a) \<and> in_i128 (uint s - uint p + uint a)) \<and>
    (is_ok (fst (mint_tokens tid a c)) \<longrightarrow>
       (if uint s + uint a < 2 ^ 127 then get_circulating_supply (snd (mint_tokens tid a c)) tid = Inr (s + a)
        else get_circulating_supply (snd (mint_tokens tid a c)) tid =
            Inl (TokensAccountingError ArithmeticErrorDeltaAdditionFailed) \<and>
          (\<forall>st. view_circulating_supply (tokens_db_view in_memory_tokens_storage st) tid = Inr p \<longrightarrow>
             \<not> is_ok (fst (tokens_db_batch_write in_memory_tokens_storage (tc_data (snd (mint_tokens tid a c))) st)))))"
proof -
  have mint: "mint_tokens tid a c = (Inr (MintTokenUndo tid a), c') \<longleftrightarrow> on_supply (add_unsigned tid a) c = (Inr (), c')" for c'
    using assms(1-3) by (auto simp: mint_tokens_Ok)
  have "is_ok (fst (mint_tokens tid a c)) \<longleftrightarrow> (\<exists>c'. mint_tokens tid a c = (Inr (MintTokenUndo tid a), c'))"
    by (cases "mint_tokens tid a c") (auto simp: is_ok_iff mint_tokens_Ok)
  also have "\<dots> \<longleftrightarrow> is_ok (fst (add_unsigned tid a (td_circulating_supply (tc_data c))))"
    unfolding mint by (cases "add_unsigned tid a (td_circulating_supply (tc_data c))") (auto simp: on_supply_Ok is_ok_iff)
  finally have ok: "is_ok (fst (mint_tokens tid a c)) \<longleftrightarrow> in_i128 (uint a) \<and> in_i128 (uint s - uint p + uint a)"
    using supply_value [OF assms(4,5)] by (simp add: add_unsigned_ok_iff)
  have "\<not> is_ok (fst (tokens_db_batch_write in_memory_tokens_storage (tc_data c') st))"
    if c': "on_supply (add_unsigned tid a) c = (Inr (), c')" and "\<not> uint s + uint a < 2 ^ 127"
      and st: "view_circulating_supply (tokens_db_view in_memory_tokens_storage st) tid = Inr p" for c' st
    using supply_added [OF c' assms(4-6)] that combine_too_large [OF assms(6)] in_memory.flush_combines [OF _ _ st]
    by (cases "tokens_db_merge_with_delta in_memory_tokens_storage (tc_data c') st")
      (fastforce simp: is_ok_iff tokens_db_batch_write_def map_errS_def map_err_def not_less split: sum.splits)
  with minted_supply_read [OF _ assms(4-6)] have after: "if uint s + uint a < 2 ^ 127 then get_circulating_supply c' tid = Inr (s + a)
      else get_circulating_supply c' tid = Inl (TokensAccountingError ArithmeticErrorDeltaAdditionFailed) \<and>
        (\<forall>st. view_circulating_supply (tokens_db_view in_memory_tokens_storage st) tid = Inr p \<longrightarrow>
           \<not> is_ok (fst (tokens_db_batch_write in_memory_tokens_storage (tc_data c') st)))"
    if "on_supply (add_unsigned tid a) c = (Inr (), c')" for c' using that by auto
  obtain r c' where r: "mint_tokens tid a c = (r, c')" by (cases "mint_tokens tid a c")
  have "on_supply (add_unsigned tid a) c = (Inr (), c')" if "is_ok r" using that r mint [of c'] by (auto simp: is_ok_iff mint_tokens_Ok)
  with ok after [of c'] r show ?thesis by auto
qed

text \<open>The parent reports the greatest signed amount, and one atom more is minted.\<close>

theorem mint_can_overflow_supply_witness:
  "let (r, c) = mint_tokens 1 1
         (tokens_cache_new (tokens_db_view in_memory_tokens_storage full_supply_store)) in
   is_ok r \<and>
   get_circulating_supply c 1 = Inl (TokensAccountingError ArithmeticErrorDeltaAdditionFailed) \<and>
   \<not> is_ok (fst (tokens_db_batch_write in_memory_tokens_storage (tc_data c) full_supply_store))"
proof -
  let ?c = "tokens_cache_new (tokens_db_view in_memory_tokens_storage full_supply_store)"
    and ?p = "170141183460469231731687303715884105727 :: amount"
  have view: "view_circulating_supply (tokens_db_view in_memory_tokens_storage full_supply_store) 1 = Inr ?p" by code_simp
  have "get_token_data ?c 1 = Inr (Some (FungibleToken (sample_token Unlimited False (NotFrozen Freezable))))"
    "get_circulating_supply ?c 1 = Inr ?p" "view_circulating_supply (tc_parent ?c) 1 = Inr ?p"
    by code_simp+
  from mint_can_overflow_supply [OF this(1) _ _ this(2,3), of 1] view show ?thesis
    by (simp add: sample_token_def is_frozen_def in_i128_iff case_prod_beta)
qed

end
