(* ===== verification/Orders_Accounting.thy ===== *)
theory Orders_Accounting
  imports Chain_Types Cached_Views
begin

text \<open>
  The \<open>orders-accounting\<close> crate: orders exchange an asked currency for a given one. A cache of deltas
  over a parent view holds the data of the orders and their two balances (\<open>cache.rs\<close>), a fill is priced
  by the remaining balances (version 0) or by the original amounts (version 1) of the order
  (\<open>price_calculation.rs\<close>), and the deltas are flushed to a database (\<open>storage/db.rs\<close>).
\<close>

section \<open>Order data, deltas, views and errors\<close>

record order_data =
  conclude_key :: destination
  order_ask :: output_value
  order_give :: output_value
  order_is_frozen :: bool

definition order_data_new :: "destination \<Rightarrow> output_value \<Rightarrow> output_value \<Rightarrow> order_data" where
  "order_data_new k ask give =
     \<lparr>conclude_key = k, order_ask = ask, order_give = give, order_is_frozen = False\<rparr>"

definition order_try_freeze :: "order_data \<Rightarrow> order_data + order_data" where
  "order_try_freeze d =
     (if order_is_frozen d then Err d
      else Ok \<lparr>conclude_key = conclude_key d, order_ask = order_ask d, order_give = order_give d,
               order_is_frozen = True\<rparr>)"

definition order_data_from_chain :: "chain_order_data \<Rightarrow> order_data" where
  "order_data_from_chain o' = order_data_new (chain_conclude_key o') (chain_ask o') (chain_give o')"

record orders_delta_data =
  od_order_data :: "(order_id, order_data) delta_data_collection"
  od_ask_balances :: "order_id delta_amount_collection"
  od_give_balances :: "order_id delta_amount_collection"

record orders_delta_undo_data =
  odu_order_data :: "(order_id, order_data) delta_data_undo_collection"
  odu_ask_balances :: "order_id delta_amount_collection"
  odu_give_balances :: "order_id delta_amount_collection"

datatype orders_error =
    OrdersAccountingError accounting_error
  | OrderAlreadyExists order_id
  | OrderDataNotFound order_id
  | OrderWithZeroValue order_id
  | InvariantOrderDataNotFoundForUndo order_id
  | InvariantOrderAskBalanceChangedForUndo order_id
  | InvariantOrderGiveBalanceChangedForUndo order_id
  | InvariantOrderDataExistForConcludeUndo order_id
  | InvariantOrderDataNotExistForFreezeUndo order_id
  | InvariantOrderAskBalanceExistForConcludeUndo order_id
  | InvariantOrderGiveBalanceExistForConcludeUndo order_id
  | InvariantNonzeroAskBalanceForMissingOrder order_id
  | InvariantNonzeroGiveBalanceForMissingOrder order_id
  | OrderOverflow order_id
  | OrderOverbid order_id amount amount
  | OrderUnderbid order_id amount
  | AttemptedConcludeNonexistingOrderData order_id
  | AttemptedFreezeNonexistingOrderData order_id
  | AttemptedFreezeAlreadyFrozenOrder order_id
  | AttemptedFillFrozenOrder order_id
  | UnsupportedTokenVersion
  | OrdersViewFail
  | OrdersStorageWrite

definition output_value_amount :: "output_value \<Rightarrow> orders_error + amount" where
  "output_value_amount v = (case v of
      Coin a \<Rightarrow> Ok a
    | TokenV1 _ a \<Rightarrow> Ok a
    | TokenV0 _ \<Rightarrow> Err UnsupportedTokenVersion)"

record 'e orders_view =
  view_order_data :: "order_id \<Rightarrow> 'e + order_data option"
  view_ask_balance :: "order_id \<Rightarrow> 'e + amount"
  view_give_balance :: "order_id \<Rightarrow> 'e + amount"

definition orders_merge_with_delta ::
    "orders_delta_data \<Rightarrow> (orders_delta_data, orders_error, orders_delta_undo_data) op" where
  "orders_merge_with_delta other =
     bindS (zoomS od_order_data (\<lambda>x. od_order_data_update (\<lambda>_. x))
       (map_errS OrdersAccountingError (merge_delta_data (od_order_data other)))) (\<lambda>order_data_undo.
     bindS (zoomS od_ask_balances (\<lambda>x. od_ask_balances_update (\<lambda>_. x))
       (map_errS OrdersAccountingError (merge_delta_amounts (od_ask_balances other)))) (\<lambda>_.
     bindS (zoomS od_give_balances (\<lambda>x. od_give_balances_update (\<lambda>_. x))
       (map_errS OrdersAccountingError (merge_delta_amounts (od_give_balances other)))) (\<lambda>_.
     returnS \<lparr>odu_order_data = order_data_undo,
              odu_ask_balances = od_ask_balances other,
              odu_give_balances = od_give_balances other\<rparr>)))"

section \<open>The price of a fill\<close>

text \<open>
  The product is taken in 256 bits, where it cannot overflow (\<open>Panic\<close> is the \<open>expect\<close>); dividing by
  zero and a quotient above 128 bits give \<open>None\<close>.
\<close>

definition calculate_filled_amount ::
    "amount \<Rightarrow> amount \<Rightarrow> amount \<Rightarrow> unit failure + amount option" where
  "calculate_filled_amount ask_amount give_amount fill_amount =
     (let give = (ucast give_amount :: u256); fill = ucast fill_amount; ask = ucast ask_amount in
      and_then (ok_or (checked_mul_u give fill) Panic) (\<lambda>product.
      Ok (Option.bind (checked_div_u product ask) (\<lambda>result.
          if result \<le> ucast (- 1 :: u128) then Some (ucast result) else None))))"

text \<open>The failure of a pricing is an error of the crate, or the panic above.\<close>

definition filled_amount_or ::
    "orders_error \<Rightarrow> unit failure + amount option \<Rightarrow> orders_error failure + amount" where
  "filled_amount_or e r = (case r of
      Inl _ \<Rightarrow> Err Panic
    | Inr v \<Rightarrow> ok_or v (Fail e))"

definition calculate_fill_order_based_on_remaining_balances ::
    "'e orders_view \<Rightarrow> order_id \<Rightarrow> amount \<Rightarrow> orders_error failure + amount" where
  "calculate_fill_order_based_on_remaining_balances view oid fill =
     and_then (map_err (\<lambda>_. Fail OrdersViewFail) (view_ask_balance view oid)) (\<lambda>ask_balance.
     and_then (map_err (\<lambda>_. Fail OrdersViewFail) (view_give_balance view oid)) (\<lambda>give_balance.
     and_then (ensure (ask_balance \<ge> fill) (Fail (OrderOverbid oid ask_balance fill))) (\<lambda>_.
     filled_amount_or (OrderOverflow oid)
       (calculate_filled_amount ask_balance give_balance fill))))"

definition calculate_fill_order_based_on_original_price ::
    "'e orders_view \<Rightarrow> order_id \<Rightarrow> amount \<Rightarrow> orders_error failure + amount" where
  "calculate_fill_order_based_on_original_price view oid fill =
     and_then (map_err (\<lambda>_. Fail OrdersViewFail) (view_order_data view oid)) (\<lambda>data.
     and_then (ok_or data (Fail (OrderDataNotFound oid))) (\<lambda>data.
     and_then (map_err Fail (output_value_amount (order_ask data))) (\<lambda>original_ask.
     and_then (map_err Fail (output_value_amount (order_give data))) (\<lambda>original_give.
     and_then (map_err (\<lambda>_. Fail OrdersViewFail) (view_ask_balance view oid)) (\<lambda>current_ask_balance.
     and_then (ensure (current_ask_balance \<ge> fill)
                 (Fail (OrderOverbid oid current_ask_balance fill))) (\<lambda>_.
     and_then (filled_amount_or (OrderOverflow oid)
                 (calculate_filled_amount original_ask original_give fill)) (\<lambda>result.
     and_then (ensure (result > amount_zero) (Fail (OrderUnderbid oid fill))) (\<lambda>_.
     Ok result))))))))"

definition calculate_fill_order ::
    "'e orders_view \<Rightarrow> order_id \<Rightarrow> amount \<Rightarrow> orders_version \<Rightarrow> orders_error failure + amount" where
  "calculate_fill_order view oid fill version = (case version of
      OrdersV0 \<Rightarrow> calculate_fill_order_based_on_remaining_balances view oid fill
    | OrdersV1 \<Rightarrow> calculate_fill_order_based_on_original_price view oid fill)"

section \<open>The cache\<close>

record 'e orders_cache =
  oc_parent :: "'e orders_view"
  oc_data :: orders_delta_data

definition orders_cache_new :: "'e orders_view \<Rightarrow> 'e orders_cache" where
  "orders_cache_new p =
     \<lparr>oc_parent = p,
      oc_data = \<lparr>od_order_data = fmempty, od_ask_balances = fmempty, od_give_balances = fmempty\<rparr>\<rparr>"

definition get_order_data :: "'e orders_cache \<Rightarrow> order_id \<Rightarrow> orders_error + order_data option" where
  "get_order_data c oid = (case get_data (od_order_data (oc_data c)) oid of
      Present d \<Rightarrow> Ok (Some d)
    | Deleted \<Rightarrow> Ok None
    | Missing \<Rightarrow> map_err (\<lambda>_. OrdersViewFail) (view_order_data (oc_parent c) oid))"

definition get_ask_balance :: "'e orders_cache \<Rightarrow> order_id \<Rightarrow> orders_error + amount" where
  "get_ask_balance c oid =
     and_then (map_err (\<lambda>_. OrdersViewFail) (view_ask_balance (oc_parent c) oid)) (\<lambda>parent_supply.
     map_err OrdersAccountingError
       (combine_amount_delta parent_supply (fmlookup (od_ask_balances (oc_data c)) oid)))"

definition get_give_balance :: "'e orders_cache \<Rightarrow> order_id \<Rightarrow> orders_error + amount" where
  "get_give_balance c oid =
     and_then (map_err (\<lambda>_. OrdersViewFail) (view_give_balance (oc_parent c) oid)) (\<lambda>parent_supply.
     map_err OrdersAccountingError
       (combine_amount_delta parent_supply (fmlookup (od_give_balances (oc_data c)) oid)))"

definition orders_cache_view :: "'e orders_cache \<Rightarrow> orders_error orders_view" where
  "orders_cache_view c =
     \<lparr>view_order_data = get_order_data c, view_ask_balance = get_ask_balance c,
      view_give_balance = get_give_balance c\<rparr>"

definition batch_write_orders_data ::
    "orders_delta_data \<Rightarrow> ('e orders_cache, orders_error, orders_delta_undo_data) op" where
  "batch_write_orders_data delta =
     zoomS oc_data (\<lambda>x. oc_data_update (\<lambda>_. x)) (orders_merge_with_delta delta)"

datatype orders_accounting_undo =
    CreateOrderUndo order_id "order_data data_delta_undo" amount amount
  | ConcludeOrderUndo order_id "order_data data_delta_undo" amount amount
  | FillOrderUndo order_id amount amount
  | FreezeOrderUndo order_id "order_data data_delta_undo"

text \<open>Calls on the collections of the cache, with the error converted, and reads.\<close>

definition on_order_data ::
    "((order_id, order_data) delta_data_collection, accounting_error, 'a) op \<Rightarrow>
     ('e orders_cache, orders_error failure, 'a) op" where
  "on_order_data m = zoomS (\<lambda>c. od_order_data (oc_data c))
     (\<lambda>x. oc_data_update (od_order_data_update (\<lambda>_. x))) (map_errS (Fail \<circ> OrdersAccountingError) m)"

definition on_ask_balances ::
    "(order_id delta_amount_collection, accounting_error, 'a) op \<Rightarrow>
     ('e orders_cache, orders_error failure, 'a) op" where
  "on_ask_balances m = zoomS (\<lambda>c. od_ask_balances (oc_data c))
     (\<lambda>x. oc_data_update (od_ask_balances_update (\<lambda>_. x))) (map_errS (Fail \<circ> OrdersAccountingError) m)"

definition on_give_balances ::
    "(order_id delta_amount_collection, accounting_error, 'a) op \<Rightarrow>
     ('e orders_cache, orders_error failure, 'a) op" where
  "on_give_balances m = zoomS (\<lambda>c. od_give_balances (oc_data c))
     (\<lambda>x. oc_data_update (od_give_balances_update (\<lambda>_. x))) (map_errS (Fail \<circ> OrdersAccountingError) m)"

definition read_order ::
    "('e orders_cache \<Rightarrow> orders_error + 'a) \<Rightarrow> ('e orders_cache, orders_error failure, 'a) op" where
  "read_order f = readS (\<lambda>c. map_err Fail (f c))"

definition create_order ::
    "order_id \<Rightarrow> order_data \<Rightarrow> ('e orders_cache, orders_error failure, orders_accounting_undo) op" where
  "create_order oid data =
     bindS (read_order (\<lambda>c. get_order_data c oid)) (\<lambda>present.
     bindS (ensureS (present = None) (Fail (OrderAlreadyExists oid))) (\<lambda>_.
     bindS (read_order (\<lambda>c. get_ask_balance c oid)) (\<lambda>ask.
     bindS (ensureS (ask = amount_zero) (Fail (OrderAlreadyExists oid))) (\<lambda>_.
     bindS (liftS (map_err Fail (output_value_amount (order_ask data)))) (\<lambda>ask_amount.
     bindS (liftS (map_err Fail (output_value_amount (order_give data)))) (\<lambda>give_amount.
     bindS (ensureS (ask_amount > amount_zero \<and> give_amount > amount_zero)
              (Fail (OrderWithZeroValue oid))) (\<lambda>_.
     bindS (on_order_data (merge_delta_data_element oid (new_delta None (Some data)))) (\<lambda>undo_data.
     bindS (on_ask_balances (add_unsigned oid ask_amount)) (\<lambda>_.
     bindS (on_give_balances (add_unsigned oid give_amount)) (\<lambda>_.
     returnS (CreateOrderUndo oid undo_data ask_amount give_amount)))))))))))"

definition conclude_order ::
    "order_id \<Rightarrow> ('e orders_cache, orders_error failure, orders_accounting_undo) op" where
  "conclude_order oid =
     bindS (read_order (\<lambda>c. get_order_data c oid)) (\<lambda>data.
     bindS (liftS (ok_or data (Fail (AttemptedConcludeNonexistingOrderData oid)))) (\<lambda>order_data.
     bindS (read_order (\<lambda>c. get_ask_balance c oid)) (\<lambda>ask_balance.
     bindS (read_order (\<lambda>c. get_give_balance c oid)) (\<lambda>give_balance.
     bindS (on_order_data (merge_delta_data_element oid (new_delta (Some order_data) None))) (\<lambda>undo_data.
     bindS (on_ask_balances (sub_unsigned oid ask_balance)) (\<lambda>_.
     bindS (on_give_balances (sub_unsigned oid give_balance)) (\<lambda>_.
     returnS (ConcludeOrderUndo oid undo_data ask_balance give_balance))))))))"

definition fill_order ::
    "order_id \<Rightarrow> amount \<Rightarrow> orders_version \<Rightarrow>
     ('e orders_cache, orders_error failure, orders_accounting_undo) op" where
  "fill_order oid fill version =
     bindS (read_order (\<lambda>c. get_order_data c oid)) (\<lambda>data.
     bindS (liftS (ok_or data (Fail (OrderDataNotFound oid)))) (\<lambda>order_data.
     bindS (ensureS (\<not> order_is_frozen order_data) (Fail (AttemptedFillFrozenOrder oid))) (\<lambda>_.
     bindS (readS (\<lambda>c. calculate_fill_order (orders_cache_view c) oid fill version)) (\<lambda>filled_amount.
     bindS (on_give_balances (sub_unsigned oid filled_amount)) (\<lambda>_.
     bindS (on_ask_balances (sub_unsigned oid fill)) (\<lambda>_.
     returnS (FillOrderUndo oid fill filled_amount)))))))"

definition freeze_order ::
    "order_id \<Rightarrow> ('e orders_cache, orders_error failure, orders_accounting_undo) op" where
  "freeze_order oid =
     bindS (read_order (\<lambda>c. get_order_data c oid)) (\<lambda>data.
     bindS (liftS (ok_or data (Fail (AttemptedFreezeNonexistingOrderData oid)))) (\<lambda>old_data.
     bindS (liftS (map_err (\<lambda>_. Fail (AttemptedFreezeAlreadyFrozenOrder oid))
              (order_try_freeze old_data))) (\<lambda>new_data.
     bindS (on_order_data (merge_delta_data_element oid (new_delta (Some old_data) (Some new_data))))
       (\<lambda>undo_data.
     returnS (FreezeOrderUndo oid undo_data)))))"

fun orders_undo :: "orders_accounting_undo \<Rightarrow> ('e orders_cache, orders_error failure, unit) op" where
  "orders_undo (CreateOrderUndo oid undo_data ask_balance give_balance) =
     bindS (read_order (\<lambda>c. get_ask_balance c oid)) (\<lambda>ask.
     bindS (ensureS (ask = ask_balance) (Fail (InvariantOrderAskBalanceChangedForUndo oid))) (\<lambda>_.
     bindS (on_ask_balances (sub_unsigned oid ask_balance)) (\<lambda>_.
     bindS (read_order (\<lambda>c. get_give_balance c oid)) (\<lambda>give.
     bindS (ensureS (give = give_balance) (Fail (InvariantOrderGiveBalanceChangedForUndo oid))) (\<lambda>_.
     bindS (on_give_balances (sub_unsigned oid give_balance)) (\<lambda>_.
     bindS (read_order (\<lambda>c. get_order_data c oid)) (\<lambda>data.
     bindS (ensureS (data \<noteq> None) (Fail (InvariantOrderDataNotFoundForUndo oid))) (\<lambda>_.
     on_order_data (undo_merge_delta_data_element oid undo_data)))))))))"
| "orders_undo (ConcludeOrderUndo oid undo_data ask_balance give_balance) =
     bindS (read_order (\<lambda>c. get_order_data c oid)) (\<lambda>data.
     bindS (ensureS (data = None) (Fail (InvariantOrderDataExistForConcludeUndo oid))) (\<lambda>_.
     bindS (on_order_data (undo_merge_delta_data_element oid undo_data)) (\<lambda>_.
     bindS (read_order (\<lambda>c. get_ask_balance c oid)) (\<lambda>ask.
     bindS (ensureS (ask = amount_zero) (Fail (InvariantOrderAskBalanceExistForConcludeUndo oid))) (\<lambda>_.
     bindS (on_ask_balances (add_unsigned oid ask_balance)) (\<lambda>_.
     bindS (read_order (\<lambda>c. get_give_balance c oid)) (\<lambda>give.
     bindS (ensureS (give = amount_zero) (Fail (InvariantOrderGiveBalanceExistForConcludeUndo oid))) (\<lambda>_.
     on_give_balances (add_unsigned oid give_balance)))))))))"
| "orders_undo (FillOrderUndo oid ask_balance give_balance) =
     bindS (on_ask_balances (add_unsigned oid ask_balance)) (\<lambda>_.
     on_give_balances (add_unsigned oid give_balance))"
| "orders_undo (FreezeOrderUndo oid undo_data) =
     bindS (read_order (\<lambda>c. get_order_data c oid)) (\<lambda>data.
     bindS (ensureS (data \<noteq> None) (Fail (InvariantOrderDataNotExistForFreezeUndo oid))) (\<lambda>_.
     on_order_data (undo_merge_delta_data_element oid undo_data)))"

section \<open>The database\<close>

record ('s, 'e) orders_storage =
  st_order_data :: "('s, 'e, order_id, order_data) column"
  st_ask_balances :: "('s, 'e, order_id, amount) column"
  st_give_balances :: "('s, 'e, order_id, amount) column"

definition orders_db_merge_with_delta ::
    "('s, 'e) orders_storage \<Rightarrow> orders_delta_data \<Rightarrow>
     ('s, orders_error failure, orders_delta_undo_data) op" where
  "orders_db_merge_with_delta S other =
     bindS (merge_data_generic OrdersViewFail OrdersStorageWrite OrdersAccountingError
              (st_order_data S) (od_order_data other)) (\<lambda>data_undo.
     bindS (merge_balances_generic OrdersViewFail OrdersStorageWrite OrdersAccountingError
              (st_ask_balances S) (od_ask_balances other)) (\<lambda>ask_balance_undo.
     bindS (merge_balances_generic OrdersViewFail OrdersStorageWrite OrdersAccountingError
              (st_give_balances S) (od_give_balances other)) (\<lambda>give_balance_undo.
     returnS \<lparr>odu_order_data = data_undo, odu_ask_balances = ask_balance_undo,
              odu_give_balances = give_balance_undo\<rparr>)))"

definition orders_db_batch_write ::
    "('s, 'e) orders_storage \<Rightarrow> orders_delta_data \<Rightarrow>
     ('s, orders_error failure, orders_delta_undo_data) op" where
  "orders_db_batch_write S delta =
     map_errS (\<lambda>e. case e of Fail _ \<Rightarrow> Fail OrdersStorageWrite | Panic \<Rightarrow> Panic)
       (orders_db_merge_with_delta S delta)"

definition orders_db_view :: "('s, 'e) orders_storage \<Rightarrow> 's \<Rightarrow> 'e orders_view" where
  "orders_db_view S s =
     \<lparr>view_order_data = col_get (st_order_data S) s,
      view_ask_balance = col_balance (st_ask_balances S) s,
      view_give_balance = col_balance (st_give_balances S) s\<rparr>"

record in_memory_orders =
  im_orders_data :: "(order_id, order_data) btree_map"
  im_ask_balances :: "(order_id, amount) btree_map"
  im_give_balances :: "(order_id, amount) btree_map"

definition in_memory_orders_storage :: "(in_memory_orders, orders_error) orders_storage" where
  "in_memory_orders_storage =
     \<lparr>st_order_data = map_column im_orders_data (\<lambda>m. im_orders_data_update (\<lambda>_. m)),
      st_ask_balances = map_column im_ask_balances (\<lambda>m. im_ask_balances_update (\<lambda>_. m)),
      st_give_balances = map_column im_give_balances (\<lambda>m. im_give_balances_update (\<lambda>_. m))\<rparr>"

section \<open>The price of a fill as a number\<close>

lemma calculate_filled_amount_eq:
  "calculate_filled_amount ask give fill =
     Inr (if ask = 0 \<or> 2 ^ 128 \<le> uint give * uint fill div uint ask then None
          else Some (word_of_int (uint give * uint fill div uint ask)))"
proof -
  obtain p where p: "checked_mul_u (ucast give :: u256) (ucast fill) = Some p" "uint p = uint give * uint fill"
    using product_256 by blast
  have ask: "(ucast ask :: u256) = 0 \<longleftrightarrow> ask = 0" by (simp add: word_uint_eq_iff)
  show ?thesis
  proof (cases "ask = 0")
    case True
    with p ask show ?thesis
      by (simp add: calculate_filled_amount_def and_then_def ok_or_def checked_div_u_def)
  next
    case False
    define q where "q = p div (ucast ask :: u256)"
    have q: "uint q = uint give * uint fill div uint ask"
      by (simp add: q_def uint_div p(2))
    have "q \<le> ucast (- 1 :: u128) \<longleftrightarrow> uint q < 2 ^ 128"
      by (simp add: word_le_def uint_word_ariths zle_diff1_eq [symmetric])
    moreover have "(ucast q :: u128) = word_of_int (uint q)"
      by simp
    ultimately show ?thesis
      using False ask p q
      by (simp add: calculate_filled_amount_def and_then_def ok_or_def checked_div_u_def q_def [symmetric]
          del: of_int_uint)
  qed
qed

lemma calculate_filled_amount_Some:
  "calculate_filled_amount ask give fill = Inr (Some r) \<longleftrightarrow>
     ask \<noteq> 0 \<and> uint r = uint give * uint fill div uint ask"
proof -
  have "0 \<le> uint give * uint fill div uint ask"
    by (simp add: pos_imp_zdiv_nonneg_iff div_int_pos_iff)
  then show ?thesis
    using uint_lt2p [of r] by (auto simp: calculate_filled_amount_eq word_uint_eq_iff uint_word_of_int)
qed

lemma filled_amount_or_Inr [result_simps]:
  "filled_amount_or e r = Inr a \<longleftrightarrow> r = Inr (Some a)"
  by (auto simp: filled_amount_or_def result_simps split: sum.splits)

lemma calculate_fill_order_no_panic: "calculate_fill_order v oid fill ver \<noteq> Inl Panic"
  by (auto simp: calculate_fill_order_def calculate_fill_order_based_on_remaining_balances_def
      calculate_fill_order_based_on_original_price_def result_simps filled_amount_or_def
      calculate_filled_amount_eq split: orders_version.splits if_splits)

section \<open>Reading through the cache and writing to it\<close>

abbreviation orders_parent_data :: "'e orders_cache \<Rightarrow> order_id \<Rightarrow> orders_error + order_data option" where
  "orders_parent_data c \<equiv> \<lambda>oid. map_err (\<lambda>_. OrdersViewFail) (view_order_data (oc_parent c) oid)"

abbreviation orders_parent_ask :: "'e orders_cache \<Rightarrow> order_id \<Rightarrow> orders_error + amount" where
  "orders_parent_ask c \<equiv> \<lambda>oid. map_err (\<lambda>_. OrdersViewFail) (view_ask_balance (oc_parent c) oid)"

abbreviation orders_parent_give :: "'e orders_cache \<Rightarrow> order_id \<Rightarrow> orders_error + amount" where
  "orders_parent_give c \<equiv> \<lambda>oid. map_err (\<lambda>_. OrdersViewFail) (view_give_balance (oc_parent c) oid)"

lemma get_order_data_cached:
  "get_order_data c = cached_data (orders_parent_data c) (od_order_data (oc_data c))"
  by (auto simp: get_order_data_def get_data_def cached_data_def fun_eq_iff split: option.splits)

lemma get_balances_cached:
  "get_ask_balance c = cached_balance OrdersAccountingError (orders_parent_ask c) (od_ask_balances (oc_data c))"
  "get_give_balance c = cached_balance OrdersAccountingError (orders_parent_give c) (od_give_balances (oc_data c))"
  by (simp_all add: get_ask_balance_def get_give_balance_def cached_balance_def fun_eq_iff)

lemmas orders_cached = get_order_data_cached get_balances_cached

definition set_order_data :: "'e orders_cache \<Rightarrow> (order_id, order_data) delta_data_collection \<Rightarrow> 'e orders_cache" where
  "set_order_data c x = oc_data_update (od_order_data_update (\<lambda>_. x)) c"

definition set_ask :: "'e orders_cache \<Rightarrow> order_id delta_amount_collection \<Rightarrow> 'e orders_cache" where
  "set_ask c x = oc_data_update (od_ask_balances_update (\<lambda>_. x)) c"

definition set_give :: "'e orders_cache \<Rightarrow> order_id delta_amount_collection \<Rightarrow> 'e orders_cache" where
  "set_give c x = oc_data_update (od_give_balances_update (\<lambda>_. x)) c"

text \<open>The cache after the data of an order changed from \<open>x\<close> to \<open>y\<close>.\<close>

definition with_order ::
    "'e orders_cache \<Rightarrow> order_id \<Rightarrow> order_data option \<Rightarrow> order_data option \<Rightarrow> 'e orders_cache" where
  "with_order c oid x y = set_order_data c (put_delta oid x y (od_order_data (oc_data c)))"

lemma set_order_data_simps [simp]:
  "oc_parent (set_order_data c x) = oc_parent c"
  "od_order_data (oc_data (set_order_data c x)) = x"
  "od_ask_balances (oc_data (set_order_data c x)) = od_ask_balances (oc_data c)"
  "od_give_balances (oc_data (set_order_data c x)) = od_give_balances (oc_data c)"
  "get_ask_balance (set_order_data c x) = get_ask_balance c"
  "get_give_balance (set_order_data c x) = get_give_balance c"
  by (simp_all add: set_order_data_def get_ask_balance_def get_give_balance_def fun_eq_iff)

lemma set_ask_simps [simp]:
  "oc_parent (set_ask c x) = oc_parent c"
  "od_order_data (oc_data (set_ask c x)) = od_order_data (oc_data c)"
  "od_ask_balances (oc_data (set_ask c x)) = x"
  "od_give_balances (oc_data (set_ask c x)) = od_give_balances (oc_data c)"
  "get_order_data (set_ask c x) = get_order_data c"
  "get_give_balance (set_ask c x) = get_give_balance c"
  by (simp_all add: set_ask_def orders_cached)

lemma set_give_simps [simp]:
  "oc_parent (set_give c x) = oc_parent c"
  "od_order_data (oc_data (set_give c x)) = od_order_data (oc_data c)"
  "od_ask_balances (oc_data (set_give c x)) = od_ask_balances (oc_data c)"
  "od_give_balances (oc_data (set_give c x)) = x"
  "get_order_data (set_give c x) = get_order_data c"
  "get_ask_balance (set_give c x) = get_ask_balance c"
  by (simp_all add: set_give_def orders_cached)

lemma set_setters [simp]:
  "set_ask (set_ask c x) y = set_ask c y" "set_give (set_give c x) y = set_give c y"
  "set_give (set_ask c x) y = set_ask (set_give c y) x"
  "set_ask c (od_ask_balances (oc_data c)) = c" "set_give c (od_give_balances (oc_data c)) = c"
  by (simp_all add: set_ask_def set_give_def o_def)

lemma get_order_data_with_order [simp]:
  "get_order_data (with_order c oid x y) = (get_order_data c)(oid := Inr y)"
  by (simp add: with_order_def get_order_data_cached)

lemma with_order_simps [simp]:
  "oc_parent (with_order c oid x y) = oc_parent c"
  "od_ask_balances (oc_data (with_order c oid x y)) = od_ask_balances (oc_data c)"
  "od_give_balances (oc_data (with_order c oid x y)) = od_give_balances (oc_data c)"
  "get_ask_balance (with_order c oid x y) = get_ask_balance c"
  "get_give_balance (with_order c oid x y) = get_give_balance c"
  by (simp_all add: with_order_def)

lemma set_with_order [simp]:
  "set_ask (with_order c oid x y) (od_ask_balances (oc_data c)) = with_order c oid x y"
  "set_give (with_order c oid x y) (od_give_balances (oc_data c)) = with_order c oid x y"
  using set_setters(4,5) [of "with_order c oid x y"] by simp_all

lemma merge_order_read:
  "get_order_data c oid = Inr x \<Longrightarrow>
   on_order_data (merge_delta_data_element oid (new_delta x y)) c =
     (Inr (invert (new_delta x y)), with_order c oid x y)"
  using merge_delta_data_element_read [of "orders_parent_data c" _ oid x y]
  by (simp add: get_order_data_cached on_order_data_def zoomS_def map_errS_def map_err_def with_order_def
      set_order_data_def)

lemma undo_merge_order_read:
  "get_order_data c oid = Inr y \<Longrightarrow>
   on_order_data (undo_merge_delta_data_element oid (invert (new_delta x y))) c =
     (Inr (), with_order c oid y x)"
  using undo_merge_delta_data_element_read [of "orders_parent_data c" _ oid y x]
  by (simp add: get_order_data_cached on_order_data_def zoomS_def map_errS_def map_err_def with_order_def
      set_order_data_def)

lemma on_ask_balances_Inr [op_simps]:
  "on_ask_balances m c = (Inr u, c') \<longleftrightarrow>
     (\<exists>x. m (od_ask_balances (oc_data c)) = (Inr u, x) \<and> c' = set_ask c x)"
  by (auto simp: on_ask_balances_def op_simps set_ask_def)

lemma on_give_balances_Inr [op_simps]:
  "on_give_balances m c = (Inr u, c') \<longleftrightarrow>
     (\<exists>x. m (od_give_balances (oc_data c)) = (Inr u, x) \<and> c' = set_give c x)"
  by (auto simp: on_give_balances_def op_simps set_give_def)

lemma on_balances_Inl [op_simps]:
  "on_ask_balances m c = (Inl e, c') \<longleftrightarrow> (\<exists>d x. m (od_ask_balances (oc_data c)) = (Inl d, x) \<and>
     e = Fail (OrdersAccountingError d) \<and> c' = set_ask c x)"
  "on_give_balances m c = (Inl e, c') \<longleftrightarrow> (\<exists>d x. m (od_give_balances (oc_data c)) = (Inl d, x) \<and>
     e = Fail (OrdersAccountingError d) \<and> c' = set_give c x)"
  by (auto simp: on_ask_balances_def on_give_balances_def op_simps set_ask_def set_give_def)

lemma read_order_Inr [op_simps]: "read_order f c = (Inr a, c') \<longleftrightarrow> f c = Inr a \<and> c' = c"
  by (auto simp: read_order_def op_simps result_simps)

lemma read_order_Inl [op_simps]: "read_order f c = (Inl e, c') \<longleftrightarrow> (\<exists>d. f c = Inl d \<and> e = Fail d) \<and> c' = c"
  by (auto simp: read_order_def op_simps result_simps)

section \<open>What a successful operation does\<close>

lemma create_order_Ok:
  "create_order oid d c = (Inr u, c') \<longleftrightarrow>
     get_order_data c oid = Inr None \<and> get_ask_balance c oid = Inr 0 \<and>
     (\<exists>a g x y. output_value_amount (order_ask d) = Inr a \<and> output_value_amount (order_give d) = Inr g \<and>
        0 < a \<and> 0 < g \<and>
        add_unsigned oid a (od_ask_balances (oc_data c)) = (Inr (), x) \<and>
        add_unsigned oid g (od_give_balances (oc_data c)) = (Inr (), y) \<and>
        u = CreateOrderUndo oid (invert (new_delta None (Some d))) a g \<and>
        c' = set_give (set_ask (with_order c oid None (Some d)) x) y)"
  by (auto simp: create_order_def op_simps result_simps merge_order_read amount_zero_def)

lemma conclude_order_Ok:
  "conclude_order oid c = (Inr u, c') \<longleftrightarrow>
     (\<exists>d a g x y. get_order_data c oid = Inr (Some d) \<and> get_ask_balance c oid = Inr a \<and>
        get_give_balance c oid = Inr g \<and>
        sub_unsigned oid a (od_ask_balances (oc_data c)) = (Inr (), x) \<and>
        sub_unsigned oid g (od_give_balances (oc_data c)) = (Inr (), y) \<and>
        u = ConcludeOrderUndo oid (invert (new_delta (Some d) None)) a g \<and>
        c' = set_give (set_ask (with_order c oid (Some d) None) x) y)"
  by (auto simp: conclude_order_def op_simps result_simps merge_order_read)

lemma fill_order_Ok:
  "fill_order oid f ver c = (Inr u, c') \<longleftrightarrow>
     (\<exists>d r x y. get_order_data c oid = Inr (Some d) \<and> \<not> order_is_frozen d \<and>
        calculate_fill_order (orders_cache_view c) oid f ver = Inr r \<and>
        sub_unsigned oid r (od_give_balances (oc_data c)) = (Inr (), y) \<and>
        sub_unsigned oid f (od_ask_balances (oc_data c)) = (Inr (), x) \<and>
        u = FillOrderUndo oid f r \<and> c' = set_ask (set_give c y) x)"
  by (auto simp: fill_order_def op_simps result_simps)

lemma order_try_freeze_Ok [result_simps]:
  "order_try_freeze d = Inr d' \<longleftrightarrow> \<not> order_is_frozen d \<and> d' = d\<lparr>order_is_frozen := True\<rparr>"
  by (cases d) (auto simp: order_try_freeze_def)

lemma freeze_order_Ok:
  "freeze_order oid c = (Inr u, c') \<longleftrightarrow>
     (\<exists>d. get_order_data c oid = Inr (Some d) \<and> \<not> order_is_frozen d \<and>
        (let x = Some d; y = Some (d\<lparr>order_is_frozen := True\<rparr>) in
         u = FreezeOrderUndo oid (invert (new_delta x y)) \<and> c' = with_order c oid x y))"
  by (auto simp: freeze_order_def op_simps result_simps merge_order_read Let_def)

section \<open>Balances after an operation\<close>

lemma ask_balance_add:
  "get_ask_balance c oid = Inr s \<Longrightarrow> add_unsigned oid a (od_ask_balances (oc_data c)) = (Inr u, x) \<Longrightarrow>
     in_i128 (uint s + uint a) \<Longrightarrow> get_ask_balance (set_ask c x) = (get_ask_balance c)(oid := Inr (s + a))"
  by (simp add: get_balances_cached cached_balance_add)

lemma ask_balance_sub:
  "get_ask_balance c oid = Inr s \<Longrightarrow> sub_unsigned oid a (od_ask_balances (oc_data c)) = (Inr u, x) \<Longrightarrow>
     in_i128 (uint s) \<Longrightarrow> a \<le> s \<Longrightarrow> get_ask_balance (set_ask c x) = (get_ask_balance c)(oid := Inr (s - a))"
  by (simp add: get_balances_cached cached_balance_sub)

lemma give_balance_add:
  "get_give_balance c oid = Inr s \<Longrightarrow> add_unsigned oid a (od_give_balances (oc_data c)) = (Inr u, x) \<Longrightarrow>
     in_i128 (uint s + uint a) \<Longrightarrow> get_give_balance (set_give c x) = (get_give_balance c)(oid := Inr (s + a))"
  by (simp add: get_balances_cached cached_balance_add)

lemma give_balance_sub:
  "get_give_balance c oid = Inr s \<Longrightarrow> sub_unsigned oid a (od_give_balances (oc_data c)) = (Inr u, x) \<Longrightarrow>
     in_i128 (uint s) \<Longrightarrow> a \<le> s \<Longrightarrow> get_give_balance (set_give c x) = (get_give_balance c)(oid := Inr (s - a))"
  by (simp add: get_balances_cached cached_balance_sub)

text \<open>The setters commute with the reads they do not touch, in any nesting.\<close>

lemma set_ask_with_order [simp]:
  "get_ask_balance (set_ask (with_order c oid d d') x) = get_ask_balance (set_ask c x)"
  "get_give_balance (set_give (with_order c oid d d') x) = get_give_balance (set_give c x)"
  "get_ask_balance (set_ask (set_give c y) x) = get_ask_balance (set_ask c x)"
  "get_give_balance (set_give (set_ask c y) x) = get_give_balance (set_give c x)"
  by (simp_all add: get_balances_cached)

section \<open>The invariant of orders\<close>

text \<open>
  An order that does not exist has no balances. An existing one has original amounts that fit in a
  signed amount, balances of at most the original amounts, and a remaining given balance that pays the
  remaining asked balance at the original price.
\<close>

definition order_ok :: "order_data option \<Rightarrow> 'e + amount \<Rightarrow> 'e + amount \<Rightarrow> bool" where
  "order_ok data ask give \<longleftrightarrow> (case data of
      None \<Rightarrow> ask = Inr 0 \<and> give = Inr 0
    | Some d \<Rightarrow> (\<exists>oa og a g. output_value_amount (order_ask d) = Inr oa \<and>
        output_value_amount (order_give d) = Inr og \<and> 0 < uint oa \<and>
        in_i128 (uint oa) \<and> in_i128 (uint og) \<and> ask = Inr a \<and> give = Inr g \<and> a \<le> oa \<and> g \<le> og \<and>
        uint og * uint a \<le> uint g * uint oa))"

definition orders_view_ok :: "'e orders_view \<Rightarrow> bool" where
  "orders_view_ok v \<longleftrightarrow> (\<forall>oid x. view_order_data v oid = Inr x \<longrightarrow>
     order_ok x (view_ask_balance v oid) (view_give_balance v oid))"

lemma orders_view_ok_cache:
  "orders_view_ok (orders_cache_view c) \<longleftrightarrow> (\<forall>oid x. get_order_data c oid = Inr x \<longrightarrow>
     order_ok x (get_ask_balance c oid) (get_give_balance c oid))"
  by (simp add: orders_view_ok_def orders_cache_view_def)

lemma fill_by_original_price:
  fixes oa og a g f :: int
  assumes "0 < oa" "0 \<le> og" "0 \<le> f" "f \<le> a" "og * a \<le> g * oa"
  defines "r \<equiv> og * f div oa"
  shows "r \<le> g \<and> og * (a - f) \<le> (g - r) * oa"
proof -
  have r: "r * oa \<le> og * f"
    using div_mult_mod_eq [of "og * f" oa] pos_mod_sign [OF assms(1), of "og * f"]
    unfolding r_def by linarith
  also have "\<dots> \<le> og * a" using assms by (simp add: mult_left_mono)
  finally have "r * oa \<le> g * oa" using assms(5) by linarith
  then have "r \<le> g" using assms(1) by simp
  moreover have "og * (a - f) \<le> (g - r) * oa" using r assms(5) by (simp add: algebra_simps)
  ultimately show ?thesis by simp
qed

lemma fill_by_remaining_balances:
  fixes oa og a g f :: int
  assumes "0 < a" "0 \<le> g" "0 \<le> f" "f \<le> a" "og * a \<le> g * oa" "0 < oa"
  defines "r \<equiv> g * f div a"
  shows "r \<le> g \<and> og * (a - f) \<le> (g - r) * oa"
proof -
  have r: "r * a \<le> g * f"
    using div_mult_mod_eq [of "g * f" a] pos_mod_sign [OF assms(1), of "g * f"]
    unfolding r_def by linarith
  also have "\<dots> \<le> g * a" using assms by (simp add: mult_left_mono)
  finally have "r \<le> g" using assms(1) by simp
  have "(og * (a - f)) * a = og * a * (a - f)" by (simp add: algebra_simps)
  also have "\<dots> \<le> g * oa * (a - f)" using assms by (simp add: mult_right_mono)
  also have "\<dots> = oa * (g * a - g * f)" by (simp add: algebra_simps)
  also have "\<dots> \<le> oa * (g * a - r * a)" using r assms(6) by simp
  also have "\<dots> = ((g - r) * oa) * a" by (simp add: algebra_simps)
  finally have "og * (a - f) \<le> (g - r) * oa" using assms(1) by (rule mult_right_le_imp_le)
  with \<open>r \<le> g\<close> show ?thesis by simp
qed

lemma fill_keeps_order_ok:
  assumes "order_ok (Some d) (get_ask_balance c oid) (get_give_balance c oid)"
    and "get_order_data c oid = Inr (Some d)"
    and "calculate_fill_order (orders_cache_view c) oid f ver = Inr r"
  shows "\<exists>a g. get_ask_balance c oid = Inr a \<and> get_give_balance c oid = Inr g \<and>
    in_i128 (uint a) \<and> in_i128 (uint g) \<and> f \<le> a \<and> r \<le> g \<and>
    order_ok (Some d) (Inr (a - f) :: orders_error + amount) (Inr (g - r))"
proof -
  obtain oa og a g where ok: "output_value_amount (order_ask d) = Inr oa"
      "output_value_amount (order_give d) = Inr og" "0 < uint oa" "in_i128 (uint oa)" "in_i128 (uint og)"
      "get_ask_balance c oid = Inr a" "get_give_balance c oid = Inr g" "a \<le> oa" "g \<le> og"
      "uint og * uint a \<le> uint g * uint oa"
    using assms(1) by (auto simp: order_ok_def)
  have "f \<le> a \<and> (ver = OrdersV0 \<and> a \<noteq> 0 \<and> uint r = uint g * uint f div uint a \<or>
      ver = OrdersV1 \<and> uint r = uint og * uint f div uint oa)"
    using assms(2,3) ok(1,2,6,7)
    by (auto simp: calculate_fill_order_def calculate_fill_order_based_on_remaining_balances_def
        calculate_fill_order_based_on_original_price_def orders_cache_view_def result_simps
        calculate_filled_amount_Some split: orders_version.splits)
  then have f: "uint f \<le> uint a" and r: "uint r \<le> uint g \<and>
      uint og * (uint a - uint f) \<le> (uint g - uint r) * uint oa"
    using fill_by_original_price [of "uint oa" "uint og" "uint f" "uint a" "uint g"]
      fill_by_remaining_balances [of "uint a" "uint g" "uint f" "uint og" "uint oa"] ok(3,10)
    by (auto simp: word_le_def word_neq_0_conv word_less_def)
  then have le: "f \<le> a" "r \<le> g" by (simp_all add: word_le_def)
  then have "a - f \<le> oa" "g - r \<le> og"
    using ok(8,9) uint_ge_0 [of f] uint_ge_0 [of r] uint_sub_small [OF le(1)] uint_sub_small [OF le(2)]
    unfolding word_le_def by linarith+
  then have "order_ok (Some d) (Inr (a - f) :: orders_error + amount) (Inr (g - r))"
    using ok(1-5) r by (simp add: order_ok_def uint_sub_small [OF le(1)] uint_sub_small [OF le(2)])
  moreover have "in_i128 (uint a)" "in_i128 (uint g)" using ok(4,5,8,9) in_i128_mono by blast+
  ultimately show ?thesis using ok(6,7) le by blast
qed

section \<open>Sequences of operations\<close>

datatype orders_call =
    CallCreateOrder order_id order_data
  | CallConcludeOrder order_id
  | CallFillOrder order_id amount orders_version
  | CallFreezeOrder order_id

fun orders_exec :: "orders_call \<Rightarrow> ('e orders_cache, orders_error failure, orders_accounting_undo) op" where
  "orders_exec (CallCreateOrder oid d) = create_order oid d"
| "orders_exec (CallConcludeOrder oid) = conclude_order oid"
| "orders_exec (CallFillOrder oid f v) = fill_order oid f v"
| "orders_exec (CallFreezeOrder oid) = freeze_order oid"

lemmas order_Ok = create_order_Ok conclude_order_Ok fill_order_Ok freeze_order_Ok

text \<open>
  A created order asks and gives amounts that fit in a signed amount. \<open>create_order\<close> does not check this before
  it stores the data of the order: it holds of every creation that succeeds (\<open>orders_exec_fits\<close>), and a
  creation that fails because it does not hold leaves the data behind (\<open>create_order_leaves_data\<close>).
\<close>

fun call_fits :: "orders_call \<Rightarrow> bool" where
  "call_fits (CallCreateOrder oid d) \<longleftrightarrow>
     (\<forall>a. output_value_amount (order_ask d) = Inr a \<or> output_value_amount (order_give d) = Inr a \<longrightarrow>
        in_i128 (uint a))"
| "call_fits _ \<longleftrightarrow> True"

lemma orders_exec_fits:
  assumes "orders_exec call c = (Inr u, c')"
  shows "call_fits call"
proof (cases call)
  case (CallCreateOrder oid d)
  with assms show ?thesis by (auto simp: create_order_Ok dest!: add_unsigned_Ok)
qed simp_all

lemma create_order_leaves_data:
  assumes "get_order_data c oid = Inr None" and "get_ask_balance c oid = Inr 0"
    and "output_value_amount (order_ask d) = Inr a" and "0 < a" and "in_i128 (uint a)"
    and "output_value_amount (order_give d) = Inr g" and "\<not> in_i128 (uint g)"
  shows "\<exists>e c'. create_order oid d c = (Inl e, c') \<and> get_order_data c' oid = Inr (Some d) \<and>
    get_give_balance c' = get_give_balance c"
proof -
  have "0 < g" using assms(7) by (auto simp: word_gt_0 in_signed_def)
  obtain x where x: "add_unsigned oid a (od_ask_balances (oc_data c)) = (Inr (), x)"
    using cached_balance_add_ok [OF assms(2) [unfolded get_balances_cached], of a] assms(5) by auto
  obtain e y where y: "add_unsigned oid g (od_give_balances (oc_data c)) = (Inl e, y)"
    using assms(7) add_unsigned_Ok by (metis old.prod.exhaust old.sum.exhaust)
  with add_unsigned_Err [OF y] x assms \<open>0 < g\<close> show ?thesis
    by (auto simp: create_order_def op_simps result_simps merge_order_read amount_zero_def get_balances_cached)
qed

lemma orders_view_okD:
  "orders_view_ok (orders_cache_view c) \<Longrightarrow> get_order_data c oid = Inr x \<Longrightarrow>
     order_ok x (get_ask_balance c oid) (get_give_balance c oid)"
  by (simp add: orders_view_ok_cache)

lemma order_balances_sub_ok:
  assumes "order_ok (Some d) (get_ask_balance c oid) (get_give_balance c oid)"
    and "get_ask_balance c oid = Inr a" and "get_give_balance c oid = Inr g" and "f \<le> a" and "r \<le> g"
  shows "\<exists>x. sub_unsigned oid f (od_ask_balances (oc_data c)) = (Inr (), x)"
    and "\<exists>y. sub_unsigned oid r (od_give_balances (oc_data c)) = (Inr (), y)"
proof -
  obtain oa og where "a \<le> oa" "g \<le> og" "in_i128 (uint oa)" "in_i128 (uint og)"
    using assms(1-3) by (auto simp: order_ok_def)
  then have small: "in_i128 (uint a)" "in_i128 (uint g)" using in_i128_mono by blast+
  show "\<exists>x. sub_unsigned oid f (od_ask_balances (oc_data c)) = (Inr (), x)"
    by (rule cached_balance_sub_ok [OF assms(2) [unfolded get_balances_cached] small(1) assms(4)])
  show "\<exists>y. sub_unsigned oid r (od_give_balances (oc_data c)) = (Inr (), y)"
    by (rule cached_balance_sub_ok [OF assms(3) [unfolded get_balances_cached] small(2) assms(5)])
qed

lemma create_order_Err:
  assumes "create_order oid d c = (Inl e, c')" and "orders_view_ok (orders_cache_view c)"
    and "call_fits (CallCreateOrder oid d)"
  shows "c' = c"
proof (rule ccontr)
  assume "c' \<noteq> c"
  with assms(1) obtain a g where ag: "get_order_data c oid = Inr None" "get_ask_balance c oid = Inr 0"
      "output_value_amount (order_ask d) = Inr a" "output_value_amount (order_give d) = Inr g"
      "(\<exists>e x. add_unsigned oid a (od_ask_balances (oc_data c)) = (Inl e, x)) \<or>
       (\<exists>e x. add_unsigned oid g (od_give_balances (oc_data c)) = (Inl e, x))"
    by (auto simp: create_order_def op_simps result_simps merge_order_read amount_zero_def)
  have "get_give_balance c oid = Inr 0"
    using orders_view_okD [OF assms(2) ag(1)] by (simp add: order_ok_def)
  moreover have "in_i128 (uint (0 :: amount) + uint a)" "in_i128 (uint (0 :: amount) + uint g)"
    using ag(3,4) assms(3) by simp_all
  ultimately have "\<exists>x. add_unsigned oid a (od_ask_balances (oc_data c)) = (Inr (), x)"
      "\<exists>y. add_unsigned oid g (od_give_balances (oc_data c)) = (Inr (), y)"
    using ag(2) unfolding get_balances_cached by (auto intro: cached_balance_add_ok)
  with ag(5) show False by auto
qed

lemma conclude_order_Err:
  assumes "conclude_order oid c = (Inl e, c')" and "orders_view_ok (orders_cache_view c)"
  shows "c' = c"
proof (rule ccontr)
  assume "c' \<noteq> c"
  with assms(1) obtain d a g where dag: "get_order_data c oid = Inr (Some d)" "get_ask_balance c oid = Inr a"
      "get_give_balance c oid = Inr g"
      "(\<exists>e x. sub_unsigned oid a (od_ask_balances (oc_data c)) = (Inl e, x)) \<or>
       (\<exists>e x. sub_unsigned oid g (od_give_balances (oc_data c)) = (Inl e, x))"
    by (auto simp: conclude_order_def op_simps result_simps merge_order_read)
  have "order_ok (Some d) (get_ask_balance c oid) (get_give_balance c oid)"
    by (rule orders_view_okD [OF assms(2) dag(1)])
  from order_balances_sub_ok [OF this dag(2,3) order_refl order_refl] dag(4) show False by auto
qed

lemma fill_order_Err:
  assumes "fill_order oid f ver c = (Inl e, c')" and "orders_view_ok (orders_cache_view c)"
  shows "c' = c"
proof (rule ccontr)
  assume "c' \<noteq> c"
  with assms(1) obtain d r where dr: "get_order_data c oid = Inr (Some d)"
      "calculate_fill_order (orders_cache_view c) oid f ver = Inr r"
      "(\<exists>e x. sub_unsigned oid f (od_ask_balances (oc_data c)) = (Inl e, x)) \<or>
       (\<exists>e x. sub_unsigned oid r (od_give_balances (oc_data c)) = (Inl e, x))"
    by (auto simp: fill_order_def op_simps result_simps)
  have ok: "order_ok (Some d) (get_ask_balance c oid) (get_give_balance c oid)"
    by (rule orders_view_okD [OF assms(2) dr(1)])
  from fill_keeps_order_ok [OF ok dr(1,2)] order_balances_sub_ok [OF ok] dr(3) show False by fastforce
qed

lemma freeze_order_Err: "freeze_order oid c = (Inl e, c') \<Longrightarrow> c' = c"
  by (auto simp: freeze_order_def op_simps result_simps merge_order_read)

lemma orders_exec_Err:
  assumes "orders_exec call c = (Inl e, c')" and "orders_view_ok (orders_cache_view c)" and "call_fits call"
  shows "c' = c"
proof (cases call)
  case (CallCreateOrder oid d)
  with assms show ?thesis by (metis create_order_Err orders_exec.simps(1))
next
  case (CallConcludeOrder oid)
  with assms show ?thesis by (metis conclude_order_Err orders_exec.simps(2))
next
  case (CallFillOrder oid f v)
  with assms show ?thesis by (metis fill_order_Err orders_exec.simps(3))
next
  case (CallFreezeOrder oid)
  with assms show ?thesis by (metis freeze_order_Err orders_exec.simps(4))
qed

section \<open>Coherence of a cache of orders with its parent\<close>

definition orders_cache_ok :: "'e orders_cache \<Rightarrow> bool" where
  "orders_cache_ok c \<longleftrightarrow> data_coherent (orders_parent_data c) (od_order_data (oc_data c)) \<and>
     no_zero_deltas (od_ask_balances (oc_data c)) \<and> no_zero_deltas (od_give_balances (oc_data c))"

lemma orders_cache_new_simps [simp]:
  "oc_parent (orders_cache_new p) = p" "orders_cache_ok (orders_cache_new p)"
  by (simp_all add: orders_cache_new_def orders_cache_ok_def no_zero_deltas_def)

lemma orders_cache_ok_with_order:
  "orders_cache_ok c \<Longrightarrow> get_order_data c oid = Inr x \<Longrightarrow> orders_cache_ok (with_order c oid x y)"
  by (simp add: orders_cache_ok_def with_order_def get_order_data_cached data_coherent_put)

lemma orders_cache_ok_nz:
  "orders_cache_ok c \<Longrightarrow> no_zero_deltas (od_ask_balances (oc_data c))"
  "orders_cache_ok c \<Longrightarrow> no_zero_deltas (od_give_balances (oc_data c))"
  by (simp_all add: orders_cache_ok_def)

lemma orders_cache_ok_setters:
  "orders_cache_ok c \<Longrightarrow> no_zero_deltas x \<Longrightarrow> orders_cache_ok (set_ask c x)"
  "orders_cache_ok c \<Longrightarrow> no_zero_deltas x \<Longrightarrow> orders_cache_ok (set_give c x)"
  by (simp_all add: orders_cache_ok_def)

lemmas orders_cache_ok_dests =
  orders_cache_ok_nz(1) [THEN add_unsigned_no_zero [rotated]] orders_cache_ok_nz(1) [THEN sub_unsigned_no_zero [rotated]]
  orders_cache_ok_nz(2) [THEN add_unsigned_no_zero [rotated]] orders_cache_ok_nz(2) [THEN sub_unsigned_no_zero [rotated]]

lemma orders_exec_Inl_cache_ok:
  "orders_exec call c = (Inl e, c') \<Longrightarrow> orders_cache_ok c \<Longrightarrow>
     orders_cache_ok c' \<and> oc_parent c' = oc_parent c"
  by (cases call)
    (auto simp: create_order_def conclude_order_def fill_order_def freeze_order_def op_simps result_simps
      merge_order_read amount_zero_def simp del: set_setters dest: orders_cache_ok_dests
      intro!: orders_cache_ok_with_order orders_cache_ok_setters)

lemma orders_exec_Inr_cache_ok:
  "orders_exec call c = (Inr u, c') \<Longrightarrow> orders_cache_ok c \<Longrightarrow>
     orders_cache_ok c' \<and> oc_parent c' = oc_parent c"
  by (cases call) (auto simp: order_Ok Let_def simp del: set_setters dest: orders_cache_ok_dests
      intro!: orders_cache_ok_with_order orders_cache_ok_setters)

lemma orders_exec_cache_ok:
  "orders_exec call c = (r, c') \<Longrightarrow> orders_cache_ok c \<Longrightarrow> orders_cache_ok c' \<and> oc_parent c' = oc_parent c"
  by (cases r) (auto dest: orders_exec_Inl_cache_ok orders_exec_Inr_cache_ok)

text \<open>Sequences of calls, successful or not, that all satisfy \<open>P\<close>.\<close>

inductive orders_steps :: "(orders_call \<Rightarrow> bool) \<Rightarrow> 'e orders_cache \<Rightarrow> 'e orders_cache \<Rightarrow> bool" for P c where
  no_order_call: "orders_steps P c c"
| one_order_call: "orders_steps P c a \<Longrightarrow> P call \<Longrightarrow> orders_exec call a = (r, b) \<Longrightarrow> orders_steps P c b"

lemma orders_steps_cache_ok:
  "orders_steps P c c' \<Longrightarrow> orders_cache_ok c \<Longrightarrow> orders_cache_ok c' \<and> oc_parent c' = oc_parent c"
  by (induction rule: orders_steps.induct) (auto dest: orders_exec_cache_ok)

section \<open>The invariant along a sequence of calls\<close>

lemma orders_view_ok_upd:
  assumes "orders_view_ok (orders_cache_view c)"
    and "get_order_data c' = (get_order_data c)(oid := Inr x)"
    and "get_ask_balance c' = (get_ask_balance c)(oid := a)"
    and "get_give_balance c' = (get_give_balance c)(oid := g)"
    and "order_ok x a g"
  shows "orders_view_ok (orders_cache_view c')"
  using assms by (simp add: orders_view_ok_cache)

lemma create_order_view_ok:
  assumes "create_order oid d c = (Inr u, c')" and ok: "orders_view_ok (orders_cache_view c)"
    and fits: "call_fits (CallCreateOrder oid d)"
  shows "orders_view_ok (orders_cache_view c')"
proof -
  obtain a g x y where c: "get_order_data c oid = Inr None" "get_ask_balance c oid = Inr 0"
      "output_value_amount (order_ask d) = Inr a" "output_value_amount (order_give d) = Inr g" "0 < a" "0 < g"
      "add_unsigned oid a (od_ask_balances (oc_data c)) = (Inr (), x)"
      "add_unsigned oid g (od_give_balances (oc_data c)) = (Inr (), y)"
      "c' = set_give (set_ask (with_order c oid None (Some d)) x) y"
    using assms(1) by (auto simp: create_order_Ok)
  have give: "get_give_balance c oid = Inr 0"
    using orders_view_okD [OF ok c(1)] by (simp add: order_ok_def)
  have range: "in_i128 (uint a)" "in_i128 (uint g)" using fits c(3,4) by simp_all
  show ?thesis
  proof (rule orders_view_ok_upd [OF ok])
    show "get_order_data c' = (get_order_data c)(oid := Inr (Some d))" by (simp add: c(9) del: set_setters)
    show "get_ask_balance c' = (get_ask_balance c)(oid := Inr a)"
      using ask_balance_add [OF c(2,7)] range by (simp add: c(9) del: set_setters)
    show "get_give_balance c' = (get_give_balance c)(oid := Inr g)"
      using give_balance_add [OF give c(8)] range by (simp add: c(9) del: set_setters)
    show "order_ok (Some d) (Inr a :: orders_error + amount) (Inr g)"
      using c(3-6) range by (simp add: order_ok_def word_less_def)
  qed
qed

lemma conclude_order_view_ok:
  assumes "conclude_order oid c = (Inr u, c')" and ok: "orders_view_ok (orders_cache_view c)"
  shows "orders_view_ok (orders_cache_view c')"
proof -
  obtain d a g x y where c: "get_order_data c oid = Inr (Some d)" "get_ask_balance c oid = Inr a"
      "get_give_balance c oid = Inr g" "sub_unsigned oid a (od_ask_balances (oc_data c)) = (Inr (), x)"
      "sub_unsigned oid g (od_give_balances (oc_data c)) = (Inr (), y)"
      "c' = set_give (set_ask (with_order c oid (Some d) None) x) y"
    using assms(1) by (auto simp: conclude_order_Ok)
  obtain oa og where "in_i128 (uint oa)" "in_i128 (uint og)" "a \<le> oa" "g \<le> og"
    using orders_view_okD [OF ok c(1)] c(2,3) by (auto simp: order_ok_def)
  then have range: "in_i128 (uint a)" "in_i128 (uint g)" using in_i128_mono by blast+
  show ?thesis
  proof (rule orders_view_ok_upd [OF ok])
    show "get_order_data c' = (get_order_data c)(oid := Inr None)" by (simp add: c(6) del: set_setters)
    show "get_ask_balance c' = (get_ask_balance c)(oid := Inr (a - a))"
      using ask_balance_sub [OF c(2,4) range(1)] by (simp add: c(6) del: set_setters)
    show "get_give_balance c' = (get_give_balance c)(oid := Inr (g - g))"
      using give_balance_sub [OF c(3,5) range(2)] by (simp add: c(6) del: set_setters)
    show "order_ok None (Inr (a - a) :: orders_error + amount) (Inr (g - g))" by (simp add: order_ok_def)
  qed
qed

lemma fill_order_reads:
  assumes "fill_order oid f ver c = (Inr u, c')" and ok: "orders_view_ok (orders_cache_view c)"
  shows "\<exists>d a g r. get_order_data c oid = Inr (Some d) \<and> get_ask_balance c oid = Inr a \<and>
    get_give_balance c oid = Inr g \<and> f \<le> a \<and> r \<le> g \<and>
    calculate_fill_order (orders_cache_view c) oid f ver = Inr r \<and>
    get_order_data c' = get_order_data c \<and>
    get_ask_balance c' = (get_ask_balance c)(oid := Inr (a - f)) \<and>
    get_give_balance c' = (get_give_balance c)(oid := Inr (g - r)) \<and>
    order_ok (Some d) (Inr (a - f) :: orders_error + amount) (Inr (g - r)) \<and> u = FillOrderUndo oid f r"
proof -
  obtain d r x y where c: "get_order_data c oid = Inr (Some d)"
      "calculate_fill_order (orders_cache_view c) oid f ver = Inr r"
      "sub_unsigned oid r (od_give_balances (oc_data c)) = (Inr (), y)"
      "sub_unsigned oid f (od_ask_balances (oc_data c)) = (Inr (), x)"
      "c' = set_ask (set_give c y) x" "u = FillOrderUndo oid f r"
    using assms(1) by (auto simp: fill_order_Ok)
  from fill_keeps_order_ok [OF orders_view_okD [OF ok c(1)] c(1,2)] obtain a g where
    ag: "get_ask_balance c oid = Inr a" "get_give_balance c oid = Inr g" "in_i128 (uint a)" "in_i128 (uint g)"
      "f \<le> a" "r \<le> g" "order_ok (Some d) (Inr (a - f) :: orders_error + amount) (Inr (g - r))"
    by blast
  have "get_order_data c' = get_order_data c" by (simp add: c(5) del: set_setters)
  moreover have "get_ask_balance c' = (get_ask_balance c)(oid := Inr (a - f))"
    using ask_balance_sub [OF ag(1) c(4) ag(3,5)] by (simp add: c(5) del: set_setters)
  moreover have "get_give_balance c' = (get_give_balance c)(oid := Inr (g - r))"
    using give_balance_sub [OF ag(2) c(3) ag(4,6)] by (simp add: c(5) del: set_setters)
  ultimately show ?thesis using c ag by blast
qed

lemma fill_order_view_ok:
  assumes "fill_order oid f ver c = (Inr u, c')" and ok: "orders_view_ok (orders_cache_view c)"
  shows "orders_view_ok (orders_cache_view c')"
proof -
  from fill_order_reads [OF assms] obtain d a g r where c: "get_order_data c oid = Inr (Some d)"
    "get_order_data c' = get_order_data c" "get_ask_balance c' = (get_ask_balance c)(oid := Inr (a - f))"
    "get_give_balance c' = (get_give_balance c)(oid := Inr (g - r))"
    "order_ok (Some d) (Inr (a - f) :: orders_error + amount) (Inr (g - r))"
    by auto
  show ?thesis
    by (rule orders_view_ok_upd [OF ok _ c(3,4,5)]) (simp add: c(1,2) fun_upd_idem)
qed

lemma freeze_order_view_ok:
  assumes "freeze_order oid c = (Inr u, c')" and ok: "orders_view_ok (orders_cache_view c)"
  shows "orders_view_ok (orders_cache_view c')"
proof -
  obtain d where c: "get_order_data c oid = Inr (Some d)"
      "c' = with_order c oid (Some d) (Some (d\<lparr>order_is_frozen := True\<rparr>))"
    using assms(1) by (auto simp: freeze_order_Ok Let_def)
  show ?thesis
  proof (rule orders_view_ok_upd [OF ok])
    show "get_order_data c' = (get_order_data c)(oid := Inr (Some (d\<lparr>order_is_frozen := True\<rparr>)))"
      by (simp add: c(2))
    show "order_ok (Some (d\<lparr>order_is_frozen := True\<rparr>)) (get_ask_balance c oid) (get_give_balance c oid)"
      using orders_view_okD [OF ok c(1)] by (simp add: order_ok_def)
  qed (simp_all add: c(2))
qed

lemma orders_exec_view_ok:
  assumes "orders_exec call c = (r, c')" and "orders_view_ok (orders_cache_view c)" and "call_fits call"
  shows "orders_view_ok (orders_cache_view c')"
proof (cases r)
  case (Inl e)
  with orders_exec_Err assms show ?thesis by blast
next
  case (Inr u)
  with assms show ?thesis
    by (cases call) (auto dest: create_order_view_ok conclude_order_view_ok fill_order_view_ok
        freeze_order_view_ok simp del: call_fits.simps)
qed

lemma order_ok_map_err: "order_ok x (map_err f a) (map_err g b) \<longleftrightarrow> order_ok x a b"
  by (simp add: order_ok_def map_err_eq split: option.splits)

lemma orders_cache_new_reads:
  "get_order_data (orders_cache_new p) = (\<lambda>oid. map_err (\<lambda>_. OrdersViewFail) (view_order_data p oid))"
  "get_ask_balance (orders_cache_new p) = (\<lambda>oid. map_err (\<lambda>_. OrdersViewFail) (view_ask_balance p oid))"
  "get_give_balance (orders_cache_new p) = (\<lambda>oid. map_err (\<lambda>_. OrdersViewFail) (view_give_balance p oid))"
  by (simp_all add: orders_cached orders_cache_new_def)

lemma orders_view_ok_new:
  "orders_view_ok p \<Longrightarrow> orders_view_ok (orders_cache_view (orders_cache_new p))"
  by (simp add: orders_view_ok_cache orders_cache_new_reads order_ok_map_err map_err_eq)
    (simp add: orders_view_ok_def)

lemma orders_steps_view_ok:
  "orders_steps call_fits c c' \<Longrightarrow> orders_view_ok (orders_cache_view c) \<Longrightarrow> orders_view_ok (orders_cache_view c')"
  by (induction rule: orders_steps.induct) (auto intro: orders_exec_view_ok)

section \<open>Undoing an operation on orders\<close>

definition same_orders :: "'e orders_cache \<Rightarrow> 'f orders_cache \<Rightarrow> bool" where
  "same_orders c c' \<longleftrightarrow> get_order_data c = get_order_data c' \<and> get_ask_balance c = get_ask_balance c' \<and>
     get_give_balance c = get_give_balance c'"

lemma orders_undo_create:
  assumes "create_order oid d c = (Inr u, c')" and "orders_cache_ok c" and "orders_view_ok (orders_cache_view c)"
  shows "\<exists>c2. orders_undo u c' = (Inr (), c2) \<and> same_orders c c2"
proof -
  obtain a g x y where c: "get_order_data c oid = Inr None" "get_ask_balance c oid = Inr 0"
      "add_unsigned oid a (od_ask_balances (oc_data c)) = (Inr (), x)"
      "add_unsigned oid g (od_give_balances (oc_data c)) = (Inr (), y)"
      "u = CreateOrderUndo oid (invert (new_delta None (Some d))) a g"
      "c' = set_give (set_ask (with_order c oid None (Some d)) x) y"
    using assms(1) by (auto simp: create_order_Ok)
  have give: "get_give_balance c oid = Inr 0"
    using orders_view_okD [OF assms(3) c(1)] by (simp add: order_ok_def)
  have reads: "get_ask_balance c' oid = Inr a" "get_give_balance c' oid = Inr g"
    using ask_balance_add [OF c(2,3)] give_balance_add [OF give c(4)] add_unsigned_Ok [OF c(3)]
      add_unsigned_Ok [OF c(4)] by (simp_all add: c(6) del: set_setters)
  have subs: "sub_unsigned oid a x = (Inr (), od_ask_balances (oc_data c))"
      "sub_unsigned oid g y = (Inr (), od_give_balances (oc_data c))"
    by (rule sub_after_add [OF orders_cache_ok_nz(1) [OF assms(2)] c(3)]
        sub_after_add [OF orders_cache_ok_nz(2) [OF assms(2)] c(4)])+
  define c1 where "c1 = with_order c oid None (Some d)"
  have undo: "on_order_data (undo_merge_delta_data_element oid (invert (new_delta None (Some d)))) c1 =
      (Inr (), with_order c1 oid (Some d) None)"
    by (rule undo_merge_order_read) (simp add: c1_def)
  from reads subs undo have "orders_undo u c' = (Inr (), with_order c1 oid (Some d) None)"
    by (auto simp: c(5) op_simps result_simps c(6) c1_def)
  moreover have "same_orders c (with_order c1 oid (Some d) None)"
    using c(1) by (simp add: same_orders_def c1_def fun_upd_idem)
  ultimately show ?thesis by blast
qed

lemma orders_undo_conclude:
  assumes "conclude_order oid c = (Inr u, c')" and "orders_cache_ok c" and "orders_view_ok (orders_cache_view c)"
  shows "\<exists>c2. orders_undo u c' = (Inr (), c2) \<and> same_orders c c2"
proof -
  obtain d a g x y where c: "get_order_data c oid = Inr (Some d)" "get_ask_balance c oid = Inr a"
      "get_give_balance c oid = Inr g" "sub_unsigned oid a (od_ask_balances (oc_data c)) = (Inr (), x)"
      "sub_unsigned oid g (od_give_balances (oc_data c)) = (Inr (), y)"
      "u = ConcludeOrderUndo oid (invert (new_delta (Some d) None)) a g"
      "c' = set_give (set_ask (with_order c oid (Some d) None) x) y"
    using assms(1) by (auto simp: conclude_order_Ok)
  obtain oa og where "in_i128 (uint oa)" "in_i128 (uint og)" "a \<le> oa" "g \<le> og"
    using orders_view_okD [OF assms(3) c(1)] c(2,3) by (auto simp: order_ok_def)
  then have range: "in_i128 (uint a)" "in_i128 (uint g)" using in_i128_mono by blast+
  have reads: "get_ask_balance (set_ask c x) oid = Inr 0" "get_give_balance (set_give c y) oid = Inr 0"
    using ask_balance_sub [OF c(2,4) range(1)] give_balance_sub [OF c(3,5) range(2)] by simp_all
  have adds: "add_unsigned oid a x = (Inr (), od_ask_balances (oc_data c))"
      "add_unsigned oid g y = (Inr (), od_give_balances (oc_data c))"
    by (rule add_after_sub [OF orders_cache_ok_nz(1) [OF assms(2)] c(4)]
        add_after_sub [OF orders_cache_ok_nz(2) [OF assms(2)] c(5)])+
  define c1 where "c1 = with_order c' oid None (Some d)"
  have undo: "on_order_data (undo_merge_delta_data_element oid (invert (new_delta (Some d) None))) c' =
      (Inr (), c1)"
    unfolding c1_def by (rule undo_merge_order_read) (simp add: c(7) del: set_setters)
  have c1: "get_ask_balance c1 oid = Inr 0" "get_give_balance c1 oid = Inr 0"
      "od_ask_balances (oc_data c1) = x" "od_give_balances (oc_data c1) = y" "oc_parent c1 = oc_parent c"
      "get_order_data c1 = get_order_data c"
    using reads c(1) by (simp_all add: c1_def c(7) fun_upd_idem del: set_setters)
  define c2 where "c2 = set_give (set_ask c1 (od_ask_balances (oc_data c))) (od_give_balances (oc_data c))"
  have "orders_undo u c' = (Inr (), c2)"
    using undo c1 adds
    by (auto simp: c(6) op_simps result_simps amount_zero_def c2_def c(7) simp del: set_setters)
  moreover have "same_orders c c2"
    using c1 by (simp add: same_orders_def c2_def get_balances_cached del: set_setters)
  ultimately show ?thesis by blast
qed

lemma orders_undo_fill:
  assumes "fill_order oid f ver c = (Inr u, c')" and "orders_cache_ok c"
  shows "orders_undo u c' = (Inr (), c)"
proof -
  obtain r x y where c: "sub_unsigned oid r (od_give_balances (oc_data c)) = (Inr (), y)"
      "sub_unsigned oid f (od_ask_balances (oc_data c)) = (Inr (), x)"
      "u = FillOrderUndo oid f r" "c' = set_ask (set_give c y) x"
    using assms(1) by (auto simp: fill_order_Ok)
  have "add_unsigned oid f x = (Inr (), od_ask_balances (oc_data c))"
      "add_unsigned oid r y = (Inr (), od_give_balances (oc_data c))"
    by (rule add_after_sub [OF orders_cache_ok_nz(1) [OF assms(2)] c(2)]
        add_after_sub [OF orders_cache_ok_nz(2) [OF assms(2)] c(1)])+
  moreover have "set_give (set_ask c' (od_ask_balances (oc_data c))) (od_give_balances (oc_data c)) = c"
    by (simp add: c(4))
  ultimately show ?thesis by (auto simp: c(3,4) op_simps)
qed

lemma orders_undo_freeze:
  assumes "freeze_order oid c = (Inr u, c')"
  shows "\<exists>c2. orders_undo u c' = (Inr (), c2) \<and> same_orders c c2"
proof -
  obtain d where c: "get_order_data c oid = Inr (Some d)"
      "u = FreezeOrderUndo oid (invert (new_delta (Some d) (Some (d\<lparr>order_is_frozen := True\<rparr>))))"
      "c' = with_order c oid (Some d) (Some (d\<lparr>order_is_frozen := True\<rparr>))"
    using assms by (auto simp: freeze_order_Ok Let_def)
  then show ?thesis
    using undo_merge_order_read [of c' oid "Some (d\<lparr>order_is_frozen := True\<rparr>)" "Some d"]
    by (auto simp: op_simps result_simps same_orders_def fun_upd_idem)
qed

lemma orders_undo_restores_aux:
  assumes "orders_exec call c = (Inr u, c')" and "orders_cache_ok c" and "orders_view_ok (orders_cache_view c)"
  shows "\<exists>c2. orders_undo u c' = (Inr (), c2) \<and> same_orders c c2"
proof (cases call)
  case (CallFillOrder oid f ver)
  with assms orders_undo_fill [of oid f ver c u c'] show ?thesis by (simp add: same_orders_def)
qed (use assms orders_undo_create orders_undo_conclude orders_undo_freeze in auto)

section \<open>Flushing a cache of orders\<close>

locale orders_store =
  data: reliable_column "st_order_data S" +
  ask: reliable_balance_column "st_ask_balances S" +
  give: reliable_balance_column "st_give_balances S" +
  data_ask: column_frame "st_order_data S" "st_ask_balances S" +
  data_give: column_frame "st_order_data S" "st_give_balances S" +
  ask_data: balance_frame "st_ask_balances S" "st_order_data S" +
  ask_give: balance_frame "st_ask_balances S" "st_give_balances S" +
  give_data: balance_frame "st_give_balances S" "st_order_data S" +
  give_ask: balance_frame "st_give_balances S" "st_ask_balances S"
  for S :: "('s, 'e) orders_storage"
begin

lemma flush_orders:
  assumes "orders_cache_ok c" and "oc_parent c = orders_db_view S s"
    and "\<And>oid. \<exists>a. get_ask_balance c oid = Inr a" and "\<And>oid. \<exists>a. get_give_balance c oid = Inr a"
  shows "\<exists>u s'. orders_db_merge_with_delta S (oc_data c) s = (Inr u, s') \<and>
    (\<forall>oid. get_order_data c oid = map_err (\<lambda>_. OrdersViewFail) (view_order_data (orders_db_view S s') oid)) \<and>
    (\<forall>oid. get_ask_balance c oid = map_err (\<lambda>_. OrdersViewFail) (view_ask_balance (orders_db_view S s') oid)) \<and>
    (\<forall>oid. get_give_balance c oid = map_err (\<lambda>_. OrdersViewFail) (view_give_balance (orders_db_view S s') oid))"
proof -
  let ?m = "od_order_data (oc_data c)" and ?a = "od_ask_balances (oc_data c)" and ?g = "od_give_balances (oc_data c)"
  let ?merge = "merge_balances_generic OrdersViewFail OrdersStorageWrite OrdersAccountingError"
  have "data_coherent (col_get (st_order_data S) s) ?m"
    using assms(1,2) by (simp add: orders_cache_ok_def data_coherent_def orders_db_view_def map_err_eq)
  from data.flush_data [OF this, of OrdersViewFail OrdersStorageWrite OrdersAccountingError] obtain t where t:
    "merge_data_generic OrdersViewFail OrdersStorageWrite OrdersAccountingError (st_order_data S) ?m s =
       (Inr (fmmap invert ?m), t)" "col_get (st_order_data S) t = cached_data (col_get (st_order_data S) s) ?m"
    by blast
  have ask: "get_ask_balance c = cached_balance OrdersAccountingError
      (\<lambda>oid. map_err (\<lambda>_. OrdersViewFail) (col_balance (st_ask_balances S) t oid)) ?a"
    using data_ask.merge_data_generic_frame [OF t(1)]
    by (simp add: get_balances_cached assms(2) orders_db_view_def col_balance_def)
  from ask.flush_balances [OF assms(3) [unfolded ask], of OrdersViewFail OrdersStorageWrite
    OrdersAccountingError] obtain t2 where t2:
    "?merge (st_ask_balances S) ?a t = (Inr (fmmap (\<lambda>d. the (signed_neg d)) ?a), t2)"
    "\<And>oid. map_err (\<lambda>_. OrdersViewFail) (col_balance (st_ask_balances S) t2 oid) = get_ask_balance c oid"
    unfolding ask by blast
  have give: "get_give_balance c = cached_balance OrdersAccountingError
      (\<lambda>oid. map_err (\<lambda>_. OrdersViewFail) (col_balance (st_give_balances S) t2 oid)) ?g"
    using data_give.merge_data_generic_frame [OF t(1)] ask_give.merge_balances_generic_frame [OF t2(1)]
    by (simp add: get_balances_cached assms(2) orders_db_view_def col_balance_def)
  from give.flush_balances [OF assms(4) [unfolded give], of OrdersViewFail OrdersStorageWrite
    OrdersAccountingError] obtain s' where s':
    "?merge (st_give_balances S) ?g t2 = (Inr (fmmap (\<lambda>d. the (signed_neg d)) ?g), s')"
    "\<And>oid. map_err (\<lambda>_. OrdersViewFail) (col_balance (st_give_balances S) s' oid) = get_give_balance c oid"
    unfolding give by blast
  have "col_get (st_order_data S) s' oid = cached_data (col_get (st_order_data S) s) ?m oid" for oid
    using give_data.merge_balances_generic_frame [OF s'(1)] ask_data.merge_balances_generic_frame [OF t2(1)] t(2)
    by simp
  then have "get_order_data c oid = map_err (\<lambda>_. OrdersViewFail) (view_order_data (orders_db_view S s') oid)" for oid
    by (simp add: get_order_data_cached assms(2) orders_db_view_def cached_data_def map_err_def split: option.splits)
  moreover have "get_ask_balance c oid = map_err (\<lambda>_. OrdersViewFail) (view_ask_balance (orders_db_view S s') oid)" for oid
    using t2(2) [of oid] give_ask.merge_balances_generic_frame [OF s'(1)]
    by (simp add: orders_db_view_def col_balance_def)
  ultimately show ?thesis
    using s' t(1) t2(1) by (auto simp: orders_db_merge_with_delta_def op_simps orders_db_view_def)
qed

end

lemma in_memory_orders_columns:
  "reliable_column (st_order_data in_memory_orders_storage)"
  "reliable_column (st_ask_balances in_memory_orders_storage)"
  "reliable_column (st_give_balances in_memory_orders_storage)"
  "column_frame (st_order_data in_memory_orders_storage) (st_ask_balances in_memory_orders_storage)"
  "column_frame (st_order_data in_memory_orders_storage) (st_give_balances in_memory_orders_storage)"
  "column_frame (st_ask_balances in_memory_orders_storage) (st_order_data in_memory_orders_storage)"
  "column_frame (st_ask_balances in_memory_orders_storage) (st_give_balances in_memory_orders_storage)"
  "column_frame (st_give_balances in_memory_orders_storage) (st_order_data in_memory_orders_storage)"
  "column_frame (st_give_balances in_memory_orders_storage) (st_ask_balances in_memory_orders_storage)"
  by (simp_all add: in_memory_orders_storage_def map_column_reliable map_column_frame)

interpretation in_memory_orders: orders_store in_memory_orders_storage
  by (intro orders_store.intro reliable_balance_column.intro balance_column.intro balance_frame.intro
      in_memory_orders_columns reliable_column.axioms(1))

section \<open>Merging a child cache of orders\<close>

lemma orders_child_parent:
  assumes "oc_parent k = orders_cache_view c"
    and "\<And>oid. is_ok (get_ask_balance k oid)" and "\<And>oid. is_ok (get_give_balance k oid)"
  shows "orders_parent_data k = get_order_data c" "orders_parent_ask k = get_ask_balance c"
    "orders_parent_give k = get_give_balance c"
proof -
  have "map_err (\<lambda>_. OrdersViewFail) (get_order_data c oid) = get_order_data c oid" for oid
    by (simp add: get_order_data_cached cached_data_def map_err_def split: option.splits sum.splits)
  then show "orders_parent_data k = get_order_data c" by (simp add: assms(1) orders_cache_view_def)
  have "map_err (\<lambda>_. OrdersViewFail) (get_ask_balance c oid) = get_ask_balance c oid" for oid
    using assms(1) assms(2) [of oid]
    by (auto simp: is_ok_iff get_balances_cached(1) [of k] cached_balance_Ok orders_cache_view_def map_err_def
        split: sum.splits)
  then show "orders_parent_ask k = get_ask_balance c" by (simp add: assms(1) orders_cache_view_def)
  have "map_err (\<lambda>_. OrdersViewFail) (get_give_balance c oid) = get_give_balance c oid" for oid
    using assms(1) assms(3) [of oid]
    by (auto simp: is_ok_iff get_balances_cached(2) [of k] cached_balance_Ok orders_cache_view_def map_err_def
        split: sum.splits)
  then show "orders_parent_give k = get_give_balance c" by (simp add: assms(1) orders_cache_view_def)
qed

lemma orders_child_merge:
  assumes "orders_cache_ok c" and "orders_cache_ok k" and "oc_parent k = orders_cache_view c"
    and "\<And>oid. is_ok (get_ask_balance k oid)" and "\<And>oid. is_ok (get_give_balance k oid)"
  shows "\<exists>u c'. batch_write_orders_data (oc_data k) c = (Inr u, c') \<and> orders_cache_ok c' \<and> same_orders k c'"
proof -
  note parent = orders_child_parent [OF assms(3-5)]
  obtain m' where m': "merge_delta_data (od_order_data (oc_data k)) (od_order_data (oc_data c)) =
      (Inr (fmmap invert (od_order_data (oc_data k))), m')" "data_coherent (orders_parent_data c) m'"
      "cached_data (orders_parent_data c) m' = get_order_data k"
    using merge_delta_data_coherent [of _ "od_order_data (oc_data c)" "od_order_data (oc_data k)"] assms(1,2)
    unfolding orders_cache_ok_def parent get_order_data_cached [of k] get_order_data_cached [of c] by blast
  have "\<exists>a. cached_balance OrdersAccountingError (get_ask_balance c) (od_ask_balances (oc_data k)) oid = Inr a" for oid
    using assms(4) [of oid] unfolding is_ok_iff get_balances_cached(1) [of k] parent .
  then obtain a' where a': "merge_delta_amounts (od_ask_balances (oc_data k)) (od_ask_balances (oc_data c)) =
      (Inr (), a')" "no_zero_deltas a'"
      "cached_balance OrdersAccountingError (orders_parent_ask c) a' = get_ask_balance k"
    using merge_delta_amounts_stack [of OrdersAccountingError OrdersAccountingError _ "od_ask_balances (oc_data c)"]
      orders_cache_ok_nz [OF assms(1)]
    unfolding parent get_balances_cached(1) [of k] get_balances_cached(1) [of c] by blast
  have "\<exists>a. cached_balance OrdersAccountingError (get_give_balance c) (od_give_balances (oc_data k)) oid = Inr a" for oid
    using assms(5) [of oid] unfolding is_ok_iff get_balances_cached(2) [of k] parent .
  then obtain g' where g': "merge_delta_amounts (od_give_balances (oc_data k)) (od_give_balances (oc_data c)) =
      (Inr (), g')" "no_zero_deltas g'"
      "cached_balance OrdersAccountingError (orders_parent_give c) g' = get_give_balance k"
    using merge_delta_amounts_stack [of OrdersAccountingError OrdersAccountingError _ "od_give_balances (oc_data c)"]
      orders_cache_ok_nz [OF assms(1)]
    unfolding parent get_balances_cached(2) [of k] get_balances_cached(2) [of c] by blast
  define c' where "c' = c\<lparr>oc_data := \<lparr>od_order_data = m', od_ask_balances = a', od_give_balances = g'\<rparr>\<rparr>"
  have "\<exists>u. batch_write_orders_data (oc_data k) c = (Inr u, c')"
    using m'(1) a'(1) g'(1) by (auto simp: batch_write_orders_data_def orders_merge_with_delta_def op_simps c'_def)
  moreover have "orders_cache_ok c'" using m'(2) a'(2) g'(2) by (simp add: orders_cache_ok_def c'_def)
  moreover have "same_orders k c'"
    unfolding same_orders_def orders_cached [of c'] using m'(3) a'(3) g'(3) by (simp add: c'_def)
  ultimately show ?thesis by blast
qed

section \<open>The behaviour of a fill and of a conclusion\<close>

lemma fill_quotient_bound:
  assumes "order_ok (Some d) (Inr a :: orders_error + amount) (Inr g)" and "f \<le> a"
    and "output_value_amount (order_ask d) = Inr oa" and "output_value_amount (order_give d) = Inr og"
  shows "oa \<noteq> 0" and "uint og * uint f div uint oa \<le> uint g"
    and "0 \<le> uint og * uint f div uint oa"
proof -
  have o: "0 < uint oa" "uint og * uint a \<le> uint g * uint oa"
    using assms(1,3,4) by (auto simp: order_ok_def)
  then show "oa \<noteq> 0" by auto
  show "uint og * uint f div uint oa \<le> uint g"
    using fill_by_original_price [of "uint oa" "uint og" "uint f" "uint a" "uint g"] o assms(2)
    by (simp add: word_le_def)
  show "0 \<le> uint og * uint f div uint oa" using o(1) by (simp add: pos_imp_zdiv_nonneg_iff)
qed

lemma calculate_original_price:
  assumes "get_order_data c oid = Inr (Some d)" and "get_ask_balance c oid = Inr a"
    and "output_value_amount (order_ask d) = Inr oa" and "output_value_amount (order_give d) = Inr og"
    and "oa \<noteq> 0" and "uint og * uint f div uint oa < 2 ^ 128" and "0 \<le> uint og * uint f div uint oa"
  shows "calculate_fill_order (orders_cache_view c) oid f OrdersV1 =
    (if a < f then Inl (Fail (OrderOverbid oid a f))
     else if uint og * uint f div uint oa = 0 then Inl (Fail (OrderUnderbid oid f))
     else Inr (word_of_int (uint og * uint f div uint oa)))"
proof -
  have "word_of_int q > (0 :: amount) \<longleftrightarrow> q \<noteq> 0" if "q < 2 ^ 128" "0 \<le> q" for q
    using that by (auto simp: word_gt_0 word_uint_eq_iff uint_word_of_int)
  then show ?thesis
    using assms by (auto simp: calculate_fill_order_def calculate_fill_order_based_on_original_price_def
        orders_cache_view_def and_then_def ensure_def ok_or_def map_err_def filled_amount_or_def
        calculate_filled_amount_eq amount_zero_def not_less)
qed

lemma calculate_original_price_overbid:
  assumes "get_order_data c oid = Inr (Some d)" and "get_ask_balance c oid = Inr a" and "a < f"
    and "output_value_amount (order_ask d) = Inr oa" and "output_value_amount (order_give d) = Inr og"
  shows "calculate_fill_order (orders_cache_view c) oid f OrdersV1 = Inl (Fail (OrderOverbid oid a f))"
  using assms by (auto simp: calculate_fill_order_def calculate_fill_order_based_on_original_price_def
      orders_cache_view_def and_then_def ensure_def ok_or_def map_err_def)

lemma fill_order_frozen:
  "get_order_data c oid = Inr (Some d) \<Longrightarrow> order_is_frozen d \<Longrightarrow>
     fill_order oid f ver c = (Inl (Fail (AttemptedFillFrozenOrder oid)), c)"
  by (simp add: fill_order_def op_simps result_simps)

lemma fill_order_price_error:
  "get_order_data c oid = Inr (Some d) \<Longrightarrow> \<not> order_is_frozen d \<Longrightarrow>
     calculate_fill_order (orders_cache_view c) oid f ver = Inl e \<Longrightarrow> fill_order oid f ver c = (Inl e, c)"
  by (simp add: fill_order_def op_simps result_simps)

lemma fill_order_price_ok:
  assumes "get_order_data c oid = Inr (Some d)" and "\<not> order_is_frozen d"
    and "calculate_fill_order (orders_cache_view c) oid f ver = Inr r"
    and ok: "orders_view_ok (orders_cache_view c)"
  shows "\<exists>c'. fill_order oid f ver c = (Inr (FillOrderUndo oid f r), c')"
proof -
  note o = orders_view_okD [OF ok assms(1)]
  from fill_keeps_order_ok [OF o assms(1,3)] obtain a g where
    ag: "get_ask_balance c oid = Inr a" "get_give_balance c oid = Inr g" "f \<le> a" "r \<le> g" by blast
  from order_balances_sub_ok [OF o ag] assms show ?thesis by (auto simp: fill_order_Ok)
qed

section \<open>A concrete run\<close>

fun orders_run :: "orders_call list \<Rightarrow> 'e orders_cache \<Rightarrow> 'e orders_cache" where
  "orders_run [] c = c"
| "orders_run (call # calls) c = orders_run calls (snd (orders_exec call c))"

lemma orders_steps_run:
  "orders_steps P c a \<Longrightarrow> \<forall>call\<in>set calls. P call \<Longrightarrow> orders_steps P c (orders_run calls a)"
  by (induction calls arbitrary: a) (auto intro: orders_steps.one_order_call [OF _ _ prod.collapse [symmetric]])

text \<open>Every call succeeds, or is one with amounts that fit.\<close>

fun failures_fit :: "orders_call list \<Rightarrow> 'e orders_cache \<Rightarrow> bool" where
  "failures_fit [] c \<longleftrightarrow> True"
| "failures_fit (call # calls) c \<longleftrightarrow>
     (is_ok (fst (orders_exec call c)) \<or> call_fits call) \<and> failures_fit calls (snd (orders_exec call c))"

lemma failures_fit_view_ok:
  "failures_fit calls c \<Longrightarrow> orders_view_ok (orders_cache_view c) \<Longrightarrow> orders_view_ok (orders_cache_view (orders_run calls c))"
proof (induction calls arbitrary: c)
  case (Cons call calls)
  obtain r c' where r: "orders_exec call c = (r, c')" by (cases "orders_exec call c")
  have "call_fits call" using Cons.prems(1) r orders_exec_fits [of call c] by (auto simp: is_ok_iff)
  from orders_exec_view_ok [OF r Cons.prems(2) this] Cons.IH [of c'] Cons.prems(1) r show ?case by simp
qed simp

lemma call_fits_failures: "\<forall>call\<in>set calls. call_fits call \<Longrightarrow> failures_fit calls c"
  by (induction calls arbitrary: c) auto

definition sample_order :: order_data where
  "sample_order = order_data_new AnyoneCanSpend (Coin 100) (TokenV1 5 30)"

definition empty_orders :: in_memory_orders where
  "empty_orders = \<lparr>im_orders_data = fmempty, im_ask_balances = fmempty, im_give_balances = fmempty\<rparr>"

definition orders_sample_calls :: "orders_call list" where
  "orders_sample_calls =
     [CallCreateOrder 1 sample_order, CallFillOrder 1 51 OrdersV1, CallFillOrder 1 60 OrdersV0, CallFillOrder 1 2 OrdersV1]"

definition orders_sample_cache :: "orders_error orders_cache" where
  "orders_sample_cache = orders_run orders_sample_calls
     (orders_cache_new (orders_db_view in_memory_orders_storage empty_orders))"

lemma orders_sample_steps:
  "orders_steps call_fits (orders_cache_new (orders_db_view in_memory_orders_storage empty_orders)) orders_sample_cache"
  unfolding orders_sample_cache_def
  by (rule orders_steps_run, rule orders_steps.no_order_call)
    (simp add: orders_sample_calls_def sample_order_def order_data_new_def output_value_amount_def in_signed_def)

lemma orders_sample_data:
  "od_order_data (oc_data orders_sample_cache) = fmap_of_list [(1, new_delta None (Some sample_order))]"
  "od_ask_balances (oc_data orders_sample_cache) = fmap_of_list [(1, SignedAmount 49)]"
  "od_give_balances (oc_data orders_sample_cache) = fmap_of_list [(1, SignedAmount 15)]"
  by code_simp+

lemma orders_sample_parent:
  "oc_parent orders_sample_cache = orders_db_view in_memory_orders_storage empty_orders"
  using orders_steps_cache_ok [OF orders_sample_steps] by simp

lemma empty_orders_view:
  "orders_db_view in_memory_orders_storage empty_orders =
     \<lparr>view_order_data = (\<lambda>_. Inr None), view_ask_balance = (\<lambda>_. Inr 0), view_give_balance = (\<lambda>_. Inr 0)\<rparr>"
  by (simp add: orders_db_view_def in_memory_orders_storage_def map_column_def empty_orders_def col_balance_def
      and_then_def amount_zero_def fun_eq_iff)

lemma orders_sample_reads:
  "get_order_data orders_sample_cache oid = Inr (if oid = 1 then Some sample_order else None)"
  "get_ask_balance orders_sample_cache oid = Inr (if oid = 1 then 49 else 0)"
  "get_give_balance orders_sample_cache oid = Inr (if oid = 1 then 15 else 0)"
  by (simp_all add: get_order_data_cached cached_data_def get_balances_cached cached_balance_Ok bal_reads_def
      orders_sample_data orders_sample_parent empty_orders_view map_err_def in_signed_def fmlookup_of_list
      result_simps)

lemma empty_orders_view_ok: "orders_view_ok (orders_db_view in_memory_orders_storage empty_orders)"
  by (simp add: orders_view_ok_def empty_orders_view order_ok_def)

lemma orders_sample_view_ok: "orders_view_ok (orders_cache_view orders_sample_cache)"
  by (rule orders_steps_view_ok [OF orders_sample_steps]) (rule orders_view_ok_new [OF empty_orders_view_ok])

section \<open>Properties of the orders accounting\<close>

text \<open>
  C3: Orders stay solvent. Let a cache over a view of solvent orders perform any sequence of creations, fills
  (of either version), freezes and conclusions, in which every creation that fails has amounts that fit in
  \<open>i128\<close>; nothing is asked of the calls that succeed, nor of any other call that fails. Then an order that does
  not exist has no balances, an existing one never asks or gives more than its original amounts, and what
  is left to give always pays what is left to ask at the original price
  (\<open>original_give * ask \<le> give * original_ask\<close>).
\<close>

theorem orders_stay_solvent:
  assumes "orders_view_ok p" and "failures_fit calls (orders_cache_new p)"
  shows "orders_view_ok (orders_cache_view (orders_run calls (orders_cache_new p)))"
  by (rule failures_fit_view_ok [OF assms(2) orders_view_ok_new [OF assms(1)]])

theorem orders_stay_solvent_witness: "orders_view_ok (orders_cache_view orders_sample_cache)"
proof -
  have "failures_fit orders_sample_calls (orders_cache_new (orders_db_view in_memory_orders_storage empty_orders))"
    by (rule call_fits_failures)
      (simp add: orders_sample_calls_def sample_order_def order_data_new_def output_value_amount_def in_signed_def)
  from orders_stay_solvent [OF empty_orders_view_ok this] show ?thesis by (simp add: orders_sample_cache_def)
qed

text \<open>
  C30: What filling an order at its original price does, on every branch: a frozen order is refused, a
  fill above the remaining asked balance is an overbid, one that would buy nothing is an underbid, and
  any other fill succeeds and moves exactly \<open>fill\<close> from the asked balance and the rounded down
  \<open>original_give * fill / original_ask\<close> from the given balance, leaving everything else as it was.
\<close>

theorem fill_order_at_original_price:
  fixes c :: "'e orders_cache" and f :: amount
  assumes "orders_view_ok (orders_cache_view c)" and "get_order_data c oid = Inr (Some d)"
    and "get_ask_balance c oid = Inr a" and "get_give_balance c oid = Inr g"
    and "output_value_amount (order_ask d) = Inr oa" and "output_value_amount (order_give d) = Inr og"
  defines "q \<equiv> uint og * uint f div uint oa"
  shows "if order_is_frozen d then fill_order oid f OrdersV1 c = (Inl (Fail (AttemptedFillFrozenOrder oid)), c)
    else if a < f then fill_order oid f OrdersV1 c = (Inl (Fail (OrderOverbid oid a f)), c)
    else if q = 0 then fill_order oid f OrdersV1 c = (Inl (Fail (OrderUnderbid oid f)), c)
    else \<exists>r c'. fill_order oid f OrdersV1 c = (Inr (FillOrderUndo oid f r), c') \<and> uint r = q \<and> r \<le> g \<and>
      get_order_data c' = get_order_data c \<and>
      get_ask_balance c' = (get_ask_balance c)(oid := Inr (a - f)) \<and>
      get_give_balance c' = (get_give_balance c)(oid := Inr (g - r))"
proof (cases "order_is_frozen d \<or> a < f")
  case True
  then show ?thesis
    using fill_order_frozen [OF assms(2)] fill_order_price_error [OF assms(2)]
      calculate_original_price_overbid [OF assms(2,3) _ assms(5,6)] by auto
next
  case False
  have o: "order_ok (Some d) (Inr a :: orders_error + amount) (Inr g)"
    using orders_view_okD [OF assms(1,2)] assms(3,4) by simp
  have q: "oa \<noteq> 0" "q \<le> uint g" "0 \<le> q"
    unfolding q_def using fill_quotient_bound [OF o _ assms(5,6)] False by auto
  then have lt: "q < 2 ^ 128" using uint_lt2p [of g] by simp
  have price: "calculate_fill_order (orders_cache_view c) oid f OrdersV1 =
      (if q = 0 then Inl (Fail (OrderUnderbid oid f)) else Inr (word_of_int q))"
    using calculate_original_price [OF assms(2,3,5,6) q(1) lt [unfolded q_def] q(3) [unfolded q_def]] False
    unfolding q_def by simp
  show ?thesis
  proof (cases "q = 0")
    case True
    with price False fill_order_price_error [OF assms(2)] show ?thesis by simp
  next
    case nz: False
    with fill_order_price_ok [OF assms(2) _ _ assms(1)] price False obtain c' where
      c': "fill_order oid f OrdersV1 c = (Inr (FillOrderUndo oid f (word_of_int q)), c')" by fastforce
    have "uint (word_of_int q :: amount) = q" using lt q(3) by (simp add: uint_word_of_int)
    with fill_order_reads [OF c' assms(1)] assms(3,4) c' nz False price show ?thesis by auto
  qed
qed

theorem fill_order_at_original_price_witness:
  "\<exists>r c'. fill_order 1 7 OrdersV1 orders_sample_cache = (Inr (FillOrderUndo 1 7 r), c') \<and> uint r = 2 \<and>
     get_ask_balance c' 1 = Inr 42"
proof -
  have "get_order_data orders_sample_cache 1 = Inr (Some sample_order)"
      "get_ask_balance orders_sample_cache 1 = Inr 49" "get_give_balance orders_sample_cache 1 = Inr 15"
      "output_value_amount (order_ask sample_order) = Inr 100" "output_value_amount (order_give sample_order) = Inr 30"
    by (simp_all add: orders_sample_reads sample_order_def order_data_new_def output_value_amount_def)
  from fill_order_at_original_price [OF orders_sample_view_ok this, of 7] show ?thesis
    by (auto simp: sample_order_def order_data_new_def)
qed

text \<open>
  C33: An existing order can always be concluded: in a solvent cache the call succeeds, returns the
  remaining balances in its undo record, and leaves neither data nor balances of the order.
\<close>

theorem conclude_order_always_possible:
  assumes "orders_view_ok (orders_cache_view c)" and "get_order_data c oid = Inr (Some d)"
  shows "\<exists>a g c'. get_ask_balance c oid = Inr a \<and> get_give_balance c oid = Inr g \<and>
    conclude_order oid c = (Inr (ConcludeOrderUndo oid (invert (new_delta (Some d) None)) a g), c') \<and>
    get_order_data c' oid = Inr None \<and> get_ask_balance c' oid = Inr 0 \<and> get_give_balance c' oid = Inr 0"
proof -
  note o = orders_view_okD [OF assms]
  then obtain a g where ag: "get_ask_balance c oid = Inr a" "get_give_balance c oid = Inr g"
    by (auto simp: order_ok_def)
  from order_balances_sub_ok [OF o ag order_refl order_refl] obtain x y where
    "sub_unsigned oid a (od_ask_balances (oc_data c)) = (Inr (), x)"
    "sub_unsigned oid g (od_give_balances (oc_data c)) = (Inr (), y)" by blast
  then obtain c' where c': "conclude_order oid c =
      (Inr (ConcludeOrderUndo oid (invert (new_delta (Some d) None)) a g), c')"
      "c' = set_give (set_ask (with_order c oid (Some d) None) x) y"
    using assms(2) ag by (auto simp: conclude_order_Ok)
  then have gone: "get_order_data c' oid = Inr None" by simp
  with orders_view_okD [OF conclude_order_view_ok [OF c'(1) assms(1)]]
  have "get_ask_balance c' oid = Inr 0 \<and> get_give_balance c' oid = Inr 0" by (fastforce simp: order_ok_def)
  with ag c'(1) gone show ?thesis by blast
qed

theorem conclude_order_always_possible_witness:
  "\<exists>c'. conclude_order 1 orders_sample_cache =
     (Inr (ConcludeOrderUndo 1 (invert (new_delta (Some sample_order) None)) 49 15), c') \<and>
     get_order_data c' 1 = Inr None"
proof -
  have "get_order_data orders_sample_cache 1 = Inr (Some sample_order)" by (simp add: orders_sample_reads)
  from conclude_order_always_possible [OF orders_sample_view_ok this] show ?thesis
    by (auto simp: orders_sample_reads)
qed

text \<open>
  Undoing a successful operation on orders with the undo record it returned succeeds, and every
  query for order data and for balances then gives what it gave before the operation.
\<close>

theorem orders_undo_restores:
  assumes "orders_steps call_fits (orders_cache_new p) c" and "orders_view_ok p"
    and "orders_exec call c = (Inr u, c')"
  shows "\<exists>c2. orders_undo u c' = (Inr (), c2) \<and> get_order_data c2 = get_order_data c \<and>
    get_ask_balance c2 = get_ask_balance c \<and> get_give_balance c2 = get_give_balance c"
proof -
  have "orders_cache_ok c" using orders_steps_cache_ok [OF assms(1)] by simp
  from orders_undo_restores_aux [OF assms(3) this orders_steps_view_ok [OF assms(1) orders_view_ok_new [OF assms(2)]]]
  show ?thesis by (auto simp: same_orders_def)
qed

theorem orders_undo_restores_witness:
  "\<exists>u c2 c3. conclude_order 1 orders_sample_cache = (Inr u, c2) \<and> orders_undo u c2 = (Inr (), c3) \<and>
     get_give_balance c3 1 = Inr 15"
proof -
  have "is_ok (fst (orders_exec (CallConcludeOrder 1) orders_sample_cache))" by code_simp
  then obtain u c2 where m: "orders_exec (CallConcludeOrder 1) orders_sample_cache = (Inr u, c2)"
    by (auto simp: is_ok_iff) (metis prod.collapse)
  from orders_undo_restores [OF orders_sample_steps empty_orders_view_ok m] m show ?thesis
    by (auto simp: orders_sample_reads)
qed

text \<open>
  Whatever operations a cache over the orders database has performed, successful or not, flushing its
  deltas succeeds when every balance can be read through the cache, and the database then answers every
  query as the cache did.
\<close>

theorem orders_flush_refines:
  assumes "orders_steps P (orders_cache_new (orders_db_view in_memory_orders_storage s)) c"
    and "\<And>oid. is_ok (get_ask_balance c oid)" and "\<And>oid. is_ok (get_give_balance c oid)"
  shows "\<exists>u s'. orders_db_batch_write in_memory_orders_storage (oc_data c) s = (Inr u, s') \<and>
    (\<forall>oid. get_order_data c oid = map_err (\<lambda>_. OrdersViewFail)
       (view_order_data (orders_db_view in_memory_orders_storage s') oid)) \<and>
    (\<forall>oid. get_ask_balance c oid = map_err (\<lambda>_. OrdersViewFail)
       (view_ask_balance (orders_db_view in_memory_orders_storage s') oid)) \<and>
    (\<forall>oid. get_give_balance c oid = map_err (\<lambda>_. OrdersViewFail)
       (view_give_balance (orders_db_view in_memory_orders_storage s') oid))"
proof -
  have ok: "orders_cache_ok c" "oc_parent c = orders_db_view in_memory_orders_storage s"
    using orders_steps_cache_ok [OF assms(1)] by simp_all
  from in_memory_orders.flush_orders [OF ok] assms(2,3) show ?thesis
    by (fastforce simp: is_ok_iff orders_db_batch_write_def op_simps)
qed

theorem orders_flush_refines_witness:
  "\<exists>u s'. orders_db_batch_write in_memory_orders_storage (oc_data orders_sample_cache) empty_orders = (Inr u, s') \<and>
     view_ask_balance (orders_db_view in_memory_orders_storage s') 1 = Inr 49"
proof -
  have "is_ok (get_ask_balance orders_sample_cache oid)" "is_ok (get_give_balance orders_sample_cache oid)" for oid
    by (simp_all add: orders_sample_reads is_ok_def)
  from orders_flush_refines [OF orders_sample_steps this] obtain u s' where
    w: "orders_db_batch_write in_memory_orders_storage (oc_data orders_sample_cache) empty_orders = (Inr u, s')" and
    r: "\<And>oid. get_ask_balance orders_sample_cache oid = map_err (\<lambda>_. OrdersViewFail)
      (view_ask_balance (orders_db_view in_memory_orders_storage s') oid)"
    by blast
  from r [of 1] have "view_ask_balance (orders_db_view in_memory_orders_storage s') 1 = Inr 49"
    by (simp add: orders_sample_reads eq_commute [of "Inr _"] result_simps)
  with w show ?thesis by blast
qed

text \<open>
  Writing the deltas of a child cache of orders into the cache it was opened on succeeds when every
  balance can be read through the child, and the cache then answers every query as the child did.
\<close>

theorem orders_child_flush_refines:
  assumes "orders_cache_ok c" and "orders_steps P (orders_cache_new (orders_cache_view c)) k"
    and "\<And>oid. is_ok (get_ask_balance k oid)" and "\<And>oid. is_ok (get_give_balance k oid)"
  shows "\<exists>u c'. batch_write_orders_data (oc_data k) c = (Inr u, c') \<and> orders_cache_ok c' \<and>
    get_order_data c' = get_order_data k \<and> get_ask_balance c' = get_ask_balance k \<and>
    get_give_balance c' = get_give_balance k"
proof -
  have "orders_cache_ok k" "oc_parent k = orders_cache_view c"
    using orders_steps_cache_ok [OF assms(2)] by simp_all
  from orders_child_merge [OF assms(1) this assms(3,4)] show ?thesis by (auto simp: same_orders_def)
qed

theorem orders_child_flush_refines_witness:
  "\<exists>u c'. batch_write_orders_data (oc_data (orders_cache_new (orders_cache_view orders_sample_cache)))
     orders_sample_cache = (Inr u, c') \<and> get_ask_balance c' 1 = Inr 49"
proof -
  have ok: "orders_cache_ok orders_sample_cache" using orders_steps_cache_ok [OF orders_sample_steps] by simp
  have r: "get_ask_balance (orders_cache_new (orders_cache_view orders_sample_cache)) oid = Inr (if oid = 1 then 49 else 0)"
      "get_give_balance (orders_cache_new (orders_cache_view orders_sample_cache)) oid = Inr (if oid = 1 then 15 else 0)" for oid
    by (simp_all add: orders_cache_new_reads orders_cache_view_def orders_sample_reads map_err_def)
  with orders_child_flush_refines [OF ok orders_steps.no_order_call] show ?thesis
    by (auto simp: is_ok_def)
qed

text \<open>
  In a solvent cache an operation on orders that returns an error has changed nothing (created orders
  having amounts that fit in \<open>i128\<close>).
\<close>

theorem orders_failed_call_changes_nothing:
  assumes "orders_view_ok (orders_cache_view c)" and "call_fits call" and "orders_exec call c = (Inl e, c')"
  shows "c' = c"
  using orders_exec_Err [OF assms(3,1,2)] .

theorem orders_failed_call_changes_nothing_witness:
  "\<exists>e c2. fill_order 1 50 OrdersV0 orders_sample_cache = (Inl e, c2) \<and> c2 = orders_sample_cache"
proof -
  have "\<not> is_ok (fst (orders_exec (CallFillOrder 1 50 OrdersV0) orders_sample_cache))" by code_simp
  then obtain e c2 where m: "orders_exec (CallFillOrder 1 50 OrdersV0) orders_sample_cache = (Inl e, c2)"
    by (cases "orders_exec (CallFillOrder 1 50 OrdersV0) orders_sample_cache";
        cases "fst (orders_exec (CallFillOrder 1 50 OrdersV0) orders_sample_cache)") (auto simp: is_ok_def)
  with orders_failed_call_changes_nothing [OF orders_sample_view_ok _ m] show ?thesis by auto
qed

end
