(* ===== verification/Pos_Accounting.thy ===== *)
theory Pos_Accounting
  imports Chain_Types Cached_Views
begin

text \<open>
  The \<open>pos-accounting\<close> crate: stake pools, delegations to them and their balances. A delta over a
  parent view holds the changes (\<open>pool/delta\<close>): the data and the total balance of every pool, the data
  and the balance of every delegation, and the share every delegation has in its pool. Deltas are
  merged into other deltas, and into a database over a storage (\<open>pool/storage\<close>); both merges return what
  undoes them. Every operation on pools and delegations returns a record that \<open>undo\<close> takes back.
\<close>

section \<open>Pools, delegations, deltas, views and errors\<close>

datatype pos_error =
    PosAccountingError accounting_error
  | InvariantErrorPoolBalanceAlreadyExists
  | InvariantErrorPoolDataAlreadyExists
  | AttemptedDecommissionNonexistingPoolData
  | DelegationCreationFailedPoolDoesNotExist
  | DelegationDeletionFailedIdDoesNotExist
  | DelegationDeletionFailedBalanceNonZero
  | DelegationDeletionFailedPoolsShareNonZero
  | DelegationDeletionFailedPoolStillExists
  | InvariantErrorDelegationCreationFailedIdAlreadyExists
  | DelegateToNonexistingId
  | DelegateToNonexistingPool
  | SpendingShareOfNonexistingDelegation delegation_id
  | AdditionError
  | SubError
  | DelegationBalanceAdditionError
  | DelegationBalanceSubtractionError
  | PoolBalanceAdditionError
  | PoolBalanceSubtractionError
  | DelegationSharesAdditionError
  | DelegationSharesSubtractionError
  | InvariantErrorPoolCreationReversalFailedDataNotFound
  | InvariantErrorPoolCreationReversalFailedAmountChanged
  | InvariantErrorDecommissionUndoFailedPoolBalanceAlreadyExists
  | InvariantErrorDecommissionUndoFailedPoolDataAlreadyExists
  | InvariantErrorDelegationIdUndoFailedNotFound
  | InvariantErrorDelegationIdUndoFailedDataConflict
  | InvariantErrorDelegationBalanceAdditionUndoError
  | InvariantErrorPoolBalanceAdditionUndoError
  | InvariantErrorDelegationSharesAdditionUndoError
  | InvariantErrorDelegationShareNotFound
  | PledgeValueToSignedError
  | InvariantErrorDelegationUndoFailedDataNotFound delegation_id
  | DuplicatesInDeltaAndUndo
  | IncreaseStakerRewardsOfNonexistingPool
  | StakerBalanceOverflow
  | InvariantErrorIncreasePledgeUndoFailedPoolBalanceNotFound
  | InvariantErrorIncreaseStakerRewardUndoFailedPoolBalanceNotFound
  | InvariantErrorNonZeroBalanceForNonExistingDelegation
  | PosViewFail
  | PosStorageWrite

record pool_data =
  decommission_destination :: destination
  pledge_amount :: amount
  staker_rewards :: amount
  pool_vrf_public_key :: vrf_public_key
  margin_ratio_per_thousand :: per_thousand
  cost_per_block :: amount

definition staker_balance :: "pool_data \<Rightarrow> pos_error + amount" where
  "staker_balance d = ok_or (amount_add (pledge_amount d) (staker_rewards d)) StakerBalanceOverflow"

definition pool_data_decommission :: "pool_data \<Rightarrow> pool_data" where
  "pool_data_decommission d = d\<lparr>pledge_amount := amount_zero, staker_rewards := amount_zero\<rparr>"

definition pool_data_increase_rewards :: "pool_data \<Rightarrow> amount \<Rightarrow> pos_error + pool_data" where
  "pool_data_increase_rewards d reward =
     and_then (ok_or (amount_add (staker_rewards d) reward) StakerBalanceOverflow) (\<lambda>r.
     Ok (d\<lparr>staker_rewards := r\<rparr>))"

definition is_decommissioned :: "pool_data \<Rightarrow> bool" where
  "is_decommissioned d \<longleftrightarrow> pledge_amount d = amount_zero \<and> staker_rewards d = amount_zero"

definition pool_data_from_stake :: "stake_pool_data \<Rightarrow> pool_data" where
  "pool_data_from_stake s =
     \<lparr>decommission_destination = sp_decommission_key s, pledge_amount = sp_pledge s,
      staker_rewards = amount_zero, pool_vrf_public_key = sp_vrf_public_key s,
      margin_ratio_per_thousand = sp_margin_ratio_per_thousand s,
      cost_per_block = sp_cost_per_block s\<rparr>"

record delegation_data =
  spend_destination :: destination
  source_pool :: pool_id

definition delegation_data_new :: "pool_id \<Rightarrow> destination \<Rightarrow> delegation_data" where
  "delegation_data_new pool spend = \<lparr>spend_destination = spend, source_pool = pool\<rparr>"

record pos_delta_data =
  pd_pool_data :: "(pool_id, pool_data) delta_data_collection"
  pd_pool_balances :: "pool_id delta_amount_collection"
  pd_pool_delegation_shares :: "(pool_id \<times> delegation_id) delta_amount_collection"
  pd_delegation_balances :: "delegation_id delta_amount_collection"
  pd_delegation_data :: "(delegation_id, delegation_data) delta_data_collection"

definition pos_delta_data_new :: pos_delta_data where
  "pos_delta_data_new =
     \<lparr>pd_pool_data = fmempty, pd_pool_balances = fmempty, pd_pool_delegation_shares = fmempty,
      pd_delegation_balances = fmempty, pd_delegation_data = fmempty\<rparr>"

record delta_merge_undo =
  mu_pool_data :: "(pool_id, pool_data) delta_data_undo_collection"
  mu_delegation_data :: "(delegation_id, delegation_data) delta_data_undo_collection"
  mu_pool_balances :: "pool_id delta_amount_collection"
  mu_pool_delegation_shares :: "(pool_id \<times> delegation_id) delta_amount_collection"
  mu_delegation_balances :: "delegation_id delta_amount_collection"

record 'e pos_view =
  pv_pool_exists :: "pool_id \<Rightarrow> 'e + bool"
  pv_pool_balance :: "pool_id \<Rightarrow> 'e + amount"
  pv_pool_data :: "pool_id \<Rightarrow> 'e + pool_data option"
  pv_pool_delegations_shares :: "pool_id \<Rightarrow> 'e + (delegation_id, amount) btree_map option"
  pv_delegation_balance :: "delegation_id \<Rightarrow> 'e + amount"
  pv_delegation_data :: "delegation_id \<Rightarrow> 'e + delegation_data option"
  pv_pool_delegation_share :: "pool_id \<Rightarrow> delegation_id \<Rightarrow> 'e + amount"

section \<open>Merging deltas\<close>

definition pos_merge_with_delta ::
    "pos_delta_data \<Rightarrow> (pos_delta_data, pos_error, delta_merge_undo) op" where
  "pos_merge_with_delta other =
     (let pool_balances_undo = pd_pool_balances other in
      bindS (zoomS pd_pool_balances (\<lambda>x. pd_pool_balances_update (\<lambda>_. x))
        (map_errS PosAccountingError (merge_delta_amounts (pd_pool_balances other)))) (\<lambda>_.
      let pool_delegation_shares_undo = pd_pool_delegation_shares other in
      bindS (zoomS pd_pool_delegation_shares (\<lambda>x. pd_pool_delegation_shares_update (\<lambda>_. x))
        (map_errS PosAccountingError (merge_delta_amounts (pd_pool_delegation_shares other)))) (\<lambda>_.
      let delegation_balances_undo = pd_delegation_balances other in
      bindS (zoomS pd_delegation_balances (\<lambda>x. pd_delegation_balances_update (\<lambda>_. x))
        (map_errS PosAccountingError (merge_delta_amounts (pd_delegation_balances other)))) (\<lambda>_.
      bindS (zoomS pd_pool_data (\<lambda>x. pd_pool_data_update (\<lambda>_. x))
        (map_errS PosAccountingError (merge_delta_data (pd_pool_data other)))) (\<lambda>pool_data_undo.
      bindS (zoomS pd_delegation_data (\<lambda>x. pd_delegation_data_update (\<lambda>_. x))
        (map_errS PosAccountingError (merge_delta_data (pd_delegation_data other)))) (\<lambda>delegation_data_undo.
      returnS \<lparr>mu_pool_data = pool_data_undo, mu_delegation_data = delegation_data_undo,
               mu_pool_balances = pool_balances_undo,
               mu_pool_delegation_shares = pool_delegation_shares_undo,
               mu_delegation_balances = delegation_balances_undo\<rparr>))))))"

definition undo_delta_merge :: "delta_merge_undo \<Rightarrow> (pos_delta_data, pos_error, unit) op" where
  "undo_delta_merge undo =
     bindS (zoomS pd_pool_balances (\<lambda>x. pd_pool_balances_update (\<lambda>_. x))
       (map_errS PosAccountingError (undo_merge_delta_amounts (mu_pool_balances undo)))) (\<lambda>_.
     bindS (zoomS pd_pool_delegation_shares (\<lambda>x. pd_pool_delegation_shares_update (\<lambda>_. x))
       (map_errS PosAccountingError (undo_merge_delta_amounts (mu_pool_delegation_shares undo)))) (\<lambda>_.
     bindS (zoomS pd_delegation_balances (\<lambda>x. pd_delegation_balances_update (\<lambda>_. x))
       (map_errS PosAccountingError (undo_merge_delta_amounts (mu_delegation_balances undo)))) (\<lambda>_.
     bindS (zoomS pd_pool_data (\<lambda>x. pd_pool_data_update (\<lambda>_. x))
       (map_errS PosAccountingError (undo_merge_delta_data (mu_pool_data undo)))) (\<lambda>_.
     zoomS pd_delegation_data (\<lambda>x. pd_delegation_data_update (\<lambda>_. x))
       (map_errS PosAccountingError (undo_merge_delta_data (mu_delegation_data undo)))))))"

section \<open>Reading through a delta\<close>

record 'e pos_delta =
  pos_parent :: "'e pos_view"
  pos_data :: pos_delta_data

definition pos_delta_new :: "'e pos_view \<Rightarrow> 'e pos_delta" where
  "pos_delta_new p = \<lparr>pos_parent = p, pos_data = pos_delta_data_new\<rparr>"

definition get_pool_data :: "'e pos_delta \<Rightarrow> pool_id \<Rightarrow> pos_error + pool_data option" where
  "get_pool_data c pool = (case get_data (pd_pool_data (pos_data c)) pool of
      Present d \<Rightarrow> Ok (Some d)
    | Deleted \<Rightarrow> Ok None
    | Missing \<Rightarrow> map_err (\<lambda>_. PosViewFail) (pv_pool_data (pos_parent c) pool))"

definition pool_exists :: "'e pos_delta \<Rightarrow> pool_id \<Rightarrow> pos_error + bool" where
  "pool_exists c pool = and_then (get_pool_data c pool) (\<lambda>d. Ok (d \<noteq> None))"

definition get_pool_balance :: "'e pos_delta \<Rightarrow> pool_id \<Rightarrow> pos_error + amount" where
  "get_pool_balance c pool =
     and_then (map_err (\<lambda>_. PosViewFail) (pv_pool_balance (pos_parent c) pool)) (\<lambda>parent_balance.
     let local_delta = fmlookup (pd_pool_balances (pos_data c)) pool in
     map_err PosAccountingError (combine_amount_delta parent_balance local_delta))"

definition get_delegation_balance :: "'e pos_delta \<Rightarrow> delegation_id \<Rightarrow> pos_error + amount" where
  "get_delegation_balance c deleg =
     and_then (map_err (\<lambda>_. PosViewFail) (pv_delegation_balance (pos_parent c) deleg)) (\<lambda>parent_amount.
     let local_amount = fmlookup (pd_delegation_balances (pos_data c)) deleg in
     map_err PosAccountingError (combine_amount_delta parent_amount local_amount))"

definition get_delegation_data :: "'e pos_delta \<Rightarrow> delegation_id \<Rightarrow> pos_error + delegation_data option" where
  "get_delegation_data c deleg = (case get_data (pd_delegation_data (pos_data c)) deleg of
      Present d \<Rightarrow> Ok (Some d)
    | Deleted \<Rightarrow> Ok None
    | Missing \<Rightarrow> map_err (\<lambda>_. PosViewFail) (pv_delegation_data (pos_parent c) deleg))"

definition get_pool_delegation_share ::
    "'e pos_delta \<Rightarrow> pool_id \<Rightarrow> delegation_id \<Rightarrow> pos_error + amount" where
  "get_pool_delegation_share c pool deleg =
     and_then (map_err (\<lambda>_. PosViewFail) (pv_pool_delegation_share (pos_parent c) pool deleg))
       (\<lambda>parent_amount.
     let local_amount = fmlookup (pd_pool_delegation_shares (pos_data c)) (pool, deleg) in
     map_err PosAccountingError (combine_amount_delta parent_amount local_amount))"

text \<open>
  The shares of all delegations of a pool: the entries of the map in the range of keys from the least
  to the greatest delegation id of the pool.
\<close>

definition btree_range :: "'k::linorder \<Rightarrow> 'k \<Rightarrow> ('k, 'v) btree_map \<Rightarrow> ('k \<times> 'v) list" where
  "btree_range lo hi m = filter (\<lambda>(k, _). lo \<le> k \<and> k \<le> hi) (btree_iter m)"

definition pool_entries ::
    "(pool_id \<times> delegation_id, 'v) btree_map \<Rightarrow> pool_id \<Rightarrow> (delegation_id, 'v) btree_map option" where
  "pool_entries m pool =
     (let range_start = (pool, 0);
          range_end = (pool, - 1);
          result = btree_of_list (map (\<lambda>((_, deleg), v). (deleg, v)) (btree_range range_start range_end m)) in
      if result = fmempty then None else Some result)"

definition get_cached_delegations_shares ::
    "'e pos_delta \<Rightarrow> pool_id \<Rightarrow> (delegation_id, signed_amount) btree_map option" where
  "get_cached_delegations_shares c pool = pool_entries (pd_pool_delegation_shares (pos_data c)) pool"

definition signed_to_unsigned_pair ::
    "delegation_id \<times> signed_amount \<Rightarrow> pos_error + delegation_id \<times> amount" where
  "signed_to_unsigned_pair = (\<lambda>(k, v).
     and_then (ok_or (signed_into_unsigned v) (PosAccountingError ArithmeticErrorToUnsignedFailed)) (\<lambda>v.
     Ok (k, v)))"

definition sum_maps_entry :: "'k \<times> signed_amount \<Rightarrow> (('k, amount) btree_map, pos_error, unit) op" where
  "sum_maps_entry = (\<lambda>(k, v).
     bindS (readS (\<lambda>m1. Ok (case fmlookup m1 k of Some pv \<Rightarrow> pv | None \<Rightarrow> 0))) (\<lambda>base_value.
     bindS (liftS (ok_or (amount_into_signed base_value)
              (PosAccountingError ArithmeticErrorToUnsignedFailed))) (\<lambda>base_amount.
     bindS (liftS (ok_or (signed_add base_amount v)
              (PosAccountingError ArithmeticErrorSumToSignedFailed))) (\<lambda>new_amount.
     bindS (liftS (ok_or (signed_into_unsigned new_amount)
              (PosAccountingError ArithmeticErrorToUnsignedFailed))) (\<lambda>new_amount.
     modifyS (fmupd k new_amount))))))"

definition sum_maps ::
    "('k::linorder, amount) btree_map \<Rightarrow> ('k, signed_amount) btree_map \<Rightarrow>
     pos_error + ('k, amount) btree_map" where
  "sum_maps m1 m2 = (case try_for_each sum_maps_entry (btree_iter m2) m1 of
      (Inl e, _) \<Rightarrow> Err e
    | (Inr _, m) \<Rightarrow> Ok m)"

definition get_pool_delegations_shares ::
    "'e pos_delta \<Rightarrow> pool_id \<Rightarrow> pos_error + (delegation_id, amount) btree_map option" where
  "get_pool_delegations_shares c pool =
     and_then (map_err (\<lambda>_. PosViewFail) (pv_pool_delegations_shares (pos_parent c) pool)) (\<lambda>parent_shares.
     let local_shares = get_cached_delegations_shares c pool in
     (case (parent_shares, local_shares) of
        (None, None) \<Rightarrow> Ok None
      | (None, Some m) \<Rightarrow>
          and_then (fst (mapS (\<lambda>p. liftS (signed_to_unsigned_pair p)) (btree_iter m) ())) (\<lambda>ps.
          Ok (Some (btree_of_list ps)))
      | (Some m, None) \<Rightarrow> Ok (Some m)
      | (Some m1, Some m2) \<Rightarrow> and_then (sum_maps m1 m2) (\<lambda>m. Ok (Some m))))"

definition pos_delta_view :: "'e pos_delta \<Rightarrow> pos_error pos_view" where
  "pos_delta_view c =
     \<lparr>pv_pool_exists = pool_exists c, pv_pool_balance = get_pool_balance c,
      pv_pool_data = get_pool_data c, pv_pool_delegations_shares = get_pool_delegations_shares c,
      pv_delegation_balance = get_delegation_balance c, pv_delegation_data = get_delegation_data c,
      pv_pool_delegation_share = get_pool_delegation_share c\<rparr>"

definition batch_write_delta :: "pos_delta_data \<Rightarrow> ('e pos_delta, pos_error, delta_merge_undo) op" where
  "batch_write_delta data =
     zoomS pos_data (\<lambda>x. pos_data_update (\<lambda>_. x)) (pos_merge_with_delta data)"

definition pos_undo_delta_merge :: "delta_merge_undo \<Rightarrow> ('e pos_delta, pos_error, unit) op" where
  "pos_undo_delta_merge undo =
     zoomS pos_data (\<lambda>x. pos_data_update (\<lambda>_. x)) (undo_delta_merge undo)"

section \<open>Operations\<close>

datatype pos_accounting_undo =
    CreatePoolUndo pool_id amount "pool_data data_delta_undo"
  | DecommissionPoolUndo pool_id amount "pool_data data_delta_undo"
  | CreateDelegationIdUndo delegation_id "delegation_data data_delta_undo"
  | DeleteDelegationIdUndo delegation_id "delegation_data data_delta_undo"
  | DelegateStakingUndo delegation_id amount
  | SpendFromShareUndo delegation_id amount
  | IncreaseStakerRewardsUndo pool_id amount "pool_data data_delta_undo"

text \<open>Calls on the collections of the delta, with the error converted.\<close>

definition on_pool_data ::
    "((pool_id, pool_data) delta_data_collection, accounting_error, 'a) op \<Rightarrow>
     ('e pos_delta, pos_error, 'a) op" where
  "on_pool_data m = zoomS (\<lambda>c. pd_pool_data (pos_data c))
     (\<lambda>x. pos_data_update (pd_pool_data_update (\<lambda>_. x))) (map_errS PosAccountingError m)"

definition on_delegation_data ::
    "((delegation_id, delegation_data) delta_data_collection, accounting_error, 'a) op \<Rightarrow>
     ('e pos_delta, pos_error, 'a) op" where
  "on_delegation_data m = zoomS (\<lambda>c. pd_delegation_data (pos_data c))
     (\<lambda>x. pos_data_update (pd_delegation_data_update (\<lambda>_. x))) (map_errS PosAccountingError m)"

definition on_pool_balances ::
    "(pool_id delta_amount_collection, accounting_error, 'a) op \<Rightarrow> ('e pos_delta, pos_error, 'a) op" where
  "on_pool_balances m = zoomS (\<lambda>c. pd_pool_balances (pos_data c))
     (\<lambda>x. pos_data_update (pd_pool_balances_update (\<lambda>_. x))) (map_errS PosAccountingError m)"

definition on_delegation_balances ::
    "(delegation_id delta_amount_collection, accounting_error, 'a) op \<Rightarrow>
     ('e pos_delta, pos_error, 'a) op" where
  "on_delegation_balances m = zoomS (\<lambda>c. pd_delegation_balances (pos_data c))
     (\<lambda>x. pos_data_update (pd_delegation_balances_update (\<lambda>_. x))) (map_errS PosAccountingError m)"

definition on_shares ::
    "((pool_id \<times> delegation_id) delta_amount_collection, accounting_error, 'a) op \<Rightarrow>
     ('e pos_delta, pos_error, 'a) op" where
  "on_shares m = zoomS (\<lambda>c. pd_pool_delegation_shares (pos_data c))
     (\<lambda>x. pos_data_update (pd_pool_delegation_shares_update (\<lambda>_. x))) (map_errS PosAccountingError m)"

definition add_to_delegation_balance :: "delegation_id \<Rightarrow> amount \<Rightarrow> ('e pos_delta, pos_error, unit) op" where
  "add_to_delegation_balance deleg a = on_delegation_balances (add_unsigned deleg a)"

definition sub_from_delegation_balance :: "delegation_id \<Rightarrow> amount \<Rightarrow> ('e pos_delta, pos_error, unit) op" where
  "sub_from_delegation_balance deleg a = on_delegation_balances (sub_unsigned deleg a)"

definition add_balance_to_pool :: "pool_id \<Rightarrow> amount \<Rightarrow> ('e pos_delta, pos_error, unit) op" where
  "add_balance_to_pool pool a = on_pool_balances (add_unsigned pool a)"

definition sub_balance_from_pool :: "pool_id \<Rightarrow> amount \<Rightarrow> ('e pos_delta, pos_error, unit) op" where
  "sub_balance_from_pool pool a = on_pool_balances (sub_unsigned pool a)"

definition add_delegation_to_pool_share ::
    "pool_id \<Rightarrow> delegation_id \<Rightarrow> amount \<Rightarrow> ('e pos_delta, pos_error, unit) op" where
  "add_delegation_to_pool_share pool deleg a = on_shares (add_unsigned (pool, deleg) a)"

definition sub_delegation_from_pool_share ::
    "pool_id \<Rightarrow> delegation_id \<Rightarrow> amount \<Rightarrow> ('e pos_delta, pos_error, unit) op" where
  "sub_delegation_from_pool_share pool deleg a = on_shares (sub_unsigned (pool, deleg) a)"

definition create_pool :: "pool_id \<Rightarrow> pool_data \<Rightarrow> ('e pos_delta, pos_error, pos_accounting_undo) op" where
  "create_pool pool data =
     (let pledge = pledge_amount data in
      bindS (readS (\<lambda>c. get_pool_data c pool)) (\<lambda>present.
      if present \<noteq> None then failS InvariantErrorPoolDataAlreadyExists else
      bindS (readS (\<lambda>c. map_err (\<lambda>_. PosViewFail) (get_pool_balance c pool))) (\<lambda>balance.
      if balance > amount_zero then failS InvariantErrorPoolBalanceAlreadyExists else
      bindS (on_pool_balances (add_unsigned pool pledge)) (\<lambda>_.
      bindS (on_pool_data (merge_delta_data_element pool (new_delta None (Some data)))) (\<lambda>data_undo.
      returnS (CreatePoolUndo pool pledge data_undo))))))"

definition decommission_pool :: "pool_id \<Rightarrow> ('e pos_delta, pos_error, pos_accounting_undo) op" where
  "decommission_pool pool =
     bindS (readS (\<lambda>c. get_pool_data c pool)) (\<lambda>present.
     bindS (liftS (ok_or present AttemptedDecommissionNonexistingPoolData)) (\<lambda>last_data.
     bindS (readS (\<lambda>c. get_pool_balance c pool)) (\<lambda>last_amount.
     bindS (on_pool_balances (sub_unsigned pool last_amount)) (\<lambda>_.
     bindS (on_pool_data (merge_delta_data_element pool (new_delta (Some last_data) None))) (\<lambda>data_undo.
     returnS (DecommissionPoolUndo pool last_amount data_undo))))))"

definition increase_staker_rewards ::
    "pool_id \<Rightarrow> amount \<Rightarrow> ('e pos_delta, pos_error, pos_accounting_undo) op" where
  "increase_staker_rewards pool amount_to_add =
     bindS (readS (\<lambda>c. get_pool_data c pool)) (\<lambda>present.
     bindS (liftS (ok_or present IncreaseStakerRewardsOfNonexistingPool)) (\<lambda>pool_data.
     bindS (add_balance_to_pool pool amount_to_add) (\<lambda>_.
     bindS (liftS (pool_data_increase_rewards pool_data amount_to_add)) (\<lambda>new_pool_data.
     bindS (on_pool_data (merge_delta_data_element pool (new_delta (Some pool_data) (Some new_pool_data))))
       (\<lambda>data_undo.
     returnS (IncreaseStakerRewardsUndo pool amount_to_add data_undo))))))"

definition create_delegation_id ::
    "pool_id \<Rightarrow> delegation_id \<Rightarrow> destination \<Rightarrow> ('e pos_delta, pos_error, pos_accounting_undo) op" where
  "create_delegation_id target deleg spend =
     bindS (readS (\<lambda>c. pool_exists c target)) (\<lambda>ex.
     if \<not> ex then failS DelegationCreationFailedPoolDoesNotExist else
     bindS (readS (\<lambda>c. get_delegation_data c deleg)) (\<lambda>present.
     if present \<noteq> None then failS InvariantErrorDelegationCreationFailedIdAlreadyExists else
     let delegation_data = delegation_data_new target spend in
     bindS (on_delegation_data (merge_delta_data_element deleg (new_delta None (Some delegation_data))))
       (\<lambda>data_undo.
     returnS (CreateDelegationIdUndo deleg data_undo))))"

definition delete_delegation_id :: "delegation_id \<Rightarrow> ('e pos_delta, pos_error, pos_accounting_undo) op" where
  "delete_delegation_id deleg =
     bindS (readS (\<lambda>c. get_delegation_data c deleg)) (\<lambda>present.
     bindS (liftS (ok_or present DelegationDeletionFailedIdDoesNotExist)) (\<lambda>delegation_data.
     bindS (readS (\<lambda>c. get_delegation_balance c deleg)) (\<lambda>balance.
     if balance > amount_zero then failS DelegationDeletionFailedBalanceNonZero else
     bindS (readS (\<lambda>c. get_pool_delegation_share c (source_pool delegation_data) deleg)) (\<lambda>share.
     if share > amount_zero then failS DelegationDeletionFailedPoolsShareNonZero else
     bindS (readS (\<lambda>c. pool_exists c (source_pool delegation_data))) (\<lambda>ex.
     if ex then failS DelegationDeletionFailedPoolStillExists else
     bindS (on_delegation_data (merge_delta_data_element deleg (new_delta (Some delegation_data) None)))
       (\<lambda>data_undo.
     returnS (DeleteDelegationIdUndo deleg data_undo)))))))"

definition delegate_staking ::
    "delegation_id \<Rightarrow> amount \<Rightarrow> ('e pos_delta, pos_error, pos_accounting_undo) op" where
  "delegate_staking deleg amount_to_delegate =
     bindS (readS (\<lambda>c. get_delegation_data c deleg)) (\<lambda>present.
     bindS (liftS (ok_or present DelegateToNonexistingId)) (\<lambda>delegation_data.
     let pool = source_pool delegation_data in
     bindS (add_to_delegation_balance deleg amount_to_delegate) (\<lambda>_.
     bindS (add_balance_to_pool pool amount_to_delegate) (\<lambda>_.
     bindS (add_delegation_to_pool_share pool deleg amount_to_delegate) (\<lambda>_.
     returnS (DelegateStakingUndo deleg amount_to_delegate))))))"

definition spend_share_from_delegation_id ::
    "delegation_id \<Rightarrow> amount \<Rightarrow> ('e pos_delta, pos_error, pos_accounting_undo) op" where
  "spend_share_from_delegation_id deleg a =
     bindS (readS (\<lambda>c. get_delegation_data c deleg)) (\<lambda>present.
     bindS (liftS (ok_or present (SpendingShareOfNonexistingDelegation deleg))) (\<lambda>delegation_data.
     let pool = source_pool delegation_data in
     bindS (sub_delegation_from_pool_share pool deleg a) (\<lambda>_.
     bindS (readS (\<lambda>c. pool_exists c pool)) (\<lambda>ex.
     bindS (if ex then sub_balance_from_pool pool a else returnS ()) (\<lambda>_.
     bindS (sub_from_delegation_balance deleg a) (\<lambda>_.
     returnS (SpendFromShareUndo deleg a)))))))"

fun pos_undo :: "pos_accounting_undo \<Rightarrow> ('e pos_delta, pos_error, unit) op" where
  "pos_undo (CreatePoolUndo pool pledge data_undo) =
     bindS (readS (\<lambda>c. get_pool_balance c pool)) (\<lambda>balance.
     bindS (ensureS (balance = pledge) InvariantErrorPoolCreationReversalFailedAmountChanged) (\<lambda>_.
     bindS (on_pool_balances (sub_unsigned pool pledge)) (\<lambda>_.
     bindS (readS (\<lambda>c. get_pool_data c pool)) (\<lambda>present.
     bindS (liftS (ok_or present InvariantErrorPoolCreationReversalFailedDataNotFound)) (\<lambda>_.
     on_pool_data (undo_merge_delta_data_element pool data_undo))))))"
| "pos_undo (DecommissionPoolUndo pool pool_balance data_undo) =
     bindS (readS (\<lambda>c. get_pool_data c pool)) (\<lambda>present.
     if present \<noteq> None then failS InvariantErrorDecommissionUndoFailedPoolDataAlreadyExists else
     bindS (readS (\<lambda>c. get_pool_balance c pool)) (\<lambda>balance.
     if balance > amount_zero then failS InvariantErrorDecommissionUndoFailedPoolBalanceAlreadyExists else
     bindS (on_pool_balances (add_unsigned pool pool_balance)) (\<lambda>_.
     on_pool_data (undo_merge_delta_data_element pool data_undo))))"
| "pos_undo (CreateDelegationIdUndo deleg data_undo) =
     bindS (readS (\<lambda>c. get_delegation_data c deleg)) (\<lambda>present.
     bindS (liftS (ok_or present InvariantErrorDelegationIdUndoFailedNotFound)) (\<lambda>_.
     on_delegation_data (undo_merge_delta_data_element deleg data_undo)))"
| "pos_undo (DeleteDelegationIdUndo deleg data_undo) =
     bindS (readS (\<lambda>c. get_delegation_balance c deleg)) (\<lambda>balance.
     if balance > amount_zero then failS DelegationDeletionFailedBalanceNonZero else
     on_delegation_data (undo_merge_delta_data_element deleg data_undo))"
| "pos_undo (DelegateStakingUndo deleg a) =
     bindS (readS (\<lambda>c. get_delegation_data c deleg)) (\<lambda>present.
     bindS (liftS (ok_or present (InvariantErrorDelegationUndoFailedDataNotFound deleg))) (\<lambda>delegation_data.
     let pool = source_pool delegation_data in
     bindS (sub_delegation_from_pool_share pool deleg a) (\<lambda>_.
     bindS (sub_balance_from_pool pool a) (\<lambda>_.
     sub_from_delegation_balance deleg a))))"
| "pos_undo (SpendFromShareUndo deleg a) =
     bindS (readS (\<lambda>c. get_delegation_data c deleg)) (\<lambda>present.
     bindS (liftS (ok_or present DelegationCreationFailedPoolDoesNotExist)) (\<lambda>delegation_data.
     let pool = source_pool delegation_data in
     bindS (add_to_delegation_balance deleg a) (\<lambda>_.
     bindS (readS (\<lambda>c. pool_exists c pool)) (\<lambda>ex.
     bindS (if ex then add_balance_to_pool pool a else returnS ()) (\<lambda>_.
     add_delegation_to_pool_share pool deleg a)))))"
| "pos_undo (IncreaseStakerRewardsUndo pool amount_added data_undo) =
     bindS (on_pool_data (undo_merge_delta_data_element pool data_undo)) (\<lambda>_.
     sub_balance_from_pool pool amount_added)"

section \<open>The database\<close>

record ('s, 'e) pos_storage =
  st_pool_data :: "('s, 'e, pool_id, pool_data) column"
  st_delegation_data :: "('s, 'e, delegation_id, delegation_data) column"
  st_pool_balances :: "('s, 'e, pool_id, amount) column"
  st_delegation_balances :: "('s, 'e, delegation_id, amount) column"
  st_pool_delegation_shares :: "('s, 'e, pool_id \<times> delegation_id, amount) column"
  st_pool_delegations_shares :: "'s \<Rightarrow> pool_id \<Rightarrow> 'e + (delegation_id, amount) btree_map option"

definition pos_db_merge_with_delta ::
    "('s, 'e) pos_storage \<Rightarrow> pos_delta_data \<Rightarrow> ('s, pos_error failure, delta_merge_undo) op" where
  "pos_db_merge_with_delta S other =
     bindS (merge_data_generic PosViewFail PosStorageWrite PosAccountingError
              (st_pool_data S) (pd_pool_data other)) (\<lambda>pool_data_undo.
     bindS (merge_data_generic PosViewFail PosStorageWrite PosAccountingError
              (st_delegation_data S) (pd_delegation_data other)) (\<lambda>delegation_data_undo.
     bindS (merge_balances_generic PosViewFail PosStorageWrite PosAccountingError
              (st_pool_balances S) (pd_pool_balances other)) (\<lambda>pool_balances_undo.
     bindS (merge_balances_generic PosViewFail PosStorageWrite PosAccountingError
              (st_delegation_balances S) (pd_delegation_balances other)) (\<lambda>delegation_balances_undo.
     bindS (merge_balances_generic PosViewFail PosStorageWrite PosAccountingError
              (st_pool_delegation_shares S) (pd_pool_delegation_shares other)) (\<lambda>shares_undo.
     returnS \<lparr>mu_pool_data = pool_data_undo, mu_delegation_data = delegation_data_undo,
              mu_pool_balances = pool_balances_undo, mu_pool_delegation_shares = shares_undo,
              mu_delegation_balances = delegation_balances_undo\<rparr>)))))"

definition pos_db_undo_merge_with_delta ::
    "('s, 'e) pos_storage \<Rightarrow> delta_merge_undo \<Rightarrow> ('s, pos_error failure, unit) op" where
  "pos_db_undo_merge_with_delta S undo =
     bindS (undo_merge_data_generic PosViewFail PosStorageWrite PosAccountingError
              (st_pool_data S) (mu_pool_data undo)) (\<lambda>_.
     bindS (undo_merge_data_generic PosViewFail PosStorageWrite PosAccountingError
              (st_delegation_data S) (mu_delegation_data undo)) (\<lambda>_.
     bindS (merge_balances_generic PosViewFail PosStorageWrite PosAccountingError
              (st_pool_balances S) (mu_pool_balances undo)) (\<lambda>_.
     bindS (merge_balances_generic PosViewFail PosStorageWrite PosAccountingError
              (st_delegation_balances S) (mu_delegation_balances undo)) (\<lambda>_.
     bindS (merge_balances_generic PosViewFail PosStorageWrite PosAccountingError
              (st_pool_delegation_shares S) (mu_pool_delegation_shares undo)) (\<lambda>_.
     returnS ())))))"

definition pos_db_view :: "('s, 'e) pos_storage \<Rightarrow> 's \<Rightarrow> 'e pos_view" where
  "pos_db_view S s =
     \<lparr>pv_pool_exists = (\<lambda>pool. and_then (col_get (st_pool_data S) s pool) (\<lambda>d. Ok (d \<noteq> None))),
      pv_pool_balance = col_balance (st_pool_balances S) s,
      pv_pool_data = col_get (st_pool_data S) s,
      pv_pool_delegations_shares = st_pool_delegations_shares S s,
      pv_delegation_balance = col_balance (st_delegation_balances S) s,
      pv_delegation_data = col_get (st_delegation_data S) s,
      pv_pool_delegation_share = (\<lambda>pool deleg. col_balance (st_pool_delegation_shares S) s (pool, deleg))\<rparr>"

record in_memory_pos =
  im_pool_data :: "(pool_id, pool_data) btree_map"
  im_pool_balances :: "(pool_id, amount) btree_map"
  im_pool_delegation_shares :: "(pool_id \<times> delegation_id, amount) btree_map"
  im_delegation_balances :: "(delegation_id, amount) btree_map"
  im_delegation_data :: "(delegation_id, delegation_data) btree_map"

definition in_memory_pos_new :: in_memory_pos where
  "in_memory_pos_new =
     \<lparr>im_pool_data = fmempty, im_pool_balances = fmempty, im_pool_delegation_shares = fmempty,
      im_delegation_balances = fmempty, im_delegation_data = fmempty\<rparr>"

definition in_memory_pos_storage :: "(in_memory_pos, pos_error) pos_storage" where
  "in_memory_pos_storage =
     \<lparr>st_pool_data = map_column im_pool_data (\<lambda>m. im_pool_data_update (\<lambda>_. m)),
      st_delegation_data = map_column im_delegation_data (\<lambda>m. im_delegation_data_update (\<lambda>_. m)),
      st_pool_balances = map_column im_pool_balances (\<lambda>m. im_pool_balances_update (\<lambda>_. m)),
      st_delegation_balances = map_column im_delegation_balances (\<lambda>m. im_delegation_balances_update (\<lambda>_. m)),
      st_pool_delegation_shares =
        map_column im_pool_delegation_shares (\<lambda>m. im_pool_delegation_shares_update (\<lambda>_. m)),
      st_pool_delegations_shares = (\<lambda>s pool. Ok (pool_entries (im_pool_delegation_shares s) pool))\<rparr>"

section \<open>A delta as cached reads\<close>

abbreviation parent_pool_data :: "'e pos_delta \<Rightarrow> pool_id \<Rightarrow> pos_error + pool_data option" where
  "parent_pool_data c \<equiv> \<lambda>p. map_err (\<lambda>_. PosViewFail) (pv_pool_data (pos_parent c) p)"

abbreviation parent_delegation_data :: "'e pos_delta \<Rightarrow> delegation_id \<Rightarrow> pos_error + delegation_data option" where
  "parent_delegation_data c \<equiv> \<lambda>d. map_err (\<lambda>_. PosViewFail) (pv_delegation_data (pos_parent c) d)"

abbreviation parent_pool_balance :: "'e pos_delta \<Rightarrow> pool_id \<Rightarrow> pos_error + amount" where
  "parent_pool_balance c \<equiv> \<lambda>p. map_err (\<lambda>_. PosViewFail) (pv_pool_balance (pos_parent c) p)"

abbreviation parent_delegation_balance :: "'e pos_delta \<Rightarrow> delegation_id \<Rightarrow> pos_error + amount" where
  "parent_delegation_balance c \<equiv> \<lambda>d. map_err (\<lambda>_. PosViewFail) (pv_delegation_balance (pos_parent c) d)"

abbreviation parent_share :: "'e pos_delta \<Rightarrow> pool_id \<times> delegation_id \<Rightarrow> pos_error + amount" where
  "parent_share c \<equiv> \<lambda>k. map_err (\<lambda>_. PosViewFail) (pv_pool_delegation_share (pos_parent c) (fst k) (snd k))"

text \<open>The share of a delegation in a pool, as a function of the key of its collection.\<close>

definition get_share :: "'e pos_delta \<Rightarrow> pool_id \<times> delegation_id \<Rightarrow> pos_error + amount" where
  "get_share c k = get_pool_delegation_share c (fst k) (snd k)"

lemma pos_cached:
  "get_pool_data c = cached_data (parent_pool_data c) (pd_pool_data (pos_data c))"
  "get_delegation_data c = cached_data (parent_delegation_data c) (pd_delegation_data (pos_data c))"
  "get_pool_balance c = cached_balance PosAccountingError (parent_pool_balance c) (pd_pool_balances (pos_data c))"
  "get_delegation_balance c =
     cached_balance PosAccountingError (parent_delegation_balance c) (pd_delegation_balances (pos_data c))"
  "get_share c = cached_balance PosAccountingError (parent_share c) (pd_pool_delegation_shares (pos_data c))"
  by (auto simp: get_pool_data_def get_delegation_data_def get_data_def cached_data_def fun_eq_iff
      get_pool_balance_def get_delegation_balance_def get_share_def get_pool_delegation_share_def
      cached_balance_def Let_def split: option.splits)

lemmas pos_folds [simp] = pos_cached [symmetric]

text \<open>The delta with its five collections replaced.\<close>

definition with_pos ::
    "'e pos_delta \<Rightarrow> (pool_id, pool_data) delta_data_collection \<Rightarrow>
     (delegation_id, delegation_data) delta_data_collection \<Rightarrow> pool_id delta_amount_collection \<Rightarrow>
     delegation_id delta_amount_collection \<Rightarrow> (pool_id \<times> delegation_id) delta_amount_collection \<Rightarrow>
     'e pos_delta" where
  "with_pos c pd dd pb db sh =
     c\<lparr>pos_data := \<lparr>pd_pool_data = pd, pd_pool_balances = pb, pd_pool_delegation_shares = sh,
                    pd_delegation_balances = db, pd_delegation_data = dd\<rparr>\<rparr>"

abbreviation "PD c \<equiv> pd_pool_data (pos_data c)"
abbreviation "DD c \<equiv> pd_delegation_data (pos_data c)"
abbreviation "PB c \<equiv> pd_pool_balances (pos_data c)"
abbreviation "DB c \<equiv> pd_delegation_balances (pos_data c)"
abbreviation "SH c \<equiv> pd_pool_delegation_shares (pos_data c)"

lemma with_pos_simps [simp]:
  "pos_parent (with_pos c pd dd pb db sh) = pos_parent c"
  "PD (with_pos c pd dd pb db sh) = pd" "DD (with_pos c pd dd pb db sh) = dd"
  "PB (with_pos c pd dd pb db sh) = pb" "DB (with_pos c pd dd pb db sh) = db"
  "SH (with_pos c pd dd pb db sh) = sh"
  "with_pos (with_pos c pd' dd' pb' db' sh') pd dd pb db sh = with_pos c pd dd pb db sh"
  "with_pos c (PD c) (DD c) (PB c) (DB c) (SH c) = c"
  by (simp_all add: with_pos_def)

lemma with_pos_reads [simp]:
  "get_pool_data (with_pos c pd dd pb db sh) = cached_data (parent_pool_data c) pd"
  "get_delegation_data (with_pos c pd dd pb db sh) = cached_data (parent_delegation_data c) dd"
  "get_pool_balance (with_pos c pd dd pb db sh) = cached_balance PosAccountingError (parent_pool_balance c) pb"
  "get_delegation_balance (with_pos c pd dd pb db sh) =
     cached_balance PosAccountingError (parent_delegation_balance c) db"
  "get_share (with_pos c pd dd pb db sh) = cached_balance PosAccountingError (parent_share c) sh"
  by (simp_all add: pos_cached del: pos_folds)

lemma pool_exists_Ok: "pool_exists c p = Inr b \<longleftrightarrow> (\<exists>d. get_pool_data c p = Inr d \<and> b = (d \<noteq> None))"
  by (auto simp: pool_exists_def result_simps)

lemma pool_exists_with_pos [simp]: "pool_exists (with_pos c (PD c) dd pb db sh) = pool_exists c"
  by (simp add: pool_exists_def fun_eq_iff)

section \<open>Calls on the collections\<close>

lemma on_balances_Ok [op_simps]:
  "on_pool_balances m c = (Inr u, c') \<longleftrightarrow>
     (\<exists>x. m (PB c) = (Inr u, x) \<and> c' = with_pos c (PD c) (DD c) x (DB c) (SH c))"
  "on_delegation_balances m' c = (Inr u, c') \<longleftrightarrow>
     (\<exists>x. m' (DB c) = (Inr u, x) \<and> c' = with_pos c (PD c) (DD c) (PB c) x (SH c))"
  "on_shares m'' c = (Inr u, c') \<longleftrightarrow>
     (\<exists>x. m'' (SH c) = (Inr u, x) \<and> c' = with_pos c (PD c) (DD c) (PB c) (DB c) x)"
  by (auto simp: on_pool_balances_def on_delegation_balances_def on_shares_def op_simps with_pos_def)

lemmas pos_balance_ops = add_to_delegation_balance_def sub_from_delegation_balance_def add_balance_to_pool_def
  sub_balance_from_pool_def add_delegation_to_pool_share_def sub_delegation_from_pool_share_def

lemma merge_pool_read:
  assumes "get_pool_data c p = Inr x"
  shows "on_pool_data (merge_delta_data_element p (new_delta x y)) c =
     (Inr (invert (new_delta x y)), with_pos c (put_delta p x y (PD c)) (DD c) (PB c) (DB c) (SH c))"
proof -
  have "merge_delta_data_element p (new_delta x y) (PD c) = (Inr (invert (new_delta x y)), put_delta p x y (PD c))"
    by (rule merge_delta_data_element_read [of "parent_pool_data c"]) (simp add: assms)
  then show ?thesis by (simp add: on_pool_data_def zoomS_def map_errS_def map_err_def with_pos_def)
qed

lemma undo_merge_pool_read:
  assumes "get_pool_data c p = Inr y"
  shows "on_pool_data (undo_merge_delta_data_element p (invert (new_delta x y))) c =
     (Inr (), with_pos c (put_delta p y x (PD c)) (DD c) (PB c) (DB c) (SH c))"
proof -
  have "undo_merge_delta_data_element p (invert (new_delta x y)) (PD c) = (Inr (), put_delta p y x (PD c))"
    by (rule undo_merge_delta_data_element_read [of "parent_pool_data c"]) (simp add: assms)
  then show ?thesis by (simp add: on_pool_data_def zoomS_def map_errS_def map_err_def with_pos_def)
qed

lemma merge_delegation_read:
  assumes "get_delegation_data c p = Inr x"
  shows "on_delegation_data (merge_delta_data_element p (new_delta x y)) c =
     (Inr (invert (new_delta x y)), with_pos c (PD c) (put_delta p x y (DD c)) (PB c) (DB c) (SH c))"
proof -
  have "merge_delta_data_element p (new_delta x y) (DD c) = (Inr (invert (new_delta x y)), put_delta p x y (DD c))"
    by (rule merge_delta_data_element_read [of "parent_delegation_data c"]) (simp add: assms)
  then show ?thesis by (simp add: on_delegation_data_def zoomS_def map_errS_def map_err_def with_pos_def)
qed

lemma undo_merge_delegation_read:
  assumes "get_delegation_data c p = Inr y"
  shows "on_delegation_data (undo_merge_delta_data_element p (invert (new_delta x y))) c =
     (Inr (), with_pos c (PD c) (put_delta p y x (DD c)) (PB c) (DB c) (SH c))"
proof -
  have "undo_merge_delta_data_element p (invert (new_delta x y)) (DD c) = (Inr (), put_delta p y x (DD c))"
    by (rule undo_merge_delta_data_element_read [of "parent_delegation_data c"]) (simp add: assms)
  then show ?thesis by (simp add: on_delegation_data_def zoomS_def map_errS_def map_err_def with_pos_def)
qed

section \<open>What a successful operation on pools and delegations does\<close>

lemma amount_not_positive [simp]: "\<not> amount_zero < a \<longleftrightarrow> a = 0"
  by (simp add: amount_zero_def word_gt_0)

lemma create_pool_Ok:
  "create_pool p d c = (Inr u, c') \<longleftrightarrow>
     get_pool_data c p = Inr None \<and> get_pool_balance c p = Inr 0 \<and>
     (\<exists>x. add_unsigned p (pledge_amount d) (PB c) = (Inr (), x) \<and>
        u = CreatePoolUndo p (pledge_amount d) (invert (new_delta None (Some d))) \<and>
        c' = with_pos c (put_delta p None (Some d) (PD c)) (DD c) x (DB c) (SH c))"
  by (auto simp: create_pool_def op_simps result_simps merge_pool_read Let_def)

lemma decommission_pool_Ok:
  "decommission_pool p c = (Inr u, c') \<longleftrightarrow>
     (\<exists>d a x. get_pool_data c p = Inr (Some d) \<and> get_pool_balance c p = Inr a \<and>
        sub_unsigned p a (PB c) = (Inr (), x) \<and>
        u = DecommissionPoolUndo p a (invert (new_delta (Some d) None)) \<and>
        c' = with_pos c (put_delta p (Some d) None (PD c)) (DD c) x (DB c) (SH c))"
  by (auto simp: decommission_pool_def op_simps result_simps merge_pool_read)

lemma pool_data_increase_rewards_Ok:
  "pool_data_increase_rewards d a = Inr d' \<longleftrightarrow>
     (\<exists>r. uint r = uint (staker_rewards d) + uint a \<and> d' = d\<lparr>staker_rewards := r\<rparr>)"
  by (auto simp: pool_data_increase_rewards_def result_simps checked_simps)

lemma increase_staker_rewards_Ok:
  "increase_staker_rewards p a c = (Inr u, c') \<longleftrightarrow>
     (\<exists>d d' x. get_pool_data c p = Inr (Some d) \<and> add_unsigned p a (PB c) = (Inr (), x) \<and>
        pool_data_increase_rewards d a = Inr d' \<and>
        u = IncreaseStakerRewardsUndo p a (invert (new_delta (Some d) (Some d'))) \<and>
        c' = with_pos c (put_delta p (Some d) (Some d') (PD c)) (DD c) x (DB c) (SH c))"
  by (auto simp: increase_staker_rewards_def pos_balance_ops op_simps result_simps merge_pool_read)

lemma create_delegation_id_Ok:
  "create_delegation_id p i k c = (Inr u, c') \<longleftrightarrow>
     (\<exists>d. get_pool_data c p = Inr (Some d)) \<and> get_delegation_data c i = Inr None \<and>
     (let x = Some (delegation_data_new p k) in
      u = CreateDelegationIdUndo i (invert (new_delta None x)) \<and>
      c' = with_pos c (PD c) (put_delta i None x (DD c)) (PB c) (DB c) (SH c))"
  by (auto simp: create_delegation_id_def op_simps result_simps merge_delegation_read Let_def pool_exists_Ok)

lemma delete_delegation_id_Ok:
  "delete_delegation_id i c = (Inr u, c') \<longleftrightarrow>
     (\<exists>d. get_delegation_data c i = Inr (Some d) \<and> get_delegation_balance c i = Inr 0 \<and>
        get_share c (source_pool d, i) = Inr 0 \<and> get_pool_data c (source_pool d) = Inr None \<and>
        u = DeleteDelegationIdUndo i (invert (new_delta (Some d) None)) \<and>
        c' = with_pos c (PD c) (put_delta i (Some d) None (DD c)) (PB c) (DB c) (SH c))"
  by (auto simp: delete_delegation_id_def op_simps result_simps merge_delegation_read get_share_def pool_exists_Ok)

lemma delegate_staking_Ok:
  "delegate_staking i a c = (Inr u, c') \<longleftrightarrow>
     (\<exists>d x y z. get_delegation_data c i = Inr (Some d) \<and> add_unsigned i a (DB c) = (Inr (), x) \<and>
        add_unsigned (source_pool d) a (PB c) = (Inr (), y) \<and>
        add_unsigned (source_pool d, i) a (SH c) = (Inr (), z) \<and> u = DelegateStakingUndo i a \<and>
        c' = with_pos c (PD c) (DD c) y x z)"
  by (auto simp: delegate_staking_def pos_balance_ops op_simps result_simps Let_def)

lemma spend_share_pre:
  "spend_share_from_delegation_id i a c = (Inr u, c') \<Longrightarrow>
     \<exists>d e. get_delegation_data c i = Inr (Some d) \<and> get_pool_data c (source_pool d) = Inr e"
  by (auto simp: spend_share_from_delegation_id_def pos_balance_ops op_simps result_simps Let_def pool_exists_Ok)

lemma spend_share_decommissioned:
  assumes "get_delegation_data c i = Inr (Some d)" and "get_pool_data c (source_pool d) = Inr None"
  shows "spend_share_from_delegation_id i a c = (Inr u, c') \<longleftrightarrow>
     (\<exists>x z. sub_unsigned (source_pool d, i) a (SH c) = (Inr (), x) \<and>
        sub_unsigned i a (DB c) = (Inr (), z) \<and> u = SpendFromShareUndo i a \<and>
        c' = with_pos c (PD c) (DD c) (PB c) z x)"
proof -
  have "pool_exists (with_pos c (PD c) (DD c) pb db sh) (source_pool d) = Inr False" for pb db sh
    using assms(2) by (simp add: pool_exists_Ok)
  then show ?thesis using assms
    by (auto simp: spend_share_from_delegation_id_def pos_balance_ops op_simps result_simps Let_def)
qed

lemma spend_share_existing:
  assumes "get_delegation_data c i = Inr (Some d)" and "get_pool_data c (source_pool d) = Inr (Some e)"
  shows "spend_share_from_delegation_id i a c = (Inr u, c') \<longleftrightarrow>
     (\<exists>x y z. sub_unsigned (source_pool d, i) a (SH c) = (Inr (), x) \<and>
        sub_unsigned (source_pool d) a (PB c) = (Inr (), y) \<and>
        sub_unsigned i a (DB c) = (Inr (), z) \<and> u = SpendFromShareUndo i a \<and>
        c' = with_pos c (PD c) (DD c) y z x)"
proof -
  have "pool_exists (with_pos c (PD c) (DD c) pb db sh) (source_pool d) = Inr True" for pb db sh
    using assms(2) by (simp add: pool_exists_Ok)
  then show ?thesis using assms
    by (auto simp: spend_share_from_delegation_id_def pos_balance_ops op_simps result_simps Let_def)
qed

lemmas pos_Ok = create_pool_Ok decommission_pool_Ok increase_staker_rewards_Ok create_delegation_id_Ok
  delete_delegation_id_Ok delegate_staking_Ok

section \<open>Sequences of operations on pools and delegations\<close>

datatype pos_call =
    CallCreatePool pool_id pool_data
  | CallDecommissionPool pool_id
  | CallIncreaseStakerRewards pool_id amount
  | CallCreateDelegationId pool_id delegation_id destination
  | CallDeleteDelegationId delegation_id
  | CallDelegateStaking delegation_id amount
  | CallSpendShare delegation_id amount

fun pos_exec :: "pos_call \<Rightarrow> ('e pos_delta, pos_error, pos_accounting_undo) op" where
  "pos_exec (CallCreatePool p d) = create_pool p d"
| "pos_exec (CallDecommissionPool p) = decommission_pool p"
| "pos_exec (CallIncreaseStakerRewards p a) = increase_staker_rewards p a"
| "pos_exec (CallCreateDelegationId p i k) = create_delegation_id p i k"
| "pos_exec (CallDeleteDelegationId i) = delete_delegation_id i"
| "pos_exec (CallDelegateStaking i a) = delegate_staking i a"
| "pos_exec (CallSpendShare i a) = spend_share_from_delegation_id i a"

section \<open>Coherence of a delta with its parent\<close>

definition pos_delta_ok :: "'e pos_delta \<Rightarrow> bool" where
  "pos_delta_ok c \<longleftrightarrow> data_coherent (parent_pool_data c) (PD c) \<and>
     data_coherent (parent_delegation_data c) (DD c) \<and>
     no_zero_deltas (PB c) \<and> no_zero_deltas (DB c) \<and> no_zero_deltas (SH c)"

lemma pos_delta_new_simps [simp]:
  "pos_parent (pos_delta_new p) = p" "pos_delta_ok (pos_delta_new p)"
  by (simp_all add: pos_delta_new_def pos_delta_data_new_def pos_delta_ok_def no_zero_deltas_def)

lemma pos_delta_ok_with_pos:
  "pos_delta_ok (with_pos c pd dd pb db sh) \<longleftrightarrow> data_coherent (parent_pool_data c) pd \<and>
     data_coherent (parent_delegation_data c) dd \<and> no_zero_deltas pb \<and> no_zero_deltas db \<and> no_zero_deltas sh"
  by (simp add: pos_delta_ok_def)

lemma pos_put_coherent:
  "pos_delta_ok c \<Longrightarrow> get_pool_data c p = Inr x \<Longrightarrow> data_coherent (parent_pool_data c) (put_delta p x y (PD c))"
  "pos_delta_ok c \<Longrightarrow> get_delegation_data c i = Inr v \<Longrightarrow>
     data_coherent (parent_delegation_data c) (put_delta i v w (DD c))"
  by (simp_all add: pos_delta_ok_def pos_cached data_coherent_put del: pos_folds)

lemma pos_delta_okD:
  "pos_delta_ok c \<Longrightarrow> data_coherent (parent_pool_data c) (PD c)"
  "pos_delta_ok c \<Longrightarrow> data_coherent (parent_delegation_data c) (DD c)"
  "pos_delta_ok c \<Longrightarrow> no_zero_deltas (PB c)"
  "pos_delta_ok c \<Longrightarrow> no_zero_deltas (DB c)"
  "pos_delta_ok c \<Longrightarrow> no_zero_deltas (SH c)"
  by (simp_all add: pos_delta_ok_def)

lemmas pos_ok_simps = pos_delta_ok_with_pos pos_put_coherent pos_delta_okD

lemma pos_exec_ok:
  assumes "pos_exec call c = (Inr u, c')" and ok: "pos_delta_ok c"
  shows "pos_delta_ok c' \<and> pos_parent c' = pos_parent c"
proof (cases call)
  case (CallSpendShare i a)
  with assms(1) have ex: "spend_share_from_delegation_id i a c = (Inr u, c')" by simp
  from spend_share_pre [OF this] obtain d e where
    d: "get_delegation_data c i = Inr (Some d)" "get_pool_data c (source_pool d) = Inr e" by blast
  show ?thesis
    using ex spend_share_decommissioned [OF d(1)] spend_share_existing [OF d(1)] d(2) ok
    by (cases e) (auto simp: pos_ok_simps dest!: sub_unsigned_no_zero)
qed (use assms in \<open>auto simp: pos_Ok pos_ok_simps Let_def dest!: add_unsigned_no_zero sub_unsigned_no_zero\<close>)

inductive pos_steps :: "('e pos_delta \<Rightarrow> pos_call \<Rightarrow> bool) \<Rightarrow> 'e pos_delta \<Rightarrow> 'e pos_delta \<Rightarrow> bool" for P c where
  no_pos_call: "pos_steps P c c"
| one_pos_call: "pos_steps P c a \<Longrightarrow> P a call \<Longrightarrow> pos_exec call a = (Inr u, b) \<Longrightarrow> pos_steps P c b"

lemma pos_steps_ok:
  "pos_steps P c c' \<Longrightarrow> pos_delta_ok c \<Longrightarrow> pos_delta_ok c' \<and> pos_parent c' = pos_parent c"
  by (induction rule: pos_steps.induct) (auto dest: pos_exec_ok)

section \<open>Undoing an operation on pools and delegations\<close>

definition same_pos :: "'e pos_delta \<Rightarrow> 'f pos_delta \<Rightarrow> bool" where
  "same_pos c c' \<longleftrightarrow> get_pool_data c = get_pool_data c' \<and> get_delegation_data c = get_delegation_data c' \<and>
     get_pool_balance c = get_pool_balance c' \<and> get_delegation_balance c = get_delegation_balance c' \<and>
     get_share c = get_share c'"

lemma same_pos_put:
  "get_pool_data c p = Inr x \<Longrightarrow>
     same_pos c (with_pos c (put_delta p y x (put_delta p x y (PD c))) (DD c) (PB c) (DB c) (SH c))"
  "get_delegation_data c i = Inr v \<Longrightarrow>
     same_pos c (with_pos c (PD c) (put_delta i w v (put_delta i v w (DD c))) (PB c) (DB c) (SH c))"
  by (simp_all add: same_pos_def fun_upd_idem)

lemma pos_undo_create_pool:
  assumes "create_pool p d c = (Inr u, c')" and ok: "pos_delta_ok c"
  shows "\<exists>c2. pos_undo u c' = (Inr (), c2) \<and> same_pos c c2"
proof -
  obtain x where c: "get_pool_data c p = Inr None" "get_pool_balance c p = Inr 0"
      "add_unsigned p (pledge_amount d) (PB c) = (Inr (), x)"
      "u = CreatePoolUndo p (pledge_amount d) (invert (new_delta None (Some d)))"
      "c' = with_pos c (put_delta p None (Some d) (PD c)) (DD c) x (DB c) (SH c)"
    using assms(1) by (auto simp: create_pool_Ok)
  have "get_pool_balance c' p = Inr (pledge_amount d)"
    using cached_balance_add [OF c(2) [unfolded pos_cached] c(3)] add_unsigned_Ok [OF c(3)] by (simp add: c(5))
  moreover have "sub_unsigned p (pledge_amount d) x = (Inr (), PB c)"
    by (rule sub_after_add [OF pos_delta_okD(3) [OF ok] c(3)])
  ultimately have "pos_undo u c' =
      (Inr (), with_pos c (put_delta p (Some d) None (put_delta p None (Some d) (PD c))) (DD c) (PB c) (DB c) (SH c))"
    by (simp add: c(4) op_simps result_simps undo_merge_pool_read c(5))
  with same_pos_put(1) [OF c(1)] show ?thesis by blast
qed

lemma pos_undo_decommission_pool:
  assumes "decommission_pool p c = (Inr u, c')" and ok: "pos_delta_ok c"
  shows "\<exists>c2. pos_undo u c' = (Inr (), c2) \<and> same_pos c c2"
proof -
  obtain d a x where c: "get_pool_data c p = Inr (Some d)" "get_pool_balance c p = Inr a"
      "sub_unsigned p a (PB c) = (Inr (), x)"
      "u = DecommissionPoolUndo p a (invert (new_delta (Some d) None))"
      "c' = with_pos c (put_delta p (Some d) None (PD c)) (DD c) x (DB c) (SH c)"
    using assms(1) by (auto simp: decommission_pool_Ok)
  have "get_pool_balance c' p = Inr 0"
    using cached_balance_sub [OF c(2) [unfolded pos_cached] c(3)] sub_unsigned_Ok [OF c(3)] by (simp add: c(5))
  moreover have "add_unsigned p a x = (Inr (), PB c)"
    by (rule add_after_sub [OF pos_delta_okD(3) [OF ok] c(3)])
  ultimately have "pos_undo u c' =
      (Inr (), with_pos c (put_delta p None (Some d) (put_delta p (Some d) None (PD c))) (DD c) (PB c) (DB c) (SH c))"
    by (simp add: c(4) op_simps result_simps undo_merge_pool_read c(5) amount_zero_def)
  with same_pos_put(1) [OF c(1)] show ?thesis by blast
qed

lemma pos_undo_increase_rewards:
  assumes "increase_staker_rewards p a c = (Inr u, c')" and ok: "pos_delta_ok c"
  shows "\<exists>c2. pos_undo u c' = (Inr (), c2) \<and> same_pos c c2"
proof -
  obtain d d' x where c: "get_pool_data c p = Inr (Some d)" "add_unsigned p a (PB c) = (Inr (), x)"
      "u = IncreaseStakerRewardsUndo p a (invert (new_delta (Some d) (Some d')))"
      "c' = with_pos c (put_delta p (Some d) (Some d') (PD c)) (DD c) x (DB c) (SH c)"
    using assms(1) by (auto simp: increase_staker_rewards_Ok)
  have "sub_unsigned p a x = (Inr (), PB c)"
    by (rule sub_after_add [OF pos_delta_okD(3) [OF ok] c(2)])
  then have "pos_undo u c' = (Inr (), with_pos c (put_delta p (Some d') (Some d)
      (put_delta p (Some d) (Some d') (PD c))) (DD c) (PB c) (DB c) (SH c))"
    by (simp add: c(3) op_simps undo_merge_pool_read c(4) pos_balance_ops)
  with same_pos_put(1) [OF c(1)] show ?thesis by blast
qed

lemma pos_undo_delegate:
  assumes "delegate_staking i a c = (Inr u, c')" and ok: "pos_delta_ok c"
  shows "pos_undo u c' = (Inr (), c)"
proof -
  obtain d x y z where c: "get_delegation_data c i = Inr (Some d)" "add_unsigned i a (DB c) = (Inr (), x)"
      "add_unsigned (source_pool d) a (PB c) = (Inr (), y)"
      "add_unsigned (source_pool d, i) a (SH c) = (Inr (), z)" "u = DelegateStakingUndo i a"
      "c' = with_pos c (PD c) (DD c) y x z"
    using assms(1) by (auto simp: delegate_staking_Ok)
  have "sub_unsigned i a x = (Inr (), DB c)" "sub_unsigned (source_pool d) a y = (Inr (), PB c)"
      "sub_unsigned (source_pool d, i) a z = (Inr (), SH c)"
    using c(2-4) pos_delta_okD(3-5) [OF ok] by (auto intro: sub_after_add)
  with c(1) show ?thesis by (simp add: c(5,6) op_simps result_simps Let_def pos_balance_ops)
qed

lemma pos_undo_spend:
  assumes "spend_share_from_delegation_id i a c = (Inr u, c')" and ok: "pos_delta_ok c"
  shows "pos_undo u c' = (Inr (), c)"
proof -
  from spend_share_pre [OF assms(1)] obtain d e where
    d: "get_delegation_data c i = Inr (Some d)" "get_pool_data c (source_pool d) = Inr e" by blast
  obtain x y z where c: "sub_unsigned (source_pool d, i) a (SH c) = (Inr (), x)"
      "if e = None then y = PB c else sub_unsigned (source_pool d) a (PB c) = (Inr (), y)"
      "sub_unsigned i a (DB c) = (Inr (), z)" "u = SpendFromShareUndo i a" "c' = with_pos c (PD c) (DD c) y z x"
    using assms(1) d spend_share_decommissioned [OF d(1)] spend_share_existing [OF d(1)] by (cases e) auto
  have "add_unsigned (source_pool d, i) a x = (Inr (), SH c)" "add_unsigned i a z = (Inr (), DB c)"
      "e \<noteq> None \<Longrightarrow> add_unsigned (source_pool d) a y = (Inr (), PB c)"
    using c(1-3) pos_delta_okD(3-5) [OF ok] by (auto intro: add_after_sub)
  moreover have "pool_exists (with_pos c (PD c) dd pb db sh) (source_pool d) = Inr (e \<noteq> None)" for dd pb db sh
    using d(2) by (simp add: pool_exists_Ok)
  ultimately show ?thesis
    using d(1) c(2) by (cases e) (auto simp: c(4,5) op_simps result_simps Let_def pos_balance_ops)
qed

lemma pos_undo_restores_aux:
  assumes "pos_exec call c = (Inr u, c')" and ok: "pos_delta_ok c"
  shows "\<exists>c2. pos_undo u c' = (Inr (), c2) \<and> same_pos c c2"
proof (cases call)
  case (CallCreateDelegationId p i k)
  with assms(1) show ?thesis
    using same_pos_put(2) [of c i None]
    by (auto simp: create_delegation_id_Ok Let_def op_simps result_simps undo_merge_delegation_read)
next
  case (CallDeleteDelegationId i)
  with assms(1) show ?thesis
    using same_pos_put(2) [of c i]
    by (auto simp: delete_delegation_id_Ok op_simps result_simps undo_merge_delegation_read)
next
  case (CallDelegateStaking i a)
  with assms pos_undo_delegate [of i a c u c'] show ?thesis by (simp add: same_pos_def)
next
  case (CallSpendShare i a)
  with assms pos_undo_spend [of i a c u c'] show ?thesis by (simp add: same_pos_def)
qed (use assms pos_undo_create_pool pos_undo_decommission_pool pos_undo_increase_rewards in auto)

section \<open>Conservation of stake\<close>

text \<open>
  The balance of a pool is its pledge, its rewards and the shares of its delegations; the balance of a
  delegation is its share in its pool and it has no share in any other, and a delegation that does not
  exist has neither. Stake that is delegated after a pool was decommissioned is added to the balance of the
  pool that is gone, and stays there when the share is spent; where \<open>strict\<close> is set there is no such stake.
\<close>

definition pos_sound ::
    "bool \<Rightarrow> (pool_id \<Rightarrow> pool_data option) \<Rightarrow> (delegation_id \<Rightarrow> delegation_data option) \<Rightarrow> (pool_id \<Rightarrow> int) \<Rightarrow>
     (delegation_id \<Rightarrow> int) \<Rightarrow> (pool_id \<times> delegation_id \<Rightarrow> int) \<Rightarrow> bool" where
  "pos_sound strict pd dd pb db sh \<longleftrightarrow>
     (\<forall>p d. pd p = Some d \<longrightarrow>
       pb p = uint (pledge_amount d) + uint (staker_rewards d) + (\<Sum>i\<in>UNIV. sh (p, i))) \<and>
     (strict \<longrightarrow> (\<forall>p. pd p = None \<longrightarrow> pb p = 0)) \<and>
     (\<forall>i. case dd i of
         None \<Rightarrow> db i = 0 \<and> (\<forall>p. sh (p, i) = 0)
       | Some d \<Rightarrow> db i = sh (source_pool d, i) \<and> (\<forall>p. p \<noteq> source_pool d \<longrightarrow> sh (p, i) = 0))"

lemma pos_sound_pool:
  "pos_sound strict pd dd pb db sh \<Longrightarrow> pd p = Some d \<Longrightarrow>
     pb p = uint (pledge_amount d) + uint (staker_rewards d) + (\<Sum>i\<in>UNIV. sh (p, i))"
  by (simp add: pos_sound_def)

lemma pos_sound_delegation:
  "pos_sound strict pd dd pb db sh \<Longrightarrow> case dd i of
     None \<Rightarrow> db i = 0 \<and> (\<forall>p. sh (p, i) = 0)
   | Some d \<Rightarrow> db i = sh (source_pool d, i) \<and> (\<forall>p. p \<noteq> source_pool d \<longrightarrow> sh (p, i) = 0)"
  by (simp add: pos_sound_def)

lemma sum_share_upd:
  "(\<Sum>i\<in>UNIV. (sh((p, j) := sh (p, j) + a)) (q, i)) = (\<Sum>i\<in>UNIV. sh (q, i)) + (if q = p then a else 0)"
  for sh :: "pool_id \<times> delegation_id \<Rightarrow> int"
proof -
  have "(sh((p, j) := sh (p, j) + a)) (q, i) = sh (q, i) + (if i = j then if q = p then a else 0 else 0)" for i
    by auto
  then show ?thesis by (simp add: sum.distrib)
qed

lemma pos_sound_create_pool:
  assumes "pos_sound strict pd dd pb db sh" and "pb p = 0" and "staker_rewards d = 0"
    and "\<And>i e. dd i = Some e \<Longrightarrow> source_pool e \<noteq> p"
  shows "pos_sound strict (pd(p := Some d)) dd (pb(p := pb p + uint (pledge_amount d))) db sh"
proof -
  have "sh (p, i) = 0" for i
    using pos_sound_delegation [OF assms(1), of i] assms(4) [of i] by (auto split: option.splits)
  then show ?thesis using assms by (auto simp: pos_sound_def)
qed

lemma pos_sound_decommission:
  "pos_sound strict pd dd pb db sh \<Longrightarrow> pos_sound strict (pd(p := None)) dd (pb(p := 0)) db sh"
  by (auto simp: pos_sound_def)

lemma pos_sound_increase:
  "pos_sound strict pd dd pb db sh \<Longrightarrow> pd p = Some d \<Longrightarrow> uint r = uint (staker_rewards d) + a \<Longrightarrow>
     pos_sound strict (pd(p := Some (d\<lparr>staker_rewards := r\<rparr>))) dd (pb(p := pb p + a)) db sh"
  using pos_sound_pool [of strict pd dd pb db sh p d] by (auto simp: pos_sound_def)

lemma pos_sound_create_delegation:
  "pos_sound strict pd dd pb db sh \<Longrightarrow> dd i = None \<Longrightarrow> pos_sound strict pd (dd(i := Some d)) pb db sh"
  using pos_sound_delegation [of strict pd dd pb db sh i] by (auto simp: pos_sound_def)

lemma pos_sound_delete_delegation:
  assumes "pos_sound strict pd dd pb db sh" and "dd i = Some d" and "db i = 0"
  shows "pos_sound strict pd (dd(i := None)) pb db sh"
  using assms pos_sound_delegation [OF assms(1), of i] unfolding pos_sound_def by (simp, metis)

text \<open>
  Moving \<open>a\<close> (positive or negative) to a delegation: the balance of its pool moves along, or, if the pool
  does not exist, changes in any way.
\<close>

lemma pos_sound_delegate:
  assumes "pos_sound strict pd dd pb db sh" and "dd i = Some d"
    and "\<And>p. pd p \<noteq> None \<or> strict \<Longrightarrow> pb' p = pb p + (if p = source_pool d \<and> pd p \<noteq> None then a else 0)"
  shows "pos_sound strict pd dd pb' (db(i := db i + a)) (sh((source_pool d, i) := sh (source_pool d, i) + a))"
proof -
  let ?sh = "sh((source_pool d, i) := sh (source_pool d, i) + a)"
  have "pb' p = uint (pledge_amount e) + uint (staker_rewards e) + (\<Sum>i\<in>UNIV. ?sh (p, i))" if "pd p = Some e" for p e
    using pos_sound_pool [OF assms(1) that] assms(3) [of p] that unfolding sum_share_upd by auto
  moreover have "pb' p = 0" if "strict" "pd p = None" for p
    using assms(1,3) that by (auto simp: pos_sound_def)
  moreover have "case dd j of
      None \<Rightarrow> (db(i := db i + a)) j = 0 \<and> (\<forall>p. ?sh (p, j) = 0)
    | Some d \<Rightarrow> (db(i := db i + a)) j = ?sh (source_pool d, j) \<and> (\<forall>p. p \<noteq> source_pool d \<longrightarrow> ?sh (p, j) = 0)" for j
    using pos_sound_delegation [OF assms(1), of j] assms(2) by (auto split: option.splits)
  ultimately show ?thesis unfolding pos_sound_def by blast
qed

text \<open>A consistent view answers every query, and the answers are sound.\<close>

definition pos_consistent :: "bool \<Rightarrow> 'e pos_view \<Rightarrow> bool" where
  "pos_consistent strict v \<longleftrightarrow> (\<exists>pd dd pb db sh.
     pv_pool_data v = (\<lambda>p. Inr (pd p)) \<and> pv_delegation_data v = (\<lambda>i. Inr (dd i)) \<and>
     pv_pool_balance v = (\<lambda>p. Inr (pb p)) \<and> pv_delegation_balance v = (\<lambda>i. Inr (db i)) \<and>
     pv_pool_delegation_share v = (\<lambda>p i. Inr (sh (p, i))) \<and>
     pos_sound strict pd dd (\<lambda>p. uint (pb p)) (\<lambda>i. uint (db i)) (\<lambda>k. uint (sh k)))"

definition pos_delta_sound :: "bool \<Rightarrow> 'e pos_delta \<Rightarrow> bool" where
  "pos_delta_sound strict c \<longleftrightarrow> (\<exists>pd dd. get_pool_data c = (\<lambda>p. Inr (pd p)) \<and> get_delegation_data c = (\<lambda>i. Inr (dd i)) \<and>
     pos_sound strict pd dd (total_at (parent_pool_balance c) (PB c)) (total_at (parent_delegation_balance c) (DB c))
       (total_at (parent_share c) (SH c)))"

text \<open>
  A condition on the creation of pools, which \<open>create_pool\<close> does not check: the pool has no rewards yet and no
  delegation names its id. Ids of pools are hashes of an output that the creating transaction spends, and
  new pools are made from an output without rewards. Every other call is free, but where \<open>strict\<close> is set, stake
  is delegated to existing pools only.
\<close>

fun pos_call_allowed :: "bool \<Rightarrow> 'e pos_delta \<Rightarrow> pos_call \<Rightarrow> bool" where
  "pos_call_allowed strict c (CallCreatePool p d) \<longleftrightarrow> staker_rewards d = 0 \<and>
     (\<forall>i e. get_delegation_data c i = Inr (Some e) \<longrightarrow> source_pool e \<noteq> p)"
| "pos_call_allowed strict c (CallDelegateStaking i a) \<longleftrightarrow>
     (\<forall>d. strict \<longrightarrow> get_delegation_data c i = Inr (Some d) \<longrightarrow> pool_exists c (source_pool d) = Inr True)"
| "pos_call_allowed strict c _ \<longleftrightarrow> True"

lemma pos_delta_soundI:
  assumes "c' = with_pos c pd dd pb db sh"
    and "cached_data (parent_pool_data c) pd = (\<lambda>p. Inr (pd' p))"
    and "cached_data (parent_delegation_data c) dd = (\<lambda>i. Inr (dd' i))"
    and "pos_sound strict pd' dd' (total_at (parent_pool_balance c) pb) (total_at (parent_delegation_balance c) db)
      (total_at (parent_share c) sh)"
  shows "pos_delta_sound strict c'"
  unfolding pos_delta_sound_def using assms by auto

lemma pool_balance_total: "get_pool_balance c p = Inr a \<Longrightarrow> total_at (parent_pool_balance c) (PB c) p = uint a"
  using cached_balance_total [of PosAccountingError "parent_pool_balance c" "PB c" p a] by simp

lemma delegation_balance_total:
  "get_delegation_balance c i = Inr a \<Longrightarrow> total_at (parent_delegation_balance c) (DB c) i = uint a"
  using cached_balance_total [of PosAccountingError "parent_delegation_balance c" "DB c" i a] by simp

lemma pos_delta_soundE:
  assumes "pos_delta_sound strict c"
  obtains pd dd where "get_pool_data c = (\<lambda>p. Inr (pd p))" "get_delegation_data c = (\<lambda>i. Inr (dd i))"
    "pos_sound strict pd dd (total_at (parent_pool_balance c) (PB c)) (total_at (parent_delegation_balance c) (DB c))
       (total_at (parent_share c) (SH c))"
  using assms by (auto simp: pos_delta_sound_def)

lemma create_pool_sound:
  assumes "create_pool p d c = (Inr u, c')" and "pos_delta_sound strict c" and "pos_call_allowed strict c (CallCreatePool p d)"
  shows "pos_delta_sound strict c'"
proof -
  from assms(2) obtain pd dd where r: "get_pool_data c = (\<lambda>p. Inr (pd p))" "get_delegation_data c = (\<lambda>i. Inr (dd i))" and
    s: "pos_sound strict pd dd (total_at (parent_pool_balance c) (PB c)) (total_at (parent_delegation_balance c) (DB c))
       (total_at (parent_share c) (SH c))"
    by (rule pos_delta_soundE)
  obtain x where x: "get_pool_balance c p = Inr 0" "add_unsigned p (pledge_amount d) (PB c) = (Inr (), x)"
      "c' = with_pos c (put_delta p None (Some d) (PD c)) (DD c) x (DB c) (SH c)"
    using assms(1) by (auto simp: create_pool_Ok r)
  show ?thesis
    by (rule pos_delta_soundI [OF x(3), of "pd(p := Some d)" dd])
      (use pos_sound_create_pool [OF s, of p d] pool_balance_total [OF x(1)] assms(3) in \<open>auto simp: total_at_add [OF x(2)] r fun_eq_iff\<close>)
qed

lemma decommission_pool_sound:
  assumes "decommission_pool p c = (Inr u, c')" and "pos_delta_sound strict c"
  shows "pos_delta_sound strict c'"
proof -
  from assms(2) obtain pd dd where r: "get_pool_data c = (\<lambda>p. Inr (pd p))" "get_delegation_data c = (\<lambda>i. Inr (dd i))" and
    s: "pos_sound strict pd dd (total_at (parent_pool_balance c) (PB c)) (total_at (parent_delegation_balance c) (DB c))
       (total_at (parent_share c) (SH c))"
    by (rule pos_delta_soundE)
  obtain d a x where x: "get_pool_balance c p = Inr a" "sub_unsigned p a (PB c) = (Inr (), x)"
      "c' = with_pos c (put_delta p (Some d) None (PD c)) (DD c) x (DB c) (SH c)"
    using assms(1) by (auto simp: decommission_pool_Ok)
  show ?thesis
    by (rule pos_delta_soundI [OF x(3), of "pd(p := None)" dd])
      (use pos_sound_decommission [OF s, of p] pool_balance_total [OF x(1)]
        in \<open>auto simp: total_at_sub [OF x(2)] r fun_eq_iff\<close>)
qed

lemma increase_staker_rewards_sound:
  assumes "increase_staker_rewards p a c = (Inr u, c')" and "pos_delta_sound strict c"
  shows "pos_delta_sound strict c'"
proof -
  from assms(2) obtain pd dd where r: "get_pool_data c = (\<lambda>p. Inr (pd p))" "get_delegation_data c = (\<lambda>i. Inr (dd i))" and
    s: "pos_sound strict pd dd (total_at (parent_pool_balance c) (PB c)) (total_at (parent_delegation_balance c) (DB c))
       (total_at (parent_share c) (SH c))"
    by (rule pos_delta_soundE)
  obtain d d' x where x: "pd p = Some d" "add_unsigned p a (PB c) = (Inr (), x)"
      "pool_data_increase_rewards d a = Inr d'"
      "c' = with_pos c (put_delta p (Some d) (Some d') (PD c)) (DD c) x (DB c) (SH c)"
    using assms(1) by (auto simp: increase_staker_rewards_Ok r)
  show ?thesis
    by (rule pos_delta_soundI [OF x(4), of "pd(p := Some d')" dd])
      (use pos_sound_increase [OF s x(1)] x(3)
        in \<open>auto simp: total_at_add [OF x(2)] r fun_eq_iff pool_data_increase_rewards_Ok\<close>)
qed

lemma create_delegation_id_sound:
  assumes "create_delegation_id p i k c = (Inr u, c')" and "pos_delta_sound strict c"
  shows "pos_delta_sound strict c'"
proof -
  from assms(2) obtain pd dd where r: "get_pool_data c = (\<lambda>p. Inr (pd p))" "get_delegation_data c = (\<lambda>i. Inr (dd i))" and
    s: "pos_sound strict pd dd (total_at (parent_pool_balance c) (PB c)) (total_at (parent_delegation_balance c) (DB c))
       (total_at (parent_share c) (SH c))"
    by (rule pos_delta_soundE)
  obtain d where x: "dd i = None"
      "c' = with_pos c (PD c) (put_delta i None (Some d) (DD c)) (PB c) (DB c) (SH c)"
    using assms(1) by (auto simp: create_delegation_id_Ok r Let_def)
  show ?thesis
    by (rule pos_delta_soundI [OF x(2), of pd "dd(i := Some d)"])
      (use pos_sound_create_delegation [OF s x(1), of d] in \<open>auto simp: r fun_eq_iff\<close>)
qed

lemma delete_delegation_id_sound:
  assumes "delete_delegation_id i c = (Inr u, c')" and "pos_delta_sound strict c"
  shows "pos_delta_sound strict c'"
proof -
  from assms(2) obtain pd dd where r: "get_pool_data c = (\<lambda>p. Inr (pd p))" "get_delegation_data c = (\<lambda>i. Inr (dd i))" and
    s: "pos_sound strict pd dd (total_at (parent_pool_balance c) (PB c)) (total_at (parent_delegation_balance c) (DB c))
       (total_at (parent_share c) (SH c))"
    by (rule pos_delta_soundE)
  obtain d where x: "dd i = Some d" "get_delegation_balance c i = Inr 0"
      "c' = with_pos c (PD c) (put_delta i (Some d) None (DD c)) (PB c) (DB c) (SH c)"
    using assms(1) by (auto simp: delete_delegation_id_Ok r)
  show ?thesis
    by (rule pos_delta_soundI [OF x(3), of pd "dd(i := None)"])
      (use pos_sound_delete_delegation [OF s x(1)] delegation_balance_total [OF x(2)] in \<open>auto simp: r fun_eq_iff\<close>)
qed

lemma delegate_staking_sound:
  assumes "delegate_staking i a c = (Inr u, c')" and "pos_delta_sound strict c"
    and "pos_call_allowed strict c (CallDelegateStaking i a)"
  shows "pos_delta_sound strict c'"
proof -
  from assms(2) obtain pd dd where r: "get_pool_data c = (\<lambda>p. Inr (pd p))" "get_delegation_data c = (\<lambda>i. Inr (dd i))" and
    s: "pos_sound strict pd dd (total_at (parent_pool_balance c) (PB c)) (total_at (parent_delegation_balance c) (DB c))
       (total_at (parent_share c) (SH c))"
    by (rule pos_delta_soundE)
  obtain d x y z where x: "dd i = Some d" "add_unsigned i a (DB c) = (Inr (), x)"
      "add_unsigned (source_pool d) a (PB c) = (Inr (), y)"
      "add_unsigned (source_pool d, i) a (SH c) = (Inr (), z)" "c' = with_pos c (PD c) (DD c) y x z"
    using assms(1) by (auto simp: delegate_staking_Ok r)
  have "strict \<longrightarrow> pd (source_pool d) \<noteq> None" using assms(3) x(1) by (auto simp: r pool_exists_Ok)
  with pos_sound_delegate [OF s x(1), of "total_at (parent_pool_balance c) y" "uint a"] show ?thesis
    by (intro pos_delta_soundI [OF x(5), of pd dd])
      (auto simp: r total_at_add [OF x(2)] total_at_add [OF x(3)] total_at_add [OF x(4)])
qed

lemma spend_share_sound:
  assumes "spend_share_from_delegation_id i a c = (Inr u, c')" and "pos_delta_sound strict c"
  shows "pos_delta_sound strict c'"
proof -
  from assms(2) obtain pd dd where r: "get_pool_data c = (\<lambda>p. Inr (pd p))" "get_delegation_data c = (\<lambda>i. Inr (dd i))" and
    s: "pos_sound strict pd dd (total_at (parent_pool_balance c) (PB c)) (total_at (parent_delegation_balance c) (DB c))
       (total_at (parent_share c) (SH c))"
    by (rule pos_delta_soundE)
  from spend_share_pre [OF assms(1)] obtain d where d: "dd i = Some d" by (auto simp: r)
  then have d': "get_delegation_data c i = Inr (Some d)" by (simp add: r)
  show ?thesis
  proof (cases "pd (source_pool d)")
    case None
    with assms(1) spend_share_decommissioned [OF d'] obtain x z where
      x: "sub_unsigned (source_pool d, i) a (SH c) = (Inr (), x)" "sub_unsigned i a (DB c) = (Inr (), z)"
        "c' = with_pos c (PD c) (DD c) (PB c) z x" by (auto simp: r)
    from pos_sound_delegate [OF s d, of "total_at (parent_pool_balance c) (PB c)" "- uint a"] None
    have "pos_sound strict pd dd (total_at (parent_pool_balance c) (PB c)) (total_at (parent_delegation_balance c) z)
        (total_at (parent_share c) x)" by (force simp: total_at_sub [OF x(1)] total_at_sub [OF x(2)])
    then show ?thesis by (intro pos_delta_soundI [OF x(3), of pd dd]) (auto simp: r)
  next
    case (Some e)
    with assms(1) spend_share_existing [OF d'] obtain x y z where
      x: "sub_unsigned (source_pool d, i) a (SH c) = (Inr (), x)" "sub_unsigned (source_pool d) a (PB c) = (Inr (), y)"
        "sub_unsigned i a (DB c) = (Inr (), z)" "c' = with_pos c (PD c) (DD c) y z x" by (auto simp: r)
    show ?thesis
      using pos_sound_delegate [OF s d, of "total_at (parent_pool_balance c) y" "- uint a"] Some
      by (intro pos_delta_soundI [OF x(4), of pd dd])
        (auto simp: r total_at_sub [OF x(1)] total_at_sub [OF x(2)] total_at_sub [OF x(3)])
  qed
qed

lemmas pos_op_sound = create_pool_sound decommission_pool_sound increase_staker_rewards_sound
  create_delegation_id_sound delete_delegation_id_sound delegate_staking_sound spend_share_sound

lemma pos_exec_sound:
  "pos_exec call c = (Inr u, c') \<Longrightarrow> pos_delta_sound strict c \<Longrightarrow> pos_call_allowed strict c call \<Longrightarrow> pos_delta_sound strict c'"
  by (cases call) (auto dest: pos_op_sound simp del: pos_call_allowed.simps)

lemma pos_delta_sound_new:
  assumes "pos_consistent strict p"
  shows "pos_delta_sound strict (pos_delta_new p)"
  using assms
  by (auto simp: pos_consistent_def pos_delta_sound_def pos_cached pos_delta_new_def pos_delta_data_new_def
      map_err_def total_at_def [abs_def] delta_at_def simp del: pos_folds) blast

lemma all_ok_fun: "\<forall>k. is_ok (f k) \<Longrightarrow> \<exists>g. f = (\<lambda>k. Inr (g k))"
  by (rule exI [of _ "\<lambda>k. projr (f k)"]) (metis is_ok_iff sum.sel(2))

definition pos_readable :: "'e pos_delta \<Rightarrow> bool" where
  "pos_readable c \<longleftrightarrow> (\<forall>p. is_ok (get_pool_balance c p)) \<and> (\<forall>i. is_ok (get_delegation_balance c i)) \<and>
     (\<forall>p i. is_ok (get_pool_delegation_share c p i))"

lemma pos_delta_sound_consistent:
  assumes "pos_delta_sound strict c" and "pos_readable c"
  shows "pos_consistent strict (pos_delta_view c)"
proof -
  have "\<forall>k. is_ok (get_share c k)" using assms(2) by (simp add: pos_readable_def get_share_def)
  then obtain pb db sh where b: "get_pool_balance c = (\<lambda>p. Inr (pb p))" "get_delegation_balance c = (\<lambda>i. Inr (db i))"
      "get_share c = (\<lambda>k. Inr (sh k))" using assms(2) all_ok_fun unfolding pos_readable_def by metis
  have "total_at (parent_pool_balance c) (PB c) = (\<lambda>p. uint (pb p))"
      "total_at (parent_delegation_balance c) (DB c) = (\<lambda>i. uint (db i))"
      "total_at (parent_share c) (SH c) = (\<lambda>k. uint (sh k))"
    using b pool_balance_total [of c] delegation_balance_total [of c]
      cached_balance_total [of PosAccountingError "parent_share c" "SH c"] by (auto simp: fun_eq_iff)
  moreover have "get_pool_delegation_share c = (\<lambda>p i. Inr (sh (p, i)))"
    using b(3) by (simp add: fun_eq_iff get_share_def)
  ultimately show ?thesis
    using assms(1) b unfolding pos_consistent_def pos_delta_sound_def pos_delta_view_def by auto blast
qed

section \<open>Flushing a delta to the database\<close>

text \<open>What the five columns of the database read, with the errors of a delta over it.\<close>

definition pos_reads :: "('s, 'e) pos_storage \<Rightarrow> 's \<Rightarrow>
    (pool_id \<Rightarrow> pos_error + pool_data option) \<times> (delegation_id \<Rightarrow> pos_error + delegation_data option) \<times>
    (pool_id \<Rightarrow> pos_error + amount) \<times> (delegation_id \<Rightarrow> pos_error + amount) \<times>
    (pool_id \<times> delegation_id \<Rightarrow> pos_error + amount)" where
  "pos_reads S s =
     (\<lambda>p. map_err (\<lambda>_. PosViewFail) (col_get (st_pool_data S) s p),
      \<lambda>i. map_err (\<lambda>_. PosViewFail) (col_get (st_delegation_data S) s i),
      \<lambda>p. map_err (\<lambda>_. PosViewFail) (col_balance (st_pool_balances S) s p),
      \<lambda>i. map_err (\<lambda>_. PosViewFail) (col_balance (st_delegation_balances S) s i),
      \<lambda>k. map_err (\<lambda>_. PosViewFail) (col_balance (st_pool_delegation_shares S) s k))"

lemma pos_reads_iff:
  "pos_reads S s = (f, g, x, y, z) \<longleftrightarrow>
     (\<lambda>p. map_err (\<lambda>_. PosViewFail) (col_get (st_pool_data S) s p)) = f \<and>
     (\<lambda>i. map_err (\<lambda>_. PosViewFail) (col_get (st_delegation_data S) s i)) = g \<and>
     (\<lambda>p. map_err (\<lambda>_. PosViewFail) (col_balance (st_pool_balances S) s p)) = x \<and>
     (\<lambda>i. map_err (\<lambda>_. PosViewFail) (col_balance (st_delegation_balances S) s i)) = y \<and>
     (\<lambda>k. map_err (\<lambda>_. PosViewFail) (col_balance (st_pool_delegation_shares S) s k)) = z"
  by (auto simp: pos_reads_def)

lemma pos_reads_parent:
  "pos_parent c = pos_db_view S s \<Longrightarrow> pos_reads S s =
     (parent_pool_data c, parent_delegation_data c, parent_pool_balance c, parent_delegation_balance c, parent_share c)"
  by (simp add: pos_reads_def pos_db_view_def)

lemma same_pos_db_view:
  "same_pos c (pos_delta_new (pos_db_view S s)) \<longleftrightarrow>
     pos_reads S s = (get_pool_data c, get_delegation_data c, get_pool_balance c, get_delegation_balance c, get_share c)"
  by (auto simp: same_pos_def pos_cached pos_reads_def pos_delta_new_def pos_delta_data_new_def pos_db_view_def
      simp del: pos_folds)

text \<open>The undo data that merging a delta into the database returns.\<close>

definition pos_merge_undo_of :: "pos_delta_data \<Rightarrow> delta_merge_undo" where
  "pos_merge_undo_of d =
     \<lparr>mu_pool_data = fmmap invert (pd_pool_data d), mu_delegation_data = fmmap invert (pd_delegation_data d),
      mu_pool_balances = fmmap (\<lambda>v. the (signed_neg v)) (pd_pool_balances d),
      mu_pool_delegation_shares = fmmap (\<lambda>v. the (signed_neg v)) (pd_pool_delegation_shares d),
      mu_delegation_balances = fmmap (\<lambda>v. the (signed_neg v)) (pd_delegation_balances d)\<rparr>"

lemma map_err_cached_data:
  "(\<lambda>k. map_err g (cached_data p m k)) = cached_data (\<lambda>k. map_err g (p k)) m"
  by (auto simp: cached_data_def map_err_def split: option.splits)

lemma data_coherent_map_err: "data_coherent (\<lambda>k. map_err g (p k)) m \<longleftrightarrow> data_coherent p m"
  by (simp add: data_coherent_def map_err_eq)

lemma cached_balance_neg:
  assumes "\<And>k. \<exists>a. cached_balance acc p d k = Inr a"
  shows "cached_balance acc (cached_balance acc p d) (fmmap (\<lambda>v. the (signed_neg v)) d) = p"
proof
  fix k
  obtain a b where ab: "cached_balance acc p d k = Inr a" "p k = Inr b" "bal_reads b d k a"
    using assms [of k] by (auto simp: cached_balance_Ok)
  show "cached_balance acc (cached_balance acc p d) (fmmap (\<lambda>v. the (signed_neg v)) d) k = p k"
  proof (cases "fmlookup d k")
    case None
    with ab show ?thesis by (simp add: cached_balance_def and_then_def map_err_def)
  next
    case (Some v)
    with ab(3) have v: "in_i128 (uint b)" "in_i128 (uint a)" "uint a = uint b + sval v"
      by (auto simp: bal_reads_iff delta_at_def)
    then have "in_i128 (- sval v)" using in_i128_diff [OF v(1,2)] by simp
    then obtain n where "sval n = - sval v" using sval_ex by blast
    then have "signed_neg v = Some n" "sval n = - sval v" by (simp_all add: checked_simps)
    with v have "combine_amount_delta a (Some n) = Inr b" by (simp add: combine_amount_delta_Ok)
    with ab Some \<open>signed_neg v = Some n\<close> show ?thesis
      by (simp add: cached_balance_def [of acc "cached_balance acc p d"] and_then_def map_err_def)
  qed
qed

locale pos_store =
  pool_data: reliable_column "st_pool_data S" +
  delegation_data: reliable_column "st_delegation_data S" +
  pool_balances: reliable_balance_column "st_pool_balances S" +
  delegation_balances: reliable_balance_column "st_delegation_balances S" +
  shares: reliable_balance_column "st_pool_delegation_shares S"
  for S :: "('s, 'e) pos_storage" +
  assumes pool_data_frames:
    "column_frame (st_pool_data S) (st_delegation_data S)"
    "column_frame (st_pool_data S) (st_pool_balances S)"
    "column_frame (st_pool_data S) (st_delegation_balances S)"
    "column_frame (st_pool_data S) (st_pool_delegation_shares S)"
    and delegation_data_frames:
    "column_frame (st_delegation_data S) (st_pool_data S)"
    "column_frame (st_delegation_data S) (st_pool_balances S)"
    "column_frame (st_delegation_data S) (st_delegation_balances S)"
    "column_frame (st_delegation_data S) (st_pool_delegation_shares S)"
    and pool_balances_frames:
    "balance_frame (st_pool_balances S) (st_pool_data S)"
    "balance_frame (st_pool_balances S) (st_delegation_data S)"
    "balance_frame (st_pool_balances S) (st_delegation_balances S)"
    "balance_frame (st_pool_balances S) (st_pool_delegation_shares S)"
    and delegation_balances_frames:
    "balance_frame (st_delegation_balances S) (st_pool_data S)"
    "balance_frame (st_delegation_balances S) (st_delegation_data S)"
    "balance_frame (st_delegation_balances S) (st_pool_balances S)"
    "balance_frame (st_delegation_balances S) (st_pool_delegation_shares S)"
    and shares_frames:
    "balance_frame (st_pool_delegation_shares S) (st_pool_data S)"
    "balance_frame (st_pool_delegation_shares S) (st_delegation_data S)"
    "balance_frame (st_pool_delegation_shares S) (st_pool_balances S)"
    "balance_frame (st_pool_delegation_shares S) (st_delegation_balances S)"
begin

lemma flush_pool_data:
  assumes "pos_reads S s = (f, g, x, y, z)" and "data_coherent f d"
  shows "\<exists>t. merge_data_generic ve we acc (st_pool_data S) d s = (Inr (fmmap invert d), t) \<and>
    pos_reads S t = (cached_data f d, g, x, y, z)"
proof -
  have f: "f = (\<lambda>p. map_err (\<lambda>_. PosViewFail) (col_get (st_pool_data S) s p))"
    using assms(1) by (auto simp: pos_reads_iff)
  from pool_data.flush_data [OF assms(2) [unfolded f data_coherent_map_err], of ve we acc] obtain t where t:
    "merge_data_generic ve we acc (st_pool_data S) d s = (Inr (fmmap invert d), t)"
    "col_get (st_pool_data S) t = cached_data (col_get (st_pool_data S) s) d" by blast
  note frames = pool_data_frames [THEN column_frame.merge_data_generic_frame, OF t(1)]
  have "pos_reads S t = (cached_data f d, g, x, y, z)"
    using assms(1) unfolding pos_reads_iff f map_err_cached_data [symmetric]
    by (simp add: frames t(2) col_balance_def)
  with t(1) show ?thesis by blast
qed

lemma flush_delegation_data:
  assumes "pos_reads S s = (f, g, x, y, z)" and "data_coherent g d"
  shows "\<exists>t. merge_data_generic ve we acc (st_delegation_data S) d s = (Inr (fmmap invert d), t) \<and>
    pos_reads S t = (f, cached_data g d, x, y, z)"
proof -
  have g: "g = (\<lambda>p. map_err (\<lambda>_. PosViewFail) (col_get (st_delegation_data S) s p))"
    using assms(1) by (auto simp: pos_reads_iff)
  from delegation_data.flush_data [OF assms(2) [unfolded g data_coherent_map_err], of ve we acc] obtain t where t:
    "merge_data_generic ve we acc (st_delegation_data S) d s = (Inr (fmmap invert d), t)"
    "col_get (st_delegation_data S) t = cached_data (col_get (st_delegation_data S) s) d" by blast
  note frames = delegation_data_frames [THEN column_frame.merge_data_generic_frame, OF t(1)]
  have "pos_reads S t = (f, cached_data g d, x, y, z)"
    using assms(1) unfolding pos_reads_iff g map_err_cached_data [symmetric]
    by (simp add: frames t(2) col_balance_def)
  with t(1) show ?thesis by blast
qed

lemma flush_pool_balances:
  assumes "pos_reads S s = (f, g, x, y, z)" and "\<And>k. \<exists>a. cached_balance acc' x d k = Inr a"
  shows "\<exists>t. merge_balances_generic ve we acc (st_pool_balances S) d s =
      (Inr (fmmap (\<lambda>v. the (signed_neg v)) d), t) \<and> pos_reads S t = (f, g, cached_balance acc' x d, y, z)"
proof -
  have x: "x = (\<lambda>p. map_err (\<lambda>_. PosViewFail) (col_balance (st_pool_balances S) s p))"
    using assms(1) by (auto simp: pos_reads_iff)
  from pool_balances.flush_balances [OF assms(2) [unfolded x], of ve we acc] obtain t where t:
    "merge_balances_generic ve we acc (st_pool_balances S) d s = (Inr (fmmap (\<lambda>v. the (signed_neg v)) d), t)"
    "\<And>k. map_err (\<lambda>_. PosViewFail) (col_balance (st_pool_balances S) t k) = cached_balance acc' x d k"
    unfolding x by blast
  note frames = pool_balances_frames [THEN balance_frame.merge_balances_generic_frame, OF t(1)]
  have "pos_reads S t = (f, g, cached_balance acc' x d, y, z)"
    using assms(1) unfolding pos_reads_iff t(2) by (simp add: frames col_balance_def)
  with t(1) show ?thesis by blast
qed

lemma flush_delegation_balances:
  assumes "pos_reads S s = (f, g, x, y, z)" and "\<And>k. \<exists>a. cached_balance acc' y d k = Inr a"
  shows "\<exists>t. merge_balances_generic ve we acc (st_delegation_balances S) d s =
      (Inr (fmmap (\<lambda>v. the (signed_neg v)) d), t) \<and> pos_reads S t = (f, g, x, cached_balance acc' y d, z)"
proof -
  have y: "y = (\<lambda>p. map_err (\<lambda>_. PosViewFail) (col_balance (st_delegation_balances S) s p))"
    using assms(1) by (auto simp: pos_reads_iff)
  from delegation_balances.flush_balances [OF assms(2) [unfolded y], of ve we acc] obtain t where t:
    "merge_balances_generic ve we acc (st_delegation_balances S) d s = (Inr (fmmap (\<lambda>v. the (signed_neg v)) d), t)"
    "\<And>k. map_err (\<lambda>_. PosViewFail) (col_balance (st_delegation_balances S) t k) = cached_balance acc' y d k"
    unfolding y by blast
  note frames = delegation_balances_frames [THEN balance_frame.merge_balances_generic_frame, OF t(1)]
  have "pos_reads S t = (f, g, x, cached_balance acc' y d, z)"
    using assms(1) unfolding pos_reads_iff t(2) by (simp add: frames col_balance_def)
  with t(1) show ?thesis by blast
qed

lemma flush_shares:
  assumes "pos_reads S s = (f, g, x, y, z)" and "\<And>k. \<exists>a. cached_balance acc' z d k = Inr a"
  shows "\<exists>t. merge_balances_generic ve we acc (st_pool_delegation_shares S) d s =
      (Inr (fmmap (\<lambda>v. the (signed_neg v)) d), t) \<and> pos_reads S t = (f, g, x, y, cached_balance acc' z d)"
proof -
  have z: "z = (\<lambda>p. map_err (\<lambda>_. PosViewFail) (col_balance (st_pool_delegation_shares S) s p))"
    using assms(1) by (auto simp: pos_reads_iff)
  from shares.flush_balances [OF assms(2) [unfolded z], of ve we acc] obtain t where t:
    "merge_balances_generic ve we acc (st_pool_delegation_shares S) d s = (Inr (fmmap (\<lambda>v. the (signed_neg v)) d), t)"
    "\<And>k. map_err (\<lambda>_. PosViewFail) (col_balance (st_pool_delegation_shares S) t k) = cached_balance acc' z d k"
    unfolding z by blast
  note frames = shares_frames [THEN balance_frame.merge_balances_generic_frame, OF t(1)]
  have "pos_reads S t = (f, g, x, y, cached_balance acc' z d)"
    using assms(1) unfolding pos_reads_iff t(2) by (simp add: frames col_balance_def)
  with t(1) show ?thesis by blast
qed

lemma undo_flush_pool_data:
  assumes "pos_reads S s = (cached_data f d, g, x, y, z)" and "data_coherent f d" and "\<And>k. is_ok (f k)"
  shows "\<exists>t. undo_merge_data_generic ve we acc (st_pool_data S) (fmmap invert d) s = (Inr (), t) \<and>
    pos_reads S t = (f, g, x, y, z)"
proof -
  have f: "map_err (\<lambda>_. PosViewFail) (Inr (projr (f k))) = f k" for k
    using assms(3) [of k] by (auto simp: is_ok_iff map_err_def)
  have "map_err (\<lambda>_. PosViewFail) (col_get (st_pool_data S) s k) = cached_data f d k" for k
    using assms(1) by (simp add: pos_reads_iff fun_eq_iff)
  then have "col_get (st_pool_data S) s k = cached_data (\<lambda>k. Inr (projr (f k))) d k" for k
    using pool_data.get_ok [of s k] assms(3) [of k]
    by (auto simp: cached_data_def is_ok_iff map_err_def split: option.splits dest: meta_spec [of _ k])
  moreover have "data_coherent (\<lambda>k. Inr (projr (f k))) d"
    using assms(2) by (auto intro!: data_coherentI dest: data_coherentD)
  ultimately obtain t where t: "undo_merge_data_generic ve we acc (st_pool_data S) (fmmap invert d) s = (Inr (), t)"
      "col_get (st_pool_data S) t = (\<lambda>k. Inr (projr (f k)))"
    using pool_data.undo_flush_data [of _ d s ve we acc] by blast
  note frames = pool_data_frames [THEN column_frame.undo_merge_data_generic_frame, OF t(1)]
  have "pos_reads S t = (f, g, x, y, z)"
    using assms(1) unfolding pos_reads_iff t(2) f by (simp add: frames col_balance_def)
  with t(1) show ?thesis by blast
qed

lemma undo_flush_delegation_data:
  assumes "pos_reads S s = (f, cached_data g d, x, y, z)" and "data_coherent g d" and "\<And>k. is_ok (g k)"
  shows "\<exists>t. undo_merge_data_generic ve we acc (st_delegation_data S) (fmmap invert d) s = (Inr (), t) \<and>
    pos_reads S t = (f, g, x, y, z)"
proof -
  have g: "map_err (\<lambda>_. PosViewFail) (Inr (projr (g k))) = g k" for k
    using assms(3) [of k] by (auto simp: is_ok_iff map_err_def)
  have "map_err (\<lambda>_. PosViewFail) (col_get (st_delegation_data S) s k) = cached_data g d k" for k
    using assms(1) by (simp add: pos_reads_iff fun_eq_iff)
  then have "col_get (st_delegation_data S) s k = cached_data (\<lambda>k. Inr (projr (g k))) d k" for k
    using delegation_data.get_ok [of s k] assms(3) [of k]
    by (auto simp: cached_data_def is_ok_iff map_err_def split: option.splits dest: meta_spec [of _ k])
  moreover have "data_coherent (\<lambda>k. Inr (projr (g k))) d"
    using assms(2) by (auto intro!: data_coherentI dest: data_coherentD)
  ultimately obtain t where t:
      "undo_merge_data_generic ve we acc (st_delegation_data S) (fmmap invert d) s = (Inr (), t)"
      "col_get (st_delegation_data S) t = (\<lambda>k. Inr (projr (g k)))"
    using delegation_data.undo_flush_data [of _ d s ve we acc] by blast
  note frames = delegation_data_frames [THEN column_frame.undo_merge_data_generic_frame, OF t(1)]
  have "pos_reads S t = (f, g, x, y, z)"
    using assms(1) unfolding pos_reads_iff t(2) g by (simp add: frames col_balance_def)
  with t(1) show ?thesis by blast
qed

lemma flush_pos:
  assumes "pos_delta_ok c" and "pos_parent c = pos_db_view S s"
    and "\<And>p. is_ok (get_pool_balance c p)" and "\<And>i. is_ok (get_delegation_balance c i)"
    and "\<And>k. is_ok (get_share c k)"
  shows "\<exists>t. pos_db_merge_with_delta S (pos_data c) s = (Inr (pos_merge_undo_of (pos_data c)), t) \<and>
    same_pos c (pos_delta_new (pos_db_view S t))"
proof -
  note ok = assms(3-5) [unfolded is_ok_iff pos_cached]
  note merge = pos_db_merge_with_delta_def op_simps pos_merge_undo_of_def
  obtain t1 where t1: "merge_data_generic PosViewFail PosStorageWrite PosAccountingError (st_pool_data S) (PD c) s =
      (Inr (fmmap invert (PD c)), t1)" "pos_reads S t1 = (get_pool_data c, parent_delegation_data c,
        parent_pool_balance c, parent_delegation_balance c, parent_share c)"
    using flush_pool_data [where ve = PosViewFail and we = PosStorageWrite and acc = PosAccountingError, OF pos_reads_parent [OF assms(2)] pos_delta_okD(1) [OF assms(1)]]
    unfolding pos_cached(1) by blast
  obtain t2 where t2: "merge_data_generic PosViewFail PosStorageWrite PosAccountingError (st_delegation_data S) (DD c) t1 =
      (Inr (fmmap invert (DD c)), t2)" "pos_reads S t2 = (get_pool_data c, get_delegation_data c,
        parent_pool_balance c, parent_delegation_balance c, parent_share c)"
    using flush_delegation_data [where ve = PosViewFail and we = PosStorageWrite and acc = PosAccountingError, OF t1(2) pos_delta_okD(2) [OF assms(1)]] unfolding pos_cached(2) by blast
  obtain t3 where t3: "merge_balances_generic PosViewFail PosStorageWrite PosAccountingError (st_pool_balances S) (PB c) t2 =
      (Inr (fmmap (\<lambda>v. the (signed_neg v)) (PB c)), t3)" "pos_reads S t3 = (get_pool_data c, get_delegation_data c,
        get_pool_balance c, parent_delegation_balance c, parent_share c)"
    using flush_pool_balances [where ve = PosViewFail and we = PosStorageWrite and acc = PosAccountingError, OF t2(2) ok(1)] unfolding pos_cached(3) by blast
  obtain t4 where t4: "merge_balances_generic PosViewFail PosStorageWrite PosAccountingError (st_delegation_balances S)
      (DB c) t3 = (Inr (fmmap (\<lambda>v. the (signed_neg v)) (DB c)), t4)"
      "pos_reads S t4 = (get_pool_data c, get_delegation_data c, get_pool_balance c, get_delegation_balance c, parent_share c)"
    using flush_delegation_balances [where ve = PosViewFail and we = PosStorageWrite and acc = PosAccountingError, OF t3(2) ok(2)] unfolding pos_cached(4) by blast
  obtain t5 where t5: "merge_balances_generic PosViewFail PosStorageWrite PosAccountingError (st_pool_delegation_shares S)
      (SH c) t4 = (Inr (fmmap (\<lambda>v. the (signed_neg v)) (SH c)), t5)"
      "pos_reads S t5 = (get_pool_data c, get_delegation_data c, get_pool_balance c, get_delegation_balance c, get_share c)"
    using flush_shares [where ve = PosViewFail and we = PosStorageWrite and acc = PosAccountingError, OF t4(2) ok(3)] unfolding pos_cached(5) by blast
  show ?thesis using t1(1) t2(1) t3(1) t4(1) t5 by (auto simp: merge same_pos_db_view)
qed

lemma undo_flush_pos:
  assumes "pos_delta_ok c" and "pos_parent c = pos_db_view S s"
    and "\<And>p. is_ok (get_pool_balance c p)" and "\<And>i. is_ok (get_delegation_balance c i)"
    and "\<And>k. is_ok (get_share c k)" and "same_pos c (pos_delta_new (pos_db_view S t))"
  shows "\<exists>r. pos_db_undo_merge_with_delta S (pos_merge_undo_of (pos_data c)) t = (Inr (), r) \<and> pos_reads S r = pos_reads S s"
proof -
  note ok = assms(3-5) [unfolded is_ok_iff pos_cached]
  note neg = cached_balance_neg [OF ok(1)] cached_balance_neg [OF ok(2)] cached_balance_neg [OF ok(3)]
  have parents: "is_ok (parent_pool_data c p)" "is_ok (parent_delegation_data c i)"
      "\<exists>a. parent_pool_balance c p = Inr a" "\<exists>a. parent_delegation_balance c i = Inr a"
      "\<exists>a. parent_share c k = Inr a" for p i k
    using pool_data.get_ok [of s p] delegation_data.get_ok [of s i] pool_balances.balance_ok [of s p]
      delegation_balances.balance_ok [of s i] shares.balance_ok [of s k]
    by (auto simp: assms(2) pos_db_view_def is_ok_iff map_err_def)
  let ?neg = "fmmap (\<lambda>v. the (signed_neg v))"
  obtain t1 where t1: "undo_merge_data_generic PosViewFail PosStorageWrite PosAccountingError (st_pool_data S)
      (fmmap invert (PD c)) t = (Inr (), t1)" "pos_reads S t1 = (parent_pool_data c, get_delegation_data c,
        get_pool_balance c, get_delegation_balance c, get_share c)"
    using undo_flush_pool_data [where ve = PosViewFail and we = PosStorageWrite and acc = PosAccountingError, OF assms(6) [unfolded same_pos_db_view, unfolded pos_cached(1)]
        pos_delta_okD(1) [OF assms(1)] parents(1)] by blast
  obtain t2 where t2: "undo_merge_data_generic PosViewFail PosStorageWrite PosAccountingError (st_delegation_data S)
      (fmmap invert (DD c)) t1 = (Inr (), t2)" "pos_reads S t2 = (parent_pool_data c, parent_delegation_data c,
        get_pool_balance c, get_delegation_balance c, get_share c)"
    using undo_flush_delegation_data [where ve = PosViewFail and we = PosStorageWrite and acc = PosAccountingError, OF t1(2) [unfolded pos_cached(2)] pos_delta_okD(2) [OF assms(1)] parents(2)] by blast
  obtain t3 u3 where t3: "merge_balances_generic PosViewFail PosStorageWrite PosAccountingError (st_pool_balances S)
      (?neg (PB c)) t2 = (Inr u3, t3)" "pos_reads S t3 = (parent_pool_data c, parent_delegation_data c,
        parent_pool_balance c, get_delegation_balance c, get_share c)"
    using flush_pool_balances [where ve = PosViewFail and we = PosStorageWrite and acc = PosAccountingError, OF t2(2) [unfolded pos_cached(3)], of PosAccountingError "?neg (PB c)",
        unfolded neg, OF parents(3)] by blast
  obtain t4 u4 where t4: "merge_balances_generic PosViewFail PosStorageWrite PosAccountingError (st_delegation_balances S)
      (?neg (DB c)) t3 = (Inr u4, t4)" "pos_reads S t4 = (parent_pool_data c, parent_delegation_data c,
        parent_pool_balance c, parent_delegation_balance c, get_share c)"
    using flush_delegation_balances [where ve = PosViewFail and we = PosStorageWrite and acc = PosAccountingError, OF t3(2) [unfolded pos_cached(4)], of PosAccountingError "?neg (DB c)",
        unfolded neg, OF parents(4)] by blast
  obtain t5 u5 where t5: "merge_balances_generic PosViewFail PosStorageWrite PosAccountingError (st_pool_delegation_shares S)
      (?neg (SH c)) t4 = (Inr u5, t5)" "pos_reads S t5 = (parent_pool_data c, parent_delegation_data c,
        parent_pool_balance c, parent_delegation_balance c, parent_share c)"
    using flush_shares [where ve = PosViewFail and we = PosStorageWrite and acc = PosAccountingError, OF t4(2) [unfolded pos_cached(5)], of PosAccountingError "?neg (SH c)",
        unfolded neg, OF parents(5)] by blast
  show ?thesis
    using t1(1) t2(1) t3(1) t4(1) t5 pos_reads_parent [OF assms(2)]
    by (auto simp: pos_db_undo_merge_with_delta_def op_simps pos_merge_undo_of_def)
qed

end

lemma in_memory_pos_columns:
  "reliable_column (st_pool_data in_memory_pos_storage)"
  "reliable_column (st_delegation_data in_memory_pos_storage)"
  "reliable_column (st_pool_balances in_memory_pos_storage)"
  "reliable_column (st_delegation_balances in_memory_pos_storage)"
  "reliable_column (st_pool_delegation_shares in_memory_pos_storage)"
  by (simp_all add: in_memory_pos_storage_def map_column_reliable)

lemmas reliable_balance_columnI =
  reliable_balance_column.intro [OF balance_column.intro [OF reliable_column.axioms(1)]]

interpretation in_memory_pos: pos_store in_memory_pos_storage
  by (intro pos_store.intro pos_store_axioms.intro reliable_balance_columnI balance_frame.intro in_memory_pos_columns)
    (simp_all add: in_memory_pos_storage_def map_column_frame)

section \<open>Merging a child delta\<close>

lemma map_err_ok: "is_ok r \<Longrightarrow> map_err h r = r"
  by (auto simp: is_ok_iff map_err_def)

lemma get_share_pair: "(\<lambda>k. h (get_pool_delegation_share c (fst k) (snd k))) = (\<lambda>k. h (get_share c k))"
  by (simp add: get_share_def)

lemma pos_child_parent:
  assumes "pos_parent k = pos_delta_view c"
    and "\<And>p. is_ok (get_pool_balance k p)" and "\<And>i. is_ok (get_delegation_balance k i)"
    and "\<And>s. is_ok (get_share k s)"
  shows "parent_pool_data k = get_pool_data c" "parent_delegation_data k = get_delegation_data c"
    "parent_pool_balance k = get_pool_balance c" "parent_delegation_balance k = get_delegation_balance c"
    "parent_share k = get_share c"
proof -
  have "map_err (\<lambda>_. PosViewFail) (get_pool_data c p) = get_pool_data c p" for p
    by (simp add: pos_cached cached_data_def map_err_def split: option.splits sum.splits del: pos_folds)
  then show "parent_pool_data k = get_pool_data c" by (simp add: assms(1) pos_delta_view_def)
  have "map_err (\<lambda>_. PosViewFail) (get_delegation_data c i) = get_delegation_data c i" for i
    by (simp add: pos_cached cached_data_def map_err_def split: option.splits sum.splits del: pos_folds)
  then show "parent_delegation_data k = get_delegation_data c" by (simp add: assms(1) pos_delta_view_def)
  have "is_ok (get_pool_balance c p)" "is_ok (get_delegation_balance c i)" "is_ok (get_share c s)" for p i s
    using assms(1) assms(2) [of p] assms(3) [of i] assms(4) [of s]
    by (auto simp: is_ok_iff pos_cached(3-5) [of k] cached_balance_Ok pos_delta_view_def map_err_eq get_share_def
        simp del: pos_folds)
  then show "parent_pool_balance k = get_pool_balance c" "parent_delegation_balance k = get_delegation_balance c"
      "parent_share k = get_share c"
    by (simp_all add: assms(1) pos_delta_view_def map_err_ok get_share_pair)
qed

lemma merge_amounts_child:
  assumes "\<And>x. is_ok (cached_balance PosAccountingError (cached_balance PosAccountingError p m) d x)" and "no_zero_deltas m"
  shows "\<exists>m'. merge_delta_amounts d m = (Inr (), m') \<and> undo_merge_delta_amounts d m' = (Inr (), m) \<and>
    no_zero_deltas m' \<and>
    cached_balance PosAccountingError p m' = cached_balance PosAccountingError (cached_balance PosAccountingError p m) d"
proof -
  have "no_min_deltas d"
    unfolding no_min_deltas_def
  proof (rule fmpredI)
    fix x v
    assume v: "fmlookup d x = Some v"
    obtain a b where "bal_reads b d x a"
      using assms(1) [of x] by (auto simp: is_ok_iff cached_balance_Ok)
    with v have "in_i128 (uint b)" "uint a = uint b + sval v"
      by (auto simp: bal_reads_iff delta_at_def)
    then show "sval v \<noteq> - (2 ^ 127)" using uint_ge_0 [of a] by (simp add: in_signed_def)
  qed
  moreover obtain m' where "merge_delta_amounts d m = (Inr (), m')" "no_zero_deltas m'"
      "cached_balance PosAccountingError p m' = cached_balance PosAccountingError (cached_balance PosAccountingError p m) d"
    using merge_delta_amounts_stack [of PosAccountingError PosAccountingError p m d] assms
    by (auto simp: is_ok_iff)
  ultimately show ?thesis
    using undo_merge_delta_amounts_exact [OF assms(2)] by blast
qed

lemma pos_child_merge:
  assumes "pos_delta_ok c" and "pos_delta_ok k" and "pos_parent k = pos_delta_view c"
    and "\<And>p. is_ok (get_pool_balance k p)" and "\<And>i. is_ok (get_delegation_balance k i)"
    and "\<And>s. is_ok (get_share k s)"
  shows "\<exists>u c' c2. batch_write_delta (pos_data k) c = (Inr u, c') \<and> pos_delta_ok c' \<and> same_pos k c' \<and>
    pos_undo_delta_merge u c' = (Inr (), c2) \<and> pos_delta_ok c2 \<and> same_pos c c2"
proof -
  note parent = pos_child_parent [OF assms(3-6)]
  note child = pos_cached [of k, unfolded parent, unfolded pos_cached [of c]]
  note okc = pos_delta_okD [OF assms(1)] and okk = pos_delta_okD [OF assms(2), unfolded parent, unfolded pos_cached [of c]]
  obtain pd where pd: "merge_delta_data (PD k) (PD c) = (Inr (fmmap invert (PD k)), pd)"
      "data_coherent (parent_pool_data c) pd" "cached_data (parent_pool_data c) pd = get_pool_data k"
    using merge_delta_data_coherent [OF okc(1) okk(1)] child(1) by auto
  obtain pd2 where pd2: "undo_merge_delta_data (fmmap invert (PD k)) pd = (Inr (), pd2)"
      "data_coherent (parent_pool_data c) pd2" "cached_data (parent_pool_data c) pd2 = get_pool_data c"
    using undo_merge_delta_data_coherent [OF okc(1) okk(1) pd(1)] by (auto simp: pos_cached simp del: pos_folds)
  obtain dd where dd: "merge_delta_data (DD k) (DD c) = (Inr (fmmap invert (DD k)), dd)"
      "data_coherent (parent_delegation_data c) dd" "cached_data (parent_delegation_data c) dd = get_delegation_data k"
    using merge_delta_data_coherent [OF okc(2) okk(2)] child(2) by auto
  obtain dd2 where dd2: "undo_merge_delta_data (fmmap invert (DD k)) dd = (Inr (), dd2)"
      "data_coherent (parent_delegation_data c) dd2" "cached_data (parent_delegation_data c) dd2 = get_delegation_data c"
    using undo_merge_delta_data_coherent [OF okc(2) okk(2) dd(1)] by (auto simp: pos_cached simp del: pos_folds)
  obtain pb where pb: "merge_delta_amounts (PB k) (PB c) = (Inr (), pb)" "undo_merge_delta_amounts (PB k) pb = (Inr (), PB c)"
      "no_zero_deltas pb" "cached_balance PosAccountingError (parent_pool_balance c) pb = get_pool_balance k"
    using merge_amounts_child [OF assms(4) [unfolded child(3)] okc(3)] child(3) by auto
  obtain db where db: "merge_delta_amounts (DB k) (DB c) = (Inr (), db)" "undo_merge_delta_amounts (DB k) db = (Inr (), DB c)"
      "no_zero_deltas db" "cached_balance PosAccountingError (parent_delegation_balance c) db = get_delegation_balance k"
    using merge_amounts_child [OF assms(5) [unfolded child(4)] okc(4)] child(4) by auto
  obtain sh where sh: "merge_delta_amounts (SH k) (SH c) = (Inr (), sh)" "undo_merge_delta_amounts (SH k) sh = (Inr (), SH c)"
      "no_zero_deltas sh" "cached_balance PosAccountingError (parent_share c) sh = get_share k"
    using merge_amounts_child [OF assms(6) [unfolded child(5)] okc(5)] child(5) by auto
  define u where "u = \<lparr>mu_pool_data = fmmap invert (PD k), mu_delegation_data = fmmap invert (DD k),
    mu_pool_balances = PB k, mu_pool_delegation_shares = SH k, mu_delegation_balances = DB k\<rparr>"
  have "batch_write_delta (pos_data k) c = (Inr u, with_pos c pd dd pb db sh)"
    using pb(1) sh(1) db(1) pd(1) dd(1)
    by (simp add: batch_write_delta_def pos_merge_with_delta_def op_simps u_def with_pos_def)
  moreover have "pos_undo_delta_merge u (with_pos c pd dd pb db sh) = (Inr (), with_pos c pd2 dd2 (PB c) (DB c) (SH c))"
    using pb(2) sh(2) db(2) pd2(1) dd2(1)
    by (simp add: pos_undo_delta_merge_def undo_delta_merge_def op_simps u_def with_pos_def)
  moreover have "same_pos k (with_pos c pd dd pb db sh)" "same_pos c (with_pos c pd2 dd2 (PB c) (DB c) (SH c))"
    using pd(3) dd(3) pb(4) db(4) sh(4) pd2(3) dd2(3) by (simp_all add: same_pos_def)
  ultimately show ?thesis
    using pd(2) dd(2) pb(3) db(3) sh(3) pd2(2) dd2(2) okc(3-5) by (auto simp: pos_delta_ok_with_pos)
qed

section \<open>The shares of a pool\<close>

definition share_in :: "(delegation_id, amount) btree_map option \<Rightarrow> delegation_id \<Rightarrow> amount" where
  "share_in m i = (case m of None \<Rightarrow> 0 | Some s \<Rightarrow> (case fmlookup s i of None \<Rightarrow> 0 | Some a \<Rightarrow> a))"

text \<open>The map of the shares of a pool and the shares of its delegations are the same reading.\<close>

definition shares_agree :: "'e pos_view \<Rightarrow> bool" where
  "shares_agree v \<longleftrightarrow> (\<forall>p. \<exists>m. pv_pool_delegations_shares v p = Inr m \<and>
     (\<forall>i. pv_pool_delegation_share v p i = Inr (share_in m i)))"

lemma pool_key_range: "(p, 0) \<le> k \<and> k \<le> (p, - 1) \<longleftrightarrow> fst k = p" for k :: "pool_id \<times> delegation_id"
  by (cases k) (auto simp: less_eq_prod_simp not_less [symmetric])

lemma pool_entries_list:
  fixes m :: "(pool_id \<times> delegation_id, 'v) btree_map"
  shows "distinct (map fst (map (\<lambda>((_, deleg), v). (deleg, v)) (filter (\<lambda>(k, _). fst k = p) (btree_iter m))))"
    and "map_of (map (\<lambda>((_, deleg), v). (deleg, v)) (filter (\<lambda>(k, _). fst k = p) (btree_iter m))) i = fmlookup m (p, i)"
proof -
  let ?xs = "filter (\<lambda>(k, _). fst k = p) (btree_iter m)"
  have "distinct (map fst ?xs)"
    using btree_iter_distinct [of m] by (rule distinct_map_filter)
  then have "distinct (map (snd \<circ> fst) ?xs)"
    unfolding map_map [symmetric] distinct_map by (auto simp: inj_on_def)
  then show d: "distinct (map fst (map (\<lambda>((_, deleg), v). (deleg, v)) ?xs))"
    by (simp add: o_def case_prod_unfold)
  have "map_of (map (\<lambda>((_, deleg), v). (deleg, v)) ?xs) i = Some v \<longleftrightarrow> fmlookup m (p, i) = Some v" for v
    unfolding map_of_eq_Some_iff [OF d] by (force simp: btree_iter_set)
  then show "map_of (map (\<lambda>((_, deleg), v). (deleg, v)) ?xs) i = fmlookup m (p, i)"
    by (metis option.exhaust)
qed

lemma pool_entries_cases:
  obtains (none) "pool_entries m p = None" "\<And>i. fmlookup m (p, i) = None"
  | (some) e where "pool_entries m p = Some e" "\<And>i. fmlookup e i = fmlookup m (p, i)"
proof -
  define e where "e = btree_of_list (map (\<lambda>((_, deleg), v). (deleg, v)) (btree_range (p, 0) (p, - 1) m))"
  have "fmlookup e i = fmlookup m (p, i)" for i
    unfolding e_def btree_range_def pool_key_range btree_of_list_lookup [OF pool_entries_list(1)]
    by (rule pool_entries_list(2))
  moreover have "pool_entries m p = (if e = fmempty then None else Some e)"
    by (simp add: pool_entries_def e_def Let_def)
  ultimately show thesis
    using that by (metis fmempty_lookup)
qed

abbreviation entry_or_zero :: "('k, amount) btree_map \<Rightarrow> 'k \<Rightarrow> amount" where
  "entry_or_zero m k \<equiv> (case fmlookup m k of None \<Rightarrow> 0 | Some a \<Rightarrow> a)"

abbreviation combined :: "'k \<Rightarrow> amount \<Rightarrow> signed_amount \<Rightarrow> amount option" where
  "combined \<equiv> (\<lambda>_ a v. case combine_amount_delta a (Some v) of Inl _ \<Rightarrow> None | Inr b \<Rightarrow> Some b)"

lemma sum_maps_entry_Ok:
  "sum_maps_entry (k, v) m = (Inr u, t) \<longleftrightarrow>
     (\<exists>b. combine_amount_delta (entry_or_zero m k) (Some v) = Inr b \<and> t = fmupd k b m)"
  by (auto simp: sum_maps_entry_def combine_amount_delta_def op_simps and_then_eq ok_or_eq)

lemma sum_maps_keyed: "keyed_progress (\<lambda>k v. sum_maps_entry (k, v)) entry_or_zero combined (\<lambda>_ _ _. ())"
  by unfold_locales
    (auto simp: sum_maps_entry_Ok split: sum.splits if_splits)

lemma sum_maps_reads:
  assumes "\<And>i. \<exists>b. combine_amount_delta (entry_or_zero m1 i) (fmlookup m2 i) = Inr b"
  shows "\<exists>m. sum_maps m1 m2 = Inr m \<and>
    (\<forall>i. combine_amount_delta (entry_or_zero m1 i) (fmlookup m2 i) = Inr (entry_or_zero m i))"
proof -
  have eta: "sum_maps_entry = (\<lambda>(k, v). sum_maps_entry (k, v))" by auto
  have "\<exists>v. combined i (entry_or_zero m1 i) x = Some v" if "fmlookup m2 i = Some x" for i x
    using assms [of i] that by (auto)
  then obtain m where m: "mapS (\<lambda>(k, v). sum_maps_entry (k, v)) (btree_iter m2) m1 =
      (Inr (map (\<lambda>_. ()) (btree_iter m2)), m)"
    using keyed_progress.iter_progress [OF sum_maps_keyed, of m2 m1] by (auto simp: case_prod_unfold)
  note ok = keyed_step.iter_ok [OF keyed_progress.axioms(1) [OF sum_maps_keyed] m]
  have "combine_amount_delta (entry_or_zero m1 i) (fmlookup m2 i) = Inr (entry_or_zero m i)" for i
  proof (cases "fmlookup m2 i")
    case None
    with ok(2) [OF None] show ?thesis by (simp add: combine_amount_delta_def)
  next
    case (Some x)
    with ok(3) [OF Some] show ?thesis by (auto split: sum.splits)
  qed
  moreover have "try_for_each sum_maps_entry (btree_iter m2) m1 = (Inr (), m)"
    using m eta by (auto simp: try_for_each_Inr)
  ultimately show ?thesis by (auto simp: sum_maps_def)
qed

lemma unsigned_pairs_read:
  assumes "\<And>i. \<exists>b. combine_amount_delta 0 (fmlookup m i) = Inr b"
  shows "\<exists>ps. fst (mapS (\<lambda>p. liftS (signed_to_unsigned_pair p)) (btree_iter m) ()) = Inr ps \<and>
    (\<forall>i. combine_amount_delta 0 (fmlookup m i) = Inr (entry_or_zero (btree_of_list ps) i))"
proof -
  have v: "\<exists>a. signed_into_unsigned v = Some a \<and> combine_amount_delta 0 (Some v) = Inr a"
    if "fmlookup m i = Some v" for i v
    using assms [of i] that by (auto simp: result_simps checked_simps)
  let ?g = "\<lambda>(i, v). (i, the (signed_into_unsigned v))"
  have "mapS (\<lambda>p. liftS (signed_to_unsigned_pair p)) (btree_iter m) () = (Inr (map ?g (btree_iter m)), ())"
    by (rule mapS_pure) (auto simp: signed_to_unsigned_pair_def result_simps btree_iter_set dest!: v)
  moreover have "combine_amount_delta 0 (fmlookup m i) =
      Inr (entry_or_zero (fmmap (\<lambda>v. the (signed_into_unsigned v)) m) i)" for i
    using v [of i] by (cases "fmlookup m i") (auto simp: combine_amount_delta_def [of _ None])
  ultimately show ?thesis by (simp add: btree_of_list_map_iter)
qed

lemma shares_agree_delta:
  assumes "shares_agree (pos_parent c)" and "\<And>i. is_ok (get_pool_delegation_share c p i)"
  shows "\<exists>m. get_pool_delegations_shares c p = Inr m \<and> (\<forall>i. get_pool_delegation_share c p i = Inr (share_in m i))"
proof -
  obtain pm where pm: "pv_pool_delegations_shares (pos_parent c) p = Inr pm"
      "\<And>i. pv_pool_delegation_share (pos_parent c) p i = Inr (share_in pm i)"
    using assms(1) by (auto simp: shares_agree_def)
  have read: "get_pool_delegation_share c p i =
      map_err PosAccountingError (combine_amount_delta (share_in pm i) (fmlookup (SH c) (p, i)))" for i
    by (simp add: get_pool_delegation_share_def pm(2) and_then_def map_err_def)
  have ok: "\<exists>b. combine_amount_delta (share_in pm i) (fmlookup (SH c) (p, i)) = Inr b" for i
    using assms(2) [of i] unfolding read by (simp add: is_ok_iff map_err_eq)
  note defs = get_pool_delegations_shares_def get_cached_delegations_shares_def pm(1) and_then_def map_err_def
    share_in_def
  show ?thesis
  proof (cases rule: pool_entries_cases [of "SH c" p])
    case none
    then show ?thesis unfolding read by (cases pm) (simp_all add: defs combine_amount_delta_def)
  next
    case (some e)
    note ok' = ok [folded some(2)] and read' = read [folded some(2)]
    show ?thesis
    proof (cases pm)
      case None
      with unsigned_pairs_read [of e] ok' some(1) show ?thesis unfolding read' by (auto simp: defs)
    next
      case (Some m1)
      with sum_maps_reads [of m1 e] ok' some(1) show ?thesis unfolding read' by (auto simp: defs)
    qed
  qed
qed

lemma shares_agree_in_memory: "shares_agree (pos_db_view in_memory_pos_storage s)"
  unfolding shares_agree_def
proof
  fix p
  show "\<exists>m. pv_pool_delegations_shares (pos_db_view in_memory_pos_storage s) p = Inr m \<and>
      (\<forall>i. pv_pool_delegation_share (pos_db_view in_memory_pos_storage s) p i = Inr (share_in m i))"
    by (cases rule: pool_entries_cases [of "im_pool_delegation_shares s" p])
      (auto simp: pos_db_view_def in_memory_pos_storage_def map_column_def col_balance_def and_then_def
        share_in_def amount_zero_def split: option.splits)
qed

lemma same_shares_map:
  assumes "same_pos c (pos_delta_new v)" and "shares_agree (pos_parent c)" and "shares_agree v"
    and "\<And>i. is_ok (get_pool_delegation_share c p i)"
  shows "\<exists>m n. get_pool_delegations_shares c p = Inr m \<and> get_pool_delegations_shares (pos_delta_new v) p = Inr n \<and>
    share_in m = share_in n"
proof -
  have same: "get_pool_delegation_share (pos_delta_new v) p i = get_pool_delegation_share c p i" for i
    using assms(1) by (auto simp: same_pos_def get_share_def fun_eq_iff)
  have "shares_agree (pos_parent (pos_delta_new v))" using assms(3) by (simp add: pos_delta_new_def)
  from shares_agree_delta [OF this, of p] obtain n where
    n: "get_pool_delegations_shares (pos_delta_new v) p = Inr n"
      "\<And>i. get_pool_delegation_share c p i = Inr (share_in n i)" using assms(4) by (auto simp: same)
  from shares_agree_delta [OF assms(2,4)] obtain m where
    m: "get_pool_delegations_shares c p = Inr m" "\<And>i. get_pool_delegation_share c p i = Inr (share_in m i)" by auto
  have "share_in m = share_in n" using m(2) n(2) by (simp add: fun_eq_iff)
  with m(1) n(1) show ?thesis by blast
qed

section \<open>A delegation to a decommissioned pool\<close>

lemma delegate_then_spend:
  assumes "pos_delta_ok c" and "get_delegation_data c i = Inr (Some d)" and "get_pool_data c (source_pool d) = Inr None"
    and "delegate_staking i a c = (Inr u, c1)" and "spend_share_from_delegation_id i a c1 = (Inr v, c2)"
  shows "\<exists>y. add_unsigned (source_pool d) a (PB c) = (Inr (), y) \<and> c2 = with_pos c (PD c) (DD c) y (DB c) (SH c)"
proof -
  obtain x y z where c1: "add_unsigned i a (DB c) = (Inr (), x)"
      "add_unsigned (source_pool d) a (PB c) = (Inr (), y)" "add_unsigned (source_pool d, i) a (SH c) = (Inr (), z)"
      "c1 = with_pos c (PD c) (DD c) y x z"
    using assms(2,4) by (auto simp: delegate_staking_Ok)
  then have "get_delegation_data c1 i = Inr (Some d)" "get_pool_data c1 (source_pool d) = Inr None"
    using assms(2,3) by simp_all
  from assms(5) [unfolded spend_share_decommissioned [OF this]] c1 show ?thesis
    using sub_after_add [OF pos_delta_okD(4) [OF assms(1)] c1(1)] sub_after_add [OF pos_delta_okD(5) [OF assms(1)] c1(3)]
    by simp
qed

section \<open>A concrete run on pools\<close>

fun pos_run :: "pos_call list \<Rightarrow> 'e pos_delta \<Rightarrow> 'e pos_delta" where
  "pos_run [] c = c"
| "pos_run (call # calls) c = pos_run calls (snd (pos_exec call c))"

fun pos_run_ok :: "('e pos_delta \<Rightarrow> pos_call \<Rightarrow> bool) \<Rightarrow> pos_call list \<Rightarrow> 'e pos_delta \<Rightarrow> bool" where
  "pos_run_ok P [] c \<longleftrightarrow> True"
| "pos_run_ok P (call # calls) c \<longleftrightarrow>
     P c call \<and> is_ok (fst (pos_exec call c)) \<and> pos_run_ok P calls (snd (pos_exec call c))"

lemma pos_steps_run:
  "pos_steps P c a \<Longrightarrow> pos_run_ok P calls a \<Longrightarrow> pos_steps P c (pos_run calls a)"
proof (induction calls arbitrary: a)
  case (Cons call calls)
  then obtain u b where "pos_exec call a = (Inr u, b)" by (cases "pos_exec call a") (auto simp: is_ok_iff)
  with Cons show ?case by (auto intro: pos_steps.one_pos_call)
qed simp

lemma pos_steps_mono:
  "pos_steps P c a \<Longrightarrow> (\<And>x call. P x call \<Longrightarrow> Q x call) \<Longrightarrow> pos_steps Q c a"
  by (induction rule: pos_steps.induct) (auto intro: pos_steps.intros)

definition sample_pool :: pool_data where
  "sample_pool = pool_data_from_stake
     \<lparr>sp_pledge = 100, sp_staker = AnyoneCanSpend, sp_vrf_public_key = [], sp_decommission_key = AnyoneCanSpend,
      sp_margin_ratio_per_thousand = PerThousand 10, sp_cost_per_block = 3\<rparr>"

abbreviation pos_start :: "pos_error pos_delta" where
  "pos_start \<equiv> pos_delta_new (pos_db_view in_memory_pos_storage in_memory_pos_new)"

definition pos_sample_1 :: "pos_error pos_delta" where
  "pos_sample_1 = pos_run [CallCreatePool 1 sample_pool, CallIncreaseStakerRewards 1 10,
     CallCreateDelegationId 1 7 AnyoneCanSpend] pos_start"

definition pos_sample :: "pos_error pos_delta" where
  "pos_sample = pos_run [CallDelegateStaking 7 50, CallSpendShare 7 20] pos_sample_1"

lemma pos_delta_new_reads:
  "get_pool_data (pos_delta_new v) = (\<lambda>p. map_err (\<lambda>_. PosViewFail) (pv_pool_data v p))"
  "get_delegation_data (pos_delta_new v) = (\<lambda>i. map_err (\<lambda>_. PosViewFail) (pv_delegation_data v i))"
  "get_pool_balance (pos_delta_new v) = (\<lambda>p. map_err (\<lambda>_. PosViewFail) (pv_pool_balance v p))"
  "get_delegation_balance (pos_delta_new v) = (\<lambda>i. map_err (\<lambda>_. PosViewFail) (pv_delegation_balance v i))"
  "get_share (pos_delta_new v) = (\<lambda>k. map_err (\<lambda>_. PosViewFail) (pv_pool_delegation_share v (fst k) (snd k)))"
  by (simp_all add: pos_cached pos_delta_new_def pos_delta_data_new_def del: pos_folds)

lemma pos_readable_iff:
  "pos_readable c \<longleftrightarrow> (\<forall>p. is_ok (get_pool_balance c p)) \<and> (\<forall>i. is_ok (get_delegation_balance c i)) \<and>
     (\<forall>k. is_ok (get_share c k))"
  by (simp add: pos_readable_def get_share_def)

lemma empty_pos_view:
  "pos_db_view in_memory_pos_storage in_memory_pos_new =
     \<lparr>pv_pool_exists = (\<lambda>_. Inr False), pv_pool_balance = (\<lambda>_. Inr 0), pv_pool_data = (\<lambda>_. Inr None),
      pv_pool_delegations_shares = (\<lambda>_. Inr None), pv_delegation_balance = (\<lambda>_. Inr 0),
      pv_delegation_data = (\<lambda>_. Inr None), pv_pool_delegation_share = (\<lambda>_ _. Inr 0)\<rparr>"
proof -
  have iter: "btree_iter (fmempty :: (pool_id \<times> delegation_id, amount) btree_map) = []" by code_simp
  have "pool_entries fmempty p = (None :: (delegation_id, amount) btree_map option)" for p
    by (simp add: pool_entries_def btree_range_def Let_def iter btree_of_list_def)
  then show ?thesis
    by (simp add: pos_db_view_def in_memory_pos_storage_def map_column_def in_memory_pos_new_def col_balance_def
      and_then_def amount_zero_def fun_eq_iff)
qed

lemma empty_pos_consistent: "pos_consistent strict (pos_db_view in_memory_pos_storage in_memory_pos_new)"
  unfolding pos_consistent_def empty_pos_view
  by (auto simp: pos_sound_def intro!: exI [of _ "\<lambda>_. None"] exI [of _ "\<lambda>_. 0"])

lemma pos_sample_1_steps: "pos_steps (pos_call_allowed True) pos_start pos_sample_1"
proof -
  have ok: "is_ok (fst (pos_exec (CallCreatePool 1 sample_pool) pos_start))"
      "is_ok (fst (pos_exec (CallIncreaseStakerRewards 1 10) (pos_run [CallCreatePool 1 sample_pool] pos_start)))"
      "is_ok (fst (pos_exec (CallCreateDelegationId 1 7 AnyoneCanSpend)
         (pos_run [CallCreatePool 1 sample_pool, CallIncreaseStakerRewards 1 10] pos_start)))"
    by code_simp+
  have "pos_call_allowed True pos_start (CallCreatePool 1 sample_pool)"
    by (simp add: sample_pool_def pool_data_from_stake_def amount_zero_def pos_cached pos_delta_new_def
        pos_delta_data_new_def empty_pos_view map_err_def del: pos_folds)
  with ok show ?thesis
    unfolding pos_sample_1_def by (intro pos_steps_run pos_steps.no_pos_call) (simp del: pos_exec.simps)
qed

lemma pos_sample_steps: "pos_steps (pos_call_allowed True) pos_start pos_sample"
proof -
  have ok: "is_ok (fst (pos_exec (CallDelegateStaking 7 50) pos_sample_1))"
      "is_ok (fst (pos_exec (CallSpendShare 7 20) (pos_run [CallDelegateStaking 7 50] pos_sample_1)))"
    by code_simp+
  have "get_delegation_data pos_sample_1 7 = Inr (Some (delegation_data_new 1 AnyoneCanSpend))"
      "pool_exists pos_sample_1 1 = Inr True" by code_simp+
  then have "pos_call_allowed True pos_sample_1 (CallDelegateStaking 7 50)" by (simp add: delegation_data_new_def)
  with ok show ?thesis
    unfolding pos_sample_def by (intro pos_steps_run pos_sample_1_steps) (simp del: pos_exec.simps)
qed

lemma pos_sample_data:
  "PD pos_sample = fmap_of_list [(1, new_delta None (Some (sample_pool\<lparr>staker_rewards := 10\<rparr>)))]"
  "DD pos_sample = fmap_of_list [(7, new_delta None (Some (delegation_data_new 1 AnyoneCanSpend)))]"
  "PB pos_sample = fmap_of_list [(1, SignedAmount 140)]"
  "DB pos_sample = fmap_of_list [(7, SignedAmount 30)]"
  "SH pos_sample = fmap_of_list [((1, 7), SignedAmount 30)]"
  by code_simp+

lemma pos_sample_parent: "pos_parent pos_sample = pos_db_view in_memory_pos_storage in_memory_pos_new"
  and pos_sample_ok: "pos_delta_ok pos_sample"
  using pos_steps_ok [OF pos_sample_steps] by simp_all

lemma pos_sample_reads:
  "get_pool_balance pos_sample p = Inr (if p = 1 then 140 else 0)"
  "get_delegation_balance pos_sample i = Inr (if i = 7 then 30 else 0)"
  "get_share pos_sample k = Inr (if k = (1, 7) then 30 else 0)"
  by (auto simp add: pos_cached cached_balance_Ok bal_reads_def pos_sample_data pos_sample_parent empty_pos_view
      map_err_def in_signed_def fmlookup_of_list result_simps simp del: pos_folds)

lemma pos_sample_readable: "pos_readable pos_sample"
  by (simp add: pos_readable_iff pos_sample_reads is_ok_def)

lemma same_pos_reads:
  "same_pos (pos_delta_new (pos_db_view S s)) (pos_delta_new (pos_db_view S t)) \<longleftrightarrow> pos_reads S t = pos_reads S s"
  unfolding same_pos_db_view by (simp add: pos_delta_new_reads pos_db_view_def pos_reads_def [of S s])

definition pos_stranded :: "pos_error pos_delta" where
  "pos_stranded = pos_run [CallDecommissionPool 1] pos_sample_1"

lemma pos_stranded_steps: "pos_steps (\<lambda>_ _. True) pos_start pos_stranded"
proof -
  have "is_ok (fst (pos_exec (CallDecommissionPool 1) pos_sample_1))" by code_simp
  then show ?thesis
    unfolding pos_stranded_def
    by (intro pos_steps_run pos_steps_mono [OF pos_sample_1_steps]) (simp_all del: pos_exec.simps)
qed

text \<open>A pool that is decommissioned, and stake that is delegated to it afterwards.\<close>

definition pos_stranded_sample :: "pos_error pos_delta" where
  "pos_stranded_sample = pos_run [CallDelegateStaking 7 5] pos_stranded"

lemma pos_call_allowed_weaken: "pos_call_allowed True c call \<Longrightarrow> pos_call_allowed False c call"
  by (cases call) auto

lemma pos_stranded_sample_steps: "pos_steps (pos_call_allowed False) pos_start pos_stranded_sample"
proof -
  have ok: "is_ok (fst (pos_exec (CallDecommissionPool 1) pos_sample_1))"
    "is_ok (fst (pos_exec (CallDelegateStaking 7 5) pos_stranded))" by code_simp+
  have "pos_steps (pos_call_allowed False) pos_start pos_stranded"
    using ok(1) unfolding pos_stranded_def
    by (intro pos_steps_run pos_steps_mono [OF pos_sample_1_steps pos_call_allowed_weaken]) (simp_all del: pos_exec.simps)
  with ok(2) show ?thesis
    unfolding pos_stranded_sample_def by (intro pos_steps_run) (simp_all del: pos_exec.simps)
qed

lemma pos_stranded_sample_data:
  "PB pos_stranded_sample = fmap_of_list [(1, SignedAmount 5)]"
  "DB pos_stranded_sample = fmap_of_list [(7, SignedAmount 5)]"
  "SH pos_stranded_sample = fmap_of_list [((1, 7), SignedAmount 5)]"
  by code_simp+

lemma pos_stranded_sample_readable: "pos_readable pos_stranded_sample"
proof -
  have "pos_parent pos_stranded_sample = pos_db_view in_memory_pos_storage in_memory_pos_new"
    using pos_steps_ok [OF pos_stranded_sample_steps] by simp
  then have "get_pool_balance pos_stranded_sample p = Inr (if p = 1 then 5 else 0)"
    "get_delegation_balance pos_stranded_sample i = Inr (if i = 7 then 5 else 0)"
    "get_share pos_stranded_sample k = Inr (if k = (1, 7) then 5 else 0)" for p i k
    by (auto simp add: pos_cached cached_balance_Ok bal_reads_def pos_stranded_sample_data empty_pos_view
        map_err_def in_signed_def fmlookup_of_list result_simps simp del: pos_folds)
  then show ?thesis by (simp add: pos_readable_iff is_ok_def)
qed

section \<open>Properties of the proof-of-stake accounting\<close>

text \<open>
  C2: Stake is conserved. Let a delta over a consistent view perform any sequence of successful calls in
  which a pool is created with no rewards yet and under an id no delegation names; delegations to pools
  that were decommissioned are among them. Then, if all its balances can be read, the delta is consistent
  too: the balance of every existing pool is its pledge, its rewards and the sum of the shares of its
  delegations, the balance of a delegation is its share in its own pool, and it has no share in another.
  When moreover stake is delegated to existing pools only (\<open>strict\<close>), a pool that does not exist has no
  balance.
\<close>

theorem pos_conserves_stake:
  assumes "pos_consistent strict p" and "pos_steps (pos_call_allowed strict) (pos_delta_new p) c" and "pos_readable c"
  shows "pos_consistent strict (pos_delta_view c)"
proof -
  have "pos_delta_sound strict c"
    using assms(2) by (induction rule: pos_steps.induct) (auto intro: pos_delta_sound_new assms(1) pos_exec_sound)
  then show ?thesis by (rule pos_delta_sound_consistent [OF _ assms(3)])
qed

theorem pos_conserves_stake_witness:
  "pos_consistent True (pos_delta_view pos_sample) \<and> pos_consistent False (pos_delta_view pos_stranded_sample)"
  using pos_conserves_stake [OF empty_pos_consistent pos_sample_steps pos_sample_readable]
    pos_conserves_stake [OF empty_pos_consistent pos_stranded_sample_steps pos_stranded_sample_readable] by simp

text \<open>
  Undoing a successful operation on pools and delegations with the undo record it returned succeeds,
  and every query for data, balances and shares then gives what it gave before the operation.
\<close>

theorem pos_undo_restores:
  assumes "pos_steps P (pos_delta_new p) c" and "pos_exec call c = (Inr u, c')"
  shows "\<exists>c2. pos_undo u c' = (Inr (), c2) \<and> get_pool_data c2 = get_pool_data c \<and>
    get_delegation_data c2 = get_delegation_data c \<and> get_pool_balance c2 = get_pool_balance c \<and>
    get_delegation_balance c2 = get_delegation_balance c \<and>
    get_pool_delegation_share c2 = get_pool_delegation_share c"
proof -
  have "pos_delta_ok c" using pos_steps_ok [OF assms(1)] by simp
  from pos_undo_restores_aux [OF assms(2) this] show ?thesis
    by (auto simp: same_pos_def get_share_def fun_eq_iff)
qed

theorem pos_undo_restores_witness:
  "\<exists>u c2 c3. decommission_pool 1 pos_sample = (Inr u, c2) \<and> pos_undo u c2 = (Inr (), c3) \<and>
     get_pool_balance c3 1 = Inr 140"
proof -
  have "is_ok (fst (pos_exec (CallDecommissionPool 1) pos_sample))" by code_simp
  then obtain u c2 where m: "pos_exec (CallDecommissionPool 1) pos_sample = (Inr u, c2)"
    by (auto simp: is_ok_iff) (metis prod.collapse)
  from pos_undo_restores [OF pos_sample_steps m] m show ?thesis by (auto simp: pos_sample_reads)
qed

text \<open>
  C23: Flushing the deltas of a cache over the in-memory database of pools succeeds when every balance can be
  read through the cache, and the database then answers as the cache did: for the data of pools and
  delegations, for their balances and for the share of a delegation in a pool the answers are the same.
  The maps of all shares of a pool have the same share for every delegation, where a delegation that is
  missing has none; the map of the cache may list a share of zero that the database has dropped.
\<close>

theorem pos_flush_refines:
  assumes "pos_steps P (pos_delta_new (pos_db_view in_memory_pos_storage s)) c" and "pos_readable c"
  shows "\<exists>u t. pos_db_merge_with_delta in_memory_pos_storage (pos_data c) s = (Inr u, t) \<and>
    same_pos c (pos_delta_new (pos_db_view in_memory_pos_storage t)) \<and>
    (\<forall>p. \<exists>m n. get_pool_delegations_shares c p = Inr m \<and>
       get_pool_delegations_shares (pos_delta_new (pos_db_view in_memory_pos_storage t)) p = Inr n \<and>
       share_in m = share_in n)"
proof -
  have ok: "pos_delta_ok c" "pos_parent c = pos_db_view in_memory_pos_storage s"
    using pos_steps_ok [OF assms(1)] by simp_all
  from in_memory_pos.flush_pos [OF ok] assms(2) obtain u t where
    t: "pos_db_merge_with_delta in_memory_pos_storage (pos_data c) s = (Inr u, t)"
      "same_pos c (pos_delta_new (pos_db_view in_memory_pos_storage t))"
    by (auto simp: pos_readable_iff)
  have "shares_agree (pos_parent c)" by (simp add: ok(2) shares_agree_in_memory)
  moreover have "is_ok (get_pool_delegation_share c p i)" for p i using assms(2) by (simp add: pos_readable_def)
  ultimately show ?thesis using t same_shares_map [OF t(2)] shares_agree_in_memory by auto
qed

theorem pos_flush_refines_witness:
  "\<exists>u t. pos_db_merge_with_delta in_memory_pos_storage (pos_data pos_sample) in_memory_pos_new = (Inr u, t) \<and>
     get_pool_balance (pos_delta_new (pos_db_view in_memory_pos_storage t)) 1 = Inr 140"
proof -
  from pos_flush_refines [OF pos_sample_steps pos_sample_readable] obtain u t where
    w: "pos_db_merge_with_delta in_memory_pos_storage (pos_data pos_sample) in_memory_pos_new = (Inr u, t)"
      "same_pos pos_sample (pos_delta_new (pos_db_view in_memory_pos_storage t))" by blast
  from w(2) have "get_pool_balance (pos_delta_new (pos_db_view in_memory_pos_storage t)) 1 = get_pool_balance pos_sample 1"
    unfolding same_pos_def by argo
  with w(1) show ?thesis by (simp add: pos_sample_reads)
qed

text \<open>
  Undoing the flush of a cache with the undo data that the flush returned succeeds, and the database of
  pools then answers every query as it did before the flush.
\<close>

theorem pos_flush_undo_restores:
  assumes "pos_steps P (pos_delta_new (pos_db_view in_memory_pos_storage s)) c" and "pos_readable c"
  shows "\<exists>u t r. pos_db_merge_with_delta in_memory_pos_storage (pos_data c) s = (Inr u, t) \<and>
    pos_db_undo_merge_with_delta in_memory_pos_storage u t = (Inr (), r) \<and>
    same_pos (pos_delta_new (pos_db_view in_memory_pos_storage s)) (pos_delta_new (pos_db_view in_memory_pos_storage r))"
proof -
  have ok: "pos_delta_ok c" "pos_parent c = pos_db_view in_memory_pos_storage s"
    using pos_steps_ok [OF assms(1)] by simp_all
  have r: "is_ok (get_pool_balance c p)" "is_ok (get_delegation_balance c i)" "is_ok (get_share c k)" for p i k
    using assms(2) unfolding pos_readable_iff by blast+
  from in_memory_pos.flush_pos [OF ok r] in_memory_pos.undo_flush_pos [OF ok r] obtain t q where
    "pos_db_merge_with_delta in_memory_pos_storage (pos_data c) s = (Inr (pos_merge_undo_of (pos_data c)), t)"
    "pos_db_undo_merge_with_delta in_memory_pos_storage (pos_merge_undo_of (pos_data c)) t = (Inr (), q)"
    "pos_reads in_memory_pos_storage q = pos_reads in_memory_pos_storage s" by blast
  then show ?thesis by (auto simp: same_pos_reads)
qed

theorem pos_flush_undo_restores_witness:
  "\<exists>u t r. pos_db_merge_with_delta in_memory_pos_storage (pos_data pos_sample) in_memory_pos_new = (Inr u, t) \<and>
    pos_db_undo_merge_with_delta in_memory_pos_storage u t = (Inr (), r) \<and>
    get_pool_data (pos_delta_new (pos_db_view in_memory_pos_storage r)) 1 = Inr None"
proof -
  have "get_pool_data pos_start 1 = Inr None" by code_simp
  with pos_flush_undo_restores [OF pos_sample_steps pos_sample_readable] show ?thesis
    by (auto simp: same_pos_def)
qed

text \<open>
  Merging the deltas of a child into the delta it was opened on succeeds when every balance can be read
  through the child, and the parent then answers every query as the child did. Undoing that merge with
  the undo data it returned succeeds too, and gives back every answer of the parent.
\<close>

theorem pos_child_merge_and_undo:
  assumes "pos_steps P (pos_delta_new p) c" and "pos_steps Q (pos_delta_new (pos_delta_view c)) k" and "pos_readable k"
  shows "\<exists>u c' c2. batch_write_delta (pos_data k) c = (Inr u, c') \<and> same_pos k c' \<and>
    pos_undo_delta_merge u c' = (Inr (), c2) \<and> same_pos c c2"
proof -
  have ok: "pos_delta_ok c" "pos_delta_ok k" "pos_parent k = pos_delta_view c"
    using pos_steps_ok [OF assms(1)] pos_steps_ok [OF assms(2)] by simp_all
  from pos_child_merge [OF ok] assms(3) show ?thesis by (fastforce simp: pos_readable_iff)
qed

theorem pos_child_merge_and_undo_witness:
  "\<exists>u c' c2. batch_write_delta (pos_data (pos_delta_new (pos_delta_view pos_sample))) pos_sample = (Inr u, c') \<and>
     pos_undo_delta_merge u c' = (Inr (), c2) \<and> get_pool_balance c2 1 = Inr 140"
proof -
  have "pos_readable (pos_delta_new (pos_delta_view pos_sample))"
    using pos_sample_readable by (simp add: pos_readable_iff is_ok_iff get_share_def [of pos_sample] pos_delta_new_reads
        pos_delta_view_def map_err_eq)
  from pos_child_merge_and_undo [OF pos_sample_steps pos_steps.no_pos_call this] obtain u c' c2 where
    w: "batch_write_delta (pos_data (pos_delta_new (pos_delta_view pos_sample))) pos_sample = (Inr u, c')"
      "pos_undo_delta_merge u c' = (Inr (), c2)" "same_pos pos_sample c2" by blast
  from w(3) have "get_pool_balance c2 1 = get_pool_balance pos_sample 1" unfolding same_pos_def by argo
  with w(1,2) show ?thesis by (simp add: pos_sample_reads)
qed

text \<open>
  The map of the shares of a pool agrees with the single shares: over the in-memory database, whatever
  calls a delta has performed, when the shares of a pool can be read one by one, the query for all of them
  succeeds and its entry for a delegation (zero when it has none) is the share of that delegation.
\<close>

theorem pos_shares_map_agrees:
  assumes "pos_steps P (pos_delta_new (pos_db_view in_memory_pos_storage s)) c"
    and "\<And>i. is_ok (get_pool_delegation_share c p i)"
  shows "\<exists>m. get_pool_delegations_shares c p = Inr m \<and>
    (\<forall>i. get_pool_delegation_share c p i = Inr (share_in m i))"
proof (rule shares_agree_delta [OF _ assms(2)])
  show "shares_agree (pos_parent c)" using pos_steps_ok [OF assms(1)] shares_agree_in_memory by simp
qed

theorem pos_shares_map_agrees_witness:
  "\<exists>m. get_pool_delegations_shares pos_sample 1 = Inr m \<and> share_in m 7 = 30"
proof -
  have r: "get_pool_delegation_share pos_sample 1 i = Inr (if i = 7 then 30 else 0)" for i
    using pos_sample_reads(3) [of "(1, i)"] by (simp add: get_share_def)
  then have "is_ok (get_pool_delegation_share pos_sample 1 i)" for i by (simp add: is_ok_def)
  from pos_shares_map_agrees [OF pos_sample_steps this] obtain m where
    m: "get_pool_delegations_shares pos_sample 1 = Inr m" "\<forall>i. get_pool_delegation_share pos_sample 1 i = Inr (share_in m i)"
    by blast
  from m(2) r [of 7] have "share_in m 7 = 30" by simp
  with m(1) show ?thesis by blast
qed

text \<open>
  Staking to a delegation of a decommissioned pool is accepted, and what is delegated then stays in the
  balance of the pool that no longer exists: delegating an amount and spending it again from the
  delegation gives back the balance and the share of the delegation, but leaves the balance of the pool
  greater by that amount.
\<close>

theorem delegate_to_decommissioned_pool_strands:
  assumes "pos_steps P (pos_delta_new p) c" and "get_delegation_data c i = Inr (Some d)"
    and "get_pool_data c (source_pool d) = Inr None" and "get_pool_balance c (source_pool d) = Inr b"
    and "delegate_staking i a c = (Inr u, c1)" and "spend_share_from_delegation_id i a c1 = (Inr v, c2)"
  shows "get_pool_data c2 (source_pool d) = Inr None \<and> get_delegation_balance c2 = get_delegation_balance c \<and>
    (\<forall>r. get_pool_balance c2 (source_pool d) = Inr r \<longrightarrow> uint r = uint b + uint a)"
proof -
  have ok: "pos_delta_ok c" using pos_steps_ok [OF assms(1)] by simp
  from delegate_then_spend [OF ok assms(2,3,5,6)] obtain y where
    y: "add_unsigned (source_pool d) a (PB c) = (Inr (), y)" "c2 = with_pos c (PD c) (DD c) y (DB c) (SH c)" by blast
  have "uint r = uint b + uint a" if "get_pool_balance c2 (source_pool d) = Inr r" for r
    using that assms(4) total_at_add [OF y(1), of "parent_pool_balance c"]
      cached_balance_total [of PosAccountingError "parent_pool_balance c"]
    by (simp add: y(2) pos_cached del: pos_folds) 
  with y(2) assms(3) show ?thesis by simp
qed

theorem delegate_to_decommissioned_pool_strands_witness:
  "get_pool_balance (pos_run [CallDelegateStaking 7 5, CallSpendShare 7 5] pos_stranded) 1 = Inr 5"
proof -
  let ?c1 = "pos_run [CallDelegateStaking 7 5] pos_stranded"
  let ?c2 = "pos_run [CallDelegateStaking 7 5, CallSpendShare 7 5] pos_stranded"
  have r: "get_delegation_data pos_stranded 7 = Inr (Some (delegation_data_new 1 AnyoneCanSpend))"
      "get_pool_data pos_stranded (source_pool (delegation_data_new 1 AnyoneCanSpend)) = Inr None"
      "get_pool_balance pos_stranded (source_pool (delegation_data_new 1 AnyoneCanSpend)) = Inr 0" by code_simp+
  have s: "is_ok (fst (delegate_staking 7 5 pos_stranded))" "is_ok (fst (spend_share_from_delegation_id 7 5 ?c1))"
      "is_ok (get_pool_balance ?c2 1)" by code_simp+
  then obtain u v b where "delegate_staking 7 5 pos_stranded = (Inr u, ?c1)"
      "spend_share_from_delegation_id 7 5 ?c1 = (Inr v, ?c2)" and b: "get_pool_balance ?c2 1 = Inr b"
    by (auto simp: is_ok_iff) (metis prod.collapse)
  from delegate_to_decommissioned_pool_strands [OF pos_stranded_steps r this(1,2)] b have "uint b = 5"
    by (simp add: delegation_data_new_def)
  then have "b = 5" by (simp add: word_uint_eq_iff)
  with b show ?thesis by simp
qed

end
