(* ===== verification/Value_Constraints.thy ===== *)
theory Value_Constraints
  imports Chain_Config Tokens_Accounting Orders_Accounting Pos_Accounting
begin

text \<open>
  The value a transaction may move (\<open>chainstate/constraints-value-accumulator\<close>): what its inputs bring,
  per currency and, for withdrawn stake, per number of blocks it has to stay locked; what its outputs
  take; and what remains as the fee. A pair of a transaction's inputs is processed against temporary
  caches over the accounting views, so that several inputs cannot overspend one account.
\<close>

section \<open>Errors\<close>

datatype constraints_error =
    AmountOverflow
  | CoinOrTokenOverflow coin_or_token_id
  | AttemptToPrintMoney coin_or_token_id
  | AttemptToPrintMoneyOrViolateTimelockConstraints coin_or_token_id
  | AttemptToViolateFeeRequirements
  | InputsAndInputsUtxosLengthMismatch nat nat
  | MissingOutputOrSpent utxo_outpoint
  | ConstraintsPosError pos_error
  | ConstraintsOrdersError orders_error
  | ConstraintsTokensError tokens_error
  | PledgeAmountNotFound pool_id
  | SpendingNonSpendableOutput utxo_outpoint
  | DelegationBalanceNotFound delegation_id
  | AccountBalanceNotFound account_type
  | NegativeAccountBalance account_type
  | ConstraintsUnsupportedTokenVersion

type_synonym constraints_failure = "constraints_error failure"

fun orders_failure :: "orders_error failure \<Rightarrow> constraints_failure" where
  "orders_failure (Fail e) = Fail (ConstraintsOrdersError e)"
| "orders_failure Panic = Panic"

section \<open>Amounts by key\<close>

definition entry_amount :: "('k, amount) btree_map \<Rightarrow> 'k \<Rightarrow> amount" where
  "entry_amount m k = (case fmlookup m k of Some a \<Rightarrow> a | None \<Rightarrow> amount_zero)"

definition increase_entry ::
    "constraints_failure \<Rightarrow> 'k \<Rightarrow> amount \<Rightarrow> (('k, amount) btree_map, constraints_failure, unit) op" where
  "increase_entry e k a =
     bindS (modifyS (\<lambda>m. fmupd k (entry_amount m k) m)) (\<lambda>_.
     bindS (readS (\<lambda>m. ok_or (amount_add (entry_amount m k) a) e)) (\<lambda>v.
     modifyS (fmupd k v)))"

definition insert_or_increase ::
    "'k \<Rightarrow> amount \<Rightarrow> (('k, amount) btree_map, constraints_failure, unit) op" where
  "insert_or_increase = increase_entry (Fail AmountOverflow)"

definition decrease_or ::
    "'k \<Rightarrow> amount \<Rightarrow> constraints_failure \<Rightarrow> (('k, amount) btree_map, constraints_failure, unit) op" where
  "decrease_or k a e =
     (if a > amount_zero then
        bindS (readS (\<lambda>m. ok_or (fmlookup m k) e)) (\<lambda>v.
        bindS (liftS (ok_or (amount_sub v a) e)) (\<lambda>w.
        modifyS (fmupd k w)))
      else returnS ())"

definition merge_amount_maps ::
    "('k::linorder, amount) btree_map \<Rightarrow> ('k, amount) btree_map \<Rightarrow> constraints_failure + ('k, amount) btree_map" where
  "merge_amount_maps left right =
     (case try_for_each (\<lambda>(k, v). insert_or_increase k v) (btree_iter right) left of
        (Inl e, _) \<Rightarrow> Err e
      | (Inr _, m) \<Rightarrow> Ok m)"

section \<open>Accumulated fees\<close>

record accumulated_fee =
  fee_unconstrained_value :: "(coin_or_token_id, amount) btree_map"
  fee_timelock_constrained :: "(u64, amount) btree_map"

definition accumulated_fee_new :: accumulated_fee where
  "accumulated_fee_new = \<lparr> fee_unconstrained_value = fmempty, fee_timelock_constrained = fmempty \<rparr>"

definition accumulated_fee_combine :: "accumulated_fee \<Rightarrow> accumulated_fee \<Rightarrow> constraints_failure + accumulated_fee" where
  "accumulated_fee_combine self other =
     and_then (merge_amount_maps (fee_unconstrained_value self) (fee_unconstrained_value other)) (\<lambda>unconstrained.
     and_then (merge_amount_maps (fee_timelock_constrained self) (fee_timelock_constrained other)) (\<lambda>timelocked.
     Ok \<lparr> fee_unconstrained_value = unconstrained, fee_timelock_constrained = timelocked \<rparr>))"

datatype fee = Fee (fee_amount: amount)
datatype block_subsidy_value = Subsidy (subsidy_amount: amount)

definition map_into_block_fees :: "chain_config \<Rightarrow> block_height \<Rightarrow> accumulated_fee \<Rightarrow> constraints_failure + fee" where
  "map_into_block_fees cfg height self =
     (let unconstrained_change = entry_amount (fee_unconstrained_value self) CoinId in
      and_then (ok_or (staking_pool_spend_maturity_block_count cfg height) Panic) (\<lambda>maturity_distance.
      and_then (ok_or (amount_sum (map snd (filter (\<lambda>(lock, _). lock \<le> maturity_distance)
                        (btree_iter (fee_timelock_constrained self)))))
                 (Fail (CoinOrTokenOverflow CoinId))) (\<lambda>timelocked_change.
      and_then (ok_or (amount_add unconstrained_change timelocked_change)
                 (Fail (CoinOrTokenOverflow CoinId))) (\<lambda>fee.
      Ok (Fee fee)))))"

section \<open>The accumulator\<close>

record value_accumulator =
  unconstrained_value :: "(coin_or_token_id, amount) btree_map"
  timelock_constrained :: "(u64, amount) btree_map"

type_synonym 'a accumulator_op = "(value_accumulator, constraints_failure, 'a) op"

definition accumulator_new :: value_accumulator where
  "accumulator_new = \<lparr> unconstrained_value = fmempty, timelock_constrained = fmempty \<rparr>"

definition from_block_reward :: "fee \<Rightarrow> block_subsidy_value \<Rightarrow> value_accumulator option" where
  "from_block_reward total_fee sub = map_option (\<lambda>initial_value.
     \<lparr> unconstrained_value = btree_of_list [(CoinId, initial_value)], timelock_constrained = fmempty \<rparr>)
     (amount_add (fee_amount total_fee) (subsidy_amount sub))"

definition on_unconstrained ::
    "((coin_or_token_id, amount) btree_map, constraints_failure, 'a) op \<Rightarrow> 'a accumulator_op" where
  "on_unconstrained = zoomS unconstrained_value (\<lambda>x. unconstrained_value_update (\<lambda>_. x))"

definition on_timelocked ::
    "((u64, amount) btree_map, constraints_failure, 'a) op \<Rightarrow> 'a accumulator_op" where
  "on_timelocked = zoomS timelock_constrained (\<lambda>x. timelock_constrained_update (\<lambda>_. x))"

definition add_value :: "output_value \<Rightarrow> unit accumulator_op" where
  "add_value v = (case v of
      Coin a \<Rightarrow> on_unconstrained (insert_or_increase CoinId a)
    | TokenV0 _ \<Rightarrow> returnS ()
    | TokenV1 i a \<Rightarrow> on_unconstrained (insert_or_increase (TokenId i) a))"

text \<open>
  Coins that come out of staking: locked for the maturity distance of the height, which zero makes
  unconstrained (\<open>NonZeroU64::new\<close>).
\<close>

definition add_matured :: "chain_config \<Rightarrow> block_height \<Rightarrow> amount \<Rightarrow> unit accumulator_op" where
  "add_matured cfg height a =
     bindS (liftS (ok_or (staking_pool_spend_maturity_block_count cfg height) Panic)) (\<lambda>maturity_distance.
     if maturity_distance \<noteq> 0
     then on_timelocked (increase_entry (Fail (CoinOrTokenOverflow CoinId)) maturity_distance a)
     else on_unconstrained (insert_or_increase CoinId a))"

definition process_input_utxo :: "chain_config \<Rightarrow> block_height \<Rightarrow> 'p pos_delta \<Rightarrow> utxo_outpoint \<Rightarrow> tx_output \<Rightarrow>
    unit accumulator_op" where
  "process_input_utxo cfg height pos outpoint input_utxo =
     (let non_spendable = failS (Fail (SpendingNonSpendableOutput outpoint));
          stake = (\<lambda>pool.
            bindS (liftS (map_err (\<lambda>_. Fail (ConstraintsPosError PosViewFail)) (get_pool_data pos pool))) (\<lambda>data.
            bindS (liftS (ok_or data (Fail (PledgeAmountNotFound pool)))) (\<lambda>data.
            bindS (liftS (map_err (Fail \<circ> ConstraintsPosError) (staker_balance data))) (\<lambda>balance.
            add_matured cfg height balance)))) in
      case input_utxo of
        Transfer v _ \<Rightarrow> add_value v
      | LockThenTransfer v _ _ \<Rightarrow> add_value v
      | Htlc v _ \<Rightarrow> add_value v
      | CreateDelegationId _ _ \<Rightarrow> non_spendable
      | IssueFungibleToken _ \<Rightarrow> non_spendable
      | Burn _ \<Rightarrow> non_spendable
      | DataDeposit _ \<Rightarrow> non_spendable
      | CreateOrder _ \<Rightarrow> non_spendable
      | IssueNft i _ _ \<Rightarrow> on_unconstrained (insert_or_increase (TokenId i) 1)
      | DelegateStaking coins _ \<Rightarrow> on_unconstrained (insert_or_increase CoinId coins)
      | CreateStakePool pool _ \<Rightarrow> stake pool
      | ProduceBlockFromStake _ pool \<Rightarrow> stake pool)"

section \<open>Inputs\<close>

text \<open>What the loop over the inputs keeps: the accumulator, the amounts to deduct, the temporary caches.\<close>

record ('p, 't, 'o) inputs_state =
  is_accumulator :: value_accumulator
  is_total_to_deduct :: "(coin_or_token_id, amount) btree_map"
  is_pos :: "'p pos_delta"
  is_tokens :: "'t tokens_cache"
  is_orders :: "'o orders_cache"

type_synonym ('p, 't, 'o, 'a) inputs_op = "(('p, 't, 'o) inputs_state, constraints_failure, 'a) op"

definition on_accumulator :: "'a accumulator_op \<Rightarrow> ('p, 't, 'o, 'a) inputs_op" where
  "on_accumulator = zoomS is_accumulator (\<lambda>x. is_accumulator_update (\<lambda>_. x))"

definition on_total_to_deduct ::
    "((coin_or_token_id, amount) btree_map, constraints_failure, 'a) op \<Rightarrow> ('p, 't, 'o, 'a) inputs_op" where
  "on_total_to_deduct = zoomS is_total_to_deduct (\<lambda>x. is_total_to_deduct_update (\<lambda>_. x))"

definition on_pos :: "('p pos_delta, pos_error, 'a) op \<Rightarrow> ('p, 't, 'o, 'a) inputs_op" where
  "on_pos m = zoomS is_pos (\<lambda>x. is_pos_update (\<lambda>_. x)) (map_errS (Fail \<circ> ConstraintsPosError) m)"

definition on_tokens :: "('t tokens_cache, tokens_error, 'a) op \<Rightarrow> ('p, 't, 'o, 'a) inputs_op" where
  "on_tokens m = zoomS is_tokens (\<lambda>x. is_tokens_update (\<lambda>_. x)) (map_errS (Fail \<circ> ConstraintsTokensError) m)"

definition on_orders :: "('o orders_cache, orders_error failure, 'a) op \<Rightarrow> ('p, 't, 'o, 'a) inputs_op" where
  "on_orders m = zoomS is_orders (\<lambda>x. is_orders_update (\<lambda>_. x)) (map_errS orders_failure m)"

definition config_value :: "'a option \<Rightarrow> ('s, constraints_failure, 'a) op" where
  "config_value v = liftS (ok_or v Panic)"

definition process_input_account :: "chain_config \<Rightarrow> block_height \<Rightarrow> account_spending \<Rightarrow>
    ('p, 't, 'o, unit) inputs_op" where
  "process_input_account cfg height account = (case account of
     DelegationBalance delegation spend_amount \<Rightarrow>
       bindS (on_pos (spend_share_from_delegation_id delegation spend_amount)) (\<lambda>_.
       bindS (on_pos (readS (\<lambda>c. get_delegation_balance c delegation))) (\<lambda>_.
       on_accumulator (add_matured cfg height spend_amount))))"

definition constraints_output_value_amount :: "output_value \<Rightarrow> constraints_failure + amount" where
  "constraints_output_value_amount v = (case v of
      Coin a \<Rightarrow> Ok a
    | TokenV1 _ a \<Rightarrow> Ok a
    | TokenV0 _ \<Rightarrow> Err (Fail ConstraintsUnsupportedTokenVersion))"

definition currency_of :: "output_value \<Rightarrow> constraints_failure + coin_or_token_id" where
  "currency_of v = ok_or (from_output_value v) (Fail ConstraintsUnsupportedTokenVersion)"

text \<open>A read of the orders whose error is replaced by \<open>ViewFail\<close>.\<close>

definition view_orders :: "('o orders_cache \<Rightarrow> orders_error + 'a) \<Rightarrow> ('p, 't, 'o, 'a) inputs_op" where
  "view_orders f = on_orders (readS (\<lambda>c. map_err (\<lambda>_. Fail OrdersViewFail) (f c)))"

definition process_conclude_order_command :: "order_id \<Rightarrow> ('p, 't, 'o, coin_or_token_id \<times> amount) inputs_op" where
  "process_conclude_order_command oid =
     bindS (view_orders (\<lambda>c. get_order_data c oid)) (\<lambda>data.
     bindS (liftS (ok_or data (Fail (ConstraintsOrdersError (OrderDataNotFound oid))))) (\<lambda>order_data.
     bindS (view_orders (\<lambda>c. get_ask_balance c oid)) (\<lambda>ask_balance.
     bindS (view_orders (\<lambda>c. get_give_balance c oid)) (\<lambda>give_balance.
     bindS (on_orders (conclude_order oid)) (\<lambda>_.
     bindS (on_orders (read_order (\<lambda>c. get_ask_balance c oid))) (\<lambda>_.
     bindS (on_orders (read_order (\<lambda>c. get_give_balance c oid))) (\<lambda>_.
     bindS (liftS (constraints_output_value_amount (order_ask order_data))) (\<lambda>initially_asked.
     bindS (liftS (ok_or (amount_sub initially_asked ask_balance)
                      (Fail (NegativeAccountBalance (OrderAccount oid))))) (\<lambda>filled_amount.
     bindS (liftS (currency_of (order_ask order_data))) (\<lambda>ask_currency.
     bindS (on_accumulator (on_unconstrained (insert_or_increase ask_currency filled_amount))) (\<lambda>_.
     bindS (liftS (currency_of (order_give order_data))) (\<lambda>give_currency.
     bindS (on_accumulator (on_unconstrained (insert_or_increase give_currency give_balance))) (\<lambda>_.
     returnS (CoinId, amount_zero))))))))))))))"

definition process_fill_order_command :: "chain_config \<Rightarrow> block_height \<Rightarrow> order_id \<Rightarrow> amount \<Rightarrow>
    ('p, 't, 'o, coin_or_token_id \<times> amount) inputs_op" where
  "process_fill_order_command cfg height oid fill_amount_in_ask_currency =
     bindS (view_orders (\<lambda>c. get_order_data c oid)) (\<lambda>data.
     bindS (liftS (ok_or data (Fail (ConstraintsOrdersError (OrderDataNotFound oid))))) (\<lambda>order_data.
     bindS (config_value (map_option upgrade_orders_version (upgrade_at cfg height))) (\<lambda>orders_version.
     bindS (on_orders (readS (\<lambda>c. calculate_fill_order (orders_cache_view c) oid
              fill_amount_in_ask_currency orders_version))) (\<lambda>filled_amount.
     bindS (on_orders (fill_order oid fill_amount_in_ask_currency orders_version)) (\<lambda>_.
     bindS (on_orders (read_order (\<lambda>c. get_ask_balance c oid))) (\<lambda>_.
     bindS (on_orders (read_order (\<lambda>c. get_give_balance c oid))) (\<lambda>_.
     bindS (liftS (currency_of (order_give order_data))) (\<lambda>give_currency.
     bindS (on_accumulator (on_unconstrained (insert_or_increase give_currency filled_amount))) (\<lambda>_.
     bindS (liftS (currency_of (order_ask order_data))) (\<lambda>ask_currency.
     returnS (ask_currency, fill_amount_in_ask_currency)))))))))))"

definition process_input_account_command :: "chain_config \<Rightarrow> block_height \<Rightarrow> account_command \<Rightarrow>
    ('p, 't, 'o, coin_or_token_id \<times> amount) inputs_op" where
  "process_input_account_command cfg height command =
     (let charge = (\<lambda>v. bindS (config_value v) (\<lambda>a. returnS (CoinId, a))) in
      case command of
        MintTokens i a \<Rightarrow>
          bindS (on_tokens (mint_tokens i a)) (\<lambda>_.
          bindS (on_tokens (readS (\<lambda>c. get_circulating_supply c i))) (\<lambda>_.
          bindS (on_accumulator (on_unconstrained (insert_or_increase (TokenId i) a))) (\<lambda>_.
          charge (token_supply_change_fee cfg height))))
      | LockTokenSupply _ \<Rightarrow> charge (token_supply_change_fee cfg height)
      | UnmintTokens _ \<Rightarrow> charge (token_supply_change_fee cfg height)
      | FreezeToken _ _ \<Rightarrow> charge (token_freeze_fee cfg height)
      | UnfreezeToken _ \<Rightarrow> charge (token_freeze_fee cfg height)
      | ChangeTokenAuthority _ _ \<Rightarrow> charge (token_change_authority_fee cfg height)
      | ChangeTokenMetadataUri _ _ \<Rightarrow> returnS (CoinId, token_change_metadata_uri_fee)
      | ConcludeOrder i \<Rightarrow> process_conclude_order_command i
      | FillOrder i fill_amount_in_ask_currency _ \<Rightarrow>
          process_fill_order_command cfg height i fill_amount_in_ask_currency)"

definition process_input_order_account_command :: "chain_config \<Rightarrow> block_height \<Rightarrow> order_account_command \<Rightarrow>
    ('p, 't, 'o, (coin_or_token_id \<times> amount) option) inputs_op" where
  "process_input_order_account_command cfg height command = (case command of
      FillOrderV1 i a \<Rightarrow> bindS (process_fill_order_command cfg height i a) (\<lambda>r. returnS (Some r))
    | ConcludeOrderV1 i \<Rightarrow> bindS (process_conclude_order_command i) (\<lambda>r. returnS (Some r))
    | FreezeOrder _ \<Rightarrow> returnS None)"

definition process_input :: "chain_config \<Rightarrow> block_height \<Rightarrow> tx_input \<times> tx_output option \<Rightarrow>
    ('p, 't, 'o, unit) inputs_op" where
  "process_input cfg height = (\<lambda>(input, input_utxo). case input of
      UtxoInput outpoint \<Rightarrow>
        bindS (liftS (ok_or input_utxo (Fail (MissingOutputOrSpent outpoint)))) (\<lambda>utxo.
        bindS (readS (\<lambda>s. Ok (is_pos s))) (\<lambda>pos.
        on_accumulator (process_input_utxo cfg height pos outpoint utxo)))
    | AccountInput (AccountOutPoint _ account) \<Rightarrow> process_input_account cfg height account
    | AccountCommandInput _ command \<Rightarrow>
        bindS (process_input_account_command cfg height command) (\<lambda>(currency, to_deduct).
        on_total_to_deduct (insert_or_increase currency to_deduct))
    | OrderAccountCommandInput command \<Rightarrow>
        bindS (process_input_order_account_command cfg height command) (\<lambda>r. case r of
          Some (currency, to_deduct) \<Rightarrow> on_total_to_deduct (insert_or_increase currency to_deduct)
        | None \<Rightarrow> returnS ()))"

definition inputs_state_new :: "'o orders_view \<Rightarrow> 'p pos_view \<Rightarrow> 't tokens_view \<Rightarrow> ('p, 't, 'o) inputs_state" where
  "inputs_state_new orders pos tokens =
     \<lparr> is_accumulator = accumulator_new, is_total_to_deduct = fmempty, is_pos = pos_delta_new pos,
       is_tokens = tokens_cache_new tokens, is_orders = orders_cache_new orders \<rparr>"

definition deduct_total :: "coin_or_token_id \<Rightarrow> amount \<Rightarrow> unit accumulator_op" where
  "deduct_total currency a = on_unconstrained (decrease_or currency a (Fail AttemptToViolateFeeRequirements))"

definition from_inputs :: "chain_config \<Rightarrow> block_height \<Rightarrow> 'o orders_view \<Rightarrow> 'p pos_view \<Rightarrow> 't tokens_view \<Rightarrow>
    tx_input list \<Rightarrow> tx_output option list \<Rightarrow> constraints_failure + value_accumulator" where
  "from_inputs cfg height orders pos tokens inputs inputs_utxos =
     and_then (ensure (length inputs = length inputs_utxos)
       (Fail (InputsAndInputsUtxosLengthMismatch (length inputs) (length inputs_utxos)))) (\<lambda>_.
     case try_for_each (process_input cfg height) (zip inputs inputs_utxos) (inputs_state_new orders pos tokens) of
       (Inl e, _) \<Rightarrow> Err e
     | (Inr _, s) \<Rightarrow>
         (case try_for_each (\<lambda>(k, v). deduct_total k v) (btree_iter (is_total_to_deduct s)) (is_accumulator s) of
            (Inl e, _) \<Rightarrow> Err e
          | (Inr _, acc) \<Rightarrow> Ok acc))"

section \<open>Outputs\<close>

definition process_output_timelock :: "output_time_lock \<Rightarrow> amount \<Rightarrow> unit accumulator_op" where
  "process_output_timelock timelock locked_coins =
     (let unconstrained = on_unconstrained (insert_or_increase CoinId locked_coins) in
      case timelock of
        UntilHeight _ \<Rightarrow> unconstrained
      | UntilTime _ \<Rightarrow> unconstrained
      | ForSeconds _ \<Rightarrow> unconstrained
      | ForBlockCount block_count \<Rightarrow>
          if block_count \<noteq> 0 then on_timelocked (insert_or_increase block_count locked_coins)
          else unconstrained)"

definition process_output :: "chain_config \<Rightarrow> block_height \<Rightarrow> tx_output \<Rightarrow> unit accumulator_op" where
  "process_output cfg height output =
     (let coins = (\<lambda>a. on_unconstrained (insert_or_increase CoinId a)) in
      case output of
        Transfer v _ \<Rightarrow> add_value v
      | Burn v \<Rightarrow> add_value v
      | Htlc v _ \<Rightarrow> add_value v
      | DelegateStaking a _ \<Rightarrow> coins a
      | CreateStakePool _ data \<Rightarrow> coins (sp_pledge data)
      | ProduceBlockFromStake _ _ \<Rightarrow> returnS ()
      | CreateDelegationId _ _ \<Rightarrow> returnS ()
      | LockThenTransfer v _ timelock \<Rightarrow>
          (case v of
             Coin a \<Rightarrow> process_output_timelock timelock a
           | TokenV0 _ \<Rightarrow> returnS ()
           | TokenV1 i a \<Rightarrow> on_unconstrained (insert_or_increase (TokenId i) a))
      | DataDeposit _ \<Rightarrow> bindS (config_value (data_deposit_fee cfg height)) coins
      | IssueFungibleToken _ \<Rightarrow> coins fungible_token_issuance_fee
      | IssueNft _ _ _ \<Rightarrow> bindS (config_value (nft_issuance_fee cfg height)) coins
      | CreateOrder order_data \<Rightarrow>
          bindS (liftS (currency_of (chain_give order_data))) (\<lambda>currency.
          bindS (liftS (constraints_output_value_amount (chain_give order_data))) (\<lambda>a.
          on_unconstrained (insert_or_increase currency a))))"

definition from_outputs :: "chain_config \<Rightarrow> block_height \<Rightarrow> tx_output list \<Rightarrow>
    constraints_failure + value_accumulator" where
  "from_outputs cfg height outputs =
     (case try_for_each (process_output cfg height) outputs accumulator_new of
        (Inl e, _) \<Rightarrow> Err e
      | (Inr _, acc) \<Rightarrow> Ok acc)"

section \<open>Satisfying the constraints of the inputs with the outputs\<close>

text \<open>The places an output locked for some number of blocks may take its coins from.\<close>

datatype coin_cell = UnconstrainedCoins | ConstrainedCoins u64

fun cell_coins :: "value_accumulator \<Rightarrow> coin_cell \<Rightarrow> amount" where
  "cell_coins acc UnconstrainedCoins = entry_amount (unconstrained_value acc) CoinId"
| "cell_coins acc (ConstrainedCoins lock) = entry_amount (timelock_constrained acc) lock"

fun set_cell :: "coin_cell \<Rightarrow> amount \<Rightarrow> value_accumulator \<Rightarrow> value_accumulator" where
  "set_cell UnconstrainedCoins a acc = unconstrained_value_update (fmupd CoinId a) acc"
| "set_cell (ConstrainedCoins lock) a acc = timelock_constrained_update (fmupd lock a) acc"

text \<open>In the order of the iterator: the longest lock not above the output's first, free coins last.\<close>

definition constraint_range :: "value_accumulator \<Rightarrow> u64 \<Rightarrow> coin_cell list" where
  "constraint_range acc timelock =
     rev ((if fmlookup (unconstrained_value acc) CoinId = None then [] else [UnconstrainedCoins]) @
          map (ConstrainedCoins \<circ> fst)
            (filter (\<lambda>(lock, _). lock \<le> timelock) (btree_iter (timelock_constrained acc))))"

fun satisfy_locked :: "coin_cell list \<Rightarrow> amount \<Rightarrow> value_accumulator \<Rightarrow> constraints_failure + value_accumulator" where
  "satisfy_locked cells output_coins acc =
     (if output_coins > amount_zero then
        (case cells of
           [] \<Rightarrow> Err (Fail (AttemptToPrintMoneyOrViolateTimelockConstraints CoinId))
         | cell # rest \<Rightarrow>
             let constrained_coins = cell_coins acc cell in
             if output_coins > constrained_coins then
               and_then (ok_or (amount_sub output_coins constrained_coins) Panic) (\<lambda>remaining.
               satisfy_locked rest remaining (set_cell cell amount_zero acc))
             else
               and_then (ok_or (amount_sub constrained_coins output_coins) Panic) (\<lambda>left.
               Ok (set_cell cell left acc)))
      else Ok acc)"

definition satisfy_timelock :: "u64 \<Rightarrow> amount \<Rightarrow> unit accumulator_op" where
  "satisfy_timelock timelock locked_coins acc =
     (case satisfy_locked (constraint_range acc timelock) locked_coins acc of
        Inl e \<Rightarrow> (Inl e, acc)
      | Inr acc' \<Rightarrow> (Inr (), acc'))"

definition satisfy_unconstrained :: "coin_or_token_id \<Rightarrow> amount \<Rightarrow> unit accumulator_op" where
  "satisfy_unconstrained currency a = on_unconstrained
     (decrease_or currency a (Fail (AttemptToPrintMoneyOrViolateTimelockConstraints currency)))"

definition satisfy_with :: "value_accumulator \<Rightarrow> value_accumulator \<Rightarrow> constraints_failure + accumulated_fee" where
  "satisfy_with self other =
     (case bindS (try_for_each (\<lambda>(k, v). satisfy_unconstrained k v) (btree_iter (unconstrained_value other))) (\<lambda>_.
           try_for_each (\<lambda>(k, v). satisfy_timelock k v) (btree_iter (timelock_constrained other))) self of
        (Inl e, _) \<Rightarrow> Err e
      | (Inr _, acc) \<Rightarrow>
          Ok \<lparr> fee_unconstrained_value = unconstrained_value acc,
               fee_timelock_constrained = timelock_constrained acc \<rparr>)"

section \<open>Amounts of an accumulator\<close>

text \<open>Free value per currency, coins per lock, and the coins locked up to or from a number of blocks.\<close>

definition free_value :: "value_accumulator \<Rightarrow> coin_or_token_id \<Rightarrow> int" where
  "free_value acc c = uint (entry_amount (unconstrained_value acc) c)"

definition locked_at :: "value_accumulator \<Rightarrow> u64 \<Rightarrow> int" where
  "locked_at acc lock = uint (entry_amount (timelock_constrained acc) lock)"

definition locked_up_to :: "value_accumulator \<Rightarrow> u64 \<Rightarrow> int" where
  "locked_up_to acc t = (\<Sum>lock\<in>{..t}. locked_at acc lock)"

definition locked_from :: "value_accumulator \<Rightarrow> u64 \<Rightarrow> int" where
  "locked_from acc t = (\<Sum>lock\<in>{t..}. locked_at acc lock)"

definition total_value :: "value_accumulator \<Rightarrow> coin_or_token_id \<Rightarrow> int" where
  "total_value acc c = free_value acc c + (if c = CoinId then \<Sum>lock\<in>UNIV. locked_at acc lock else 0)"

lemma entry_amount_upd [simp]: "entry_amount (fmupd k v m) j = (if j = k then v else entry_amount m j)"
  by (simp add: entry_amount_def)

lemma entry_amount_empty [simp]: "entry_amount fmempty k = 0"
  by (simp add: entry_amount_def amount_zero_def)

lemma fmupd_entry: "fmupd k v (fmupd k (entry_amount m k) m) = fmupd k v m"
  by (rule fmap_ext) simp

lemma increase_entry_Inr [op_simps]:
  "increase_entry e k a m = (Inr u, m') \<longleftrightarrow>
     (\<exists>v. uint v = uint (entry_amount m k) + uint a \<and> m' = fmupd k v m)"
  by (auto simp: increase_entry_def op_simps result_simps amount_add_def checked_simps fmupd_entry)

lemma insert_or_increase_Inr [op_simps]:
  "insert_or_increase k a m = (Inr u, m') \<longleftrightarrow>
     (\<exists>v. uint v = uint (entry_amount m k) + uint a \<and> m' = fmupd k v m)"
  by (simp add: insert_or_increase_def increase_entry_Inr)

lemma decrease_or_Inr [op_simps]:
  "decrease_or k a e m = (Inr u, m') \<longleftrightarrow>
     (if a = 0 then m' = m
      else fmlookup m k \<noteq> None \<and> (\<exists>v. uint v = uint (entry_amount m k) - uint a \<and> m' = fmupd k v m))"
proof -
  have "amount_zero < a \<longleftrightarrow> a \<noteq> 0" by (simp add: amount_zero_def word_gt_0)
  then show ?thesis
    by (auto simp: decrease_or_def op_simps result_simps amount_sub_def checked_simps entry_amount_def)
qed

lemma decrease_or_amounts:
  assumes "decrease_or k a e m = (Inr u, m')"
  shows "uint (entry_amount m' j) = uint (entry_amount m j) - (if j = k then uint a else 0)"
  using assms by (auto simp: decrease_or_Inr split: if_splits)

lemma decrease_or_success:
  "(\<exists>u m'. decrease_or k a e m = (Inr u, m')) \<longleftrightarrow> uint a \<le> uint (entry_amount m k)"
proof -
  have "\<exists>v::amount. uint v = uint (entry_amount m k) - uint a" if "uint a \<le> uint (entry_amount m k)"
    using that int_below_word [of "uint (entry_amount m k) - uint a" "entry_amount m k"] by simp
  moreover have "uint a \<le> uint (entry_amount m k)" if "uint v = uint (entry_amount m k) - uint a" for v :: amount
    using that uint_ge_0 [of v] by linarith
  moreover have "fmlookup m k \<noteq> None" if "a \<noteq> 0" "uint a \<le> uint (entry_amount m k)"
    using that word_gt_0 [of a] by (auto simp: entry_amount_def amount_zero_def word_less_def split: option.splits)
  ultimately show ?thesis by (auto simp: decrease_or_Inr)
qed

section \<open>Taking locked coins out of the constraints\<close>

lemma cell_coins_set [simp]: "cell_coins (set_cell k a acc) j = (if j = k then a else cell_coins acc j)"
  by (cases k; cases j) auto

lemma set_cell_tokens [simp]: "c \<noteq> CoinId \<Longrightarrow> free_value (set_cell k a acc) c = free_value acc c"
  by (cases k) (auto simp: free_value_def)

declare cell_coins.simps [simp del]

abbreviation cell_value :: "value_accumulator \<Rightarrow> coin_cell \<Rightarrow> int" where
  "cell_value acc cell \<equiv> uint (cell_coins acc cell)"

lemma satisfy_locked_steps:
  "satisfy_locked cells 0 acc = Ok acc"
  "0 < x \<Longrightarrow> satisfy_locked [] x acc = Err (Fail (AttemptToPrintMoneyOrViolateTimelockConstraints CoinId))"
  "0 < x \<Longrightarrow> x \<le> cell_coins acc cell \<Longrightarrow>
     satisfy_locked (cell # cells) x acc = Ok (set_cell cell (cell_coins acc cell - x) acc)"
  "cell_coins acc cell < x \<Longrightarrow>
     satisfy_locked (cell # cells) x acc = satisfy_locked cells (x - cell_coins acc cell) (set_cell cell 0 acc)"
  by (subst satisfy_locked.simps,
      auto simp: amount_zero_def amount_sub_def checked_sub_u_def and_then_def ok_or_def Let_def word_gt_0
      simp del: satisfy_locked.simps)+

declare satisfy_locked.simps [simp del]

lemma satisfy_locked_cases:
  fixes x c :: amount
  obtains "x = 0" | "0 < x" "x \<le> c" "uint (c - x) = uint c - uint x"
  | "c < x" "0 < x" "uint (x - c) = uint x - uint c"
proof -
  consider "x = 0" | "0 < x" "x \<le> c" | "c < x" "0 < x" by (metis linorder_not_le word_gt_0)
  then show thesis using that uint_minus_simple_alt [of x c] uint_minus_simple_alt [of c x]
    by cases (auto simp: less_imp_le)
qed

lemma satisfy_locked_ok:
  assumes "satisfy_locked cells x acc = Ok acc'" and "distinct cells"
  shows "(\<Sum>c\<in>set cells. cell_value acc' c) = (\<Sum>c\<in>set cells. cell_value acc c) - uint x \<and>
    (\<forall>c. cell_value acc' c \<le> cell_value acc c) \<and>
    (\<forall>c. c \<notin> set cells \<longrightarrow> cell_coins acc' c = cell_coins acc c) \<and>
    (\<forall>c. c \<noteq> CoinId \<longrightarrow> free_value acc' c = free_value acc c)"
  using assms
proof (induction cells arbitrary: x acc)
  case Nil
  then show ?case by (cases "x = 0") (auto simp: satisfy_locked_steps word_gt_0)
next
  case (Cons cell cells)
  let ?c = "cell_coins acc cell"
  have eq: "(\<Sum>c\<in>set cells. cell_value (set_cell cell a acc) c) = (\<Sum>c\<in>set cells. cell_value acc c)" for a
    using Cons.prems(2) by (intro sum.cong) auto
  show ?case
  proof (cases rule: satisfy_locked_cases [where x = x and c = ?c])
    case 1
    with Cons.prems show ?thesis by (simp add: satisfy_locked_steps)
  next
    case 2
    with Cons.prems eq show ?thesis by (auto simp: satisfy_locked_steps)
  next
    case 3
    with Cons.prems(1) have "satisfy_locked cells (x - ?c) (set_cell cell 0 acc) = Ok acc'"
      by (simp add: satisfy_locked_steps)
    note IH = Cons.IH [OF this]
    have "cell_value acc' c \<le> cell_value acc c" for c
      using IH Cons.prems(2) by (cases "c = cell") (auto dest: spec [of _ c])
    with IH Cons.prems(2) 3 eq [of 0] show ?thesis by auto
  qed
qed

lemma satisfy_locked_success:
  "distinct cells \<Longrightarrow> is_ok (satisfy_locked cells x acc) \<longleftrightarrow> uint x \<le> (\<Sum>c\<in>set cells. cell_value acc c)"
proof (induction cells arbitrary: x acc)
  case Nil
  show ?case using uint_ge_0 [of x] by (cases "x = 0") (auto simp: satisfy_locked_steps word_gt_0 is_ok_def uint_0_iff)
next
  case (Cons cell cells)
  let ?c = "cell_coins acc cell"
  have eq: "(\<Sum>c\<in>set cells. cell_value (set_cell cell 0 acc) c) = (\<Sum>c\<in>set cells. cell_value acc c)"
    using Cons.prems by (intro sum.cong) auto
  have nonneg: "0 \<le> (\<Sum>c\<in>set cells. cell_value acc c)" by (simp add: sum_nonneg)
  show ?case
  proof (cases rule: satisfy_locked_cases [where x = x and c = ?c])
    case 1
    with nonneg Cons.prems show ?thesis by (simp add: satisfy_locked_steps is_ok_def)
  next
    case 2
    with nonneg Cons.prems show ?thesis by (simp add: satisfy_locked_steps is_ok_def word_le_def)
  next
    case 3
    with Cons.IH [of "x - ?c" "set_cell cell 0 acc"] Cons.prems eq show ?thesis
      by (simp add: satisfy_locked_steps) linarith
  qed
qed

definition coins_up_to :: "value_accumulator \<Rightarrow> u64 \<Rightarrow> int" where
  "coins_up_to acc t = free_value acc CoinId + locked_up_to acc t"

lemma cell_value_simps [simp]:
  "cell_value acc UnconstrainedCoins = free_value acc CoinId"
  "cell_value acc (ConstrainedCoins l) = locked_at acc l"
  by (simp_all add: free_value_def locked_at_def cell_coins.simps)

lemma sum_cells: "(\<Sum>c\<in>ConstrainedCoins ` A. cell_value acc c) = (\<Sum>l\<in>A. locked_at acc l)"
  by (subst sum.reindex) (auto simp: inj_on_def)

lemma coins_up_to_cells:
  "coins_up_to acc t = (\<Sum>c\<in>insert UnconstrainedCoins (ConstrainedCoins ` {..t}). cell_value acc c)"
  by (subst sum.insert) (auto simp: coins_up_to_def locked_up_to_def sum_cells)

lemma constraint_range_distinct: "distinct (constraint_range acc t)"
proof -
  have "distinct (map fst (filter (\<lambda>(l, _). l \<le> t) (btree_iter (timelock_constrained acc))))"
    by (rule distinct_map_filter) simp
  then have "distinct (map ConstrainedCoins (map fst (filter (\<lambda>(l, _). l \<le> t) (btree_iter (timelock_constrained acc)))))"
    by (rule distinct_map [THEN iffD2, OF conjI]) (simp add: inj_on_def)
  then show ?thesis by (auto simp: constraint_range_def)
qed

lemma constraint_range_subset:
  "set (constraint_range acc t) \<subseteq> insert UnconstrainedCoins (ConstrainedCoins ` {..t})"
  by (auto simp: constraint_range_def)

lemma constraint_range_rest:
  assumes "c \<in> insert UnconstrainedCoins (ConstrainedCoins ` {..t}) - set (constraint_range acc t)"
  shows "cell_value acc c = 0"
proof (cases c)
  case UnconstrainedCoins
  with assms show ?thesis
    by (auto simp: constraint_range_def free_value_def entry_amount_def amount_zero_def split: if_splits)
next
  case (ConstrainedCoins l)
  with assms have "l \<le> t" "l \<notin> fst ` set (btree_iter (timelock_constrained acc))"
    by (auto simp: constraint_range_def image_iff split: if_splits)
  then have "fmlookup (timelock_constrained acc) l = None"
    using map_of_eq_None_iff [of "btree_iter (timelock_constrained acc)" l] by simp
  with ConstrainedCoins show ?thesis by (simp add: locked_at_def entry_amount_def amount_zero_def)
qed

lemma constraint_range_sum: "(\<Sum>c\<in>set (constraint_range acc t). cell_value acc c) = coins_up_to acc t"
  unfolding coins_up_to_cells
  by (rule sum.mono_neutral_left) (use constraint_range_subset constraint_range_rest in auto)

lemma satisfy_timelock_success:
  "is_ok (fst (satisfy_timelock t x acc)) \<longleftrightarrow> uint x \<le> coins_up_to acc t"
  using satisfy_locked_success [OF constraint_range_distinct, of acc t x acc]
  by (simp add: constraint_range_sum satisfy_timelock_def is_ok_def split: sum.splits)

lemma satisfy_timelock_cells:
  assumes "satisfy_timelock t x acc = (Inr u, acc')"
  shows "insert UnconstrainedCoins (ConstrainedCoins ` {..t}) \<subseteq> S \<Longrightarrow> finite S \<Longrightarrow>
      (\<Sum>c\<in>S. cell_value acc' c) = (\<Sum>c\<in>S. cell_value acc c) - uint x"
    and "cell_value acc' c \<le> cell_value acc c"
    and "t < l \<Longrightarrow> locked_at acc' l = locked_at acc l"
    and "c' \<noteq> CoinId \<Longrightarrow> free_value acc' c' = free_value acc c'"
proof -
  let ?R = "set (constraint_range acc t)"
  from assms have "satisfy_locked (constraint_range acc t) x acc = Ok acc'"
    by (simp add: satisfy_timelock_def split: sum.splits)
  note ok = satisfy_locked_ok [OF this constraint_range_distinct]
  then show "cell_value acc' c \<le> cell_value acc c" and "c' \<noteq> CoinId \<Longrightarrow> free_value acc' c' = free_value acc c'"
    by blast+
  show "t < l \<Longrightarrow> locked_at acc' l = locked_at acc l"
    using ok constraint_range_subset [of acc t] by (auto simp: locked_at_def cell_coins.simps dest!: spec [of _ "ConstrainedCoins l"])
  assume S: "insert UnconstrainedCoins (ConstrainedCoins ` {..t}) \<subseteq> S" "finite S"
  then have "?R \<subseteq> S" using constraint_range_subset [of acc t] by blast
  have "(\<Sum>c\<in>S - ?R. cell_value acc' c) = (\<Sum>c\<in>S - ?R. cell_value acc c)"
    using ok by (intro sum.cong) auto
  with ok \<open>?R \<subseteq> S\<close> S(2) show "(\<Sum>c\<in>S. cell_value acc' c) = (\<Sum>c\<in>S. cell_value acc c) - uint x"
    by (simp add: sum.subset_diff [of ?R S])
qed

lemma satisfy_timelock_coins:
  assumes "satisfy_timelock t x acc = (Inr u, acc')"
  shows "t \<le> s \<Longrightarrow> coins_up_to acc' s = coins_up_to acc s - uint x"
    and "locked_from acc L - (if L \<le> t then uint x else 0) \<le> locked_from acc' L"
proof -
  note ok = satisfy_timelock_cells [OF assms]
  show "t \<le> s \<Longrightarrow> coins_up_to acc' s = coins_up_to acc s - uint x"
    unfolding coins_up_to_cells by (rule ok(1)) (auto intro: order_trans)
  show "locked_from acc L - (if L \<le> t then uint x else 0) \<le> locked_from acc' L"
  proof (cases "L \<le> t")
    case False
    then show ?thesis using ok(3) by (simp add: locked_from_def)
  next
    case True
    let ?S = "insert UnconstrainedCoins (ConstrainedCoins ` UNIV)"
    have "(\<Sum>c\<in>ConstrainedCoins ` {L..}. cell_value acc c - cell_value acc' c) \<le>
        (\<Sum>c\<in>?S. cell_value acc c - cell_value acc' c)"
      using ok(2) by (intro sum_mono2) auto
    also have "\<dots> = uint x" using ok(1) [of ?S] by (simp add: sum_subtractf image_mono subset_insertI2)
    finally have "(\<Sum>l\<in>{L..}. locked_at acc l) - (\<Sum>l\<in>{L..}. locked_at acc' l) \<le> uint x"
      by (simp only: sum_subtractf sum_cells)
    with True show ?thesis by (simp add: locked_from_def)
  qed
qed

section \<open>All locked outputs\<close>

abbreviation sum_where :: "('k \<Rightarrow> bool) \<Rightarrow> ('k \<times> amount) list \<Rightarrow> int" where
  "sum_where P qs \<equiv> sum_list (map (\<lambda>(_, x). uint x) (filter (\<lambda>(k, _). P k) qs))"

lemma satisfy_timelocks_ok:
  assumes "try_for_each (\<lambda>(k, v). satisfy_timelock k v) qs acc = (Inr u, acc')"
  shows "(\<And>t. t \<in> fst ` set qs \<Longrightarrow> t \<le> s) \<Longrightarrow> coins_up_to acc' s = coins_up_to acc s - sum_where (\<lambda>_. True) qs"
    and "locked_from acc L - sum_where (\<lambda>t. L \<le> t) qs \<le> locked_from acc' L"
    and "c \<noteq> CoinId \<Longrightarrow> free_value acc' c = free_value acc c"
  using assms
proof (induction qs arbitrary: acc)
  case Nil
  { case 1 then show ?case by (simp add: op_simps) next
    case 2 then show ?case by (simp add: op_simps) next
    case 3 then show ?case by (simp add: op_simps) }
next
  case (Cons q qs)
  obtain t x where q: "q = (t, x)" by (cases q)
  { case 1
    with q obtain acc1 where st: "satisfy_timelock t x acc = (Inr (), acc1)"
        "try_for_each (\<lambda>(k, v). satisfy_timelock k v) qs acc1 = (Inr u, acc')" by (auto simp: op_simps)
    with 1 q Cons.IH(1) [of acc1] satisfy_timelock_coins(1) [OF st(1), of s] show ?case by auto
  next
    case 2
    with q obtain acc1 where st: "satisfy_timelock t x acc = (Inr (), acc1)"
        "try_for_each (\<lambda>(k, v). satisfy_timelock k v) qs acc1 = (Inr u, acc')" by (auto simp: op_simps)
    with q Cons.IH(2) [of acc1] satisfy_timelock_coins(2) [OF st(1), of L] show ?case by auto
  next
    case 3
    with q obtain acc1 where st: "satisfy_timelock t x acc = (Inr (), acc1)"
        "try_for_each (\<lambda>(k, v). satisfy_timelock k v) qs acc1 = (Inr u, acc')" by (auto simp: op_simps)
    with 3 q Cons.IH(3) [of acc1] satisfy_timelock_cells(4) [OF st(1), of c] show ?case by auto }
qed

lemma satisfy_timelocks_success:
  assumes "sorted (map fst qs)" and "distinct (map fst qs)"
  shows "is_ok (fst (try_for_each (\<lambda>(k, v). satisfy_timelock k v) qs acc)) \<longleftrightarrow>
    (\<forall>t\<in>fst ` set qs. sum_where (\<lambda>s. s \<le> t) qs \<le> coins_up_to acc t)"
  using assms
proof (induction qs arbitrary: acc)
  case Nil
  then show ?case by (simp add: returnS_def is_ok_def)
next
  case (Cons q qs)
  obtain t x where q: "q = (t, x)" by (cases q)
  have later: "\<forall>s\<in>fst ` set qs. t < s" using Cons.prems q by force
  then have first: "filter (\<lambda>(s, _). s \<le> t) qs = []" by (auto simp: filter_empty_conv)
  show ?case
  proof (cases "satisfy_timelock t x acc")
    case (Pair r acc1)
    show ?thesis
    proof (cases r)
      case (Inl e)
      with Pair have "\<not> uint x \<le> coins_up_to acc t"
        using satisfy_timelock_success [of t x acc] by (simp add: is_ok_def)
      with Inl Pair q first show ?thesis by (simp add: bindS_def is_ok_def)
    next
      case (Inr u)
      with Pair have x: "uint x \<le> coins_up_to acc t"
        using satisfy_timelock_success [of t x acc] by (simp add: is_ok_def)
      have ok: "is_ok (fst (try_for_each (\<lambda>(k, v). satisfy_timelock k v) (q # qs) acc)) \<longleftrightarrow>
          is_ok (fst (try_for_each (\<lambda>(k, v). satisfy_timelock k v) qs acc1))"
        using Inr Pair q by (simp add: bindS_def)
      have "coins_up_to acc1 s = coins_up_to acc s - uint x" if "s \<in> fst ` set qs" for s
        using later that Pair Inr satisfy_timelock_coins(1) [of t x acc u acc1 s] by auto
      moreover have "sum_where (\<lambda>k. k \<le> s) (q # qs) = uint x + sum_where (\<lambda>k. k \<le> s) qs" if "s \<in> fst ` set qs" for s
        using later that q by (auto simp: less_imp_le)
      moreover have "sum_where (\<lambda>k. k \<le> t) (q # qs) = uint x" using q first by simp
      ultimately have "(\<forall>s\<in>fst ` set (q # qs). sum_where (\<lambda>k. k \<le> s) (q # qs) \<le> coins_up_to acc s) \<longleftrightarrow>
          (\<forall>s\<in>fst ` set qs. sum_where (\<lambda>k. k \<le> s) qs \<le> coins_up_to acc1 s)"
        using q x by (simp only: list.set image_insert ball_simps fst_conv cong: ball_cong) force
      with ok Cons show ?thesis by simp
    qed
  qed
qed

section \<open>Unlocked outputs and fees\<close>

text \<open>Taking an amount out of the free value of its currency, whatever the error when it is not there.\<close>

definition take_cell :: "int \<Rightarrow> amount \<Rightarrow> int option" where
  "take_cell v a = (if uint a \<le> v then Some (v - uint a) else None)"

lemma on_unconstrained_Inr [op_simps]:
  "on_unconstrained m acc = (Inr u, acc') \<longleftrightarrow>
     (\<exists>x. m (unconstrained_value acc) = (Inr u, x) \<and> acc' = acc\<lparr>unconstrained_value := x\<rparr>)"
  by (auto simp: on_unconstrained_def op_simps)

lemma on_timelocked_Inr [op_simps]:
  "on_timelocked m acc = (Inr u, acc') \<longleftrightarrow>
     (\<exists>x. m (timelock_constrained acc) = (Inr u, x) \<and> acc' = acc\<lparr>timelock_constrained := x\<rparr>)"
  by (auto simp: on_timelocked_def op_simps)

lemma locked_at_unconstrained [simp]:
  "locked_at (acc\<lparr>unconstrained_value := x\<rparr>) = locked_at acc"
  "free_value (acc\<lparr>timelock_constrained := y\<rparr>) = free_value acc"
  by (auto simp: locked_at_def free_value_def)

lemma on_unconstrained_locked: "on_unconstrained m acc = (r, acc') \<Longrightarrow> locked_at acc' = locked_at acc"
  by (auto simp: on_unconstrained_def op_simps)

lemma take_free_ok:
  assumes "on_unconstrained (decrease_or k a e) acc = (Inr u, acc')"
  shows "take_cell (free_value acc k) a = Some (free_value acc' k)"
    and "j \<noteq> k \<Longrightarrow> free_value acc' j = free_value acc j" and "locked_at acc' = locked_at acc"
proof -
  from assms obtain x where x: "decrease_or k a e (unconstrained_value acc) = (Inr u, x)"
      "acc' = acc\<lparr>unconstrained_value := x\<rparr>" by (auto simp: op_simps)
  have "uint a \<le> free_value acc k"
    using x(1) decrease_or_success [of k a e "unconstrained_value acc"] by (auto simp: free_value_def)
  with decrease_or_amounts [OF x(1)] x(2)
  show "take_cell (free_value acc k) a = Some (free_value acc' k)"
    and "j \<noteq> k \<Longrightarrow> free_value acc' j = free_value acc j" and "locked_at acc' = locked_at acc"
    by (simp_all add: take_cell_def free_value_def)
qed

lemma take_free_progress:
  assumes "take_cell (free_value acc k) a = Some v"
  shows "\<exists>acc'. on_unconstrained (decrease_or k a e) acc = (Inr (), acc')"
proof -
  from assms have "uint a \<le> uint (entry_amount (unconstrained_value acc) k)"
    by (simp add: take_cell_def free_value_def split: if_splits)
  with decrease_or_success [of k a e "unconstrained_value acc"] show ?thesis by (auto simp: op_simps)
qed

interpretation unconstrained: keyed_progress satisfy_unconstrained free_value "\<lambda>_. take_cell" "\<lambda>_ _ _. ()"
  by unfold_locales (auto simp: satisfy_unconstrained_def take_free_ok take_free_progress)

interpretation deduction: keyed_progress deduct_total free_value "\<lambda>_. take_cell" "\<lambda>_ _ _. ()"
  by unfold_locales (auto simp: deduct_total_def take_free_ok take_free_progress)

lemma taken_value:
  assumes "fmlookup m k = None \<Longrightarrow> w = v" and "\<And>x. fmlookup m k = Some x \<Longrightarrow> take_cell v x = Some w"
  shows "w = v - uint (entry_amount m k)"
  using assms
  by (cases "fmlookup m k") (auto simp: entry_amount_def amount_zero_def take_cell_def split: if_splits)

lemma satisfy_unconstrained_all:
  assumes "try_for_each (\<lambda>(k, v). satisfy_unconstrained k v) (btree_iter m) acc = (Inr u, acc')"
  shows "free_value acc' c = free_value acc c - uint (entry_amount m c)" and "locked_at acc' = locked_at acc"
proof -
  from assms obtain ys where "mapS (\<lambda>(k, v). satisfy_unconstrained k v) (btree_iter m) acc = (Inr ys, acc')"
    by (auto simp: try_for_each_Inr)
  note ok = unconstrained.iter_ok [OF this]
  show "free_value acc' c = free_value acc c - uint (entry_amount m c)" by (rule taken_value) (use ok in auto)
  show "locked_at acc' = locked_at acc"
    by (rule try_for_each_invariant [OF assms]) (auto simp: satisfy_unconstrained_def dest: on_unconstrained_locked)
qed

lemma deduct_all:
  assumes "try_for_each (\<lambda>(k, v). deduct_total k v) (btree_iter m) acc = (Inr u, acc')"
  shows "free_value acc' c = free_value acc c - uint (entry_amount m c)" and "locked_at acc' = locked_at acc"
proof -
  from assms obtain ys where "mapS (\<lambda>(k, v). deduct_total k v) (btree_iter m) acc = (Inr ys, acc')"
    by (auto simp: try_for_each_Inr)
  note ok = deduction.iter_ok [OF this]
  show "free_value acc' c = free_value acc c - uint (entry_amount m c)" by (rule taken_value) (use ok in auto)
  show "locked_at acc' = locked_at acc"
    by (rule try_for_each_invariant [OF assms]) (auto simp: deduct_total_def dest: on_unconstrained_locked)
qed

lemma satisfy_unconstrained_success:
  "is_ok (fst (try_for_each (\<lambda>(k, v). satisfy_unconstrained k v) (btree_iter m) acc)) \<longleftrightarrow>
     (\<forall>c. uint (entry_amount m c) \<le> free_value acc c)"
proof
  assume "is_ok (fst (try_for_each (\<lambda>(k, v). satisfy_unconstrained k v) (btree_iter m) acc))"
  then obtain u acc' where "try_for_each (\<lambda>(k, v). satisfy_unconstrained k v) (btree_iter m) acc = (Inr u, acc')"
    by (rule result_of_ok)
  from satisfy_unconstrained_all(1) [OF this] show "\<forall>c. uint (entry_amount m c) \<le> free_value acc c"
    by (metis diff_ge_0_iff_ge free_value_def uint_ge_0)
next
  assume "\<forall>c. uint (entry_amount m c) \<le> free_value acc c"
  then have "\<exists>v. take_cell (free_value acc c) x = Some v" if "fmlookup m c = Some x" for c x
    using that by (auto simp: entry_amount_def take_cell_def dest!: spec [of _ c])
  from unconstrained.iter_progress [where m = m, OF this]
  show "is_ok (fst (try_for_each (\<lambda>(k, v). satisfy_unconstrained k v) (btree_iter m) acc))"
    by (auto simp: try_for_each_mapS bindS_def returnS_def is_ok_def)
qed

section \<open>The fee that remains\<close>

definition fee_accumulator :: "accumulated_fee \<Rightarrow> value_accumulator" where
  "fee_accumulator fee = \<lparr> unconstrained_value = fee_unconstrained_value fee,
     timelock_constrained = fee_timelock_constrained fee \<rparr>"

lemma sum_where_iter:
  "sum_where P (btree_iter m) = (\<Sum>l\<in>{l. P l}. uint (entry_amount m l))"
  for m :: "(u64, amount) btree_map"
proof -
  let ?qs = "filter (\<lambda>(k, _). P k) (btree_iter m)"
  have "distinct (map fst ?qs)" by (rule distinct_map_filter) simp
  then have d: "distinct ?qs" "inj_on fst (set ?qs)" by (simp_all only: distinct_map)
  have e: "entry_amount m (fst p) = snd p" if "p \<in> set ?qs" for p
    using that btree_iter_set [of "fst p" "snd p" m] by (auto simp: entry_amount_def)
  have "sum_where P (btree_iter m) = (\<Sum>p\<in>set ?qs. uint (entry_amount m (fst p)))"
    by (subst sum_list_distinct_conv_sum_set [OF d(1)], rule sum.cong)
      (simp_all only: e case_prod_unfold)
  also have "\<dots> = (\<Sum>l\<in>fst ` set ?qs. uint (entry_amount m l))"
    using d(2) by (simp add: sum.reindex)
  also have "\<dots> = (\<Sum>l\<in>{l. P l}. uint (entry_amount m l))"
  proof (rule sum.mono_neutral_left)
    have "fmlookup m l = None" if "P l" "l \<notin> fst ` set ?qs" for l
      using that map_of_eq_None_iff [of "btree_iter m" l] by force
    then show "\<forall>l\<in>{l. P l} - fst ` set ?qs. uint (entry_amount m l) = 0"
      by (auto simp: entry_amount_def amount_zero_def)
  qed auto
  finally show ?thesis .
qed

lemma locked_sums:
  "locked_up_to acc t = sum_where (\<lambda>l. l \<le> t) (btree_iter (timelock_constrained acc))"
  "locked_from acc t = sum_where (\<lambda>l. t \<le> l) (btree_iter (timelock_constrained acc))"
  by (simp_all add: locked_up_to_def locked_from_def sum_where_iter locked_at_def atMost_def atLeast_def)

lemma satisfy_with_Ok:
  assumes "satisfy_with self other = Ok fee"
  obtains acc where
    "\<forall>c. free_value acc c = free_value self c - free_value other c" "locked_at acc = locked_at self"
    "try_for_each (\<lambda>(k, v). satisfy_timelock k v) (btree_iter (timelock_constrained other)) acc =
       (Inr (), fee_accumulator fee)"
proof -
  let ?m = "bindS (try_for_each (\<lambda>(k, v). satisfy_unconstrained k v) (btree_iter (unconstrained_value other))) (\<lambda>_.
      try_for_each (\<lambda>(k, v). satisfy_timelock k v) (btree_iter (timelock_constrained other)))"
  obtain r acc' where r: "?m self = (r, acc')" by (cases "?m self")
  with assms have "r = Inr ()" and
    fee: "fee = \<lparr> fee_unconstrained_value = unconstrained_value acc', fee_timelock_constrained = timelock_constrained acc' \<rparr>"
    by (cases r; simp add: satisfy_with_def)+
  with r obtain u acc where
    st: "try_for_each (\<lambda>(k, v). satisfy_unconstrained k v) (btree_iter (unconstrained_value other)) self = (Inr u, acc)"
      "try_for_each (\<lambda>(k, v). satisfy_timelock k v) (btree_iter (timelock_constrained other)) acc = (Inr (), acc')"
    by (simp only: bindS_Inr) blast
  moreover have "fee_accumulator fee = acc'" using fee by (simp add: fee_accumulator_def)
  moreover have "\<forall>c. free_value acc c = free_value self c - free_value other c" "locked_at acc = locked_at self"
    using satisfy_unconstrained_all [OF st(1)] by (simp_all add: free_value_def)
  ultimately show thesis using that by blast
qed

lemma satisfy_with_amounts:
  assumes "satisfy_with self other = Ok fee"
  shows "total_value self c = total_value other c + total_value (fee_accumulator fee) c"
    and "locked_from self t \<le> locked_from other t + locked_from (fee_accumulator fee) t"
proof -
  from assms obtain acc where acc: "\<forall>c. free_value acc c = free_value self c - free_value other c"
      "locked_at acc = locked_at self"
      "try_for_each (\<lambda>(k, v). satisfy_timelock k v) (btree_iter (timelock_constrained other)) acc =
         (Inr (), fee_accumulator fee)" by (rule satisfy_with_Ok)
  note ok = satisfy_timelocks_ok [OF acc(3)]
  have "locked_from acc t = locked_from self t" using acc(2) by (simp add: locked_from_def)
  with ok(2) [of t] show "locked_from self t \<le> locked_from other t + locked_from (fee_accumulator fee) t"
    by (simp add: locked_sums)
  have all: "coins_up_to a (- 1) = total_value a CoinId" for a
    by (simp add: coins_up_to_def total_value_def locked_up_to_def atMost_def)
  have sum: "sum_where (\<lambda>_. True) (btree_iter (timelock_constrained other)) = (\<Sum>lock\<in>UNIV. locked_at other lock)"
    using sum_where_iter [of "\<lambda>_. True" "timelock_constrained other"] by (simp add: locked_at_def)
  have "coins_up_to (fee_accumulator fee) (- 1) = coins_up_to acc (- 1) - (\<Sum>lock\<in>UNIV. locked_at other lock)"
    unfolding sum [symmetric] by (rule ok(1)) simp
  moreover have "total_value acc CoinId = total_value self CoinId - free_value other CoinId"
    using acc(1,2) by (simp add: total_value_def)
  ultimately have "total_value self CoinId = total_value other CoinId + total_value (fee_accumulator fee) CoinId"
    unfolding all by (simp add: total_value_def [of other])
  moreover have "total_value self c = total_value other c + total_value (fee_accumulator fee) c" if "c \<noteq> CoinId"
    using ok(3) [OF that] acc(1) that by (simp add: total_value_def)
  ultimately show "total_value self c = total_value other c + total_value (fee_accumulator fee) c"
    by (cases "c = CoinId") auto
qed

section \<open>When the constraints can be satisfied\<close>

lemma amounts_nonneg: "0 \<le> free_value acc c" "0 \<le> locked_at acc l" "0 \<le> locked_up_to acc t" "0 \<le> locked_from acc t"
  by (simp_all add: free_value_def locked_at_def locked_up_to_def locked_from_def sum_nonneg)

lemma locked_up_to_mono: "s \<le> t \<Longrightarrow> locked_up_to acc s \<le> locked_up_to acc t"
  by (auto simp: locked_up_to_def amounts_nonneg intro!: sum_mono2)

lemma locked_at_key: "locked_at acc l \<noteq> 0 \<Longrightarrow> l \<in> fst ` set (btree_iter (timelock_constrained acc))"
  using map_of_eq_None_iff [of "btree_iter (timelock_constrained acc)" l]
  by (auto simp: locked_at_def entry_amount_def amount_zero_def split: option.splits)

lemma locked_up_to_last_key:
  obtains "locked_up_to acc t = 0"
  | k where "k \<in> fst ` set (btree_iter (timelock_constrained acc))" and "k \<le> t"
      and "locked_up_to acc t = locked_up_to acc k"
proof (cases "{k \<in> fst ` set (btree_iter (timelock_constrained acc)). k \<le> t} = {}")
  case True
  then have "locked_at acc l = 0" if "l \<le> t" for l using that locked_at_key by blast
  then have "locked_up_to acc t = 0" by (simp add: locked_up_to_def)
  then show thesis by (rule that(1))
next
  case False
  define k where "k = Max {k \<in> fst ` set (btree_iter (timelock_constrained acc)). k \<le> t}"
  have k: "k \<in> fst ` set (btree_iter (timelock_constrained acc))" "k \<le> t"
    using Max_in [OF _ False] by (auto simp: k_def)
  have "locked_at acc l = 0" if "l \<le> t" "\<not> l \<le> k" for l
  proof (rule ccontr)
    assume "locked_at acc l \<noteq> 0"
    then have "l \<in> {k \<in> fst ` set (btree_iter (timelock_constrained acc)). k \<le> t}"
      using that(1) locked_at_key by blast
    then have "l \<le> k" unfolding k_def by (intro Max_ge) auto
    with that(2) show False by simp
  qed
  then have "locked_up_to acc t = locked_up_to acc k"
    unfolding locked_up_to_def using k(2) by (intro sum.mono_neutral_right) auto
  with k show thesis by (rule that(2))
qed

lemma satisfy_with_success:
  "is_ok (satisfy_with self other) \<longleftrightarrow>
     (\<forall>c. free_value other c \<le> free_value self c) \<and>
     (\<forall>t. free_value other CoinId + locked_up_to other t \<le> free_value self CoinId + locked_up_to self t)"
proof -
  let ?u = "try_for_each (\<lambda>(k, v). satisfy_unconstrained k v) (btree_iter (unconstrained_value other))"
  let ?l = "try_for_each (\<lambda>(k, v). satisfy_timelock k v) (btree_iter (timelock_constrained other))"
  have split: "is_ok (satisfy_with self other) \<longleftrightarrow> is_ok (fst (bindS ?u (\<lambda>_. ?l) self))"
    by (cases "bindS ?u (\<lambda>_. ?l) self"; cases "fst (bindS ?u (\<lambda>_. ?l) self)") (auto simp: satisfy_with_def is_ok_def)
  have u: "is_ok (fst (?u self)) \<longleftrightarrow> (\<forall>c. free_value other c \<le> free_value self c)"
    by (simp add: satisfy_unconstrained_success free_value_def)
  show ?thesis
  proof (cases "is_ok (fst (?u self))")
    case False
    then have "\<not> is_ok (fst (bindS ?u (\<lambda>_. ?l) self))"
      by (cases "?u self") (auto simp: bindS_def is_ok_def split: sum.splits)
    with False split u show ?thesis by simp
  next
    case True
    then obtain v acc where acc: "?u self = (Inr v, acc)" by (rule result_of_ok)
    note free = satisfy_unconstrained_all [OF acc]
    have coins: "coins_up_to acc t = free_value self CoinId - free_value other CoinId + locked_up_to self t" for t
      using free by (simp add: coins_up_to_def locked_up_to_def free_value_def)
    have "is_ok (fst (bindS ?u (\<lambda>_. ?l) self)) \<longleftrightarrow> is_ok (fst (?l acc))" by (simp add: bindS_def acc)
    also have "\<dots> \<longleftrightarrow> (\<forall>t\<in>fst ` set (btree_iter (timelock_constrained other)).
        locked_up_to other t \<le> coins_up_to acc t)"
      by (subst satisfy_timelocks_success) (simp_all add: locked_sums)
    also have "\<dots> \<longleftrightarrow> (\<forall>t. locked_up_to other t \<le> coins_up_to acc t)"
    proof (intro iffI allI)
      fix t
      assume all: "\<forall>t\<in>fst ` set (btree_iter (timelock_constrained other)). locked_up_to other t \<le> coins_up_to acc t"
      have "0 \<le> coins_up_to acc t" by (simp add: coins_up_to_def amounts_nonneg)
      moreover have "coins_up_to acc k \<le> coins_up_to acc t" if "k \<le> t" for k
        using that locked_up_to_mono [of k t acc] by (simp add: coins_up_to_def)
      ultimately show "locked_up_to other t \<le> coins_up_to acc t"
        using all by (cases rule: locked_up_to_last_key [of other t]) (simp, force)
    qed blast
    finally show ?thesis using True u split coins by (simp add: algebra_simps)
  qed
qed

section \<open>What the inputs bring and the outputs take\<close>

definition coin_value :: "amount \<Rightarrow> coin_or_token_id \<Rightarrow> int" where
  "coin_value a c = (if c = CoinId then uint a else 0)"

definition value_in :: "output_value \<Rightarrow> coin_or_token_id \<Rightarrow> int" where
  "value_in v c = (case v of
      Coin a \<Rightarrow> coin_value a c
    | TokenV0 _ \<Rightarrow> 0
    | TokenV1 i a \<Rightarrow> if c = TokenId i then uint a else 0)"

definition charged :: "amount option \<Rightarrow> coin_or_token_id \<Rightarrow> int" where
  "charged a c = (case a of Some a \<Rightarrow> coin_value a c | None \<Rightarrow> 0)"

definition output_takes :: "chain_config \<Rightarrow> block_height \<Rightarrow> tx_output \<Rightarrow> coin_or_token_id \<Rightarrow> int" where
  "output_takes cfg height out c = (case out of
      Transfer v _ \<Rightarrow> value_in v c
    | Burn v \<Rightarrow> value_in v c
    | Htlc v _ \<Rightarrow> value_in v c
    | LockThenTransfer v _ _ \<Rightarrow> value_in v c
    | DelegateStaking a _ \<Rightarrow> coin_value a c
    | CreateStakePool _ data \<Rightarrow> coin_value (sp_pledge data) c
    | ProduceBlockFromStake _ _ \<Rightarrow> 0
    | CreateDelegationId _ _ \<Rightarrow> 0
    | DataDeposit _ \<Rightarrow> charged (data_deposit_fee cfg height) c
    | IssueFungibleToken _ \<Rightarrow> coin_value fungible_token_issuance_fee c
    | IssueNft _ _ _ \<Rightarrow> charged (nft_issuance_fee cfg height) c
    | CreateOrder data \<Rightarrow> value_in (chain_give data) c)"

definition output_locks :: "tx_output \<Rightarrow> u64 \<Rightarrow> int" where
  "output_locks out l = (case out of
      LockThenTransfer (Coin a) _ (ForBlockCount n) \<Rightarrow> if n \<noteq> 0 \<and> l = n then uint a else 0
    | _ \<Rightarrow> 0)"

definition gains :: "value_accumulator \<Rightarrow> value_accumulator \<Rightarrow> (coin_or_token_id \<Rightarrow> int) \<Rightarrow> (u64 \<Rightarrow> int) \<Rightarrow> bool" where
  "gains acc acc' f g \<longleftrightarrow> (\<forall>c. total_value acc' c = total_value acc c + f c) \<and>
     (\<forall>l. locked_at acc' l = locked_at acc l + g l)"

lemma gains_refl [simp]: "gains acc acc (\<lambda>_. 0) (\<lambda>_. 0)"
  by (simp add: gains_def)

lemma gains_trans:
  "gains acc acc1 f g \<Longrightarrow> gains acc1 acc2 f' g' \<Longrightarrow> gains acc acc2 (\<lambda>c. f c + f' c) (\<lambda>l. g l + g' l)"
  by (simp add: gains_def)

lemma gains_free:
  assumes "on_unconstrained (insert_or_increase k a) acc = (Inr u, acc')"
  shows "gains acc acc' (\<lambda>c. if c = k then uint a else 0) (\<lambda>_. 0)"
  using assms by (auto simp: op_simps gains_def total_value_def) (auto simp: free_value_def)

lemma gains_locked:
  assumes "on_timelocked (increase_entry e k a) acc = (Inr u, acc')"
  shows "gains acc acc' (coin_value a) (\<lambda>l. if l = k then uint a else 0)"
proof -
  from assms obtain v where v: "uint v = locked_at acc k + uint a"
      "acc' = acc\<lparr>timelock_constrained := fmupd k v (timelock_constrained acc)\<rparr>"
    by (auto simp: op_simps locked_at_def)
  have at: "locked_at acc' l = locked_at acc l + (if l = k then uint a else 0)" for l
    using v by (simp add: locked_at_def)
  then have "(\<Sum>l\<in>UNIV. locked_at acc' l) = (\<Sum>l\<in>UNIV. locked_at acc l) + uint a"
    by (simp add: sum.distrib)
  with at v(2) show ?thesis by (simp add: gains_def total_value_def coin_value_def)
qed

lemma gains_locked_insert:
  "on_timelocked (insert_or_increase k a) acc = (Inr u, acc') \<Longrightarrow>
   gains acc acc' (coin_value a) (\<lambda>l. if l = k then uint a else 0)"
  unfolding insert_or_increase_def by (rule gains_locked)

lemma gains_value: "add_value v acc = (Inr u, acc') \<Longrightarrow> gains acc acc' (value_in v) (\<lambda>_. 0)"
  by (cases v) (auto simp: add_value_def value_in_def [abs_def] coin_value_def [abs_def] op_simps
      simp del: on_unconstrained_Inr dest!: gains_free)

lemma gains_coins:
  "on_unconstrained (insert_or_increase CoinId a) acc = (Inr u, acc') \<Longrightarrow> gains acc acc' (coin_value a) (\<lambda>_. 0)"
  using gains_free [of CoinId a acc u acc'] by (simp add: coin_value_def [abs_def])

lemma gains_timelock_output:
  assumes "process_output_timelock lock a acc = (Inr u, acc')"
  shows "gains acc acc' (coin_value a) (output_locks (LockThenTransfer (Coin a) d lock))"
  using assms
  by (auto simp: process_output_timelock_def Let_def output_locks_def [abs_def] op_simps
      simp del: on_unconstrained_Inr on_timelocked_Inr split: output_time_lock.splits if_splits
      dest: gains_coins gains_locked_insert)

lemma output_value_amount_eq:
  "constraints_output_value_amount v = Inr a \<Longrightarrow> currency_of v = Inr k \<Longrightarrow>
   value_in v = (\<lambda>c. if c = k then uint a else 0)"
  by (cases v) (auto simp: constraints_output_value_amount_def currency_of_def from_output_value_def
      value_in_def coin_value_def result_simps)

lemma gains_output:
  assumes "process_output cfg height out acc = (Inr u, acc')"
  shows "gains acc acc' (output_takes cfg height out) (output_locks out)"
proof (cases out)
  case (LockThenTransfer v d lock)
  show ?thesis
  proof (cases v)
    case (Coin a)
    with LockThenTransfer assms have "process_output_timelock lock a acc = (Inr u, acc')"
      by (simp add: process_output_def)
    from gains_timelock_output [OF this, of d] show ?thesis
      by (simp add: LockThenTransfer Coin output_takes_def [abs_def] value_in_def)
  qed (use LockThenTransfer assms in \<open>auto simp: process_output_def output_takes_def [abs_def]
      output_locks_def [abs_def] value_in_def op_simps simp del: on_unconstrained_Inr dest!: gains_free\<close>)
next
  case (CreateOrder data)
  with assms obtain k a where "currency_of (chain_give data) = Inr k"
      "constraints_output_value_amount (chain_give data) = Inr a"
      "on_unconstrained (insert_or_increase k a) acc = (Inr u, acc')"
    by (auto simp: process_output_def op_simps simp del: on_unconstrained_Inr)
  with gains_free [OF this(3)] output_value_amount_eq [of "chain_give data" a k] CreateOrder show ?thesis
    by (simp add: output_takes_def [abs_def] output_locks_def [abs_def])
qed (use assms in \<open>auto simp: process_output_def output_takes_def [abs_def] output_locks_def [abs_def] charged_def
      config_value_def op_simps result_simps simp del: on_unconstrained_Inr dest!: gains_value gains_coins\<close>)

lemma gains_outputs:
  assumes "try_for_each (process_output cfg height) outs acc = (Inr u, acc')"
  shows "gains acc acc' (\<lambda>c. \<Sum>out\<leftarrow>outs. output_takes cfg height out c) (\<lambda>l. \<Sum>out\<leftarrow>outs. output_locks out l)"
  using assms
proof (induction outs arbitrary: acc)
  case (Cons out outs)
  then obtain acc1 where "process_output cfg height out acc = (Inr (), acc1)"
      "try_for_each (process_output cfg height) outs acc1 = (Inr u, acc')" by (auto simp: op_simps)
  with Cons.IH [of acc1] gains_output [of cfg height out acc "()" acc1] gains_trans show ?case by fastforce
qed (simp add: op_simps)

lemma accumulator_new_amounts [simp]:
  "locked_at accumulator_new l = 0" "free_value accumulator_new c = 0" "total_value accumulator_new c = 0"
  by (simp_all add: accumulator_new_def locked_at_def free_value_def total_value_def)

lemma from_outputs_amounts:
  assumes "from_outputs cfg height outs = Ok acc"
  shows "total_value acc c = (\<Sum>out\<leftarrow>outs. output_takes cfg height out c)"
    and "locked_at acc l = (\<Sum>out\<leftarrow>outs. output_locks out l)"
proof -
  from assms have "try_for_each (process_output cfg height) outs accumulator_new = (Inr (), acc)"
    by (auto simp: from_outputs_def split: prod.splits sum.splits)
  from gains_outputs [OF this] show "total_value acc c = (\<Sum>out\<leftarrow>outs. output_takes cfg height out c)"
    and "locked_at acc l = (\<Sum>out\<leftarrow>outs. output_locks out l)" by (simp_all add: gains_def)
qed

section \<open>Value of the inputs\<close>

text \<open>
  What an input is worth in the state its processing starts from: the value of the spent output, the
  stake of a decommissioned pool, a delegated amount, minted tokens, what an order paid out. The price
  of filling an order and the fees of commands are charged separately.
\<close>

definition pool_stake :: "('p, 't, 'o) inputs_state \<Rightarrow> pool_id \<Rightarrow> int" where
  "pool_stake s pool = (case get_pool_data (is_pos s) pool of
      Inr (Some d) \<Rightarrow> uint (pledge_amount d) + uint (staker_rewards d)
    | _ \<Rightarrow> 0)"

definition amount_or_zero :: "'e + amount \<Rightarrow> int" where
  "amount_or_zero r = (case r of Inr a \<Rightarrow> uint a | Inl _ \<Rightarrow> 0)"

definition in_currency :: "output_value \<Rightarrow> coin_or_token_id \<Rightarrow> int \<Rightarrow> int" where
  "in_currency v c x = (if from_output_value v = Some c then x else 0)"

definition on_order :: "('p, 't, 'o) inputs_state \<Rightarrow> order_id \<Rightarrow> (order_data \<Rightarrow> int) \<Rightarrow> int" where
  "on_order s oid f = (case get_order_data (is_orders s) oid of Inr (Some d) \<Rightarrow> f d | _ \<Rightarrow> 0)"

definition concluded_value :: "('p, 't, 'o) inputs_state \<Rightarrow> order_id \<Rightarrow> coin_or_token_id \<Rightarrow> int" where
  "concluded_value s oid c = on_order s oid (\<lambda>d.
     in_currency (order_ask d) c (value_in (order_ask d) c - amount_or_zero (get_ask_balance (is_orders s) oid)) +
     in_currency (order_give d) c (amount_or_zero (get_give_balance (is_orders s) oid)))"

definition filled_value :: "chain_config \<Rightarrow> block_height \<Rightarrow> ('p, 't, 'o) inputs_state \<Rightarrow> order_id \<Rightarrow> amount \<Rightarrow>
    coin_or_token_id \<Rightarrow> int" where
  "filled_value cfg height s oid fill c = on_order s oid (\<lambda>d. in_currency (order_give d) c
     (case upgrade_at cfg height of
        Some u \<Rightarrow> amount_or_zero
          (calculate_fill_order (orders_cache_view (is_orders s)) oid fill (upgrade_orders_version u))
      | None \<Rightarrow> 0))"

definition fill_charge :: "('p, 't, 'o) inputs_state \<Rightarrow> order_id \<Rightarrow> amount \<Rightarrow> coin_or_token_id \<Rightarrow> int" where
  "fill_charge s oid fill c = on_order s oid (\<lambda>d. in_currency (order_ask d) c (uint fill))"

text \<open>The stake an input withdraws, which has to stay locked.\<close>

fun input_stake :: "('p, 't, 'o) inputs_state \<Rightarrow> tx_input \<times> tx_output option \<Rightarrow> int" where
  "input_stake s (UtxoInput _, Some (CreateStakePool pool _)) = pool_stake s pool"
| "input_stake s (UtxoInput _, Some (ProduceBlockFromStake _ pool)) = pool_stake s pool"
| "input_stake s (AccountInput (AccountOutPoint _ (DelegationBalance _ a)), _) = uint a"
| "input_stake s _ = 0"

fun input_brings :: "chain_config \<Rightarrow> block_height \<Rightarrow> ('p, 't, 'o) inputs_state \<Rightarrow> tx_input \<times> tx_output option \<Rightarrow>
    coin_or_token_id \<Rightarrow> int" where
  "input_brings cfg h s (UtxoInput op, Some utxo) = (case utxo of
      Transfer v _ \<Rightarrow> value_in v
    | LockThenTransfer v _ _ \<Rightarrow> value_in v
    | Htlc v _ \<Rightarrow> value_in v
    | IssueNft i _ _ \<Rightarrow> (\<lambda>c. if c = TokenId i then 1 else 0)
    | DelegateStaking a _ \<Rightarrow> coin_value a
    | _ \<Rightarrow> (\<lambda>c. if c = CoinId then input_stake s (UtxoInput op, Some utxo) else 0))"
| "input_brings cfg h s (AccountInput ac, utxo) =
     (\<lambda>c. if c = CoinId then input_stake s (AccountInput ac, utxo) else 0)"
| "input_brings cfg h s (AccountCommandInput _ cmd, _) = (case cmd of
      MintTokens i a \<Rightarrow> (\<lambda>c. if c = TokenId i then uint a else 0)
    | ConcludeOrder i \<Rightarrow> concluded_value s i
    | FillOrder i a _ \<Rightarrow> filled_value cfg h s i a
    | _ \<Rightarrow> (\<lambda>_. 0))"
| "input_brings cfg h s (OrderAccountCommandInput cmd, _) = (case cmd of
      ConcludeOrderV1 i \<Rightarrow> concluded_value s i
    | FillOrderV1 i a \<Rightarrow> filled_value cfg h s i a
    | FreezeOrder _ \<Rightarrow> (\<lambda>_. 0))"
| "input_brings cfg h s _ = (\<lambda>_. 0)"

fun input_charge :: "chain_config \<Rightarrow> block_height \<Rightarrow> ('p, 't, 'o) inputs_state \<Rightarrow> tx_input \<times> tx_output option \<Rightarrow>
    coin_or_token_id \<Rightarrow> int" where
  "input_charge cfg h s (AccountCommandInput _ cmd, _) = (case cmd of
      MintTokens _ _ \<Rightarrow> charged (token_supply_change_fee cfg h)
    | UnmintTokens _ \<Rightarrow> charged (token_supply_change_fee cfg h)
    | LockTokenSupply _ \<Rightarrow> charged (token_supply_change_fee cfg h)
    | FreezeToken _ _ \<Rightarrow> charged (token_freeze_fee cfg h)
    | UnfreezeToken _ \<Rightarrow> charged (token_freeze_fee cfg h)
    | ChangeTokenAuthority _ _ \<Rightarrow> charged (token_change_authority_fee cfg h)
    | ChangeTokenMetadataUri _ _ \<Rightarrow> coin_value token_change_metadata_uri_fee
    | ConcludeOrder _ \<Rightarrow> (\<lambda>_. 0)
    | FillOrder i a _ \<Rightarrow> fill_charge s i a)"
| "input_charge cfg h s (OrderAccountCommandInput cmd, _) = (case cmd of
      FillOrderV1 i a \<Rightarrow> fill_charge s i a
    | _ \<Rightarrow> (\<lambda>_. 0))"
| "input_charge cfg h s _ = (\<lambda>_. 0)"

text \<open>The sum of a quantity over the inputs, each taken in the state that the inputs before it leave.\<close>

fun over_inputs :: "chain_config \<Rightarrow> block_height \<Rightarrow>
    (('p, 't, 'o) inputs_state \<Rightarrow> tx_input \<times> tx_output option \<Rightarrow> int) \<Rightarrow>
    (tx_input \<times> tx_output option) list \<Rightarrow> ('p, 't, 'o) inputs_state \<Rightarrow> int" where
  "over_inputs cfg h f [] s = 0"
| "over_inputs cfg h f (p # ps) s = f s p + over_inputs cfg h f ps (snd (process_input cfg h p s))"

definition stake_lock :: "chain_config \<Rightarrow> block_height \<Rightarrow> int \<Rightarrow> u64 \<Rightarrow> int" where
  "stake_lock cfg height x l = (case staking_pool_spend_maturity_block_count cfg height of
      Some m \<Rightarrow> if m \<noteq> 0 \<and> l = m then x else 0
    | None \<Rightarrow> 0)"

lemma stake_lock_zero [simp]: "stake_lock cfg height 0 = (\<lambda>_. 0)"
  by (simp add: stake_lock_def [abs_def] fun_eq_iff split: option.split)

lemma gains_matured:
  assumes "add_matured cfg height a acc = (Inr u, acc')"
  shows "gains acc acc' (coin_value a) (stake_lock cfg height (uint a))"
  using assms
  by (auto simp: add_matured_def stake_lock_def [abs_def] op_simps result_simps
      simp del: on_unconstrained_Inr on_timelocked_Inr split: if_splits dest: gains_coins gains_locked)

lemma staker_balance_Inr: "staker_balance d = Inr a \<longleftrightarrow> uint a = uint (pledge_amount d) + uint (staker_rewards d)"
  by (auto simp: staker_balance_def result_simps amount_add_def checked_simps)

lemma gains_input_utxo:
  assumes "process_input_utxo cfg height (is_pos s) op utxo acc = (Inr u, acc')"
  shows "gains acc acc' (input_brings cfg height s (UtxoInput op, Some utxo))
    (stake_lock cfg height (input_stake s (UtxoInput op, Some utxo)))"
proof -
  have stake: "gains acc acc' (\<lambda>c. if c = CoinId then pool_stake s pool else 0) (stake_lock cfg height (pool_stake s pool))"
    if "get_pool_data (is_pos s) pool = Inr (Some d)" "staker_balance d = Inr a"
      "add_matured cfg height a acc = (Inr u, acc')" for pool d a
  proof -
    have "pool_stake s pool = uint a" using that(1,2) by (simp add: pool_stake_def staker_balance_Inr)
    with gains_matured [OF that(3)] show ?thesis by (simp only: coin_value_def [abs_def])
  qed
  show ?thesis
    using assms by (cases utxo) (auto simp: process_input_utxo_def Let_def op_simps result_simps coin_value_def [abs_def]
        simp del: on_unconstrained_Inr intro: stake dest!: gains_value gains_free cong: if_cong)
qed

lemma on_accumulator_Inr [op_simps]:
  "on_accumulator m s = (Inr u, s') \<longleftrightarrow> (\<exists>x. m (is_accumulator s) = (Inr u, x) \<and> s' = s\<lparr>is_accumulator := x\<rparr>)"
  by (auto simp: on_accumulator_def op_simps)

lemma on_total_to_deduct_Inr [op_simps]:
  "on_total_to_deduct m s = (Inr u, s') \<longleftrightarrow>
     (\<exists>x. m (is_total_to_deduct s) = (Inr u, x) \<and> s' = s\<lparr>is_total_to_deduct := x\<rparr>)"
  by (auto simp: on_total_to_deduct_def op_simps)

lemma on_pos_Inr [op_simps]:
  "on_pos m s = (Inr u, s') \<longleftrightarrow> (\<exists>x. m (is_pos s) = (Inr u, x) \<and> s' = s\<lparr>is_pos := x\<rparr>)"
  by (auto simp: on_pos_def op_simps)

lemma on_tokens_Inr [op_simps]:
  "on_tokens m s = (Inr u, s') \<longleftrightarrow> (\<exists>x. m (is_tokens s) = (Inr u, x) \<and> s' = s\<lparr>is_tokens := x\<rparr>)"
  by (auto simp: on_tokens_def op_simps)

lemma on_orders_Inr [op_simps]:
  "on_orders m s = (Inr u, s') \<longleftrightarrow> (\<exists>x. m (is_orders s) = (Inr u, x) \<and> s' = s\<lparr>is_orders := x\<rparr>)"
  by (auto simp: on_orders_def op_simps)

lemma view_orders_Inr [op_simps]: "view_orders f s = (Inr a, s') \<longleftrightarrow> f (is_orders s) = Inr a \<and> s' = s"
  by (auto simp: view_orders_def op_simps result_simps)

lemma config_value_Inr [op_simps]: "config_value v s = (Inr a, s') \<longleftrightarrow> v = Some a \<and> s' = s"
  by (auto simp: config_value_def op_simps result_simps)

text \<open>What the commands on orders leave in the accumulator, and what they charge.\<close>

lemma conclude_command_ok:
  assumes "process_conclude_order_command oid s = (Inr (k, a), s')"
  shows "gains (is_accumulator s) (is_accumulator s') (concluded_value s oid) (\<lambda>_. 0) \<and> a = 0 \<and>
    is_total_to_deduct s' = is_total_to_deduct s"
proof -
  from assms obtain d ask give orders initially filled kask kgive acc1 acc2 where st:
    "get_order_data (is_orders s) oid = Inr (Some d)" "get_ask_balance (is_orders s) oid = Inr ask"
    "get_give_balance (is_orders s) oid = Inr give" "constraints_output_value_amount (order_ask d) = Inr initially"
    "amount_sub initially ask = Some filled" "currency_of (order_ask d) = Inr kask"
    "on_unconstrained (insert_or_increase kask filled) (is_accumulator s) = (Inr (), acc1)"
    "currency_of (order_give d) = Inr kgive"
    "on_unconstrained (insert_or_increase kgive give) acc1 = (Inr (), acc2)"
    "s' = s\<lparr>is_orders := orders, is_accumulator := acc2\<rparr>" "a = amount_zero"
    by (auto simp: process_conclude_order_command_def op_simps result_simps read_order_def
        simp del: on_unconstrained_Inr)
  have filled: "uint filled = uint initially - uint ask"
    using st(5) by (simp add: amount_sub_def checked_simps)
  have kask: "from_output_value (order_ask d) = Some kask" and kgive: "from_output_value (order_give d) = Some kgive"
    using st(6,8) by (simp_all add: currency_of_def result_simps)
  have "concluded_value s oid = (\<lambda>c. (if c = kask then uint filled else 0) + (if c = kgive then uint give else 0))"
    using st(1-3) filled output_value_amount_eq [OF st(4,6)] kask kgive
    by (auto simp: fun_eq_iff concluded_value_def on_order_def in_currency_def amount_or_zero_def)
  with gains_trans [OF gains_free [OF st(7)] gains_free [OF st(9)]] st(10,11) show ?thesis
    by (simp add: amount_zero_def)
qed

lemma fill_command_ok:
  assumes "process_fill_order_command cfg height oid fill s = (Inr (k, a), s')"
  shows "gains (is_accumulator s) (is_accumulator s') (filled_value cfg height s oid fill) (\<lambda>_. 0) \<and>
    fill_charge s oid fill = (\<lambda>c. if c = k then uint a else 0) \<and> is_total_to_deduct s' = is_total_to_deduct s"
proof -
  from assms obtain d u filled orders kgive acc1 where st:
    "get_order_data (is_orders s) oid = Inr (Some d)" "upgrade_at cfg height = Some u"
    "calculate_fill_order (orders_cache_view (is_orders s)) oid fill (upgrade_orders_version u) = Inr filled"
    "currency_of (order_give d) = Inr kgive"
    "on_unconstrained (insert_or_increase kgive filled) (is_accumulator s) = (Inr (), acc1)"
    "s' = s\<lparr>is_orders := orders, is_accumulator := acc1\<rparr>" "currency_of (order_ask d) = Inr k" "a = fill"
    by (auto simp: process_fill_order_command_def op_simps result_simps read_order_def
        simp del: on_unconstrained_Inr)
  have k: "from_output_value (order_ask d) = Some k" and kgive: "from_output_value (order_give d) = Some kgive"
    using st(4,7) by (simp_all add: currency_of_def result_simps)
  have "filled_value cfg height s oid fill = (\<lambda>c. if c = kgive then uint filled else 0)"
    using st(1-3) kgive by (auto simp: fun_eq_iff filled_value_def on_order_def in_currency_def amount_or_zero_def)
  moreover have "fill_charge s oid fill = (\<lambda>c. if c = k then uint a else 0)"
    using st(1,8) k by (auto simp: fun_eq_iff fill_charge_def on_order_def in_currency_def)
  ultimately show ?thesis using gains_free [OF st(5)] st(6) by simp
qed

definition charges :: "('k, amount) btree_map \<Rightarrow> ('k, amount) btree_map \<Rightarrow> ('k \<Rightarrow> int) \<Rightarrow> bool" where
  "charges m m' f \<longleftrightarrow> (\<forall>c. uint (entry_amount m' c) = uint (entry_amount m c) + f c)"

lemma charges_insert:
  "insert_or_increase k a m = (Inr u, m') \<Longrightarrow> charges m m' (\<lambda>c. if c = k then uint a else 0)"
  by (auto simp: op_simps charges_def)

lemma charges_refl: "charges m m (\<lambda>_. 0)"
  by (simp add: charges_def)

lemma account_command_ok:
  assumes "process_input_account_command cfg h cmd s = (Inr (k, a), s')"
  shows "gains (is_accumulator s) (is_accumulator s') (input_brings cfg h s (AccountCommandInput n cmd, utxo)) (\<lambda>_. 0) \<and>
    input_charge cfg h s (AccountCommandInput n cmd, utxo) = (\<lambda>c. if c = k then uint a else 0) \<and>
    is_total_to_deduct s' = is_total_to_deduct s"
proof (cases cmd)
  case (ConcludeOrder i)
  with assms conclude_command_ok [of i s k a s'] show ?thesis
    by (auto simp: process_input_account_command_def fun_eq_iff)
next
  case (FillOrder i f d)
  with assms fill_command_ok [of cfg h i f s k a s'] show ?thesis
    by (simp add: process_input_account_command_def fun_eq_iff)
qed (use assms in \<open>auto simp: process_input_account_command_def Let_def op_simps charged_def coin_value_def
    fun_eq_iff simp del: on_unconstrained_Inr dest!: gains_free\<close>)

lemma order_command_ok:
  assumes "process_input_order_account_command cfg h cmd s = (Inr r, s')"
  shows "gains (is_accumulator s) (is_accumulator s') (input_brings cfg h s (OrderAccountCommandInput cmd, utxo)) (\<lambda>_. 0) \<and>
    input_charge cfg h s (OrderAccountCommandInput cmd, utxo) =
      (case r of Some (k, a) \<Rightarrow> (\<lambda>c. if c = k then uint a else 0) | None \<Rightarrow> (\<lambda>_. 0)) \<and>
    is_total_to_deduct s' = is_total_to_deduct s"
proof (cases cmd)
  case (FillOrderV1 i f)
  with assms fill_command_ok [of cfg h i f s _ _ s'] show ?thesis
    by (auto simp: process_input_order_account_command_def fun_eq_iff op_simps)
next
  case (ConcludeOrderV1 i)
  with assms conclude_command_ok [of i s _ _ s'] show ?thesis
    by (auto simp: process_input_order_account_command_def fun_eq_iff op_simps)
qed (use assms in \<open>auto simp: process_input_order_account_command_def op_simps\<close>)

lemma process_input_ok:
  assumes "process_input cfg h p s = (Inr u, s')"
  shows "gains (is_accumulator s) (is_accumulator s') (input_brings cfg h s p) (stake_lock cfg h (input_stake s p))"
    and "charges (is_total_to_deduct s) (is_total_to_deduct s') (input_charge cfg h s p)"
proof -
  obtain input utxo where p: "p = (input, utxo)" by (cases p)
  have "gains (is_accumulator s) (is_accumulator s') (input_brings cfg h s p) (stake_lock cfg h (input_stake s p)) \<and>
    charges (is_total_to_deduct s) (is_total_to_deduct s') (input_charge cfg h s p)"
  proof (cases input)
    case (UtxoInput op)
    with assms p obtain ut acc where "utxo = Some ut"
        "process_input_utxo cfg h (is_pos s) op ut (is_accumulator s) = (Inr u, acc)" "s' = s\<lparr>is_accumulator := acc\<rparr>"
      by (auto simp: process_input_def op_simps result_simps)
    with gains_input_utxo [of cfg h s op ut "is_accumulator s" u acc] p UtxoInput show ?thesis
      by (simp add: charges_refl)
  next
    case (AccountInput ac)
    obtain n d a where ac: "ac = AccountOutPoint n (DelegationBalance d a)"
      by (metis account_outpoint.exhaust account_spending.exhaust)
    with assms p AccountInput obtain pos acc where "add_matured cfg h a (is_accumulator s) = (Inr u, acc)"
        "s' = s\<lparr>is_pos := pos, is_accumulator := acc\<rparr>"
      by (auto simp: process_input_def process_input_account_def op_simps)
    with gains_matured [OF this(1)] p ac AccountInput show ?thesis
      by (simp add: charges_refl coin_value_def [abs_def] cong: if_cong)
  next
    case (AccountCommandInput n cmd)
    with assms p obtain k a s1 m where "process_input_account_command cfg h cmd s = (Inr (k, a), s1)"
        "insert_or_increase k a (is_total_to_deduct s1) = (Inr u, m)" "s' = s1\<lparr>is_total_to_deduct := m\<rparr>"
      by (auto simp: process_input_def op_simps simp del: insert_or_increase_Inr split: prod.splits)
    with account_command_ok [OF this(1), of n utxo] charges_insert [OF this(2)] p AccountCommandInput show ?thesis
      by simp
  next
    case (OrderAccountCommandInput cmd)
    with assms p obtain r s1 where r: "process_input_order_account_command cfg h cmd s = (Inr r, s1)"
        "(case r of Some (k, a) \<Rightarrow> on_total_to_deduct (insert_or_increase k a) | None \<Rightarrow> returnS ()) s1 = (Inr u, s')"
      by (auto simp: process_input_def op_simps simp del: insert_or_increase_Inr on_total_to_deduct_Inr)
    with order_command_ok [OF r(1), of utxo] p OrderAccountCommandInput show ?thesis
      by (auto simp: op_simps charges_refl simp del: insert_or_increase_Inr dest!: charges_insert split: option.splits prod.splits)
  qed
  then show "gains (is_accumulator s) (is_accumulator s') (input_brings cfg h s p) (stake_lock cfg h (input_stake s p))"
    and "charges (is_total_to_deduct s) (is_total_to_deduct s') (input_charge cfg h s p)" by blast+
qed

lemma stake_lock_add: "stake_lock cfg h (x + y) l = stake_lock cfg h x l + stake_lock cfg h y l"
  by (simp add: stake_lock_def split: option.split)

lemma process_inputs_ok:
  assumes "try_for_each (process_input cfg h) ps s = (Inr u, s')"
  shows "gains (is_accumulator s) (is_accumulator s')
      (\<lambda>c. over_inputs cfg h (\<lambda>s p. input_brings cfg h s p c) ps s)
      (stake_lock cfg h (over_inputs cfg h input_stake ps s))"
    and "charges (is_total_to_deduct s) (is_total_to_deduct s')
      (\<lambda>c. over_inputs cfg h (\<lambda>s p. input_charge cfg h s p c) ps s)"
  using assms
proof (induction ps arbitrary: s)
  case Nil
  { case 1 then show ?case by (simp add: op_simps) next
    case 2 then show ?case by (simp add: op_simps charges_def) }
next
  case (Cons p ps)
  { case 1
    then obtain s1 where st: "process_input cfg h p s = (Inr (), s1)" "try_for_each (process_input cfg h) ps s1 = (Inr u, s')"
      by (auto simp: op_simps)
    from gains_trans [OF process_input_ok(1) [OF st(1)] Cons.IH(1) [OF st(2)]] st(1) show ?case
      by (simp add: stake_lock_add [symmetric])
  next
    case 2
    then obtain s1 where st: "process_input cfg h p s = (Inr (), s1)" "try_for_each (process_input cfg h) ps s1 = (Inr u, s')"
      by (auto simp: op_simps)
    from process_input_ok(2) [OF st(1)] Cons.IH(2) [OF st(2)] st(1) show ?case
      by (simp add: charges_def) }
qed

lemma from_inputs_amounts:
  assumes "from_inputs cfg h orders pos tokens inputs utxos = Ok acc"
  defines "s \<equiv> inputs_state_new orders pos tokens" and "ps \<equiv> zip inputs utxos"
  shows "total_value acc c = over_inputs cfg h (\<lambda>s p. input_brings cfg h s p c) ps s -
      over_inputs cfg h (\<lambda>s p. input_charge cfg h s p c) ps s"
    and "locked_at acc l = stake_lock cfg h (over_inputs cfg h input_stake ps s) l"
proof -
  from assms(1) obtain s' where st: "try_for_each (process_input cfg h) ps s = (Inr (), s')"
      "try_for_each (\<lambda>(k, v). deduct_total k v) (btree_iter (is_total_to_deduct s')) (is_accumulator s') = (Inr (), acc)"
    by (auto simp: from_inputs_def s_def ps_def result_simps split: prod.splits sum.splits)
  note ok = process_inputs_ok [OF st(1)] and ded = deduct_all [OF st(2)]
  have new: "is_accumulator s = accumulator_new" "is_total_to_deduct s = fmempty"
    by (simp_all add: s_def inputs_state_new_def)
  show "total_value acc c = over_inputs cfg h (\<lambda>s p. input_brings cfg h s p c) ps s -
      over_inputs cfg h (\<lambda>s p. input_charge cfg h s p c) ps s"
  proof -
    have "total_value acc c = total_value (is_accumulator s') c - uint (entry_amount (is_total_to_deduct s') c)"
      using ded by (simp add: total_value_def)
    then show ?thesis using ok by (simp add: new gains_def charges_def)
  qed
  show "locked_at acc l = stake_lock cfg h (over_inputs cfg h input_stake ps s) l"
    using ok(1) ded(2) by (simp add: new gains_def)
qed

section \<open>Fees of a block\<close>

lemma amount_sum_Some: "amount_sum xs = Some a \<longleftrightarrow> uint a = (\<Sum>x\<leftarrow>xs. uint x)"
  by (simp add: amount_sum_def amount_try_fold_Some amount_zero_def)

lemma map_into_block_fees_Ok:
  assumes "map_into_block_fees cfg h fee = Ok (Fee x)"
  shows "\<exists>m. staking_pool_spend_maturity_block_count cfg h = Some m \<and> uint x = coins_up_to (fee_accumulator fee) m"
proof -
  have "(\<Sum>x\<leftarrow>map snd (filter (\<lambda>(l, _). l \<le> m) (btree_iter (fee_timelock_constrained fee))). uint x) =
      locked_up_to (fee_accumulator fee) m" for m
    by (simp add: locked_sums fee_accumulator_def o_def case_prod_unfold)
  with assms show ?thesis
    by (auto simp: map_into_block_fees_def Let_def result_simps amount_sum_Some amount_add_def checked_simps
        coins_up_to_def free_value_def fee_accumulator_def)
qed

lemma merge_amount_maps_Ok:
  assumes "merge_amount_maps m n = Ok r"
  shows "uint (entry_amount r k) = uint (entry_amount m k) + uint (entry_amount n k)"
proof -
  from assms have st: "try_for_each (\<lambda>(k, v). insert_or_increase k v) (btree_iter n) m = (Inr (), r)"
    by (auto simp: merge_amount_maps_def split: prod.splits sum.splits)
  have "uint (entry_amount r k) = uint (entry_amount m k) + (\<Sum>(j, x)\<leftarrow>qs. if j = k then uint x else 0)"
    if "try_for_each (\<lambda>(k, v). insert_or_increase k v) qs m = (Inr (), r)" for qs m
    using that by (induction qs arbitrary: m) (auto simp: op_simps)
  note this [OF st]
  moreover have "(\<Sum>(j, x)\<leftarrow>qs. if j = k then uint x else 0) = (case map_of qs k of Some x \<Rightarrow> uint x | None \<Rightarrow> 0)"
    if "distinct (map fst qs)" for qs :: "('a \<times> amount) list"
  proof -
    have "(\<Sum>(j, x)\<leftarrow>qs. if j = k then uint x else 0) = 0" if "k \<notin> fst ` set qs" for qs :: "('a \<times> amount) list"
      using that by (induction qs) auto
    with that show ?thesis by (induction qs) auto
  qed
  ultimately show ?thesis
    by (simp add: entry_amount_def amount_zero_def split: option.split)
qed

lemma combine_coins:
  assumes "accumulated_fee_combine a b = Ok ab"
  shows "coins_up_to (fee_accumulator ab) t = coins_up_to (fee_accumulator a) t + coins_up_to (fee_accumulator b) t"
    and "total_value (fee_accumulator ab) c = total_value (fee_accumulator a) c + total_value (fee_accumulator b) c"
proof -
  from assms obtain u l where m: "merge_amount_maps (fee_unconstrained_value a) (fee_unconstrained_value b) = Ok u"
      "merge_amount_maps (fee_timelock_constrained a) (fee_timelock_constrained b) = Ok l"
      "ab = \<lparr> fee_unconstrained_value = u, fee_timelock_constrained = l \<rparr>"
    by (auto simp: accumulated_fee_combine_def result_simps)
  have "free_value (fee_accumulator ab) c = free_value (fee_accumulator a) c + free_value (fee_accumulator b) c" for c
    using merge_amount_maps_Ok [OF m(1)] by (simp add: m(3) free_value_def fee_accumulator_def)
  moreover have "locked_at (fee_accumulator ab) l = locked_at (fee_accumulator a) l + locked_at (fee_accumulator b) l" for l
    using merge_amount_maps_Ok [OF m(2)] by (simp add: m(3) locked_at_def fee_accumulator_def)
  ultimately show "coins_up_to (fee_accumulator ab) t = coins_up_to (fee_accumulator a) t + coins_up_to (fee_accumulator b) t"
    and "total_value (fee_accumulator ab) c = total_value (fee_accumulator a) c + total_value (fee_accumulator b) c"
    by (simp_all add: coins_up_to_def total_value_def locked_up_to_def sum.distrib)
qed

section \<open>Panics\<close>

definition no_panic :: "('s, 'e failure, 'a) op \<Rightarrow> bool" where
  "no_panic m \<longleftrightarrow> (\<forall>s t. m s \<noteq> (Inl Panic, t))"

lemma no_panic_combinators [intro!]:
  "no_panic m \<Longrightarrow> (\<And>a. no_panic (f a)) \<Longrightarrow> no_panic (bindS m f)"
  "r \<noteq> Inl Panic \<Longrightarrow> no_panic (liftS r)"
  "(\<And>s. g s \<noteq> Inl Panic) \<Longrightarrow> no_panic (readS g)"
  "no_panic (modifyS h)" "no_panic (returnS a)" "e \<noteq> Panic \<Longrightarrow> no_panic (failS e)"
  "e \<noteq> Panic \<Longrightarrow> no_panic (ensureS b e)"
  "no_panic m \<Longrightarrow> no_panic (zoomS get put m)"
  by (auto simp: no_panic_def op_simps)

lemma no_panic_map_errS [intro!]: "(\<And>d. h d \<noteq> Panic) \<Longrightarrow> no_panic (map_errS h m)"
  by (auto simp: no_panic_def op_simps dest: sym)

lemma no_panic_orders [intro!]: "no_panic m \<Longrightarrow> no_panic (on_orders m)"
proof -
  have "orders_failure d = Panic \<Longrightarrow> d = Panic" for d by (cases d) auto
  then show "no_panic m \<Longrightarrow> no_panic (on_orders m)" by (auto simp: no_panic_def on_orders_def op_simps dest: sym)
qed

lemma no_panic_each [intro!]: "(\<And>x. no_panic (f x)) \<Longrightarrow> no_panic (try_for_each f xs)"
  by (induction xs) auto

lemma no_panic_results [simp]:
  "ok_or v (Fail e) \<noteq> Inl Panic" "map_err (Fail \<circ> h) r \<noteq> Inl Panic" "map_err (\<lambda>x. Fail (k x)) q \<noteq> Inl Panic"
  "constraints_output_value_amount x \<noteq> Inl Panic" "currency_of x \<noteq> Inl Panic"
  by (auto simp: result_simps constraints_output_value_amount_def currency_of_def split: output_value.splits)

lemma no_panic_order_calls [intro!]:
  "no_panic (conclude_order oid)" "no_panic (fill_order oid fill ver)" "no_panic (read_order g)"
  by (auto simp: conclude_order_def fill_order_def read_order_def on_order_data_def on_ask_balances_def
      on_give_balances_def calculate_fill_order_no_panic)

lemma no_panic_entries [intro!]:
  "e \<noteq> Panic \<Longrightarrow> no_panic (increase_entry e k a)" "no_panic (insert_or_increase k a)"
  "e \<noteq> Panic \<Longrightarrow> no_panic (decrease_or k a e)"
proof -
  have "e \<noteq> Panic \<Longrightarrow> ok_or v e \<noteq> Inl Panic" for v and e :: constraints_failure by (auto simp: result_simps)
  then show "e \<noteq> Panic \<Longrightarrow> no_panic (increase_entry e k a)" "no_panic (insert_or_increase k a)"
    "e \<noteq> Panic \<Longrightarrow> no_panic (decrease_or k a e)"
    by (auto simp: increase_entry_def insert_or_increase_def decrease_or_def)
qed

lemma no_panic_parts [intro!]:
  "no_panic m \<Longrightarrow> no_panic (on_unconstrained m)" "no_panic n \<Longrightarrow> no_panic (on_timelocked n)"
  "no_panic k \<Longrightarrow> no_panic (on_accumulator k)" "no_panic m \<Longrightarrow> no_panic (on_total_to_deduct m)"
  "no_panic (on_pos p)" "no_panic (on_tokens t)" "no_panic (view_orders g)" "no_panic (add_value v)"
  "x \<noteq> None \<Longrightarrow> no_panic (config_value x)"
  by (auto simp: on_unconstrained_def on_timelocked_def on_accumulator_def on_total_to_deduct_def on_pos_def
      on_tokens_def view_orders_def add_value_def config_value_def result_simps split: output_value.splits)

lemma version_at_height_total: "upgrades_ok u \<Longrightarrow> version_at_height u h \<noteq> None"
  by (erule version_at_height_ok [where h = h]) simp

lemma upgrades_in_force:
  assumes "upgrades_ok (chainstate_upgrades cfg)" and "upgrades_ok (consensus_upgrades cfg)"
  shows "upgrade_at cfg h \<noteq> None" and "staking_pool_spend_maturity_block_count cfg h \<noteq> None"
  using version_at_height_total [OF assms(1), of h] version_at_height_total [OF assms(2), of h]
  by (auto simp: upgrade_at_def staking_pool_spend_maturity_block_count_def consensus_status_def)

lemma no_panic_matured:
  "staking_pool_spend_maturity_block_count cfg h \<noteq> None \<Longrightarrow> no_panic (add_matured cfg h a)"
  by (auto simp: add_matured_def result_simps)

lemma no_panic_process_output: "upgrade_at cfg h \<noteq> None \<Longrightarrow> no_panic (process_output cfg h out)"
  by (cases out) (auto simp: process_output_def process_output_timelock_def Let_def data_deposit_fee_def
      nft_issuance_fee_def split: output_value.split output_time_lock.split)

lemma no_panic_order_commands:
  "no_panic (process_conclude_order_command oid)"
  "upgrade_at cfg h \<noteq> None \<Longrightarrow> no_panic (process_fill_order_command cfg h oid fill)"
  by (auto simp: process_conclude_order_command_def process_fill_order_command_def calculate_fill_order_no_panic)

lemma no_panic_process_input:
  assumes "upgrade_at cfg h \<noteq> None" and "staking_pool_spend_maturity_block_count cfg h \<noteq> None"
  shows "no_panic (process_input cfg h p)"
proof -
  note oc = no_panic_order_commands(1) no_panic_order_commands(2) [OF assms(1)] no_panic_matured [OF assms(2)]
  have "no_panic (process_input_utxo cfg h pos op ut)" for pos op ut
    by (cases ut) (auto simp: process_input_utxo_def Let_def intro: oc)
  moreover have "no_panic (process_input_account cfg h ac)" for ac
    by (cases ac) (auto simp: process_input_account_def intro: oc)
  moreover have "no_panic (process_input_account_command cfg h cmd)" for cmd
    using assms(1) by (cases cmd) (auto simp: process_input_account_command_def Let_def token_supply_change_fee_def
        token_freeze_fee_def token_change_authority_fee_def intro: oc)
  moreover have "no_panic (process_input_order_account_command cfg h cmd)" for cmd
    by (cases cmd) (auto simp: process_input_order_account_command_def intro: oc)
  ultimately show ?thesis
    by (cases p; cases "fst p") (auto simp: process_input_def split: account_outpoint.split option.split)
qed

lemma satisfy_locked_no_panic: "satisfy_locked cells x acc \<noteq> Err Panic"
proof (induction cells arbitrary: x acc)
  case Nil
  show ?case by (cases "x = 0") (auto simp: satisfy_locked_steps word_gt_0)
next
  case (Cons cell cells)
  then show ?case
    by (cases rule: satisfy_locked_cases [where x = x and c = "cell_coins acc cell"]) (auto simp: satisfy_locked_steps)
qed

lemma no_panic_satisfy: "no_panic (satisfy_timelock t x)" "no_panic (satisfy_unconstrained c a)" "no_panic (deduct_total c a)"
  using satisfy_locked_no_panic
  by (auto simp: satisfy_unconstrained_def deduct_total_def no_panic_def [of "satisfy_timelock t x"]
      satisfy_timelock_def split: sum.splits)

lemma no_panicD: "no_panic m \<Longrightarrow> fst (m s) \<noteq> Inl Panic"
  by (cases "m s") (auto simp: no_panic_def)

section \<open>A sample transaction\<close>

definition sample_stake :: stake_pool_data where
  "sample_stake = \<lparr>sp_pledge = 100, sp_staker = AnyoneCanSpend, sp_vrf_public_key = [],
     sp_decommission_key = AnyoneCanSpend, sp_margin_ratio_per_thousand = PerThousand 10, sp_cost_per_block = 3\<rparr>"

text \<open>Coins, a pool of stake 110 and 20 coins of a delegation, for 120 locked coins and 80 free ones.\<close>

definition sample_inputs :: "tx_input list" where
  "sample_inputs = [UtxoInput (UtxoOutPoint (TransactionSource 1) 0), UtxoInput (UtxoOutPoint (TransactionSource 2) 0),
     AccountInput (AccountOutPoint (AccountNonce 0) (DelegationBalance 7 20))]"

definition sample_utxos :: "tx_output option list" where
  "sample_utxos = [Some (Transfer (Coin 100) AnyoneCanSpend), Some (CreateStakePool 1 sample_stake), None]"

definition sample_outputs :: "tx_output list" where
  "sample_outputs = [LockThenTransfer (Coin 120) AnyoneCanSpend (ForBlockCount 2000), Transfer (Coin 80) AnyoneCanSpend]"

abbreviation sample_from_inputs :: "constraints_failure + value_accumulator" where
  "sample_from_inputs \<equiv> from_inputs sample_config 10 (orders_cache_view orders_sample_cache) (pos_delta_view pos_sample)
     (tokens_cache_view sample_cache) sample_inputs sample_utxos"

lemma sample_transaction_ok:
  "is_ok (and_then sample_from_inputs (\<lambda>i. and_then (from_outputs sample_config 10 sample_outputs) (satisfy_with i)))"
  by code_simp

lemma sample_transaction:
  obtains i out fee where "sample_from_inputs = Ok i" "from_outputs sample_config 10 sample_outputs = Ok out"
    "satisfy_with i out = Ok fee"
  using sample_transaction_ok by (auto simp: is_ok_iff result_simps)

section \<open>Properties\<close>

text \<open>
  C1: A transaction that passes the three checks conserves every currency: what its inputs bring (the
  spent outputs, withdrawn stake, minted tokens, what orders pay out), less the fees and prices charged
  for its commands, is exactly what its outputs take plus the fee that is left over. No overflow of 128
  bits goes unnoticed on the way.
\<close>
theorem transaction_conserves_value:
  assumes "from_inputs cfg h orders pos tokens inputs utxos = Ok i"
    and "from_outputs cfg h outputs = Ok out" and "satisfy_with i out = Ok fee"
  shows "over_inputs cfg h (\<lambda>s p. input_brings cfg h s p c) (zip inputs utxos) (inputs_state_new orders pos tokens) =
    over_inputs cfg h (\<lambda>s p. input_charge cfg h s p c) (zip inputs utxos) (inputs_state_new orders pos tokens) +
    (\<Sum>out\<leftarrow>outputs. output_takes cfg h out c) + total_value (fee_accumulator fee) c"
  using from_inputs_amounts(1) [OF assms(1), of c] from_outputs_amounts(1) [OF assms(2), of c]
    satisfy_with_amounts(1) [OF assms(3), of c] by simp

theorem transaction_conserves_value_witness:
  "\<exists>fee. over_inputs sample_config 10 (\<lambda>s p. input_brings sample_config 10 s p CoinId) (zip sample_inputs sample_utxos)
       (inputs_state_new (orders_cache_view orders_sample_cache) (pos_delta_view pos_sample) (tokens_cache_view sample_cache)) =
     over_inputs sample_config 10 (\<lambda>s p. input_charge sample_config 10 s p CoinId) (zip sample_inputs sample_utxos)
       (inputs_state_new (orders_cache_view orders_sample_cache) (pos_delta_view pos_sample) (tokens_cache_view sample_cache)) +
     (\<Sum>out\<leftarrow>sample_outputs. output_takes sample_config 10 out CoinId) + total_value (fee_accumulator fee) CoinId"
proof (rule sample_transaction)
  fix i out fee
  assume "sample_from_inputs = Ok i" "from_outputs sample_config 10 sample_outputs = Ok out" "satisfy_with i out = Ok fee"
  from transaction_conserves_value [OF this, of CoinId] show ?thesis by blast
qed

text \<open>
  C7: Stake that a transaction withdraws, from a decommissioned pool or from a delegation, stays locked:
  at a height with a maturity distance, all of it goes into outputs locked for at least that many blocks,
  or is left in the fee.
\<close>
theorem withdrawn_stake_stays_locked:
  assumes "from_inputs cfg h orders pos tokens inputs utxos = Ok i"
    and "from_outputs cfg h outputs = Ok out" and "satisfy_with i out = Ok fee"
    and "staking_pool_spend_maturity_block_count cfg h = Some m" and "m \<noteq> 0"
  shows "over_inputs cfg h input_stake (zip inputs utxos) (inputs_state_new orders pos tokens) \<le>
    (\<Sum>l\<in>{m..}. \<Sum>out\<leftarrow>outputs. output_locks out l) + locked_from (fee_accumulator fee) m"
proof -
  let ?x = "over_inputs cfg h input_stake (zip inputs utxos) (inputs_state_new orders pos tokens)"
  have "locked_from i m = ?x"
    using from_inputs_amounts(2) [OF assms(1)] assms(4,5)
    by (simp add: locked_from_def stake_lock_def)
  moreover have "locked_from out m = (\<Sum>l\<in>{m..}. \<Sum>out\<leftarrow>outputs. output_locks out l)"
    using from_outputs_amounts(2) [OF assms(2)] by (simp add: locked_from_def)
  ultimately show ?thesis using satisfy_with_amounts(2) [OF assms(3), of m] by simp
qed

theorem withdrawn_stake_stays_locked_witness:
  "\<exists>fee. over_inputs sample_config 10 input_stake (zip sample_inputs sample_utxos)
       (inputs_state_new (orders_cache_view orders_sample_cache) (pos_delta_view pos_sample) (tokens_cache_view sample_cache)) \<le>
     (\<Sum>l\<in>{2000..}. \<Sum>out\<leftarrow>sample_outputs. output_locks out l) + locked_from (fee_accumulator fee) 2000"
proof (rule sample_transaction)
  fix i out fee
  assume st: "sample_from_inputs = Ok i" "from_outputs sample_config 10 sample_outputs = Ok out" "satisfy_with i out = Ok fee"
  have "staking_pool_spend_maturity_block_count sample_config 10 = Some 2000" by code_simp
  from withdrawn_stake_stays_locked [OF st this] show ?thesis by auto
qed

text \<open>
  C16: \<open>satisfy_with\<close> is complete: it succeeds exactly when every currency has enough unlocked value and,
  for every number of blocks, the coins the inputs leave free or locked at most that long cover the
  outputs locked at most that long. The greedy order in which it uses the constraints loses nothing.
\<close>
theorem satisfy_with_is_complete:
  "(\<exists>fee. satisfy_with self other = Ok fee) \<longleftrightarrow>
     (\<forall>c. free_value other c \<le> free_value self c) \<and>
     (\<forall>t. free_value other CoinId + locked_up_to other t \<le> free_value self CoinId + locked_up_to self t)"
  using satisfy_with_success [of self other] by (simp add: is_ok_iff)

text \<open>
  Collecting the fees of a block commutes with projecting them to coins: the block fee of combined
  fees is the sum of the block fees.
\<close>
theorem block_fees_add_up:
  assumes "accumulated_fee_combine a b = Ok ab" and "map_into_block_fees cfg h a = Ok (Fee x)"
    and "map_into_block_fees cfg h b = Ok (Fee y)" and "map_into_block_fees cfg h ab = Ok (Fee z)"
  shows "uint z = uint x + uint y"
  using assms(2-4) [THEN map_into_block_fees_Ok] combine_coins(1) [OF assms(1)] by auto

definition sample_fee :: "accumulated_fee" where
  "sample_fee = \<lparr> fee_unconstrained_value = btree_of_list [(CoinId, 20)],
     fee_timelock_constrained = btree_of_list [(2000, 10), (3000, 5)] \<rparr>"

theorem block_fees_add_up_witness:
  "\<exists>ab z. accumulated_fee_combine sample_fee sample_fee = Ok ab \<and>
     map_into_block_fees sample_config 10 ab = Ok (Fee z) \<and> uint z = 60"
proof -
  have one: "map_into_block_fees sample_config 10 sample_fee = Ok (Fee 30)" by code_simp
  have "is_ok (and_then (accumulated_fee_combine sample_fee sample_fee) (map_into_block_fees sample_config 10))"
    by code_simp
  then obtain ab z where "accumulated_fee_combine sample_fee sample_fee = Ok ab"
      "map_into_block_fees sample_config 10 ab = Ok (Fee z)"
    by (auto simp: is_ok_iff result_simps) (metis fee.exhaust)
  with block_fees_add_up [OF this(1) one one this(2)] show ?thesis by auto
qed

text \<open>
  On a chain whose tables of upgrades passed \<open>initialize\<close>, none of the checks of a transaction's
  value panics, whatever the transaction, the accounting views and the accumulators: every overflow,
  missing entry or failing view is reported as an error.
\<close>
theorem value_checks_never_panic:
  assumes "upgrades_ok (chainstate_upgrades cfg)" and "upgrades_ok (consensus_upgrades cfg)"
  shows "from_inputs cfg h orders pos tokens inputs utxos \<noteq> Err Panic \<and> from_outputs cfg h outputs \<noteq> Err Panic \<and>
    satisfy_with i out \<noteq> Err Panic \<and> map_into_block_fees cfg h fee \<noteq> Err Panic"
proof (intro conjI)
  note up = upgrades_in_force [OF assms, of h]
  note no = no_panic_each [THEN no_panicD] no_panic_process_input [OF up] no_panic_process_output [OF up(1)] no_panic_satisfy
  have "fst (try_for_each (process_input cfg h) ps s) \<noteq> Inl Panic" for ps and s :: "('b, 'c, 'a) inputs_state"
    by (intro no)
  moreover have "fst (try_for_each (\<lambda>(k, v). deduct_total k v) qs acc) \<noteq> Inl Panic" for qs acc
    by (rule no_panic_each [THEN no_panicD]) (auto simp: no_panic_satisfy split: prod.split)
  ultimately show "from_inputs cfg h orders pos tokens inputs utxos \<noteq> Err Panic"
    unfolding from_inputs_def ensure_def and_then_def by (auto split: prod.split sum.split) (metis fst_conv)+
  have "fst (try_for_each (process_output cfg h) outputs accumulator_new) \<noteq> Inl Panic" by (intro no)
  then show "from_outputs cfg h outputs \<noteq> Err Panic" by (auto simp: from_outputs_def split: prod.split sum.split)
  have "no_panic (bindS (try_for_each (\<lambda>(k, v). satisfy_unconstrained k v) (btree_iter (unconstrained_value out))) (\<lambda>_.
      try_for_each (\<lambda>(k, v). satisfy_timelock k v) (btree_iter (timelock_constrained out))))"
    using no_panic_satisfy by (auto split: prod.split)
  from no_panicD [OF this, of i] show "satisfy_with i out \<noteq> Err Panic"
    by (auto simp: satisfy_with_def split: prod.split sum.split)
  show "map_into_block_fees cfg h fee \<noteq> Err Panic"
    using up(2) by (auto simp: map_into_block_fees_def Let_def result_simps)
qed

theorem value_checks_never_panic_witness:
  "upgrades_ok (chainstate_upgrades sample_config) \<and> upgrades_ok (consensus_upgrades sample_config) \<and>
   from_outputs sample_config 10 sample_outputs \<noteq> Err Panic"
proof -
  have up: "upgrades_ok (chainstate_upgrades sample_config)" "upgrades_ok (consensus_upgrades sample_config)"
    by (simp_all add: sample_config_def upgrades_ok_def)
  with value_checks_never_panic [OF up] show ?thesis by blast
qed

end
