(* ===== verification/Accounting_Reversal.thy ===== *)
theory Accounting_Reversal
  imports Tokens_Accounting Orders_Accounting Pos_Accounting
begin

text \<open>
  Undoing a sequence of accounting operations in the reverse order, as the transaction verifier does when
  it disconnects a transaction: operations on tokens, orders and pools are reversible, and the reversal of
  a sequence of them gives back a state that answers every query as before.
\<close>

section \<open>Reversible operations\<close>

locale reversible =
  fixes exec :: "'c \<Rightarrow> ('s, 'e, 'u) op"
    and undo :: "'u \<Rightarrow> ('s, 'e, unit) op"
    and good :: "'c \<Rightarrow> bool"
    and ok :: "'s \<Rightarrow> bool"
    and alike :: "'s \<Rightarrow> 's \<Rightarrow> bool"
  assumes alike_refl: "alike c c"
    and exec_ok: "exec x c = (Inr u, c') \<Longrightarrow> good x \<Longrightarrow> ok c \<Longrightarrow> ok c'"
    and exec_undo: "exec x c = (Inr u, c') \<Longrightarrow> ok c \<Longrightarrow> alike c' d \<Longrightarrow> \<exists>d'. undo u d = (Inr (), d') \<and> alike c d'"
begin

lemma undo_sequence:
  assumes "mapS exec xs c = (Inr us, c')" and "list_all good xs" and "ok c" and "alike c' d"
  shows "\<exists>d'. try_for_each undo (rev us) d = (Inr (), d') \<and> alike c d'"
  using assms
proof (induction xs arbitrary: c us)
  case Nil
  then show ?case by (auto simp: op_simps)
next
  case (Cons x xs)
  from Cons.prems(1) obtain u c1 vs where m: "exec x c = (Inr u, c1)" "mapS exec xs c1 = (Inr vs, c')" "us = u # vs"
    by (auto simp: op_simps)
  from Cons.IH [OF m(2) _ exec_ok [OF m(1) _ Cons.prems(3)] Cons.prems(4)] Cons.prems(2)
  obtain d1 where d1: "try_for_each undo (rev vs) d = (Inr (), d1)" "alike c1 d1" by auto
  from exec_undo [OF m(1) Cons.prems(3) d1(2)] obtain d2 where "undo u d1 = (Inr (), d2)" "alike c d2" by blast
  with d1(1) m(3) show ?case by (auto simp: try_for_each_append op_simps)
qed

lemma exec_sequence_ok: "mapS exec xs c = (Inr us, c') \<Longrightarrow> list_all good xs \<Longrightarrow> ok c \<Longrightarrow> ok c'"
  by (induction xs arbitrary: c us) (auto simp: op_simps dest: exec_ok)

end

section \<open>Pools and delegations\<close>

definition alike_pos :: "'e pos_delta \<Rightarrow> 'e pos_delta \<Rightarrow> bool" where
  "alike_pos c d \<longleftrightarrow> pos_parent d = pos_parent c \<and> get_pool_data d = get_pool_data c \<and>
     get_delegation_data d = get_delegation_data c \<and> PB d = PB c \<and> DB d = DB c \<and> SH d = SH c"

lemma alike_pos_balances:
  assumes "alike_pos c d"
  shows "get_pool_balance d = get_pool_balance c" "get_delegation_balance d = get_delegation_balance c"
    "get_share d = get_share c"
  using assms by (simp_all add: alike_pos_def pos_cached del: pos_folds)

lemma alike_same_pos: "alike_pos c d \<Longrightarrow> same_pos c d"
  using alike_pos_balances [of c d] by (simp add: same_pos_def alike_pos_def)

lemma with_pos_kept:
  "get_pool_data (with_pos d (PD d) dd pb db sh) = get_pool_data d"
  "get_delegation_data (with_pos d pd (DD d) pb db sh) = get_delegation_data d"
  "get_pool_data (with_pos d (put_delta p y x (PD d)) dd pb db sh) = (get_pool_data d)(p := Inr x)"
  "get_delegation_data (with_pos d pd (put_delta i w v (DD d)) pb db sh) = (get_delegation_data d)(i := Inr v)"
  by simp_all

lemma alike_put:
  "alike_pos c' d \<Longrightarrow> get_pool_data c p = Inr x \<Longrightarrow> get_pool_data c' = (get_pool_data c)(p := Inr y) \<Longrightarrow>
     pos_parent c' = pos_parent c \<Longrightarrow> get_delegation_data c' = get_delegation_data c \<Longrightarrow> DB c' = DB c \<Longrightarrow> SH c' = SH c \<Longrightarrow>
     alike_pos c (with_pos d (put_delta p y x (PD d)) (DD d) (PB c) (DB d) (SH d))"
  "alike_pos c' d \<Longrightarrow> get_delegation_data c i = Inr v \<Longrightarrow> get_delegation_data c' = (get_delegation_data c)(i := Inr w) \<Longrightarrow>
     pos_parent c' = pos_parent c \<Longrightarrow> get_pool_data c' = get_pool_data c \<Longrightarrow> PB c' = PB c \<Longrightarrow> DB c' = DB c \<Longrightarrow> SH c' = SH c \<Longrightarrow>
     alike_pos c (with_pos d (PD d) (put_delta i w v (DD d)) (PB d) (DB d) (SH d))"
  by (simp_all add: alike_pos_def with_pos_kept fun_upd_idem del: with_pos_reads pos_folds)

lemma reverse_create_pool:
  assumes "create_pool p d c = (Inr u, c')" and ok: "pos_delta_ok c" and d: "alike_pos c' e"
  shows "\<exists>e'. pos_undo u e = (Inr (), e') \<and> alike_pos c e'"
proof -
  obtain x where c: "get_pool_data c p = Inr None" "get_pool_balance c p = Inr 0"
      "add_unsigned p (pledge_amount d) (PB c) = (Inr (), x)"
      "u = CreatePoolUndo p (pledge_amount d) (invert (new_delta None (Some d)))"
      "c' = with_pos c (put_delta p None (Some d) (PD c)) (DD c) x (DB c) (SH c)"
    using assms(1) by (auto simp: create_pool_Ok)
  have "get_pool_balance c' p = Inr (pledge_amount d)"
    using cached_balance_add [OF c(2) [unfolded pos_cached] c(3)] add_unsigned_Ok [OF c(3)] by (simp add: c(5))
  then have e: "get_pool_balance e p = Inr (pledge_amount d)" "PB e = x" "get_pool_data e p = Inr (Some d)"
    using alike_pos_balances [OF d] d by (simp_all add: alike_pos_def c(5))
  have "sub_unsigned p (pledge_amount d) x = (Inr (), PB c)"
    by (rule sub_after_add [OF pos_delta_okD(3) [OF ok] c(3)])
  with e have "pos_undo u e = (Inr (), with_pos e (put_delta p (Some d) None (PD e)) (DD e) (PB c) (DB e) (SH e))"
    by (simp add: c(4) op_simps result_simps undo_merge_pool_read)
  moreover have "alike_pos c (with_pos e (put_delta p (Some d) None (PD e)) (DD e) (PB c) (DB e) (SH e))"
    by (rule alike_put(1) [OF d c(1)]) (simp_all add: c(5))
  ultimately show ?thesis by blast
qed

lemma reverse_decommission_pool:
  assumes "decommission_pool p c = (Inr u, c')" and ok: "pos_delta_ok c" and d: "alike_pos c' e"
  shows "\<exists>e'. pos_undo u e = (Inr (), e') \<and> alike_pos c e'"
proof -
  obtain d' a x where c: "get_pool_data c p = Inr (Some d')" "get_pool_balance c p = Inr a"
      "sub_unsigned p a (PB c) = (Inr (), x)"
      "u = DecommissionPoolUndo p a (invert (new_delta (Some d') None))"
      "c' = with_pos c (put_delta p (Some d') None (PD c)) (DD c) x (DB c) (SH c)"
    using assms(1) by (auto simp: decommission_pool_Ok)
  have "get_pool_balance c' p = Inr 0"
    using cached_balance_sub [OF c(2) [unfolded pos_cached] c(3)] sub_unsigned_Ok [OF c(3)] by (simp add: c(5))
  then have e: "get_pool_balance e p = Inr 0" "PB e = x" "get_pool_data e p = Inr None"
    using alike_pos_balances [OF d] d by (simp_all add: alike_pos_def c(5))
  have "add_unsigned p a x = (Inr (), PB c)"
    by (rule add_after_sub [OF pos_delta_okD(3) [OF ok] c(3)])
  with e have "pos_undo u e = (Inr (), with_pos e (put_delta p None (Some d') (PD e)) (DD e) (PB c) (DB e) (SH e))"
    by (simp add: c(4) op_simps result_simps undo_merge_pool_read amount_zero_def)
  moreover have "alike_pos c (with_pos e (put_delta p None (Some d') (PD e)) (DD e) (PB c) (DB e) (SH e))"
    by (rule alike_put(1) [OF d c(1)]) (simp_all add: c(5))
  ultimately show ?thesis by blast
qed

lemma reverse_increase_rewards:
  assumes "increase_staker_rewards p a c = (Inr u, c')" and ok: "pos_delta_ok c" and d: "alike_pos c' e"
  shows "\<exists>e'. pos_undo u e = (Inr (), e') \<and> alike_pos c e'"
proof -
  obtain b b' x where c: "get_pool_data c p = Inr (Some b)" "add_unsigned p a (PB c) = (Inr (), x)"
      "u = IncreaseStakerRewardsUndo p a (invert (new_delta (Some b) (Some b')))"
      "c' = with_pos c (put_delta p (Some b) (Some b') (PD c)) (DD c) x (DB c) (SH c)"
    using assms(1) by (auto simp: increase_staker_rewards_Ok)
  have e: "PB e = x" "get_pool_data e p = Inr (Some b')" using d by (simp_all add: alike_pos_def c(4))
  have "sub_unsigned p a x = (Inr (), PB c)"
    by (rule sub_after_add [OF pos_delta_okD(3) [OF ok] c(2)])
  with e have "pos_undo u e = (Inr (), with_pos e (put_delta p (Some b') (Some b) (PD e)) (DD e) (PB c) (DB e) (SH e))"
    by (simp add: c(3) op_simps undo_merge_pool_read pos_balance_ops)
  moreover have "alike_pos c (with_pos e (put_delta p (Some b') (Some b) (PD e)) (DD e) (PB c) (DB e) (SH e))"
    by (rule alike_put(1) [OF d c(1)]) (simp_all add: c(4))
  ultimately show ?thesis by blast
qed

lemma reverse_delegate:
  assumes "delegate_staking i a c = (Inr u, c')" and ok: "pos_delta_ok c" and d: "alike_pos c' e"
  shows "\<exists>e'. pos_undo u e = (Inr (), e') \<and> alike_pos c e'"
proof -
  obtain b x y z where c: "get_delegation_data c i = Inr (Some b)" "add_unsigned i a (DB c) = (Inr (), x)"
      "add_unsigned (source_pool b) a (PB c) = (Inr (), y)"
      "add_unsigned (source_pool b, i) a (SH c) = (Inr (), z)" "u = DelegateStakingUndo i a"
      "c' = with_pos c (PD c) (DD c) y x z"
    using assms(1) by (auto simp: delegate_staking_Ok)
  have e: "get_delegation_data e i = Inr (Some b)" "DB e = x" "PB e = y" "SH e = z"
    using d c(1) by (simp_all add: alike_pos_def c(6))
  have "sub_unsigned i a x = (Inr (), DB c)" "sub_unsigned (source_pool b) a y = (Inr (), PB c)"
      "sub_unsigned (source_pool b, i) a z = (Inr (), SH c)"
    using c(2-4) pos_delta_okD(3-5) [OF ok] by (auto intro: sub_after_add)
  with e have "pos_undo u e = (Inr (), with_pos e (PD e) (DD e) (PB c) (DB c) (SH c))"
    by (simp add: c(5) op_simps result_simps Let_def pos_balance_ops)
  moreover have "alike_pos c (with_pos e (PD e) (DD e) (PB c) (DB c) (SH c))"
    using d by (simp add: alike_pos_def c(6) with_pos_kept del: with_pos_reads pos_folds)
  ultimately show ?thesis by blast
qed

lemma reverse_spend:
  assumes "spend_share_from_delegation_id i a c = (Inr u, c')" and ok: "pos_delta_ok c" and al: "alike_pos c' f"
  shows "\<exists>f'. pos_undo u f = (Inr (), f') \<and> alike_pos c f'"
proof -
  from spend_share_pre [OF assms(1)] obtain d e where
    d: "get_delegation_data c i = Inr (Some d)" "get_pool_data c (source_pool d) = Inr e" by blast
  obtain x y z where c: "sub_unsigned (source_pool d, i) a (SH c) = (Inr (), x)"
      "if e = None then y = PB c else sub_unsigned (source_pool d) a (PB c) = (Inr (), y)"
      "sub_unsigned i a (DB c) = (Inr (), z)" "u = SpendFromShareUndo i a" "c' = with_pos c (PD c) (DD c) y z x"
    using assms(1) d spend_share_decommissioned [OF d(1)] spend_share_existing [OF d(1)] by (cases e) auto
  have f: "get_delegation_data f i = Inr (Some d)" "get_pool_data f (source_pool d) = Inr e" "DB f = z" "PB f = y" "SH f = x"
    using al d by (simp_all add: alike_pos_def c(5))
  have "add_unsigned (source_pool d, i) a x = (Inr (), SH c)" "add_unsigned i a z = (Inr (), DB c)"
      "e \<noteq> None \<Longrightarrow> add_unsigned (source_pool d) a y = (Inr (), PB c)"
    using c(1-3) pos_delta_okD(3-5) [OF ok] by (auto intro: add_after_sub)
  moreover have "pool_exists (with_pos f (PD f) dd pb db sh) (source_pool d) = Inr (e \<noteq> None)" for dd pb db sh
    using f(2) by (simp add: pool_exists_Ok)
  ultimately have "pos_undo u f = (Inr (), with_pos f (PD f) (DD f) (PB c) (DB c) (SH c))"
    using f c(2) by (cases e) (auto simp: c(4) op_simps result_simps Let_def pos_balance_ops)
  moreover have "alike_pos c (with_pos f (PD f) (DD f) (PB c) (DB c) (SH c))"
    using al by (simp add: alike_pos_def c(5) with_pos_kept del: with_pos_reads pos_folds)
  ultimately show ?thesis by blast
qed

lemma pos_exec_reversible:
  assumes "pos_exec call c = (Inr u, c')" and ok: "pos_delta_ok c" and d: "alike_pos c' e"
  shows "\<exists>e'. pos_undo u e = (Inr (), e') \<and> alike_pos c e'"
proof (cases call)
  case (CallCreateDelegationId p i k)
  let ?x = "Some (delegation_data_new p k)"
  from CallCreateDelegationId assms(1) have c: "get_delegation_data c i = Inr None"
      "u = CreateDelegationIdUndo i (invert (new_delta None ?x))"
      "c' = with_pos c (PD c) (put_delta i None ?x (DD c)) (PB c) (DB c) (SH c)"
    by (auto simp: create_delegation_id_Ok Let_def)
  have "get_delegation_data e i = Inr ?x" using d by (simp add: alike_pos_def c(3))
  then have "pos_undo u e = (Inr (), with_pos e (PD e) (put_delta i ?x None (DD e)) (PB e) (DB e) (SH e))"
    by (simp add: c(2) op_simps result_simps undo_merge_delegation_read)
  then show ?thesis using alike_put(2) [OF d c(1), of ?x] by (auto simp: c(3))
next
  case (CallDeleteDelegationId i)
  then obtain v where c: "get_delegation_data c i = Inr (Some v)" "get_delegation_balance c i = Inr 0"
      "u = DeleteDelegationIdUndo i (invert (new_delta (Some v) None))"
      "c' = with_pos c (PD c) (put_delta i (Some v) None (DD c)) (PB c) (DB c) (SH c)"
    using assms(1) by (auto simp: delete_delegation_id_Ok)
  have "get_delegation_data e i = Inr None" "get_delegation_balance e i = Inr 0"
    using d c(2) alike_pos_balances(2) [OF d] by (simp_all add: alike_pos_def c(4))
  then have "pos_undo u e = (Inr (), with_pos e (PD e) (put_delta i None (Some v) (DD e)) (PB e) (DB e) (SH e))"
    by (simp add: c(3) op_simps result_simps undo_merge_delegation_read amount_zero_def)
  then show ?thesis using alike_put(2) [OF d c(1), of None] by (auto simp: c(4))
next
  case (CallDelegateStaking i a)
  with assms reverse_delegate show ?thesis by simp
next
  case (CallSpendShare i a)
  with assms reverse_spend show ?thesis by simp
qed (use assms reverse_create_pool reverse_decommission_pool reverse_increase_rewards in simp_all)

interpretation pos_reversible: reversible pos_exec pos_undo "\<lambda>_. True" pos_delta_ok alike_pos
  by unfold_locales (simp add: alike_pos_def, use pos_exec_ok in blast, fact pos_exec_reversible)

section \<open>Tokens\<close>

definition alike_tokens :: "'e tokens_cache \<Rightarrow> 'e tokens_cache \<Rightarrow> bool" where
  "alike_tokens c d \<longleftrightarrow> tc_parent d = tc_parent c \<and> get_token_data d = get_token_data c \<and>
     td_circulating_supply (tc_data d) = td_circulating_supply (tc_data c)"

lemma alike_same_tokens: "alike_tokens c d \<Longrightarrow> same_tokens c d"
  by (simp add: alike_tokens_def same_tokens_def get_circulating_supply_cached)

text \<open>A token is issued with a supply that is not locked, or lockable.\<close>

fun issues_unlocked :: "tokens_call \<Rightarrow> bool" where
  "issues_unlocked (CallIssue _ (FungibleToken d)) \<longleftrightarrow> (ft_locked d \<longrightarrow> ft_total_supply d = Lockable)"
| "issues_unlocked _ \<longleftrightarrow> True"

lemma tokens_exec_wf:
  assumes "tokens_exec call c = (Inr u, c')" and "issues_unlocked call" and "tokens_cache_ok c \<and> tokens_wf c"
  shows "tokens_cache_ok c' \<and> tokens_wf c'"
proof -
  have "tokens_wf c'"
  proof (cases call)
    case (CallIssue tid d)
    with assms show ?thesis by (cases d) (auto simp: token_Ok tokens_wf_def)
  next
    case (CallMint tid a)
    with assms show ?thesis by (auto simp: token_Ok tokens_wf_def dest!: on_supply_get_token_data)
  next
    case (CallUnmint tid a)
    with assms show ?thesis by (auto simp: token_Ok tokens_wf_def dest!: on_supply_get_token_data)
  qed (use assms in \<open>auto simp: token_Ok tokens_wf_def Let_def split: if_splits\<close>)
  with assms tokens_exec_cache_ok show ?thesis by blast
qed

lemma reverse_token:
  assumes "get_token_data c tid = Inr x" and "alike_tokens (with_token c tid x y) d"
  shows "on_token_data (undo_merge_delta_data_element tid (invert (new_delta x y))) d = (Inr (), with_token d tid y x)"
    and "alike_tokens c (with_token d tid y x)" and "get_token_data d tid = Inr y"
proof -
  from assms(2) have d: "get_token_data d = (get_token_data c)(tid := Inr y)" "tc_parent d = tc_parent c"
      "td_circulating_supply (tc_data d) = td_circulating_supply (tc_data c)"
    by (auto simp: alike_tokens_def fun_eq_iff)
  then show "get_token_data d tid = Inr y" by simp
  then show "on_token_data (undo_merge_delta_data_element tid (invert (new_delta x y))) d = (Inr (), with_token d tid y x)"
    by (rule undo_merge_token_read)
  show "alike_tokens c (with_token d tid y x)" using d assms(1) by (auto simp: alike_tokens_def fun_eq_iff)
qed

lemma reverse_token_change:
  assumes "get_token_data c tid = Inr (Some (FungibleToken x))" and "\<not> forbidden y"
    and "alike_tokens (with_token c tid (Some (FungibleToken x)) (Some (FungibleToken y))) d"
  shows "\<exists>d'. undo_token_change tid (invert (new_delta (Some (FungibleToken x)) (Some (FungibleToken y)))) forbidden e d =
      (Inr (), d') \<and> alike_tokens c d'"
  using reverse_token [OF assms(1,3)] assms(2) by (auto simp: undo_token_change_def op_simps)

lemma reverse_supply:
  assumes "on_supply m c = (Inr u, c')" and "m' (td_circulating_supply (tc_data c')) = (Inr (), td_circulating_supply (tc_data c))"
    and "alike_tokens c' d"
  shows "\<exists>d'. on_supply m' d = (Inr (), d') \<and> alike_tokens c d'"
proof -
  let ?d = "tc_data_update (td_circulating_supply_update (\<lambda>_. td_circulating_supply (tc_data c))) d"
  have run: "on_supply m' d = (Inr (), ?d)"
    using assms(2,3) by (simp add: on_supply_Ok alike_tokens_def)
  have "get_token_data ?d = get_token_data c" "tc_parent ?d = tc_parent c"
    using on_supply_get_token_data [OF run] on_supply_parent [OF run] assms(3)
      on_supply_get_token_data [OF assms(1)] on_supply_parent [OF assms(1)]
    by (simp_all only: alike_tokens_def)
  with run show ?thesis by (simp add: alike_tokens_def)
qed

lemma tokens_exec_reversible:
  assumes "tokens_exec call c = (Inr u, c')" and ok: "tokens_cache_ok c \<and> tokens_wf c" and al: "alike_tokens c' e"
  shows "\<exists>e'. tokens_undo u e = (Inr (), e') \<and> alike_tokens c e'"
proof (cases call)
  case (CallMint tid a)
  with assms(1) obtain d where d: "get_token_data c tid = Inr (Some (FungibleToken d))"
      "ft_total_supply d = Lockable \<longrightarrow> \<not> ft_locked d" "u = MintTokenUndo tid a"
      "on_supply (add_unsigned tid a) c = (Inr (), c')"
    by (auto simp: token_Ok)
  then have "\<not> ft_locked d" using ok by (auto simp: tokens_wf_def)
  moreover have "get_token_data e tid = Inr (Some (FungibleToken d))"
    using d(1) al on_supply_get_token_data [OF d(4)] by (simp add: alike_tokens_def)
  moreover have "sub_unsigned tid a (td_circulating_supply (tc_data c')) = (Inr (), td_circulating_supply (tc_data c))"
    using d(4) ok by (auto simp: on_supply_Ok tokens_cache_ok_def sub_after_add)
  ultimately show ?thesis using reverse_supply [OF d(4) _ al] d(3) by (auto simp: op_simps)
next
  case (CallUnmint tid a)
  with assms(1) obtain d where d: "get_token_data c tid = Inr (Some (FungibleToken d))"
      "\<not> ft_locked d" "u = UnmintTokenUndo tid a" "on_supply (sub_unsigned tid a) c = (Inr (), c')"
    by (auto simp: token_Ok)
  have "get_token_data e tid = Inr (Some (FungibleToken d))"
    using d(1) al on_supply_get_token_data [OF d(4)] by (simp add: alike_tokens_def)
  moreover have "add_unsigned tid a (td_circulating_supply (tc_data c')) = (Inr (), td_circulating_supply (tc_data c))"
    using d(4) ok by (auto simp: on_supply_Ok tokens_cache_ok_def add_after_sub)
  ultimately show ?thesis using reverse_supply [OF d(4) _ al] d(2,3) by (auto simp: op_simps)
next
  case (CallIssue tid d)
  with assms(1) have "get_token_data c tid = Inr None" "c' = with_token c tid None (Some d)"
    "u = IssueTokenUndo tid (invert (new_delta None (Some d)))" by (auto simp: token_Ok)
  with reverse_token [of c tid None "Some d" e] al show ?thesis by (cases d) (auto simp: op_simps)
qed (use assms(1) al in \<open>auto simp: token_Ok Let_def is_frozen_def intro!: reverse_token_change\<close>)

interpretation tokens_reversible: reversible tokens_exec tokens_undo issues_unlocked
  "\<lambda>c. tokens_cache_ok c \<and> tokens_wf c" alike_tokens
  by unfold_locales (simp add: alike_tokens_def, fact tokens_exec_wf, fact tokens_exec_reversible)

section \<open>Orders\<close>

definition alike_orders :: "'e orders_cache \<Rightarrow> 'e orders_cache \<Rightarrow> bool" where
  "alike_orders c d \<longleftrightarrow> oc_parent d = oc_parent c \<and> get_order_data d = get_order_data c \<and>
     od_ask_balances (oc_data d) = od_ask_balances (oc_data c) \<and> od_give_balances (oc_data d) = od_give_balances (oc_data c)"

lemma alike_orders_balances:
  "alike_orders c d \<Longrightarrow> get_ask_balance d = get_ask_balance c" "alike_orders c d \<Longrightarrow> get_give_balance d = get_give_balance c"
  by (simp_all add: alike_orders_def get_balances_cached)

lemma alike_same_orders: "alike_orders c d \<Longrightarrow> same_orders c d"
  using alike_orders_balances [of c d] by (simp add: same_orders_def alike_orders_def)

definition orders_ok :: "'e orders_cache \<Rightarrow> bool" where
  "orders_ok c \<longleftrightarrow> orders_cache_ok c \<and> orders_view_ok (orders_cache_view c)"

lemma orders_exec_keeps_ok:
  "orders_exec call c = (Inr u, c') \<Longrightarrow> orders_ok c \<Longrightarrow> orders_ok c'"
  using orders_exec_fits [of call c u c'] by (auto simp: orders_ok_def dest: orders_exec_cache_ok orders_exec_view_ok)

lemma reverse_create_order:
  assumes "create_order oid d c = (Inr u, c')" and ok: "orders_ok c" and al: "alike_orders c' e"
  shows "\<exists>e'. orders_undo u e = (Inr (), e') \<and> alike_orders c e'"
proof -
  obtain a g x y where c: "get_order_data c oid = Inr None" "get_ask_balance c oid = Inr 0"
      "add_unsigned oid a (od_ask_balances (oc_data c)) = (Inr (), x)"
      "add_unsigned oid g (od_give_balances (oc_data c)) = (Inr (), y)"
      "u = CreateOrderUndo oid (invert (new_delta None (Some d))) a g"
      "c' = set_give (set_ask (with_order c oid None (Some d)) x) y"
    using assms(1) by (auto simp: create_order_Ok)
  have give: "get_give_balance c oid = Inr 0"
    using ok orders_view_okD [OF _ c(1)] by (simp add: orders_ok_def order_ok_def)
  have "get_ask_balance c' oid = Inr a" "get_give_balance c' oid = Inr g"
    using ask_balance_add [OF c(2,3)] give_balance_add [OF give c(4)] add_unsigned_Ok [OF c(3)]
      add_unsigned_Ok [OF c(4)] by (simp_all add: c(6) del: set_setters)
  then have e: "get_ask_balance e oid = Inr a" "get_give_balance e oid = Inr g" "oc_parent e = oc_parent c"
      "get_order_data e = (get_order_data c)(oid := Inr (Some d))"
      "od_ask_balances (oc_data e) = x" "od_give_balances (oc_data e) = y"
    using alike_orders_balances [OF al] al by (simp_all add: alike_orders_def c(6))
  have subs: "sub_unsigned oid a x = (Inr (), od_ask_balances (oc_data c))"
      "sub_unsigned oid g y = (Inr (), od_give_balances (oc_data c))"
    using ok by (auto simp: orders_ok_def intro!: sub_after_add [OF orders_cache_ok_nz(1) c(3)]
        sub_after_add [OF orders_cache_ok_nz(2) c(4)])
  define e1 where "e1 = set_give (set_ask e (od_ask_balances (oc_data c))) (od_give_balances (oc_data c))"
  have "on_order_data (undo_merge_delta_data_element oid (invert (new_delta None (Some d)))) e1 =
      (Inr (), with_order e1 oid (Some d) None)"
    by (rule undo_merge_order_read) (simp add: e1_def e(4))
  then have "orders_undo u e = (Inr (), with_order e1 oid (Some d) None)"
    using e subs by (auto simp: c(5) op_simps result_simps e1_def)
  moreover have "alike_orders c (with_order e1 oid (Some d) None)"
    using e c(1) by (simp add: alike_orders_def e1_def fun_upd_idem)
  ultimately show ?thesis by blast
qed

lemma reverse_conclude_order:
  assumes "conclude_order oid c = (Inr u, c')" and ok: "orders_ok c" and al: "alike_orders c' e"
  shows "\<exists>e'. orders_undo u e = (Inr (), e') \<and> alike_orders c e'"
proof -
  obtain d a g x y where c: "get_order_data c oid = Inr (Some d)" "get_ask_balance c oid = Inr a"
      "get_give_balance c oid = Inr g" "sub_unsigned oid a (od_ask_balances (oc_data c)) = (Inr (), x)"
      "sub_unsigned oid g (od_give_balances (oc_data c)) = (Inr (), y)"
      "u = ConcludeOrderUndo oid (invert (new_delta (Some d) None)) a g"
      "c' = set_give (set_ask (with_order c oid (Some d) None) x) y"
    using assms(1) by (auto simp: conclude_order_Ok)
  have okc: "orders_cache_ok c" "orders_view_ok (orders_cache_view c)" using ok by (simp_all add: orders_ok_def)
  obtain oa og where "in_i128 (uint oa)" "in_i128 (uint og)" "a \<le> oa" "g \<le> og"
    using orders_view_okD [OF okc(2) c(1)] c(2,3) by (auto simp: order_ok_def)
  then have range: "in_i128 (uint a)" "in_i128 (uint g)" using in_i128_mono by blast+
  have "get_ask_balance (set_ask c x) oid = Inr 0" "get_give_balance (set_give c y) oid = Inr 0"
    using ask_balance_sub [OF c(2,4) range(1)] give_balance_sub [OF c(3,5) range(2)] by simp_all
  then have "get_ask_balance c' oid = Inr 0" "get_give_balance c' oid = Inr 0"
    by (simp_all add: c(7) get_balances_cached del: set_setters)
  then have e: "get_ask_balance e oid = Inr 0" "get_give_balance e oid = Inr 0" "oc_parent e = oc_parent c"
      "get_order_data e = (get_order_data c)(oid := Inr None)"
      "od_ask_balances (oc_data e) = x" "od_give_balances (oc_data e) = y"
    using alike_orders_balances [OF al] al by (simp_all add: alike_orders_def c(7))
  have adds: "add_unsigned oid a x = (Inr (), od_ask_balances (oc_data c))"
      "add_unsigned oid g y = (Inr (), od_give_balances (oc_data c))"
    by (rule add_after_sub [OF orders_cache_ok_nz(1) [OF okc(1)] c(4)]
        add_after_sub [OF orders_cache_ok_nz(2) [OF okc(1)] c(5)])+
  define e1 where "e1 = with_order e oid None (Some d)"
  have undo: "on_order_data (undo_merge_delta_data_element oid (invert (new_delta (Some d) None))) e = (Inr (), e1)"
    unfolding e1_def by (rule undo_merge_order_read) (simp add: e(4))
  have e1: "get_ask_balance e1 oid = Inr 0" "get_give_balance e1 oid = Inr 0"
      "od_ask_balances (oc_data e1) = x" "od_give_balances (oc_data e1) = y" "oc_parent e1 = oc_parent c"
      "get_order_data e1 = get_order_data c"
    using e c(1) by (simp_all add: e1_def fun_upd_idem)
  define e2 where "e2 = set_give (set_ask e1 (od_ask_balances (oc_data c))) (od_give_balances (oc_data c))"
  have "orders_undo u e = (Inr (), e2)"
    using undo e e1 adds
    by (auto simp: c(6) op_simps result_simps amount_zero_def e2_def simp del: set_setters)
  moreover have "alike_orders c e2" using e1 by (simp add: alike_orders_def e2_def del: set_setters)
  ultimately show ?thesis by blast
qed

lemma reverse_fill_order:
  assumes "fill_order oid f ver c = (Inr u, c')" and ok: "orders_ok c" and al: "alike_orders c' e"
  shows "\<exists>e'. orders_undo u e = (Inr (), e') \<and> alike_orders c e'"
proof -
  obtain r x y where c: "sub_unsigned oid r (od_give_balances (oc_data c)) = (Inr (), y)"
      "sub_unsigned oid f (od_ask_balances (oc_data c)) = (Inr (), x)"
      "u = FillOrderUndo oid f r" "c' = set_ask (set_give c y) x"
    using assms(1) by (auto simp: fill_order_Ok)
  have adds: "add_unsigned oid f x = (Inr (), od_ask_balances (oc_data c))"
      "add_unsigned oid r y = (Inr (), od_give_balances (oc_data c))"
    using ok by (auto simp: orders_ok_def intro!: add_after_sub [OF orders_cache_ok_nz(1) c(2)]
        add_after_sub [OF orders_cache_ok_nz(2) c(1)])
  have e: "od_ask_balances (oc_data e) = x" "od_give_balances (oc_data e) = y" "oc_parent e = oc_parent c"
      "get_order_data e = get_order_data c"
    using al by (simp_all add: alike_orders_def c(4))
  let ?e = "set_give (set_ask e (od_ask_balances (oc_data c))) (od_give_balances (oc_data c))"
  have "orders_undo u e = (Inr (), ?e)" using adds e by (auto simp: c(3) op_simps simp del: set_setters)
  moreover have "alike_orders c ?e" using e by (simp add: alike_orders_def del: set_setters)
  ultimately show ?thesis by blast
qed

lemma reverse_freeze_order:
  assumes "freeze_order oid c = (Inr u, c')" and al: "alike_orders c' e"
  shows "\<exists>e'. orders_undo u e = (Inr (), e') \<and> alike_orders c e'"
proof -
  obtain d where c: "get_order_data c oid = Inr (Some d)"
      "u = FreezeOrderUndo oid (invert (new_delta (Some d) (Some (d\<lparr>order_is_frozen := True\<rparr>))))"
      "c' = with_order c oid (Some d) (Some (d\<lparr>order_is_frozen := True\<rparr>))"
    using assms(1) by (auto simp: freeze_order_Ok Let_def)
  let ?x = "Some (d\<lparr>order_is_frozen := True\<rparr>)"
  have e: "get_order_data e = (get_order_data c)(oid := Inr ?x)" using al by (simp add: alike_orders_def c(3))
  have "orders_undo u e = (Inr (), with_order e oid ?x (Some d))"
    using e undo_merge_order_read [of e oid ?x "Some d"] by (auto simp: c(2) op_simps result_simps)
  moreover have "alike_orders c (with_order e oid ?x (Some d))"
    using al c(1) by (simp add: alike_orders_def c(3) fun_upd_idem)
  ultimately show ?thesis by blast
qed

lemma orders_exec_reversible:
  assumes "orders_exec call c = (Inr u, c')" and "orders_ok c" and "alike_orders c' e"
  shows "\<exists>e'. orders_undo u e = (Inr (), e') \<and> alike_orders c e'"
  using assms by (cases call) (simp_all add: reverse_create_order reverse_conclude_order reverse_fill_order reverse_freeze_order)

interpretation orders_reversible: reversible orders_exec orders_undo "\<lambda>_. True" orders_ok alike_orders
  by unfold_locales (simp add: alike_orders_def, use orders_exec_keeps_ok in blast, fact orders_exec_reversible)

section \<open>Properties\<close>

text \<open>
  C20: A sequence of successful operations on pools and delegations is undone by undoing its records from
  the last to the first: every undo succeeds, and every query for data, balances and shares then gives what
  it gave before the first operation.
\<close>

theorem pos_sequence_undone:
  assumes "pos_steps P (pos_delta_new p) c" and "mapS pos_exec calls c = (Inr us, c')"
  shows "\<exists>d. try_for_each pos_undo (rev us) c' = (Inr (), d) \<and> get_pool_data d = get_pool_data c \<and>
    get_delegation_data d = get_delegation_data c \<and> get_pool_balance d = get_pool_balance c \<and>
    get_delegation_balance d = get_delegation_balance c \<and>
    get_pool_delegation_share d = get_pool_delegation_share c"
proof -
  have "pos_delta_ok c" using pos_steps_ok [OF assms(1)] by simp
  from pos_reversible.undo_sequence [OF assms(2) _ this pos_reversible.alike_refl] show ?thesis
    by (auto simp: list_all_iff same_pos_def get_share_def fun_eq_iff dest!: alike_same_pos)
qed

theorem pos_sequence_undone_witness:
  "\<exists>us c2 d. mapS pos_exec [CallDelegateStaking 7 25, CallDecommissionPool 1] pos_sample = (Inr us, c2) \<and>
     try_for_each pos_undo (rev us) c2 = (Inr (), d) \<and> get_pool_balance d 1 = Inr 140"
proof -
  let ?m = "mapS pos_exec [CallDelegateStaking 7 25, CallDecommissionPool 1] pos_sample"
  have "is_ok (fst ?m)" by code_simp
  then obtain us c2 where m: "?m = (Inr us, c2)" by (auto simp: is_ok_iff) (metis prod.collapse)
  from pos_sequence_undone [OF pos_sample_steps m] m show ?thesis by (auto simp: pos_sample_reads)
qed

text \<open>
  C21: A sequence of successful token operations that issues no token with a locked but not lockable supply
  is undone by undoing its records from the last to the first, and the cache then answers every query as
  before.
\<close>

theorem tokens_sequence_undone:
  assumes "tokens_steps (tokens_cache_new p) c" and "tokens_wf c" and "list_all issues_unlocked calls"
    and "mapS tokens_exec calls c = (Inr us, c')"
  shows "\<exists>d. try_for_each tokens_undo (rev us) c' = (Inr (), d) \<and> get_token_data d = get_token_data c \<and>
    get_circulating_supply d = get_circulating_supply c"
proof -
  have "tokens_cache_ok c \<and> tokens_wf c" using tokens_steps_cache_ok [OF assms(1)] assms(2) by simp
  from tokens_reversible.undo_sequence [OF assms(4,3) this tokens_reversible.alike_refl] show ?thesis
    by (auto simp: same_tokens_def dest!: alike_same_tokens)
qed

theorem tokens_sequence_undone_witness:
  "\<exists>us c2 d. mapS tokens_exec [CallMint 1 7, CallUnmint 1 20] sample_cache = (Inr us, c2) \<and>
     try_for_each tokens_undo (rev us) c2 = (Inr (), d) \<and> get_circulating_supply d 1 = Inr 50"
proof -
  let ?m = "mapS tokens_exec [CallMint 1 7, CallUnmint 1 20] sample_cache"
  have "is_ok (fst ?m)" by code_simp
  then obtain us c2 where m: "?m = (Inr us, c2)" by (auto simp: is_ok_iff) (metis prod.collapse)
  have "tokens_wf sample_cache" by (auto simp: tokens_wf_def sample_cache_reads sample_token_def split: if_splits)
  from tokens_sequence_undone [OF sample_cache_steps this _ m] m show ?thesis by (auto simp: sample_cache_reads)
qed

text \<open>
  C22: A sequence of successful operations on orders is undone by undoing its records from the last to the
  first: every query for order data and for balances then gives what it gave before the first operation.
\<close>

theorem orders_sequence_undone:
  assumes "orders_steps call_fits (orders_cache_new p) c" and "orders_view_ok p"
    and "mapS orders_exec calls c = (Inr us, c')"
  shows "\<exists>d. try_for_each orders_undo (rev us) c' = (Inr (), d) \<and> get_order_data d = get_order_data c \<and>
    get_ask_balance d = get_ask_balance c \<and> get_give_balance d = get_give_balance c"
proof -
  have "orders_ok c"
    using orders_steps_cache_ok [OF assms(1)] orders_steps_view_ok [OF assms(1) orders_view_ok_new [OF assms(2)]]
    by (simp add: orders_ok_def)
  from orders_reversible.undo_sequence [OF assms(3) _ this orders_reversible.alike_refl] show ?thesis
    by (auto simp: list_all_iff same_orders_def dest!: alike_same_orders)
qed

theorem orders_sequence_undone_witness:
  "\<exists>us c2 d. mapS orders_exec [CallFreezeOrder 1, CallConcludeOrder 1] orders_sample_cache = (Inr us, c2) \<and>
     try_for_each orders_undo (rev us) c2 = (Inr (), d) \<and> get_give_balance d 1 = Inr 15"
proof -
  let ?m = "mapS orders_exec [CallFreezeOrder 1, CallConcludeOrder 1] orders_sample_cache"
  have "is_ok (fst ?m)" by code_simp
  then obtain us c2 where m: "?m = (Inr us, c2)" by (auto simp: is_ok_iff) (metis prod.collapse)
  from orders_sequence_undone [OF orders_sample_steps empty_orders_view_ok m] m show ?thesis
    by (auto simp: orders_sample_reads)
qed

end
