(* ===== verification/Utxo_Cache.thy ===== *)
theory Utxo_Cache
  imports Storage_Columns Chain_Types
begin

text \<open>
  The set of unspent transaction outputs (crate \<open>utxo\<close>): entries with their flags (\<open>utxo_entry.rs\<close>), the
  cache over a parent view with connecting and disconnecting of transactions and block rewards
  (\<open>cache.rs\<close>), the undo data of a block (\<open>undo.rs\<close>) and the database (\<open>storage\<close>).
\<close>

section \<open>Utxos, entries and errors\<close>

datatype utxo_error =
    OverwritingUtxo
  | FreshUtxoAlreadyExists
  | UtxoAlreadySpent outpoint_source_id
  | NoUtxoFound
  | NoBlockchainHeightFound
  | MissingBlockRewardUndo gen_block_id
  | InvalidBlockRewardOutputType gen_block_id
  | TxInputAndUndoMismatch tx_id
  | UtxoViewRead
  | UtxoStorageWrite

datatype utxo_source = Blockchain block_height | Mempool

definition is_mempool :: "utxo_source \<Rightarrow> bool" where
  "is_mempool s = (case s of Blockchain _ \<Rightarrow> False | Mempool \<Rightarrow> True)"

definition blockchain_height :: "utxo_source \<Rightarrow> utxo_error + block_height" where
  "blockchain_height s = (case s of Blockchain h \<Rightarrow> Ok h | Mempool \<Rightarrow> Err NoBlockchainHeightFound)"

datatype utxo = Utxo (utxo_output: tx_output) (utxo_source: utxo_source)

definition utxo_new_for_blockchain :: "tx_output \<Rightarrow> block_height \<Rightarrow> utxo" where
  "utxo_new_for_blockchain out h = Utxo out (Blockchain h)"

definition utxo_new_for_mempool :: "tx_output \<Rightarrow> utxo" where
  "utxo_new_for_mempool out = Utxo out Mempool"

definition set_height :: "utxo_source \<Rightarrow> utxo \<Rightarrow> utxo" where
  "set_height v u = Utxo (utxo_output u) v"

datatype utxo_status = Spent | Entry utxo

datatype is_fresh = FreshYes | FreshNo

datatype is_dirty = DirtyYes | DirtyNo

definition fresh_from :: "bool \<Rightarrow> is_fresh" where
  "fresh_from v = (if v then FreshYes else FreshNo)"

definition dirty_from :: "bool \<Rightarrow> is_dirty" where
  "dirty_from v = (if v then DirtyYes else DirtyNo)"

record utxo_entry =
  entry_status :: utxo_status
  entry_fresh :: is_fresh
  entry_dirty :: is_dirty

definition entry_is_dirty :: "utxo_entry \<Rightarrow> bool" where
  "entry_is_dirty e = (case entry_dirty e of DirtyYes \<Rightarrow> True | DirtyNo \<Rightarrow> False)"

definition entry_is_fresh :: "utxo_entry \<Rightarrow> bool" where
  "entry_is_fresh e = (case entry_fresh e of FreshYes \<Rightarrow> True | FreshNo \<Rightarrow> False)"

definition entry_is_spent :: "utxo_entry \<Rightarrow> bool" where
  "entry_is_spent e \<longleftrightarrow> entry_status e = Spent"

definition entry_utxo :: "utxo_entry \<Rightarrow> utxo option" where
  "entry_utxo e = (case entry_status e of Spent \<Rightarrow> None | Entry u \<Rightarrow> Some u)"

text \<open>The constructor asserts the combinations of flags that make sense.\<close>

definition utxo_entry_new :: "utxo option \<Rightarrow> is_fresh \<Rightarrow> is_dirty \<Rightarrow> utxo_error failure + utxo_entry" where
  "utxo_entry_new u fresh dirty =
     (let entry = \<lparr>entry_status = (case u of Some u \<Rightarrow> Entry u | None \<Rightarrow> Spent),
                   entry_fresh = fresh, entry_dirty = dirty\<rparr> in
      case entry_status entry of
        Entry _ \<Rightarrow> if \<not> entry_is_fresh entry \<or> entry_is_dirty entry then Ok entry else Err Panic
      | Spent \<Rightarrow> if entry_is_fresh entry \<noteq> entry_is_dirty entry then Ok entry else Err Panic)"

section \<open>Views and the cache\<close>

record 'e utxos_view =
  uv_utxo :: "utxo_outpoint \<Rightarrow> 'e + utxo option"
  uv_has_utxo :: "utxo_outpoint \<Rightarrow> 'e + bool"
  uv_best_block_hash :: "'e + gen_block_id"

record consumed_utxo_cache =
  cu_container :: "(utxo_outpoint, utxo_entry) btree_map"
  cu_best_block :: gen_block_id

text \<open>The field \<open>memory_usage\<close> is never read or changed and is left out.\<close>

record 'e utxos_cache =
  uc_parent :: "'e utxos_view"
  uc_current_block_hash :: gen_block_id
  uc_utxos :: "(utxo_outpoint, utxo_entry) btree_map"

type_synonym ('e, 'a) cache_op = "('e utxos_cache, utxo_error failure, 'a) op"

definition utxos_cache_new :: "'e utxos_view \<Rightarrow> 'e + 'e utxos_cache" where
  "utxos_cache_new parent =
     and_then (uv_best_block_hash parent) (\<lambda>h.
     Ok \<lparr>uc_parent = parent, uc_current_block_hash = h, uc_utxos = fmempty\<rparr>)"

definition utxos_cache_from_data :: "'e utxos_view \<Rightarrow> consumed_utxo_cache \<Rightarrow> 'e + 'e utxos_cache" where
  "utxos_cache_from_data parent utxos =
     Ok \<lparr>uc_parent = parent, uc_current_block_hash = cu_best_block utxos, uc_utxos = cu_container utxos\<rparr>"

definition consume_cache :: "'e utxos_cache \<Rightarrow> consumed_utxo_cache" where
  "consume_cache c = \<lparr>cu_container = uc_utxos c, cu_best_block = uc_current_block_hash c\<rparr>"

definition cache_utxo :: "'e utxos_cache \<Rightarrow> utxo_outpoint \<Rightarrow> 'e + utxo option" where
  "cache_utxo c k = (case fmlookup (uc_utxos c) k of
      Some res \<Rightarrow> Ok (entry_utxo res)
    | None \<Rightarrow> uv_utxo (uc_parent c) k)"

definition has_utxo :: "'e utxos_cache \<Rightarrow> utxo_outpoint \<Rightarrow> 'e + bool" where
  "has_utxo c k = and_then (cache_utxo c k) (\<lambda>u. Ok (u \<noteq> None))"

definition utxos_cache_view :: "'e utxos_cache \<Rightarrow> 'e utxos_view" where
  "utxos_cache_view c = \<lparr>uv_utxo = cache_utxo c, uv_has_utxo = has_utxo c,
     uv_best_block_hash = Ok (uc_current_block_hash c)\<rparr>"

definition has_utxo_in_cache :: "'e utxos_cache \<Rightarrow> utxo_outpoint \<Rightarrow> bool" where
  "has_utxo_in_cache c k \<longleftrightarrow> fmlookup (uc_utxos c) k \<noteq> None"

definition insert_entry :: "utxo_outpoint \<Rightarrow> utxo_entry \<Rightarrow> ('e, unit) cache_op" where
  "insert_entry k e = modifyS (\<lambda>c. c\<lparr>uc_utxos := fmupd k e (uc_utxos c)\<rparr>)"

definition remove_entry :: "utxo_outpoint \<Rightarrow> ('e, unit) cache_op" where
  "remove_entry k = modifyS (\<lambda>c. c\<lparr>uc_utxos := fmdrop k (uc_utxos c)\<rparr>)"

definition lookup_entry :: "utxo_outpoint \<Rightarrow> ('e, utxo_entry option) cache_op" where
  "lookup_entry k = readS (\<lambda>c. Ok (fmlookup (uc_utxos c) k))"

definition set_best_block :: "gen_block_id \<Rightarrow> ('e, unit) cache_op" where
  "set_best_block h = modifyS (\<lambda>c. c\<lparr>uc_current_block_hash := h\<rparr>)"

definition fetch_utxo_entry :: "utxo_outpoint \<Rightarrow> ('e, utxo_entry option) cache_op" where
  "fetch_utxo_entry k =
     bindS (lookup_entry k) (\<lambda>res. case res of
       Some e \<Rightarrow> returnS (Some e)
     | None \<Rightarrow>
         bindS (readS (\<lambda>c. map_err (\<lambda>_. Fail UtxoViewRead) (uv_utxo (uc_parent c) k))) (\<lambda>u. case u of
           None \<Rightarrow> returnS None
         | Some u \<Rightarrow>
             bindS (liftS (utxo_entry_new (Some u) FreshNo DirtyNo)) (\<lambda>e.
             bindS (insert_entry k e) (\<lambda>_. returnS (Some e)))))"

definition add_utxo :: "utxo_outpoint \<Rightarrow> utxo \<Rightarrow> bool \<Rightarrow> ('e, unit) cache_op" where
  "add_utxo k u possible_overwrite =
     bindS (lookup_entry k) (\<lambda>res.
     bindS (case res of
         None \<Rightarrow> returnS (\<not> possible_overwrite)
       | Some curr_entry \<Rightarrow>
           if \<not> possible_overwrite then
             bindS (ensureS (entry_is_spent curr_entry) (Fail OverwritingUtxo)) (\<lambda>_.
             returnS (\<not> entry_is_dirty curr_entry \<or> entry_is_fresh curr_entry))
           else returnS (entry_is_fresh curr_entry)) (\<lambda>is_fresh.
     bindS (liftS (utxo_entry_new (Some u) (fresh_from is_fresh) DirtyYes)) (\<lambda>new_entry.
     insert_entry k new_entry)))"

definition spend_utxo :: "utxo_outpoint \<Rightarrow> ('e, utxo) cache_op" where
  "spend_utxo k =
     bindS (fetch_utxo_entry k) (\<lambda>res.
     bindS (liftS (ok_or res (Fail NoUtxoFound))) (\<lambda>entry.
     bindS (if entry_is_fresh entry then remove_entry k
            else bindS (liftS (utxo_entry_new None FreshNo DirtyYes)) (\<lambda>e. insert_entry k e)) (\<lambda>_.
     liftS (ok_or (entry_utxo entry) (Fail (UtxoAlreadySpent (outpoint_source k)))))))"

text \<open>
  \<open>get_mut_utxo\<close> hands out a mutable reference; what the caller writes through it is the function \<open>f\<close>. The
  result says whether there was a utxo to refer to.
\<close>

definition get_mut_utxo :: "utxo_outpoint \<Rightarrow> (utxo \<Rightarrow> utxo) \<Rightarrow> ('e, bool) cache_op" where
  "get_mut_utxo k f =
     bindS (fetch_utxo_entry k) (\<lambda>res. case res of
       None \<Rightarrow> returnS False
     | Some entry \<Rightarrow> (case entry_utxo entry of
         None \<Rightarrow> returnS False
       | Some u \<Rightarrow>
           bindS (lookup_entry k) (\<lambda>found.
           bindS (case found of
               Some e \<Rightarrow> returnS e
             | None \<Rightarrow>
                 bindS (liftS (utxo_entry_new (Some u) (fresh_from (entry_is_fresh entry))
                                 (dirty_from (entry_is_dirty entry)))) (\<lambda>e.
                 bindS (insert_entry k e) (\<lambda>_. returnS e))) (\<lambda>e.
           case entry_status e of
             Spent \<Rightarrow> returnS False
           | Entry v \<Rightarrow> bindS (insert_entry k (e\<lparr>entry_status := Entry (f v)\<rparr>)) (\<lambda>_. returnS True)))))"

definition uncache :: "utxo_outpoint \<Rightarrow> ('e, unit) cache_op" where
  "uncache k =
     bindS (lookup_entry k) (\<lambda>res. case res of
       Some entry \<Rightarrow>
         if \<not> entry_is_fresh entry \<and> \<not> entry_is_dirty entry then remove_entry k
         else failS (Fail NoUtxoFound)
     | None \<Rightarrow> failS (Fail NoUtxoFound))"

section \<open>Flushing\<close>

definition batch_write_entry :: "utxo_outpoint \<Rightarrow> utxo_entry \<Rightarrow> ('e, unit) cache_op" where
  "batch_write_entry k entry =
     (if entry_is_dirty entry then
        bindS (lookup_entry k) (\<lambda>res. case res of
          None \<Rightarrow>
            if \<not> (entry_is_fresh entry \<and> entry_is_spent entry) then
              bindS (liftS (utxo_entry_new (entry_utxo entry) (fresh_from (entry_is_fresh entry)) DirtyYes)) (\<lambda>e.
              insert_entry k e)
            else returnS ()
        | Some parent_entry \<Rightarrow>
            if entry_is_fresh entry \<and> \<not> entry_is_spent parent_entry then failS (Fail FreshUtxoAlreadyExists)
            else if entry_is_fresh parent_entry \<and> entry_is_spent entry then remove_entry k
            else
              bindS (liftS (utxo_entry_new (entry_utxo entry) (fresh_from (entry_is_fresh parent_entry)) DirtyYes)) (\<lambda>e.
              insert_entry k e))
      else returnS ())"

definition cache_batch_write :: "consumed_utxo_cache \<Rightarrow> ('e, unit) cache_op" where
  "cache_batch_write utxo_entries =
     bindS (try_for_each (\<lambda>(k, entry). batch_write_entry k entry) (btree_iter (cu_container utxo_entries))) (\<lambda>_.
     set_best_block (cu_best_block utxo_entries))"

section \<open>Transactions and block rewards\<close>

definition should_include_in_utxo_set :: "tx_output \<Rightarrow> bool" where
  "should_include_in_utxo_set out = (case out of
      Transfer _ _ \<Rightarrow> True
    | LockThenTransfer _ _ _ \<Rightarrow> True
    | CreateStakePool _ _ \<Rightarrow> True
    | ProduceBlockFromStake _ _ \<Rightarrow> True
    | IssueNft _ _ _ \<Rightarrow> True
    | Htlc _ _ \<Rightarrow> True
    | CreateDelegationId _ _ \<Rightarrow> False
    | DelegateStaking _ _ \<Rightarrow> False
    | Burn _ \<Rightarrow> False
    | IssueFungibleToken _ \<Rightarrow> False
    | DataDeposit _ \<Rightarrow> False
    | CreateOrder _ \<Rightarrow> False)"

definition add_utxos_from_block_reward ::
    "block_reward \<Rightarrow> utxo_source \<Rightarrow> gen_block_id \<Rightarrow> bool \<Rightarrow> ('e, unit) cache_op" where
  "add_utxos_from_block_reward reward source block_id check_for_overwrite =
     try_for_each (\<lambda>(idx, out).
       let outpoint = UtxoOutPoint (BlockRewardSource block_id) (of_nat idx) in
       bindS (if check_for_overwrite
              then readS (\<lambda>c. map_err (\<lambda>_. Fail UtxoViewRead) (has_utxo c outpoint))
              else returnS True) (\<lambda>overwrite.
       add_utxo outpoint (Utxo out source) overwrite)) (enumerate 0 (reward_outputs reward))"

definition add_utxos_from_tx ::
    "(transaction \<Rightarrow> tx_id) \<Rightarrow> transaction \<Rightarrow> utxo_source \<Rightarrow> bool \<Rightarrow> ('e, unit) cache_op" where
  "add_utxos_from_tx get_id tx source check_for_overwrite =
     try_for_each (\<lambda>(idx, out).
       let outpoint = UtxoOutPoint (TransactionSource (get_id tx)) (of_nat idx) in
       bindS (readS (\<lambda>c. map_err (\<lambda>_. Fail UtxoViewRead) (has_utxo c outpoint))) (\<lambda>has_utxo.
       let overwrite = check_for_overwrite \<and> has_utxo in
       add_utxo outpoint (Utxo out source) overwrite))
     (filter (\<lambda>(_, out). should_include_in_utxo_set out) (enumerate 0 (tx_outputs tx)))"

fun utxo_input :: "tx_input \<Rightarrow> utxo_outpoint option" where
  "utxo_input (UtxoInput outpoint) = Some outpoint"
| "utxo_input (AccountInput _) = None"
| "utxo_input (AccountCommandInput _ _) = None"
| "utxo_input (OrderAccountCommandInput _) = None"

type_synonym utxos_tx_undo = "utxo option list"
type_synonym utxos_block_reward_undo = "utxo list"

record utxos_tx_undo_with_sources =
  tu_utxos :: utxos_tx_undo
  tu_sources :: "outpoint_source_id list"

definition spend_input :: "tx_input \<Rightarrow> ('e, utxo option) cache_op" where
  "spend_input inp = (case utxo_input inp of
      Some outpoint \<Rightarrow> bindS (spend_utxo outpoint) (\<lambda>u. returnS (Some u))
    | None \<Rightarrow> returnS None)"

definition connect_transaction ::
    "(transaction \<Rightarrow> tx_id) \<Rightarrow> transaction \<Rightarrow> utxo_source \<Rightarrow> ('e, utxos_tx_undo_with_sources) cache_op" where
  "connect_transaction get_id tx source =
     (let sources = List.map_filter (\<lambda>inp. map_option outpoint_source (utxo_input inp)) (tx_inputs tx) in
      bindS (mapS spend_input (tx_inputs tx)) (\<lambda>utxos.
      bindS (add_utxos_from_tx get_id tx source False) (\<lambda>_.
      returnS \<lparr>tu_utxos = utxos, tu_sources = sources\<rparr>)))"

definition unspend_input ::
    "tx_id \<Rightarrow> tx_input \<times> utxo option \<Rightarrow> (utxo_error failure + utxo_outpoint \<times> utxo) option" where
  "unspend_input i p = (case p of (inp, undo) \<Rightarrow>
     map_option (\<lambda>u. case utxo_input inp of
         Some outpoint \<Rightarrow> Ok (outpoint, u)
       | None \<Rightarrow> Err (Fail (TxInputAndUndoMismatch i))) undo)"

definition disconnect_transaction ::
    "(transaction \<Rightarrow> tx_id) \<Rightarrow> transaction \<Rightarrow> utxos_tx_undo \<Rightarrow> ('e, unit) cache_op" where
  "disconnect_transaction get_id tx tx_undo =
     bindS (try_for_each (\<lambda>(i, out).
       let tx_outpoint = UtxoOutPoint (TransactionSource (get_id tx)) (of_nat i) in
       if should_include_in_utxo_set out then bindS (spend_utxo tx_outpoint) (\<lambda>_. returnS ()) else returnS ())
       (enumerate 0 (tx_outputs tx))) (\<lambda>_.
     bindS (ensureS (length (tx_inputs tx) = length tx_undo) Panic) (\<lambda>_.
     try_for_each (\<lambda>res. bindS (liftS res) (\<lambda>(outpoint, u). add_utxo outpoint u False))
       (List.map_filter (unspend_input (get_id tx)) (zip (tx_inputs tx) tx_undo))))"

definition connect_block_transactable ::
    "block_reward_transactable \<Rightarrow> gen_block_id \<Rightarrow> block_height \<Rightarrow> ('e, utxos_block_reward_undo option) cache_op" where
  "connect_block_transactable reward block_id height =
     bindS (case reward_tx_inputs reward of
         Some inputs \<Rightarrow>
           bindS (mapS spend_utxo (List.map_filter utxo_input inputs)) (\<lambda>utxos.
           returnS (if utxos \<noteq> [] then Some utxos else None))
       | None \<Rightarrow> returnS None) (\<lambda>reward_undo.
     bindS (case reward_tx_outputs reward of
         Some outputs \<Rightarrow>
           try_for_each (\<lambda>(idx, out).
             bindS (ensureS (should_include_in_utxo_set out) (Fail (InvalidBlockRewardOutputType block_id))) (\<lambda>_.
             add_utxo (UtxoOutPoint (BlockRewardSource block_id) (of_nat idx)) (Utxo out (Blockchain height)) False))
             (enumerate 0 outputs)
       | None \<Rightarrow> returnS ()) (\<lambda>_.
     returnS reward_undo))"

definition disconnect_block_transactable ::
    "block_reward_transactable \<Rightarrow> gen_block_id \<Rightarrow> utxos_block_reward_undo option \<Rightarrow> ('e, unit) cache_op" where
  "disconnect_block_transactable reward block_id reward_undo =
     bindS (case reward_tx_outputs reward of
         Some outputs \<Rightarrow>
           try_for_each (\<lambda>(i, _).
             bindS (spend_utxo (UtxoOutPoint (BlockRewardSource block_id) (of_nat i))) (\<lambda>_. returnS ()))
             (enumerate 0 outputs)
       | None \<Rightarrow> returnS ()) (\<lambda>_.
     case reward_tx_inputs reward of
       Some inputs \<Rightarrow>
         bindS (liftS (ok_or reward_undo (Fail (MissingBlockRewardUndo block_id)))) (\<lambda>block_undo.
         try_for_each (\<lambda>(outpoint, u). add_utxo outpoint u False)
           (List.map_filter (\<lambda>(tx_in, u). map_option (\<lambda>outpoint. (outpoint, u)) (utxo_input tx_in))
              (zip inputs block_undo)))
     | None \<Rightarrow> returnS ())"

section \<open>The undo data of a block\<close>

datatype utxos_block_undo_error =
    UtxosUndoAlreadyExists tx_id
  | UtxosUndoAlreadyExistsForReward
  | TxUndoWithDependency tx_id

record utxos_block_undo =
  bu_reward_undo :: "utxos_block_reward_undo option"
  bu_tx_undos :: "(tx_id, utxos_tx_undo) btree_map"
  bu_child_parent :: "(tx_id \<times> tx_id) fset"
  bu_parent_child :: "(tx_id \<times> tx_id) fset"

fun source_tx_id :: "outpoint_source_id \<Rightarrow> tx_id option" where
  "source_tx_id (TransactionSource i) = Some i"
| "source_tx_id (BlockRewardSource _) = None"

definition add_dependency :: "tx_id \<Rightarrow> tx_id \<Rightarrow> utxos_block_undo \<Rightarrow> utxos_block_undo" where
  "add_dependency i source b =
     b\<lparr>bu_child_parent := finsert (i, source) (bu_child_parent b),
       bu_parent_child := finsert (source, i) (bu_parent_child b)\<rparr>"

definition insert_tx_undo ::
    "tx_id \<Rightarrow> utxos_tx_undo_with_sources \<Rightarrow> (utxos_block_undo, utxos_block_undo_error, unit) op" where
  "insert_tx_undo i tx_undo =
     bindS (readS (\<lambda>b. ensure (fmlookup (bu_tx_undos b) i = None) (UtxosUndoAlreadyExists i))) (\<lambda>_.
     bindS (modifyS (\<lambda>b. b\<lparr>bu_tx_undos := fmupd i (tu_utxos tx_undo) (bu_tx_undos b)\<rparr>)) (\<lambda>_.
     modifyS (fold (add_dependency i) (List.map_filter source_tx_id (tu_sources tx_undo)))))"

definition utxos_block_undo_new ::
    "utxos_block_reward_undo option \<Rightarrow> (tx_id, utxos_tx_undo_with_sources) btree_map \<Rightarrow>
     utxos_block_undo_error + utxos_block_undo" where
  "utxos_block_undo_new reward_undo undos =
     (case try_for_each (\<lambda>(i, undo). insert_tx_undo i undo) (btree_iter undos)
        \<lparr>bu_reward_undo = reward_undo, bu_tx_undos = fmempty, bu_child_parent = {||}, bu_parent_child = {||}\<rparr> of
       (Inl e, _) \<Rightarrow> Err e
     | (Inr _, b) \<Rightarrow> Ok b)"

text \<open>The assertions of \<open>from_data\<close> are those of a debug build.\<close>

definition utxos_block_undo_from_data ::
    "utxos_block_reward_undo option \<Rightarrow> (tx_id, utxos_tx_undo) btree_map \<Rightarrow> (tx_id \<times> tx_id) fset \<Rightarrow>
     (tx_id \<times> tx_id) fset \<Rightarrow> utxos_block_undo_error failure + utxos_block_undo" where
  "utxos_block_undo_from_data reward_undo undos child_parent parent_child =
     and_then (ensure (fBall child_parent (\<lambda>(child, parent). (parent, child) |\<in>| parent_child)) Panic) (\<lambda>_.
     and_then (ensure (fBall parent_child (\<lambda>(parent, child). (child, parent) |\<in>| child_parent)) Panic) (\<lambda>_.
     Ok \<lparr>bu_reward_undo = reward_undo, bu_tx_undos = undos, bu_child_parent = child_parent,
         bu_parent_child = parent_child\<rparr>))"

section \<open>The utxo database\<close>

record ('s, 'e) utxos_storage =
  us_utxos :: "('s, 'e, utxo_outpoint, utxo) column"
  us_get_best :: "'s \<Rightarrow> 'e + gen_block_id"
  us_set_best :: "gen_block_id \<Rightarrow> ('s, 'e, unit) op"

definition utxos_db_view :: "('s, 'e) utxos_storage \<Rightarrow> 's \<Rightarrow> 'e utxos_view" where
  "utxos_db_view S s =
     \<lparr>uv_utxo = col_get (us_utxos S) s,
      uv_has_utxo = (\<lambda>k. and_then (col_get (us_utxos S) s k) (\<lambda>u. Ok (u \<noteq> None))),
      uv_best_block_hash = us_get_best S s\<rparr>"

definition db_write_entry ::
    "('s, 'e) utxos_storage \<Rightarrow> utxo_outpoint \<Rightarrow> utxo_entry \<Rightarrow> ('s, utxo_error failure, unit) op" where
  "db_write_entry S k entry =
     (if entry_is_dirty entry then
        (case entry_utxo entry of
           Some u \<Rightarrow> store_set UtxoStorageWrite (us_utxos S) k u
         | None \<Rightarrow> store_delete UtxoStorageWrite (us_utxos S) k)
      else returnS ())"

definition utxos_db_batch_write ::
    "('s, 'e) utxos_storage \<Rightarrow> consumed_utxo_cache \<Rightarrow> ('s, utxo_error failure, unit) op" where
  "utxos_db_batch_write S utxos =
     bindS (try_for_each (\<lambda>(k, entry). db_write_entry S k entry) (btree_iter (cu_container utxos))) (\<lambda>_.
     map_errS (\<lambda>_. Fail UtxoStorageWrite) (us_set_best S (cu_best_block utxos)))"

text \<open>\<open>initialize_db\<close> takes the genesis block of the chain configuration; every failure of it is a panic.\<close>

definition initialize_db ::
    "('s, 'e) utxos_storage \<Rightarrow> gen_block_id \<Rightarrow> tx_output list \<Rightarrow> ('s, utxo_error failure, unit) op" where
  "initialize_db S genesis_id genesis_utxos =
     bindS (map_errS (\<lambda>_. Panic) (us_set_best S genesis_id)) (\<lambda>_.
     bindS (readS (\<lambda>s. map_err (\<lambda>_. Panic) (utxos_cache_new (utxos_db_view S s)))) (\<lambda>cache.
     bindS (liftS (case try_for_each (\<lambda>(index, out).
           add_utxo (UtxoOutPoint (BlockRewardSource genesis_id) (of_nat index)) (utxo_new_for_blockchain out 0) False)
           (enumerate 0 genesis_utxos) cache of
         (Inl _, _) \<Rightarrow> Err Panic
       | (Inr _, c) \<Rightarrow> Ok (consume_cache c))) (\<lambda>consumed.
     map_errS (\<lambda>_. Panic) (utxos_db_batch_write S consumed))))"

record in_memory_utxos =
  im_store :: "(utxo_outpoint, utxo) btree_map"
  im_best_block_id :: gen_block_id

definition in_memory_utxos_storage :: "(in_memory_utxos, storage_error) utxos_storage" where
  "in_memory_utxos_storage =
     \<lparr>us_utxos = map_column im_store (\<lambda>m. im_store_update (\<lambda>_. m)),
      us_get_best = (\<lambda>s. Ok (im_best_block_id s)),
      us_set_best = (\<lambda>h. modifyS (im_best_block_id_update (\<lambda>_. h)))\<rparr>"

section \<open>Entries\<close>

definition mk_entry :: "utxo option \<Rightarrow> bool \<Rightarrow> bool \<Rightarrow> utxo_entry" where
  "mk_entry u fresh dirty = \<lparr>entry_status = (case u of Some u \<Rightarrow> Entry u | None \<Rightarrow> Spent),
     entry_fresh = fresh_from fresh, entry_dirty = dirty_from dirty\<rparr>"

definition entry_valid :: "utxo_entry \<Rightarrow> bool" where
  "entry_valid e \<longleftrightarrow>
     (if entry_is_spent e then entry_is_fresh e \<noteq> entry_is_dirty e else entry_is_fresh e \<longrightarrow> entry_is_dirty e)"

lemma mk_entry_simps [simp]:
  "entry_is_fresh (mk_entry u f d) = f" "entry_is_dirty (mk_entry u f d) = d" "entry_utxo (mk_entry u f d) = u"
  "entry_is_spent (mk_entry u f d) \<longleftrightarrow> u = None"
  by (auto simp: mk_entry_def entry_is_fresh_def entry_is_dirty_def entry_utxo_def entry_is_spent_def fresh_from_def
      dirty_from_def split: option.splits)

lemma mk_entry_valid [simp]:
  "entry_valid (mk_entry (Some u) f d) \<longleftrightarrow> (f \<longrightarrow> d)" "entry_valid (mk_entry None f d) \<longleftrightarrow> f \<noteq> d"
  by (simp_all add: entry_valid_def)

lemma mk_entry_collapse: "mk_entry (entry_utxo e) (entry_is_fresh e) (entry_is_dirty e) = e"
  by (cases e) (auto simp: mk_entry_def entry_utxo_def entry_is_fresh_def entry_is_dirty_def fresh_from_def
      dirty_from_def split: utxo_status.splits is_fresh.splits is_dirty.splits)

lemma set_entry_status:
  "e\<lparr>entry_status := Entry v\<rparr> = mk_entry (Some v) (entry_is_fresh e) (entry_is_dirty e)"
  "entry_status (mk_entry (Some v) a b) = Entry v"
  by (cases e; auto simp: mk_entry_def entry_is_fresh_def entry_is_dirty_def fresh_from_def dirty_from_def
      split: is_fresh.splits is_dirty.splits)+

lemma entry_spent_utxo: "entry_is_spent e \<longleftrightarrow> entry_utxo e = None"
  by (auto simp: entry_is_spent_def entry_utxo_def split: utxo_status.splits)

lemma flags_from [simp]:
  "FreshNo = fresh_from False" "FreshYes = fresh_from True" "DirtyYes = dirty_from True" "DirtyNo = dirty_from False"
  by (simp_all add: fresh_from_def dirty_from_def)

lemma utxo_entry_new_eq [simp]:
  "utxo_entry_new u (fresh_from f) (dirty_from d) =
     (if entry_valid (mk_entry u f d) then Inr (mk_entry u f d) else Inl Panic)"
  by (cases u) (auto simp: utxo_entry_new_def entry_valid_def mk_entry_def entry_is_spent_def)

section \<open>The operations of the cache as functions\<close>

definition put_entry :: "utxo_outpoint \<Rightarrow> utxo_entry \<Rightarrow> 'e utxos_cache \<Rightarrow> 'e utxos_cache" where
  "put_entry k e c = c\<lparr>uc_utxos := fmupd k e (uc_utxos c)\<rparr>"

definition drop_entry :: "utxo_outpoint \<Rightarrow> 'e utxos_cache \<Rightarrow> 'e utxos_cache" where
  "drop_entry k c = c\<lparr>uc_utxos := fmdrop k (uc_utxos c)\<rparr>"

lemma entry_simps [simp]:
  "uc_parent (put_entry k e c) = uc_parent c" "uc_parent (drop_entry k c) = uc_parent c"
  "uc_current_block_hash (put_entry k e c) = uc_current_block_hash c"
  "uc_current_block_hash (drop_entry k c) = uc_current_block_hash c"
  "fmlookup (uc_utxos (put_entry k e c)) j = (if j = k then Some e else fmlookup (uc_utxos c) j)"
  "fmlookup (uc_utxos (drop_entry k c)) j = (if j = k then None else fmlookup (uc_utxos c) j)"
  "put_entry k e (put_entry k e' c) = put_entry k e c"
  by (auto simp: put_entry_def drop_entry_def intro!: fmap_ext)

lemmas entry_op_defs = lookup_entry_def insert_entry_def remove_entry_def
  put_entry_def [symmetric] drop_entry_def [symmetric]

lemmas op_defs = bindS_def returnS_def failS_def liftS_def readS_def modifyS_def ensureS_def ensure_def ok_or_def
  map_err_def

lemma fetch_utxo_entry_eq:
  "fetch_utxo_entry k c = (case fmlookup (uc_utxos c) k of
      Some e \<Rightarrow> (Inr (Some e), c)
    | None \<Rightarrow> (case uv_utxo (uc_parent c) k of
        Inl _ \<Rightarrow> (Inl (Fail UtxoViewRead), c)
      | Inr None \<Rightarrow> (Inr None, c)
      | Inr (Some u) \<Rightarrow> (Inr (Some (mk_entry (Some u) False False)), put_entry k (mk_entry (Some u) False False) c)))"
  by (simp add: fetch_utxo_entry_def entry_op_defs op_defs split: option.splits sum.splits)

lemma add_utxo_eq:
  "add_utxo k u ow c = (case fmlookup (uc_utxos c) k of
      None \<Rightarrow> (Inr (), put_entry k (mk_entry (Some u) (\<not> ow) True) c)
    | Some e \<Rightarrow>
        if \<not> ow \<and> \<not> entry_is_spent e then (Inl (Fail OverwritingUtxo), c)
        else (Inr (), put_entry k
          (mk_entry (Some u) (if ow then entry_is_fresh e else entry_is_dirty e \<longrightarrow> entry_is_fresh e) True) c))"
  by (auto simp: add_utxo_def entry_op_defs op_defs split: option.splits)

lemma spend_utxo_eq:
  "spend_utxo k c = (case fmlookup (uc_utxos c) k of
      Some e \<Rightarrow> (ok_or (entry_utxo e) (Fail (UtxoAlreadySpent (outpoint_source k))),
                 if entry_is_fresh e then drop_entry k c else put_entry k (mk_entry None False True) c)
    | None \<Rightarrow> (case uv_utxo (uc_parent c) k of
        Inl _ \<Rightarrow> (Inl (Fail UtxoViewRead), c)
      | Inr None \<Rightarrow> (Inl (Fail NoUtxoFound), c)
      | Inr (Some u) \<Rightarrow> (Inr u, put_entry k (mk_entry None False True) c)))"
  by (simp add: spend_utxo_def fetch_utxo_entry_eq entry_op_defs op_defs split: option.splits sum.splits)

lemma uncache_eq:
  "uncache k c = (case fmlookup (uc_utxos c) k of
      Some e \<Rightarrow> if \<not> entry_is_fresh e \<and> \<not> entry_is_dirty e then (Inr (), drop_entry k c)
                else (Inl (Fail NoUtxoFound), c)
    | None \<Rightarrow> (Inl (Fail NoUtxoFound), c))"
  by (simp add: uncache_def entry_op_defs op_defs split: option.splits)

lemma get_mut_utxo_eq:
  "get_mut_utxo k f c = (case fmlookup (uc_utxos c) k of
      Some e \<Rightarrow> (case entry_utxo e of
          None \<Rightarrow> (Inr False, c)
        | Some u \<Rightarrow> (Inr True, put_entry k (mk_entry (Some (f u)) (entry_is_fresh e) (entry_is_dirty e)) c))
    | None \<Rightarrow> (case uv_utxo (uc_parent c) k of
        Inl _ \<Rightarrow> (Inl (Fail UtxoViewRead), c)
      | Inr None \<Rightarrow> (Inr False, c)
      | Inr (Some u) \<Rightarrow> (Inr True, put_entry k (mk_entry (Some (f u)) False False) c)))"
  by (cases "fmlookup (uc_utxos c) k")
    (auto simp: get_mut_utxo_def fetch_utxo_entry_eq entry_op_defs op_defs set_entry_status entry_utxo_def
      split: option.splits sum.splits utxo_status.splits)

lemma set_best_block_eq: "set_best_block h c = (Inr (), c\<lparr>uc_current_block_hash := h\<rparr>)"
  by (simp add: set_best_block_def modifyS_def)

lemma batch_write_entry_eq:
  assumes "entry_valid e"
  shows "batch_write_entry k e c = (if \<not> entry_is_dirty e then (Inr (), c) else
    case fmlookup (uc_utxos c) k of
      None \<Rightarrow> (Inr (), put_entry k (mk_entry (entry_utxo e) (entry_is_fresh e) True) c)
    | Some p \<Rightarrow>
        if entry_is_fresh e \<and> \<not> entry_is_spent p then (Inl (Fail FreshUtxoAlreadyExists), c)
        else if entry_is_fresh p \<and> entry_is_spent e then (Inr (), drop_entry k c)
        else (Inr (), put_entry k (mk_entry (entry_utxo e) (entry_is_fresh p) True) c))"
  using assms
  by (cases "entry_utxo e")
    (auto simp: batch_write_entry_def entry_op_defs op_defs entry_valid_def entry_spent_utxo split: option.splits)

lemmas cache_op_eqs = fetch_utxo_entry_eq add_utxo_eq spend_utxo_eq uncache_eq get_mut_utxo_eq set_best_block_eq

section \<open>Calls on the cache\<close>

datatype utxo_call =
    CallAddUtxo utxo_outpoint utxo bool
  | CallSpendUtxo utxo_outpoint
  | CallFetchUtxoEntry utxo_outpoint
  | CallGetMutUtxo utxo_outpoint "utxo \<Rightarrow> utxo"
  | CallUncache utxo_outpoint
  | CallSetBestBlock gen_block_id
  | CallBatchWrite consumed_utxo_cache

fun utxo_exec :: "utxo_call \<Rightarrow> ('e, unit) cache_op" where
  "utxo_exec (CallAddUtxo k u ow) = add_utxo k u ow"
| "utxo_exec (CallSpendUtxo k) = bindS (spend_utxo k) (\<lambda>_. returnS ())"
| "utxo_exec (CallFetchUtxoEntry k) = bindS (fetch_utxo_entry k) (\<lambda>_. returnS ())"
| "utxo_exec (CallGetMutUtxo k f) = bindS (get_mut_utxo k f) (\<lambda>_. returnS ())"
| "utxo_exec (CallUncache k) = uncache k"
| "utxo_exec (CallSetBestBlock h) = set_best_block h"
| "utxo_exec (CallBatchWrite cu) = cache_batch_write cu"

section \<open>The flags of the entries stay valid\<close>

definition cache_valid :: "'e utxos_cache \<Rightarrow> bool" where
  "cache_valid c \<longleftrightarrow> (\<forall>k e. fmlookup (uc_utxos c) k = Some e \<longrightarrow> entry_valid e)"

lemma cache_validD: "cache_valid c \<Longrightarrow> fmlookup (uc_utxos c) k = Some e \<Longrightarrow> entry_valid e"
  by (simp add: cache_valid_def)

lemma cache_valid_put [simp]: "cache_valid c \<Longrightarrow> entry_valid e \<Longrightarrow> cache_valid (put_entry k e c)"
  by (simp add: cache_valid_def)

lemma cache_valid_drop [simp]: "cache_valid c \<Longrightarrow> cache_valid (drop_entry k c)"
  by (simp add: cache_valid_def)

lemma cache_valid_best [simp]: "cache_valid (c\<lparr>uc_current_block_hash := h\<rparr>) = cache_valid c"
  by (simp add: cache_valid_def)

definition container_valid :: "consumed_utxo_cache \<Rightarrow> bool" where
  "container_valid cu \<longleftrightarrow> fmpred (\<lambda>_. entry_valid) (cu_container cu)"

fun call_valid :: "utxo_call \<Rightarrow> bool" where
  "call_valid (CallBatchWrite cu) \<longleftrightarrow> container_valid cu"
| "call_valid _ \<longleftrightarrow> True"

definition keeps_valid :: "('e, 'a) cache_op \<Rightarrow> bool" where
  "keeps_valid m \<longleftrightarrow> (\<forall>c r c'. m c = (r, c') \<longrightarrow> cache_valid c \<longrightarrow> cache_valid c' \<and> r \<noteq> Inl Panic)"

lemma keeps_validD: "keeps_valid m \<Longrightarrow> m c = (r, c') \<Longrightarrow> cache_valid c \<Longrightarrow> cache_valid c' \<and> r \<noteq> Inl Panic"
  by (simp add: keeps_valid_def)

lemma keeps_valid_return: "keeps_valid (returnS a)"
  by (simp add: keeps_valid_def op_simps)

lemma keeps_valid_bind:
  assumes "keeps_valid m" and "\<And>a. keeps_valid (f a)"
  shows "keeps_valid (bindS m f)"
  unfolding keeps_valid_def
proof (intro allI impI)
  fix c r c'
  assume m: "bindS m f c = (r, c')" and v: "cache_valid c"
  obtain q d where q: "m c = (q, d)" by (cases "m c")
  with keeps_validD [OF assms(1) q v] m keeps_validD [OF assms(2), of _ d r c'] show "cache_valid c' \<and> r \<noteq> Inl Panic"
    by (cases q) (auto simp: bindS_def)
qed

lemma keeps_valid_each:
  "(\<And>x. x \<in> set xs \<Longrightarrow> keeps_valid (f x)) \<Longrightarrow> keeps_valid (try_for_each f xs)"
  by (induction xs) (auto intro: keeps_valid_bind keeps_valid_return)

lemma cache_valid_flags:
  "cache_valid c \<Longrightarrow> fmlookup (uc_utxos c) k = Some e \<Longrightarrow> entry_utxo e = Some u \<Longrightarrow> entry_is_fresh e \<Longrightarrow> entry_is_dirty e"
  by (auto simp: entry_valid_def entry_spent_utxo dest!: cache_validD)

lemma keeps_valid_ops:
  "keeps_valid (add_utxo k u ow)" "keeps_valid (spend_utxo k)" "keeps_valid (fetch_utxo_entry k)"
  "keeps_valid (get_mut_utxo k f)" "keeps_valid (uncache k)" "keeps_valid (set_best_block h)"
  by (auto simp: keeps_valid_def cache_op_eqs ok_or_def split: option.splits sum.splits if_splits
      intro!: cache_valid_put intro: cache_valid_flags)

lemma entry_valid_spent: "entry_valid e \<Longrightarrow> entry_utxo e = None \<Longrightarrow> entry_is_dirty e \<Longrightarrow> \<not> entry_is_fresh e"
  by (simp add: entry_valid_def entry_spent_utxo)

lemma keeps_valid_write: "entry_valid e \<Longrightarrow> keeps_valid (batch_write_entry k e)"
  by (cases "entry_utxo e")
    (auto simp: keeps_valid_def batch_write_entry_eq entry_spent_utxo entry_valid_spent
      split: option.splits if_splits)

lemma utxo_exec_valid: "call_valid call \<Longrightarrow> keeps_valid (utxo_exec call)"
proof (cases call)
  case (CallBatchWrite cu)
  then show "call_valid call \<Longrightarrow> ?thesis"
    by (auto simp: cache_batch_write_def container_valid_def btree_iter_set
        intro!: keeps_valid_bind keeps_valid_each keeps_valid_ops keeps_valid_write dest: fmpredD)
qed (auto intro!: keeps_valid_bind keeps_valid_ops keeps_valid_return)

section \<open>Coherence of the cache with its parent\<close>

definition entry_coherent :: "'e + utxo option \<Rightarrow> utxo_entry \<Rightarrow> bool" where
  "entry_coherent p e \<longleftrightarrow> entry_valid e \<and> (entry_is_fresh e \<longrightarrow> p = Inr None) \<and>
     (\<not> entry_is_dirty e \<longrightarrow> p = Inr (entry_utxo e))"

definition utxo_coherent :: "'e utxos_cache \<Rightarrow> bool" where
  "utxo_coherent c \<longleftrightarrow> (\<forall>k e. fmlookup (uc_utxos c) k = Some e \<longrightarrow> entry_coherent (uv_utxo (uc_parent c) k) e)"

lemma utxo_coherentD:
  "utxo_coherent c \<Longrightarrow> fmlookup (uc_utxos c) k = Some e \<Longrightarrow> entry_coherent (uv_utxo (uc_parent c) k) e"
  by (simp add: utxo_coherent_def)

lemma utxo_coherent_put [simp]:
  "utxo_coherent c \<Longrightarrow> entry_coherent (uv_utxo (uc_parent c) k) e \<Longrightarrow> utxo_coherent (put_entry k e c)"
  by (simp add: utxo_coherent_def)

lemma utxo_coherent_drop [simp]: "utxo_coherent c \<Longrightarrow> utxo_coherent (drop_entry k c)"
  by (simp add: utxo_coherent_def)

lemma utxo_coherent_best [simp]: "utxo_coherent (c\<lparr>uc_current_block_hash := h\<rparr>) = utxo_coherent c"
  by (simp add: utxo_coherent_def)

lemma cache_utxo_at:
  "fmlookup (uc_utxos c) k = Some e \<Longrightarrow> cache_utxo c k = Inr (entry_utxo e)"
  "fmlookup (uc_utxos c) k = None \<Longrightarrow> cache_utxo c k = uv_utxo (uc_parent c) k"
  by (simp_all add: cache_utxo_def)

lemma cache_utxo_put [simp]: "cache_utxo (put_entry k e c) = (cache_utxo c)(k := Inr (entry_utxo e))"
  by (simp add: cache_utxo_def fun_eq_iff split: option.split)

lemma cache_utxo_drop [simp]: "cache_utxo (drop_entry k c) = (cache_utxo c)(k := uv_utxo (uc_parent c) k)"
  by (simp add: cache_utxo_def fun_eq_iff split: option.split)

lemma cache_utxo_best [simp]: "cache_utxo (c\<lparr>uc_current_block_hash := h\<rparr>) = cache_utxo c"
  by (simp add: cache_utxo_def fun_eq_iff split: option.split)

lemma utxos_cache_new_coherent:
  "utxos_cache_new p = Inr c \<Longrightarrow> utxo_coherent c \<and> cache_utxo c = uv_utxo p \<and> uc_parent c = p"
  by (auto simp: utxos_cache_new_def result_simps utxo_coherent_def cache_utxo_def)

definition same_base :: "'e utxos_cache \<Rightarrow> 'e utxos_cache \<Rightarrow> bool" where
  "same_base c c' \<longleftrightarrow> uc_parent c' = uc_parent c \<and> uc_current_block_hash c' = uc_current_block_hash c"

text \<open>What spending does, on every branch.\<close>

lemma spend_utxo_cases:
  assumes "utxo_coherent c" and "spend_utxo k c = (r, c')"
  shows "utxo_coherent c' \<and> same_base c c' \<and>
    (case cache_utxo c k of
      Inl _ \<Rightarrow> r = Inl (Fail UtxoViewRead) \<and> c' = c
    | Inr None \<Rightarrow> r \<in> {Inl (Fail NoUtxoFound), Inl (Fail (UtxoAlreadySpent (outpoint_source k)))} \<and>
        cache_utxo c' = cache_utxo c
    | Inr (Some u) \<Rightarrow> r = Inr u \<and> cache_utxo c' = (cache_utxo c)(k := Inr None))"
proof (cases "fmlookup (uc_utxos c) k")
  case None
  with assms show ?thesis
    by (auto simp: spend_utxo_eq cache_utxo_at same_base_def entry_coherent_def fun_upd_idem_iff
        split: sum.splits option.splits)
next
  case (Some e)
  with utxo_coherentD [OF assms(1) Some] assms show ?thesis
    by (auto simp: spend_utxo_eq cache_utxo_at same_base_def entry_coherent_def ok_or_def fun_upd_idem_iff
        split: sum.splits option.splits if_splits)
qed

lemma add_utxo_coherent:
  assumes "utxo_coherent c" and "ow \<or> cache_utxo c k = Inr None"
  shows "\<exists>c'. add_utxo k u ow c = (Inr (), c') \<and> utxo_coherent c' \<and> same_base c c' \<and>
    cache_utxo c' = (cache_utxo c)(k := Inr (Some u))"
proof (cases "fmlookup (uc_utxos c) k")
  case None
  with assms show ?thesis
    by (auto simp: add_utxo_eq cache_utxo_at same_base_def entry_coherent_def split: if_splits)
next
  case (Some e)
  with utxo_coherentD [OF assms(1) Some] assms show ?thesis
    by (auto simp: add_utxo_eq cache_utxo_at same_base_def entry_coherent_def entry_spent_utxo
        split: if_splits)
qed

lemma add_utxo_existing:
  "has_utxo_in_cache c k \<Longrightarrow> cache_utxo c k = Inr (Some v) \<Longrightarrow> add_utxo k u False c = (Inl (Fail OverwritingUtxo), c)"
  by (auto simp: has_utxo_in_cache_def add_utxo_eq cache_utxo_def entry_spent_utxo split: option.splits)

lemma add_utxo_branches:
  assumes "utxo_coherent c"
  shows "if \<not> ow \<and> has_utxo_in_cache c k \<and> (\<exists>w. cache_utxo c k = Inr (Some w))
    then add_utxo k v ow c = (Inl (Fail OverwritingUtxo), c)
    else \<exists>c'. add_utxo k v ow c = (Inr (), c') \<and> cache_utxo c' = (cache_utxo c)(k := Inr (Some v)) \<and>
      (\<exists>c2. spend_utxo k c' = (Inr v, c2) \<and> cache_utxo c2 = (cache_utxo c)(k :=
         if \<not> ow \<and> \<not> has_utxo_in_cache c k then uv_utxo (uc_parent c) k else Inr None))"
proof (cases "fmlookup (uc_utxos c) k")
  case None
  then show ?thesis by (auto simp: add_utxo_eq spend_utxo_eq has_utxo_in_cache_def ok_or_def)
next
  case (Some e)
  with utxo_coherentD [OF assms Some] show ?thesis
    by (auto simp: add_utxo_eq spend_utxo_eq has_utxo_in_cache_def ok_or_def cache_utxo_at entry_spent_utxo
        entry_coherent_def)
qed

lemma fetch_utxo_coherent:
  "utxo_coherent c \<Longrightarrow> fetch_utxo_entry k c = (r, c') \<Longrightarrow> utxo_coherent c' \<and> same_base c c' \<and> cache_utxo c' = cache_utxo c"
  by (auto simp: fetch_utxo_entry_eq same_base_def entry_coherent_def cache_utxo_at fun_upd_idem_iff
      split: option.splits sum.splits)

lemma uncache_coherent:
  assumes "utxo_coherent c" and "uncache k c = (r, c')"
  shows "utxo_coherent c' \<and> same_base c c' \<and> cache_utxo c' = cache_utxo c"
proof (cases "fmlookup (uc_utxos c) k")
  case None
  with assms show ?thesis by (auto simp: uncache_eq same_base_def)
next
  case (Some e)
  with utxo_coherentD [OF assms(1) Some] assms show ?thesis
    by (auto simp: uncache_eq same_base_def entry_coherent_def cache_utxo_at fun_upd_idem_iff split: if_splits)
qed

section \<open>Spending and adding lists of outputs\<close>

text \<open>A cache that reads \<open>view\<close>, coherent with the same parent and at the same block as \<open>c\<close>.\<close>

definition reads_as :: "'e utxos_cache \<Rightarrow> (utxo_outpoint \<Rightarrow> 'e + utxo option) \<Rightarrow> 'e utxos_cache \<Rightarrow> bool" where
  "reads_as c view c' \<longleftrightarrow> utxo_coherent c' \<and> same_base c c' \<and> cache_utxo c' = view"

lemma reads_as_refl: "utxo_coherent c \<Longrightarrow> reads_as c (cache_utxo c) c"
  by (simp add: reads_as_def same_base_def)

lemma reads_as_trans: "reads_as c v c' \<Longrightarrow> reads_as c' v' c'' \<Longrightarrow> reads_as c v' c''"
  by (simp add: reads_as_def same_base_def)

lemma spend_reads:
  "reads_as c v c1 \<Longrightarrow> v k = Inr (Some u) \<Longrightarrow> \<exists>c2. spend_utxo k c1 = (Inr u, c2) \<and> reads_as c (v(k := Inr None)) c2"
  using spend_utxo_cases [of c1 k] by (cases "spend_utxo k c1") (auto simp: reads_as_def same_base_def)

lemma spend_success:
  assumes "spend_utxo k c1 = (Inr u, c2)" and "reads_as c v c1"
  shows "v k = Inr (Some u) \<and> reads_as c (v(k := Inr None)) c2"
  using spend_utxo_cases [OF _ assms(1)] assms(2)
  by (auto simp: reads_as_def same_base_def split: sum.splits option.splits)

lemma add_reads:
  "reads_as c v c1 \<Longrightarrow> v k = Inr None \<Longrightarrow> \<exists>c2. add_utxo k u False c1 = (Inr (), c2) \<and> reads_as c (v(k := Inr (Some u))) c2"
  using add_utxo_coherent [of c1 False k u] by (auto simp: reads_as_def same_base_def)

lemma spend_all:
  assumes "reads_as c v c1" and "distinct ks" and "\<forall>k\<in>set ks. \<exists>u. v k = Inr (Some u)"
  shows "\<exists>c2. try_for_each (\<lambda>k. bindS (spend_utxo k) (\<lambda>_. returnS ())) ks c1 = (Inr (), c2) \<and>
    reads_as c (\<lambda>k. if k \<in> set ks then Inr None else v k) c2"
  using assms
proof (induction ks arbitrary: v c1)
  case Nil
  then show ?case by (simp add: op_simps)
next
  case (Cons k ks)
  then obtain u where "v k = Inr (Some u)" by auto
  from spend_reads [OF Cons.prems(1) this] obtain c2 where
    c2: "spend_utxo k c1 = (Inr u, c2)" "reads_as c (v(k := Inr None)) c2" by blast
  have "\<forall>j\<in>set ks. \<exists>u. (v(k := Inr None)) j = Inr (Some u)" using Cons.prems(2,3) by auto
  with Cons.IH [OF c2(2)] Cons.prems(2) obtain c3 where
    c3: "try_for_each (\<lambda>k. bindS (spend_utxo k) (\<lambda>_. returnS ())) ks c2 = (Inr (), c3)"
      "reads_as c (\<lambda>j. if j \<in> set ks then Inr None else (v(k := Inr None)) j) c3" by auto
  have "(\<lambda>j. if j \<in> set ks then Inr None else (v(k := Inr None)) j) = (\<lambda>j. if j \<in> set (k # ks) then Inr None else v j)"
    by auto
  with c2(1) c3 show ?case by (auto simp: op_simps)
qed

lemma add_all:
  assumes "reads_as c v c1" and "distinct (map fst ps)" and "\<forall>k\<in>fst ` set ps. v k = Inr None"
  shows "\<exists>c2. try_for_each (\<lambda>(k, u). add_utxo k u False) ps c1 = (Inr (), c2) \<and>
    reads_as c (\<lambda>k. case map_of ps k of Some u \<Rightarrow> Inr (Some u) | None \<Rightarrow> v k) c2"
  using assms
proof (induction ps arbitrary: v c1)
  case Nil
  then show ?case by (simp add: op_simps)
next
  case (Cons p ps)
  obtain k u where p: "p = (k, u)" by (cases p)
  have "v k = Inr None" using Cons.prems(3) p by simp
  from add_reads [OF Cons.prems(1) this] obtain c2 where
    c2: "add_utxo k u False c1 = (Inr (), c2)" "reads_as c (v(k := Inr (Some u))) c2" by blast
  have "\<forall>j\<in>fst ` set ps. (v(k := Inr (Some u))) j = Inr None" using Cons.prems(2,3) p by auto
  with Cons.IH [OF c2(2)] Cons.prems(2) obtain c3 where
    c3: "try_for_each (\<lambda>(k, u). add_utxo k u False) ps c2 = (Inr (), c3)"
      "reads_as c (\<lambda>j. case map_of ps j of Some u \<Rightarrow> Inr (Some u) | None \<Rightarrow> (v(k := Inr (Some u))) j) c3" by auto
  have "map_of ps k = None" using Cons.prems(2) p by (simp add: map_of_eq_None_iff)
  then have "(\<lambda>j. case map_of ps j of Some u \<Rightarrow> Inr (Some u) | None \<Rightarrow> (v(k := Inr (Some u))) j) =
      (\<lambda>j. case map_of (p # ps) j of Some u \<Rightarrow> Inr (Some u) | None \<Rightarrow> v j)"
    by (auto simp: p fun_eq_iff split: option.splits)
  with c2(1) c3 show ?case by (auto simp: op_simps p)
qed

text \<open>Adding succeeds only when the keys are distinct.\<close>

lemma add_all_distinct:
  assumes "try_for_each (\<lambda>(k, u). add_utxo k u False) ps c1 = (Inr (), c2)" and "reads_as c v c1"
    and "\<forall>k\<in>fst ` set ps. v k = Inr None \<or> has_utxo_in_cache c1 k"
  shows "distinct (map fst ps) \<and> (\<forall>k\<in>fst ` set ps. v k = Inr None)"
  using assms
proof (induction ps arbitrary: v c1)
  case (Cons p ps)
  obtain k u where p: "p = (k, u)" by (cases p)
  from Cons.prems(1) p obtain c3 where c3: "add_utxo k u False c1 = (Inr (), c3)"
      "try_for_each (\<lambda>(k, u). add_utxo k u False) ps c3 = (Inr (), c2)" by (auto simp: op_simps)
  have "v k = Inr None"
  proof (cases "v k = Inr None")
    case False
    with Cons.prems(3) p have "has_utxo_in_cache c1 k" by simp
    with c3(1) Cons.prems(2) show ?thesis
      by (auto simp: has_utxo_in_cache_def add_utxo_eq reads_as_def cache_utxo_at entry_spent_utxo split: if_splits)
  qed
  from add_reads [OF Cons.prems(2) this, of u] c3(1) have r: "reads_as c (v(k := Inr (Some u))) c3" by simp
  have cache: "has_utxo_in_cache c3 j \<longleftrightarrow> has_utxo_in_cache c1 j \<or> j = k" for j
    using c3(1) by (auto simp: add_utxo_eq has_utxo_in_cache_def split: option.splits if_splits)
  from Cons.IH [OF c3(2) r] Cons.prems(3) p cache have ih: "distinct (map fst ps)"
      "\<forall>j\<in>fst ` set ps. (v(k := Inr (Some u))) j = Inr None" by auto
  then have "k \<notin> fst ` set ps" by auto
  with ih \<open>v k = Inr None\<close> p show ?case by (auto split: if_splits)
qed simp

lemma spend_inputs:
  assumes "mapS spend_input inputs c1 = (Inr us, c2)" and "reads_as c v c1"
  shows "distinct (List.map_filter utxo_input inputs) \<and>
    list_all2 (\<lambda>inp u. case utxo_input inp of None \<Rightarrow> u = None | Some k \<Rightarrow> u \<noteq> None \<and> v k = Inr u) inputs us \<and>
    reads_as c (\<lambda>k. if k \<in> set (List.map_filter utxo_input inputs) then Inr None else v k) c2"
  using assms
proof (induction inputs arbitrary: v c1 us)
  case Nil
  then show ?case by (simp add: op_simps map_filter_simps)
next
  case (Cons inp inputs)
  then obtain x xs c3 where s: "spend_input inp c1 = (Inr x, c3)" "mapS spend_input inputs c3 = (Inr xs, c2)" "us = x # xs"
    by (auto simp: op_simps)
  show ?case
  proof (cases "utxo_input inp")
    case None
    with s(1) have "x = None" "c3 = c1" by (simp_all add: spend_input_def op_simps)
    with Cons.IH [OF s(2)] Cons.prems(2) None s(3) show ?thesis by (simp add: map_filter_simps)
  next
    case (Some k)
    with s(1) obtain u where "spend_utxo k c1 = (Inr u, c3)" "x = Some u" by (auto simp: spend_input_def op_simps)
    note sp = spend_success [OF this(1) Cons.prems(2)] and x = this(2)
    note ih = Cons.IH [OF s(2) conjunct2 [OF sp]]
    let ?ks = "List.map_filter utxo_input inputs"
    have at: "(v(k := Inr None)) j = Inr y \<Longrightarrow> y \<noteq> None \<Longrightarrow> j \<noteq> k \<and> v j = Inr y" for j y
      by (auto split: if_splits)
    have rel: "list_all2 (\<lambda>inp u. case utxo_input inp of None \<Rightarrow> u = None | Some j \<Rightarrow> u \<noteq> None \<and> j \<noteq> k \<and> v j = Inr u) inputs xs"
      using conjunct1 [OF conjunct2 [OF ih]] by (rule list_all2_mono) (auto split: option.splits if_splits dest: at)
    then have "k \<notin> set ?ks"
      by (auto simp: List.map_filter_def list_all2_conv_all_nth in_set_conv_nth split: option.splits)
    moreover have "list_all2 (\<lambda>inp u. case utxo_input inp of None \<Rightarrow> u = None | Some j \<Rightarrow> u \<noteq> None \<and> v j = Inr u) inputs xs"
      using rel by (rule list_all2_mono) (auto split: option.splits)
    moreover have "(\<lambda>j. if j \<in> set ?ks then Inr None else (v(k := Inr None)) j) = (\<lambda>j. if j \<in> set (k # ?ks) then Inr None else v j)"
      by auto
    ultimately show ?thesis using ih sp x s(3) Some by (simp add: map_filter_simps)
  qed
qed

section \<open>Connecting and disconnecting a transaction\<close>

text \<open>The utxos a transaction creates.\<close>

definition created_utxos ::
    "(transaction \<Rightarrow> tx_id) \<Rightarrow> transaction \<Rightarrow> utxo_source \<Rightarrow> (utxo_outpoint \<times> utxo) list" where
  "created_utxos get_id tx source =
     map (\<lambda>(idx, out). (UtxoOutPoint (TransactionSource (get_id tx)) (of_nat idx), Utxo out source))
       (filter (\<lambda>(_, out). should_include_in_utxo_set out) (enumerate 0 (tx_outputs tx)))"

definition spent_outpoints :: "transaction \<Rightarrow> utxo_outpoint list" where
  "spent_outpoints tx = List.map_filter utxo_input (tx_inputs tx)"

lemma add_utxos_from_tx_success:
  assumes "add_utxos_from_tx get_id tx source False c = (Inr (), c')"
  shows "try_for_each (\<lambda>(k, u). add_utxo k u False) (created_utxos get_id tx source) c = (Inr (), c')"
  unfolding created_utxos_def try_for_each_map
  by (rule try_for_each_mono [OF assms [unfolded add_utxos_from_tx_def]]) (auto simp: op_simps result_simps Let_def)

lemma spend_created:
  "try_for_each (\<lambda>(i, out).
       let tx_outpoint = UtxoOutPoint (TransactionSource (get_id tx)) (of_nat i) in
       if should_include_in_utxo_set out then bindS (spend_utxo tx_outpoint) (\<lambda>_. returnS ()) else returnS ())
     (enumerate 0 (tx_outputs tx)) =
   try_for_each (\<lambda>k. bindS (spend_utxo k) (\<lambda>_. returnS ())) (map fst (created_utxos get_id tx source))"
  by (simp add: created_utxos_def try_for_each_map try_for_each_filter [symmetric] case_prod_unfold Let_def)

lemma unspend_input_simps:
  "unspend_input i (inp, None) = None"
  "utxo_input inp = Some k \<Longrightarrow> unspend_input i (inp, Some u) = Some (Inr (k, u))"
  by (simp_all add: unspend_input_def)

lemma unspend_inputs:
  assumes "list_all2 (\<lambda>inp u. case utxo_input inp of None \<Rightarrow> u = None | Some k \<Rightarrow> u \<noteq> None \<and> v k = Inr u) inputs us"
  shows "\<exists>ps. List.map_filter (unspend_input i) (zip inputs us) = map Inr ps \<and>
    map fst ps = List.map_filter utxo_input inputs \<and> (\<forall>(k, u)\<in>set ps. v k = Inr (Some u))"
  using assms
proof (induction rule: list_all2_induct)
  case Nil
  then show ?case by (simp add: map_filter_simps)
next
  case (Cons inp inputs u us)
  then obtain ps where ps: "List.map_filter (unspend_input i) (zip inputs us) = map Inr ps"
      "map fst ps = List.map_filter utxo_input inputs" "\<forall>(k, u)\<in>set ps. v k = Inr (Some u)" by blast
  show ?case
  proof (cases "utxo_input inp")
    case None
    with Cons.hyps(1) ps show ?thesis by (auto simp: map_filter_simps unspend_input_simps)
  next
    case (Some k)
    with Cons.hyps(1) obtain x where "u = Some x" "v k = Inr (Some x)" by auto
    with Some ps show ?thesis by (auto simp: map_filter_simps unspend_input_simps intro!: exI [of _ "(k, x) # ps"])
  qed
qed

lemma unspend_each:
  "try_for_each (\<lambda>res. bindS (liftS res) (\<lambda>(k, u). add_utxo k u False)) (map Inr ps) =
     try_for_each (\<lambda>(k, u). add_utxo k u False) ps"
    by (simp add: try_for_each_map bindS_lift_Inr)

lemma connect_transaction_reads:
  assumes "reads_as c v c1" and "\<forall>k\<in>fst ` set (created_utxos get_id tx source). v k = Inr None"
    and "connect_transaction get_id tx source c1 = (Inr undo, c2)"
  shows "distinct (spent_outpoints tx) \<and> distinct (map fst (created_utxos get_id tx source)) \<and>
    (\<forall>k\<in>set (spent_outpoints tx). \<exists>u. v k = Inr (Some u)) \<and>
    list_all2 (\<lambda>inp u. case utxo_input inp of None \<Rightarrow> u = None | Some k \<Rightarrow> u \<noteq> None \<and> v k = Inr u)
      (tx_inputs tx) (tu_utxos undo) \<and>
    reads_as c (\<lambda>k. case map_of (created_utxos get_id tx source) k of
        Some u \<Rightarrow> Inr (Some u)
      | None \<Rightarrow> if k \<in> set (spent_outpoints tx) then Inr None else v k) c2"
proof -
  let ?ps = "created_utxos get_id tx source"
  obtain us c3 where m: "mapS spend_input (tx_inputs tx) c1 = (Inr us, c3)"
      "add_utxos_from_tx get_id tx source False c3 = (Inr (), c2)" "tu_utxos undo = us"
    using assms(3) by (auto simp: connect_transaction_def op_simps)
  note sp = spend_inputs [OF m(1) assms(1), folded spent_outpoints_def]
  let ?v = "\<lambda>k. if k \<in> set (spent_outpoints tx) then Inr None else v k"
  have none: "\<forall>k\<in>fst ` set ?ps. ?v k = Inr None" using assms(2) by auto
  note add = add_utxos_from_tx_success [OF m(2)]
  have d: "distinct (map fst ?ps)" using add_all_distinct [OF add conjunct2 [OF conjunct2 [OF sp]]] none by blast
  from add_all [OF conjunct2 [OF conjunct2 [OF sp]] d none] add
  have "reads_as c (\<lambda>k. case map_of ?ps k of Some u \<Rightarrow> Inr (Some u) | None \<Rightarrow> ?v k) c2" by auto
  moreover have "\<forall>k\<in>set (spent_outpoints tx). \<exists>u. v k = Inr (Some u)"
    using conjunct1 [OF conjunct2 [OF sp]]
    by (fastforce simp: spent_outpoints_def List.map_filter_def list_all2_conv_all_nth in_set_conv_nth split: option.splits)
  ultimately show ?thesis using sp d m(3) by auto
qed

text \<open>Taking the created outputs out and putting the spent ones back gives the view before.\<close>

lemma spend_then_restore:
  assumes "reads_as c (\<lambda>k. case map_of ps k of Some u \<Rightarrow> Inr (Some u)
      | None \<Rightarrow> if k \<in> set (map fst qs) then Inr None else v k) c2"
    and "distinct (map fst ps)" and "\<forall>k\<in>fst ` set ps. v k = Inr None"
    and "distinct (map fst qs)" and "\<forall>(k, u)\<in>set qs. v k = Inr (Some u)"
  shows "\<exists>c3 c4. try_for_each (\<lambda>k. bindS (spend_utxo k) (\<lambda>_. returnS ())) (map fst ps) c2 = (Inr (), c3) \<and>
    try_for_each (\<lambda>(k, u). add_utxo k u False) qs c3 = (Inr (), c4) \<and> reads_as c v c4"
proof -
  let ?v2 = "\<lambda>k. case map_of ps k of Some u \<Rightarrow> Inr (Some u) | None \<Rightarrow> if k \<in> set (map fst qs) then Inr None else v k"
  let ?v3 = "\<lambda>k. if k \<in> set (map fst ps) then Inr None else ?v2 k"
  have "\<forall>k\<in>set (map fst ps). \<exists>u. ?v2 k = Inr (Some u)"
    by (metis (no_types, lifting) map_of_eq_None_iff option.exhaust option.simps(5) set_map)
  from spend_all [OF assms(1,2) this] obtain c3 where c3:
    "try_for_each (\<lambda>k. bindS (spend_utxo k) (\<lambda>_. returnS ())) (map fst ps) c2 = (Inr (), c3)" "reads_as c ?v3 c3"
    by blast
  have some: "v k = Inr (Some u)" if "map_of qs k = Some u" for k u
    using assms(5) map_of_SomeD [OF that] by auto
  have "\<forall>k\<in>fst ` set qs. ?v3 k = Inr None"
    by (auto simp: map_of_eq_None_iff split: option.splits dest: map_of_SomeD) (metis fst_conv image_eqI map_of_SomeD)
  from add_all [OF c3(2) assms(4) this] obtain c4 where c4:
    "try_for_each (\<lambda>(k, u). add_utxo k u False) qs c3 = (Inr (), c4)"
    "reads_as c (\<lambda>k. case map_of qs k of Some u \<Rightarrow> Inr (Some u) | None \<Rightarrow> ?v3 k) c4" by blast
  have "(case map_of qs k of Some u \<Rightarrow> Inr (Some u) | None \<Rightarrow> ?v3 k) = v k" for k
  proof -
    consider u where "map_of qs k = Some u" | "map_of qs k = None" "k \<in> fst ` set ps"
      | "map_of qs k = None" "map_of ps k = None" "k \<notin> fst ` set qs" "k \<notin> fst ` set ps"
      by (cases "map_of qs k") (auto simp: map_of_eq_None_iff)
    then show ?thesis by cases (use some assms(3) in auto)
  qed
  then have "reads_as c v c4" using c4(2) by simp
  with c3(1) c4(1) show ?thesis by blast
qed

lemma disconnect_transaction_reads:
  assumes "reads_as c v c1" and "\<forall>k\<in>fst ` set (created_utxos get_id tx source). v k = Inr None"
    and "connect_transaction get_id tx source c1 = (Inr undo, c2)"
  shows "\<exists>c3. disconnect_transaction get_id tx (tu_utxos undo) c2 = (Inr (), c3) \<and> reads_as c v c3"
proof -
  note con = connect_transaction_reads [OF assms]
  obtain qs where qs: "List.map_filter (unspend_input (get_id tx)) (zip (tx_inputs tx) (tu_utxos undo)) = map Inr qs"
      "map fst qs = spent_outpoints tx" "\<forall>(k, u)\<in>set qs. v k = Inr (Some u)"
    using unspend_inputs con unfolding spent_outpoints_def by blast
  from spend_then_restore [of c qs v "created_utxos get_id tx source" c2, unfolded qs(2)] con qs(3) assms(2) obtain c3 c4 where
    "try_for_each (\<lambda>k. bindS (spend_utxo k) (\<lambda>_. returnS ())) (map fst (created_utxos get_id tx source)) c2 = (Inr (), c3)"
    "try_for_each (\<lambda>(k, u). add_utxo k u False) qs c3 = (Inr (), c4)" and r: "reads_as c v c4" by blast
  moreover have "length (tx_inputs tx) = length (tu_utxos undo)" using con list_all2_lengthD by blast
  ultimately have "disconnect_transaction get_id tx (tu_utxos undo) c2 = (Inr (), c4)"
    unfolding disconnect_transaction_def spend_created [of get_id tx source] qs(1) unspend_each
    by (auto simp: op_simps)
  with r show ?thesis by blast
qed

section \<open>Connecting and disconnecting a block reward\<close>

lemma spend_outpoints:
  assumes "mapS spend_utxo ks c1 = (Inr us, c2)" and "reads_as c v c1"
  shows "distinct ks \<and> list_all2 (\<lambda>k u. v k = Inr (Some u)) ks us \<and>
    reads_as c (\<lambda>k. if k \<in> set ks then Inr None else v k) c2"
  using assms
proof (induction ks arbitrary: v c1 us)
  case Nil
  then show ?case by (simp add: op_simps)
next
  case (Cons k ks)
  then obtain x xs c3 where s: "spend_utxo k c1 = (Inr x, c3)" "mapS spend_utxo ks c3 = (Inr xs, c2)" "us = x # xs"
    by (auto simp: op_simps)
  note sp = spend_success [OF s(1) Cons.prems(2)]
  note ih = Cons.IH [OF s(2) conjunct2 [OF sp]]
  then have rel: "list_all2 (\<lambda>j u. j \<noteq> k \<and> v j = Inr (Some u)) ks xs"
    by (auto elim!: list_all2_mono split: if_splits)
  then have "k \<notin> set ks" by (auto simp: list_all2_conv_all_nth in_set_conv_nth)
  moreover have "list_all2 (\<lambda>j u. v j = Inr (Some u)) ks xs" using rel by (rule list_all2_mono) simp
  moreover have "(\<lambda>j. if j \<in> set ks then Inr None else (v(k := Inr None)) j) = (\<lambda>j. if j \<in> set (k # ks) then Inr None else v j)"
    by auto
  ultimately show ?case using ih sp s(3) by simp
qed

definition reward_utxos :: "block_reward_transactable \<Rightarrow> gen_block_id \<Rightarrow> block_height \<Rightarrow> (utxo_outpoint \<times> utxo) list" where
  "reward_utxos reward block_id height = (case reward_tx_outputs reward of
      None \<Rightarrow> []
    | Some outputs \<Rightarrow>
        map (\<lambda>(idx, out). (UtxoOutPoint (BlockRewardSource block_id) (of_nat idx), Utxo out (Blockchain height)))
          (enumerate 0 outputs))"

definition reward_outpoints :: "block_reward_transactable \<Rightarrow> utxo_outpoint list" where
  "reward_outpoints reward = (case reward_tx_inputs reward of None \<Rightarrow> [] | Some inputs \<Rightarrow> List.map_filter utxo_input inputs)"

text \<open>The inputs of a block reward are absent, or there is one at least and all of them are utxos.\<close>

definition reward_inputs_ok :: "block_reward_transactable \<Rightarrow> bool" where
  "reward_inputs_ok reward \<longleftrightarrow> (case reward_tx_inputs reward of
      None \<Rightarrow> True
    | Some inputs \<Rightarrow> inputs \<noteq> [] \<and> (\<forall>inp\<in>set inputs. utxo_input inp \<noteq> None))"

lemma zip_utxo_inputs:
  "\<forall>inp\<in>set inputs. utxo_input inp \<noteq> None \<Longrightarrow>
     List.map_filter (\<lambda>(tx_in, u). map_option (\<lambda>outpoint. (outpoint, u)) (utxo_input tx_in)) (zip inputs us) =
     zip (List.map_filter utxo_input inputs) us"
proof (induction inputs arbitrary: us)
  case (Cons inp inputs)
  then show ?case by (cases us) (auto simp: map_filter_simps)
qed (simp add: map_filter_simps)

lemma map_filter_utxo_nonempty:
  "inputs \<noteq> [] \<Longrightarrow> \<forall>inp\<in>set inputs. utxo_input inp \<noteq> None \<Longrightarrow> List.map_filter utxo_input inputs \<noteq> []"
  by (cases inputs) (auto simp: map_filter_simps)

lemma connect_block_reads:
  assumes "reads_as c v c1" and "\<forall>k\<in>fst ` set (reward_utxos reward block_id height). v k = Inr None"
    and "connect_block_transactable reward block_id height c1 = (Inr undo, c2)"
  shows "distinct (map fst (reward_utxos reward block_id height)) \<and> distinct (reward_outpoints reward) \<and>
    list_all2 (\<lambda>k u. v k = Inr (Some u)) (reward_outpoints reward) (case undo of None \<Rightarrow> [] | Some us \<Rightarrow> us) \<and>
    undo \<noteq> Some [] \<and>
    reads_as c (\<lambda>k. case map_of (reward_utxos reward block_id height) k of
        Some u \<Rightarrow> Inr (Some u)
      | None \<Rightarrow> if k \<in> set (reward_outpoints reward) then Inr None else v k) c2"
proof -
  let ?ps = "reward_utxos reward block_id height"
  let ?v = "\<lambda>k. if k \<in> set (reward_outpoints reward) then Inr None else v k"
  obtain us c3 where us: "mapS spend_utxo (reward_outpoints reward) c1 = (Inr us, c3)"
      "undo = (if us \<noteq> [] then Some us else None)"
    and out: "(case reward_tx_outputs reward of
         Some outputs \<Rightarrow>
           try_for_each (\<lambda>(idx, out).
             bindS (ensureS (should_include_in_utxo_set out) (Fail (InvalidBlockRewardOutputType block_id))) (\<lambda>_.
             add_utxo (UtxoOutPoint (BlockRewardSource block_id) (of_nat idx)) (Utxo out (Blockchain height)) False))
             (enumerate 0 outputs)
       | None \<Rightarrow> returnS ()) c3 = (Inr (), c2)"
    using assms(3)
    by (cases "reward_tx_inputs reward") (auto simp: connect_block_transactable_def reward_outpoints_def op_simps)
  have add: "try_for_each (\<lambda>(k, u). add_utxo k u False) ?ps c3 = (Inr (), c2)"
  proof (cases "reward_tx_outputs reward")
    case None
    with out show ?thesis by (simp add: reward_utxos_def op_simps)
  next
    case (Some outputs)
    have "try_for_each (\<lambda>x. case case x of (idx, out) \<Rightarrow> (UtxoOutPoint (BlockRewardSource block_id) (of_nat idx),
        Utxo out (Blockchain height)) of (k, u) \<Rightarrow> add_utxo k u False) (enumerate 0 outputs) c3 = (Inr (), c2)"
      by (rule try_for_each_mono [OF out [unfolded Some option.case]]) (auto simp: op_simps)
    with Some show ?thesis by (simp add: reward_utxos_def try_for_each_map)
  qed
  note sp = spend_outpoints [OF us(1) assms(1)]
  have none: "\<forall>k\<in>fst ` set ?ps. ?v k = Inr None" using assms(2) by auto
  have d: "distinct (map fst ?ps)" using add_all_distinct [OF add conjunct2 [OF conjunct2 [OF sp]]] none by blast
  from add_all [OF conjunct2 [OF conjunct2 [OF sp]] d none] add
  have "reads_as c (\<lambda>k. case map_of ?ps k of Some u \<Rightarrow> Inr (Some u) | None \<Rightarrow> ?v k) c2" by auto
  with sp d us(2) show ?thesis by auto
qed

lemma disconnect_block_reads:
  assumes "reads_as c v c1" and "\<forall>k\<in>fst ` set (reward_utxos reward block_id height). v k = Inr None"
    and "connect_block_transactable reward block_id height c1 = (Inr undo, c2)" and "reward_inputs_ok reward"
  shows "\<exists>c3. disconnect_block_transactable reward block_id undo c2 = (Inr (), c3) \<and> reads_as c v c3"
proof -
  let ?ps = "reward_utxos reward block_id height"
  let ?ks = "reward_outpoints reward"
  define us where "us = (case undo of None \<Rightarrow> [] | Some us \<Rightarrow> us)"
  note con = connect_block_reads [OF assms(1-3), folded us_def]
  have keys: "map fst (zip ?ks us) = ?ks" "\<forall>(k, u)\<in>set (zip ?ks us). v k = Inr (Some u)"
    using con list_all2_lengthD by (fastforce simp: list_all2_iff)+
  from spend_then_restore [of c "zip ?ks us" v ?ps c2, unfolded keys(1)] keys(2) con assms(2) obtain c3 c4 where
    c: "try_for_each (\<lambda>k. bindS (spend_utxo k) (\<lambda>_. returnS ())) (map fst ?ps) c2 = (Inr (), c3)"
    "try_for_each (\<lambda>(k, u). add_utxo k u False) (zip ?ks us) c3 = (Inr (), c4)" and r: "reads_as c v c4" by blast
  have "(case reward_tx_outputs reward of
         Some outputs \<Rightarrow>
           try_for_each (\<lambda>(i, _).
             bindS (spend_utxo (UtxoOutPoint (BlockRewardSource block_id) (of_nat i))) (\<lambda>_. returnS ()))
             (enumerate 0 outputs)
       | None \<Rightarrow> returnS ()) c2 = (Inr (), c3)"
    using c(1) by (simp add: reward_utxos_def try_for_each_map case_prod_unfold split: option.splits)
  moreover have "(case reward_tx_inputs reward of
       Some inputs \<Rightarrow>
         bindS (liftS (ok_or undo (Fail (MissingBlockRewardUndo block_id)))) (\<lambda>block_undo.
         try_for_each (\<lambda>(outpoint, u). add_utxo outpoint u False)
           (List.map_filter (\<lambda>(tx_in, u). map_option (\<lambda>outpoint. (outpoint, u)) (utxo_input tx_in))
              (zip inputs block_undo)))
     | None \<Rightarrow> returnS ()) c3 = (Inr (), c4)"
  proof (cases "reward_tx_inputs reward")
    case None
    with c(2) show ?thesis by (simp add: reward_outpoints_def)
  next
    case (Some inputs)
    with assms(4) have i: "inputs \<noteq> []" "\<forall>inp\<in>set inputs. utxo_input inp \<noteq> None" "?ks = List.map_filter utxo_input inputs"
      by (simp_all add: reward_inputs_ok_def reward_outpoints_def)
    with map_filter_utxo_nonempty [OF i(1,2)] con have "undo = Some us" by (cases undo) (auto simp: us_def)
    with c(2) Some i show ?thesis by (simp add: zip_utxo_inputs bindS_lift_Inr ok_or_def)
  qed
  ultimately have "disconnect_block_transactable reward block_id undo c2 = (Inr (), c4)"
    by (simp add: disconnect_block_transactable_def bindS_def)
  with r show ?thesis by blast
qed

section \<open>Flushing to the database\<close>

locale utxos_store =
  utxos: reliable_column "us_utxos S" for S :: "('s, 'e) utxos_storage" +
  assumes set_best_ok: "\<exists>t. us_set_best S h s = (Inr (), t)"
    and get_set_best: "us_set_best S h s = (Inr u, t) \<Longrightarrow> us_get_best S t = Inr h"
    and set_best_frame: "us_set_best S h s = (Inr u, t) \<Longrightarrow> col_get (us_utxos S) t k = col_get (us_utxos S) s k"
begin

lemma write_entry_keyed:
  "keyed_progress (db_write_entry S) (col_get (us_utxos S))
     (\<lambda>_ v e. Some (if entry_is_dirty e then Inr (entry_utxo e) else v)) (\<lambda>_ _ _. ())"
proof
  fix k e s y t
  assume "db_write_entry S k e s = (Inr y, t)"
  then show "Some (if entry_is_dirty e then Inr (entry_utxo e) else col_get (us_utxos S) s k) = Some (col_get (us_utxos S) t k) \<and>
      (\<forall>j. j \<noteq> k \<longrightarrow> col_get (us_utxos S) t j = col_get (us_utxos S) s j) \<and> y = ()"
    by (cases "entry_utxo e")
      (auto simp: db_write_entry_def store_op_defs op_simps utxos.get_set utxos.get_del split: if_splits)
next
  fix k s e v
  show "\<exists>y t. db_write_entry S k e s = (Inr y, t)"
    using utxos.set_ok [of k _ s] utxos.del_ok [of k s]
    by (cases "entry_utxo e") (auto simp: db_write_entry_def store_op_defs op_simps)
qed

lemma flush_utxos:
  assumes "utxo_coherent c" and "uc_parent c = utxos_db_view S s"
  shows "\<exists>t. utxos_db_batch_write S (consume_cache c) s = (Inr (), t) \<and>
    uv_utxo (utxos_db_view S t) = cache_utxo c \<and>
    uv_best_block_hash (utxos_db_view S t) = Inr (uc_current_block_hash c)"
proof -
  obtain t where t: "mapS (\<lambda>(k, e). db_write_entry S k e) (btree_iter (uc_utxos c)) s =
      (Inr (map (\<lambda>_. ()) (btree_iter (uc_utxos c))), t)"
    using keyed_progress.iter_progress [OF write_entry_keyed, of "uc_utxos c" s] by (auto simp: case_prod_unfold)
  note cells = keyed_step.iter_ok(2,3) [OF keyed_progress.axioms(1) [OF write_entry_keyed] t]
  obtain r where r: "us_set_best S (uc_current_block_hash c) t = (Inr (), r)" using set_best_ok by blast
  have "try_for_each (\<lambda>(k, e). db_write_entry S k e) (btree_iter (uc_utxos c)) s = (Inr (), t)"
    unfolding try_for_each_Inr using t by blast
  with r have "utxos_db_batch_write S (consume_cache c) s = (Inr (), r)"
    by (simp add: utxos_db_batch_write_def consume_cache_def op_simps)
  moreover have "col_get (us_utxos S) r k = cache_utxo c k" for k
  proof (cases "fmlookup (uc_utxos c) k")
    case None
    with cells(1) [OF None] show ?thesis
      by (simp add: set_best_frame [OF r] cache_utxo_at assms(2) utxos_db_view_def)
  next
    case (Some e)
    with cells(2) [OF Some] utxo_coherentD [OF assms(1) Some] show ?thesis
      by (auto simp: set_best_frame [OF r] cache_utxo_at assms(2) utxos_db_view_def entry_coherent_def split: if_splits)
  qed
  ultimately show ?thesis using get_set_best [OF r] by (auto simp: utxos_db_view_def)
qed

end

interpretation in_memory_utxos: utxos_store in_memory_utxos_storage
proof (rule utxos_store.intro)
  show "reliable_column (us_utxos in_memory_utxos_storage)"
    by (simp add: in_memory_utxos_storage_def map_column_reliable)
  show "utxos_store_axioms in_memory_utxos_storage"
    by unfold_locales (auto simp: in_memory_utxos_storage_def modifyS_def map_column_def)
qed

section \<open>Flushing to a parent cache\<close>

definition written_cell :: "utxo_entry option \<Rightarrow> utxo_entry \<Rightarrow> utxo_entry option option" where
  "written_cell v e = (if \<not> entry_is_dirty e then Some v else case v of
      None \<Rightarrow> Some (Some (mk_entry (entry_utxo e) (entry_is_fresh e) True))
    | Some p \<Rightarrow>
        if entry_is_fresh e \<and> \<not> entry_is_spent p then None
        else if entry_is_fresh p \<and> entry_is_spent e then Some None
        else Some (Some (mk_entry (entry_utxo e) (entry_is_fresh p) True)))"

definition checked_write :: "utxo_outpoint \<Rightarrow> utxo_entry \<Rightarrow> ('e, unit) cache_op" where
  "checked_write k e = (if entry_valid e then batch_write_entry k e else failS Panic)"

lemma checked_write_keyed:
  "keyed_progress checked_write (\<lambda>c :: 'e utxos_cache. fmlookup (uc_utxos c))
     (\<lambda>_ v e. if entry_valid e then written_cell v e else None) (\<lambda>_ _ _. ())"
  by unfold_locales
    (auto simp: checked_write_def batch_write_entry_eq written_cell_def op_simps split: if_splits option.splits)

lemma batch_write_parent:
  "batch_write_entry k e c = (r, c') \<Longrightarrow> entry_valid e \<Longrightarrow> uc_parent c' = uc_parent c"
  by (auto simp: batch_write_entry_eq split: if_splits option.splits)

lemma written_cell_coherent:
  assumes "entry_coherent (case v of None \<Rightarrow> p | Some q \<Rightarrow> Inr (entry_utxo q)) e"
    and "\<And>q. v = Some q \<Longrightarrow> entry_coherent p q"
  shows "\<exists>w. written_cell v e = Some w \<and> (\<forall>q. w = Some q \<longrightarrow> entry_coherent p q) \<and>
    (case w of None \<Rightarrow> p | Some q \<Rightarrow> Inr (entry_utxo q)) = Inr (entry_utxo e)"
  using assms
  by (cases v; cases "entry_utxo e")
    (auto simp: written_cell_def entry_coherent_def entry_spent_utxo entry_valid_spent split: if_splits)

lemma cache_utxo_cell: "cache_utxo c k = (case fmlookup (uc_utxos c) k of None \<Rightarrow> uv_utxo (uc_parent c) k | Some q \<Rightarrow> Inr (entry_utxo q))"
  by (simp add: cache_utxo_def split: option.splits)

lemma flush_to_parent:
  assumes "utxo_coherent c" and "utxo_coherent d" and "uc_parent d = utxos_cache_view c"
  shows "\<exists>c'. cache_batch_write (consume_cache d) c = (Inr (), c') \<and> utxo_coherent c' \<and>
    uc_parent c' = uc_parent c \<and> cache_utxo c' = cache_utxo d \<and> uc_current_block_hash c' = uc_current_block_hash d"
proof -
  have e: "entry_coherent (case fmlookup (uc_utxos c) k of None \<Rightarrow> uv_utxo (uc_parent c) k | Some q \<Rightarrow> Inr (entry_utxo q)) e"
    if "fmlookup (uc_utxos d) k = Some e" for k e
    using utxo_coherentD [OF assms(2) that] by (simp add: assms(3) utxos_cache_view_def cache_utxo_cell)
  note cell = written_cell_coherent [OF e utxo_coherentD [OF assms(1)]]
  have valid: "entry_valid e" if "fmlookup (uc_utxos d) k = Some e" for k e
    using e [OF that] by (simp add: entry_coherent_def)
  obtain c' where c': "mapS (\<lambda>(k, e). checked_write k e) (btree_iter (uc_utxos d)) c =
      (Inr (map (\<lambda>_. ()) (btree_iter (uc_utxos d))), c')"
    using keyed_progress.iter_progress [OF checked_write_keyed, of "uc_utxos d" c] cell valid
    by (fastforce simp: case_prod_unfold)
  note cells = keyed_step.iter_ok(2,3) [OF keyed_progress.axioms(1) [OF checked_write_keyed] c']
  have each: "try_for_each (\<lambda>(k, e). batch_write_entry k e) (btree_iter (uc_utxos d)) =
      try_for_each (\<lambda>(k, e). checked_write k e) (btree_iter (uc_utxos d))"
    by (rule try_for_each_cong) (auto simp: btree_iter_set checked_write_def dest: valid)
  have run: "try_for_each (\<lambda>(k, e). batch_write_entry k e) (btree_iter (uc_utxos d)) c = (Inr (), c')"
    unfolding each try_for_each_Inr using c' by blast
  have parent: "uc_parent c' = uc_parent c"
    using run by (rule try_for_each_invariant [where I = "\<lambda>x. uc_parent x = uc_parent c"])
      (auto simp: btree_iter_set dest!: batch_write_parent intro: valid)
  have "(\<forall>q. fmlookup (uc_utxos c') k = Some q \<longrightarrow> entry_coherent (uv_utxo (uc_parent c) k) q) \<and>
      cache_utxo c' k = cache_utxo d k" for k
  proof (cases "fmlookup (uc_utxos d) k")
    case None
    with cells(1) [OF None] utxo_coherentD [OF assms(1)] parent show ?thesis
      by (simp add: cache_utxo_cell assms(3) utxos_cache_view_def split: option.split)
  next
    case (Some x)
    with cells(2) [OF Some] cell [OF Some] valid [OF Some] parent show ?thesis
      by (auto simp: cache_utxo_cell [of c'] cache_utxo_at split: option.splits)
  qed
  then have "utxo_coherent c'" "cache_utxo c' = cache_utxo d"
    using parent by (auto simp: utxo_coherent_def fun_eq_iff)
  with run parent show ?thesis
    by (auto simp: cache_batch_write_def consume_cache_def op_simps set_best_block_eq)
qed

section \<open>Flushing after any calls\<close>

text \<open>
  What every call keeps, whatever is added over what: the flags are valid, and an entry that is not dirty
  is what the parent shows. A FRESH entry may cover an output of the parent.
\<close>

definition utxo_synced :: "'e utxos_cache \<Rightarrow> bool" where
  "utxo_synced c \<longleftrightarrow> cache_valid c \<and> (\<forall>k e. fmlookup (uc_utxos c) k = Some e \<longrightarrow> \<not> entry_is_dirty e \<longrightarrow>
     uv_utxo (uc_parent c) k = Inr (entry_utxo e))"

lemma utxo_syncedD:
  "utxo_synced c \<Longrightarrow> fmlookup (uc_utxos c) k = Some e \<Longrightarrow>
     entry_valid e \<and> (\<not> entry_is_dirty e \<longrightarrow> uv_utxo (uc_parent c) k = Inr (entry_utxo e))"
  by (simp add: utxo_synced_def cache_valid_def)

lemma utxo_synced_put [simp]:
  "utxo_synced c \<Longrightarrow> entry_valid e \<Longrightarrow> entry_is_dirty e \<or> uv_utxo (uc_parent c) k = Inr (entry_utxo e) \<Longrightarrow>
     utxo_synced (put_entry k e c)"
  by (auto simp: utxo_synced_def)

lemma utxo_synced_drop [simp]: "utxo_synced c \<Longrightarrow> utxo_synced (drop_entry k c)"
  by (simp add: utxo_synced_def)

lemma utxo_synced_best [simp]: "utxo_synced (c\<lparr>uc_current_block_hash := h\<rparr>) = utxo_synced c"
  by (simp add: utxo_synced_def)

lemma utxo_coherent_synced: "utxo_coherent c \<Longrightarrow> utxo_synced c"
  by (auto simp: utxo_synced_def cache_valid_def entry_coherent_def dest: utxo_coherentD)

text \<open>The child has added an output, and not spent it, over an entry of the parent that is not spent.\<close>

definition fresh_conflict :: "'f utxos_cache \<Rightarrow> 'e utxos_cache \<Rightarrow> bool" where
  "fresh_conflict d c \<longleftrightarrow> (\<exists>k e p. fmlookup (uc_utxos d) k = Some e \<and> entry_is_fresh e \<and> \<not> entry_is_spent e \<and>
     fmlookup (uc_utxos c) k = Some p \<and> \<not> entry_is_spent p)"

lemma written_cell_synced:
  assumes "entry_valid e"
    and "\<not> entry_is_dirty e \<Longrightarrow> (case v of None \<Rightarrow> p | Some q \<Rightarrow> Inr (entry_utxo q)) = Inr (entry_utxo e)"
    and "\<And>q. v = Some q \<Longrightarrow> entry_coherent p q"
    and "\<And>q. v = Some q \<Longrightarrow> entry_is_fresh e \<Longrightarrow> \<not> entry_is_spent e \<Longrightarrow> entry_is_spent q"
  shows "\<exists>w. written_cell v e = Some w \<and> (case w of None \<Rightarrow> p | Some q \<Rightarrow> Inr (entry_utxo q)) = Inr (entry_utxo e)"
  using assms
  by (cases v; cases "entry_utxo e")
    (auto simp: written_cell_def entry_coherent_def entry_spent_utxo entry_valid_spent split: if_splits)

lemma written_cell_conflict:
  "entry_valid e \<Longrightarrow> entry_is_fresh e \<Longrightarrow> \<not> entry_is_spent e \<Longrightarrow> \<not> entry_is_spent p \<Longrightarrow> written_cell (Some p) e = None"
  by (simp add: written_cell_def entry_valid_def)

lemma flush_each:
  assumes "utxo_synced d"
  shows "try_for_each (\<lambda>(k, e). batch_write_entry k e) (btree_iter (uc_utxos d)) =
    try_for_each (\<lambda>(k, e). checked_write k e) (btree_iter (uc_utxos d))"
  by (rule try_for_each_cong) (use assms in \<open>auto simp: btree_iter_set checked_write_def dest: utxo_syncedD\<close>)

lemma flush_parent:
  assumes "utxo_synced d" and "try_for_each (\<lambda>(k, e). batch_write_entry k e) (btree_iter (uc_utxos d)) c = (r, c')"
  shows "uc_parent c' = uc_parent c"
  using assms(2) by (rule try_for_each_invariant [where I = "\<lambda>x. uc_parent x = uc_parent c"])
    (use assms(1) in \<open>auto simp: btree_iter_set dest!: batch_write_parent dest: utxo_syncedD\<close>)

lemma flush_conflict:
  assumes "utxo_synced d" and "fresh_conflict d c"
  shows "fst (cache_batch_write (consume_cache d) c) = Inl (Fail FreshUtxoAlreadyExists)"
proof -
  let ?flushed = "try_for_each (\<lambda>(k, e). batch_write_entry k e) (btree_iter (uc_utxos d)) c"
  obtain k e p where k: "fmlookup (uc_utxos d) k = Some e" "entry_is_fresh e" "\<not> entry_is_spent e"
      "fmlookup (uc_utxos c) k = Some p" "\<not> entry_is_spent p" using assms(2) by (auto simp: fresh_conflict_def)
  have valid: "entry_valid e" if "fmlookup (uc_utxos d) k = Some e" for k e using utxo_syncedD [OF assms(1) that] by simp
  have "?flushed \<noteq> (Inr u, c')" for u c'
  proof
    assume "?flushed = (Inr u, c')"
    then obtain ys where "mapS (\<lambda>(k, e). checked_write k e) (btree_iter (uc_utxos d)) c = (Inr ys, c')"
      by (auto simp: flush_each [OF assms(1)] try_for_each_Inr)
    from keyed_step.iter_ok(3) [OF keyed_progress.axioms(1) [OF checked_write_keyed] this k(1)] valid [OF k(1)]
    show False using k by (simp add: written_cell_conflict)
  qed
  then obtain x c' where x: "?flushed = (Inl x, c')" by (metis old.prod.exhaust old.sum.exhaust)
  from try_for_each_Inl [OF this] obtain j q u where "fmlookup (uc_utxos d) j = Some q"
    "batch_write_entry j q u = (Inl x, c')" by (auto simp: btree_iter_set)
  then have "x = Fail FreshUtxoAlreadyExists"
    by (auto simp: batch_write_entry_eq [OF valid] split: if_splits option.splits)
  with x show ?thesis by (simp add: cache_batch_write_def consume_cache_def bindS_def)
qed

lemma flush_without_conflict:
  assumes "utxo_coherent c" and "utxo_synced d" and "uc_parent d = utxos_cache_view c" and "\<not> fresh_conflict d c"
  shows "\<exists>c'. cache_batch_write (consume_cache d) c = (Inr (), c') \<and> cache_utxo c' = cache_utxo d \<and>
    uc_current_block_hash c' = uc_current_block_hash d"
proof -
  have valid: "entry_valid e" if "fmlookup (uc_utxos d) k = Some e" for k e using utxo_syncedD [OF assms(2) that] by simp
  have cell: "\<exists>w. written_cell (fmlookup (uc_utxos c) k) e = Some w \<and>
      (case w of None \<Rightarrow> uv_utxo (uc_parent c) k | Some q \<Rightarrow> Inr (entry_utxo q)) = Inr (entry_utxo e)"
    if k: "fmlookup (uc_utxos d) k = Some e" for k e
  proof (rule written_cell_synced)
    show "entry_is_spent q" if "fmlookup (uc_utxos c) k = Some q" "entry_is_fresh e" "\<not> entry_is_spent e" for q
      using that k assms(4) unfolding fresh_conflict_def by blast
  qed (use utxo_syncedD [OF assms(2) k] utxo_coherentD [OF assms(1)] in
      \<open>auto simp: assms(3) utxos_cache_view_def cache_utxo_cell\<close>)
  obtain c' where c': "mapS (\<lambda>(k, e). checked_write k e) (btree_iter (uc_utxos d)) c =
      (Inr (map (\<lambda>_. ()) (btree_iter (uc_utxos d))), c')"
    using keyed_progress.iter_progress [OF checked_write_keyed, of "uc_utxos d" c] cell valid
    by (fastforce simp: case_prod_unfold)
  note cells = keyed_step.iter_ok(2,3) [OF keyed_progress.axioms(1) [OF checked_write_keyed] c']
  have run: "try_for_each (\<lambda>(k, e). batch_write_entry k e) (btree_iter (uc_utxos d)) c = (Inr (), c')"
    unfolding flush_each [OF assms(2)] try_for_each_Inr using c' by blast
  have "cache_utxo c' k = cache_utxo d k" for k
  proof (cases "fmlookup (uc_utxos d) k")
    case None
    with cells(1) [OF None] flush_parent [OF assms(2) run] show ?thesis
      by (simp add: cache_utxo_cell assms(3) utxos_cache_view_def split: option.split)
  next
    case (Some x)
    with cells(2) [OF Some] cell [OF Some] valid [OF Some] flush_parent [OF assms(2) run] show ?thesis
      by (auto simp: cache_utxo_cell [of c'] cache_utxo_at split: option.splits)
  qed
  with run show ?thesis
    by (auto simp: cache_batch_write_def consume_cache_def op_simps set_best_block_eq fun_eq_iff)
qed

section \<open>The dependencies in the undo data of a block\<close>

definition mirrored :: "utxos_block_undo \<Rightarrow> bool" where
  "mirrored b \<longleftrightarrow> (\<forall>child parent. (child, parent) |\<in>| bu_child_parent b \<longleftrightarrow> (parent, child) |\<in>| bu_parent_child b)"

lemma fold_dependencies:
  "(child, parent) |\<in>| bu_child_parent (fold (add_dependency i) xs b) \<longleftrightarrow>
     (child, parent) |\<in>| bu_child_parent b \<or> child = i \<and> parent \<in> set xs"
  "(parent, child) |\<in>| bu_parent_child (fold (add_dependency i) xs b) \<longleftrightarrow>
     (parent, child) |\<in>| bu_parent_child b \<or> child = i \<and> parent \<in> set xs"
  "bu_tx_undos (fold (add_dependency i) xs b) = bu_tx_undos b"
  by (induction xs arbitrary: b) (auto simp: add_dependency_def)

lemma source_tx_ids: "x \<in> set (List.map_filter source_tx_id ss) \<longleftrightarrow> TransactionSource x \<in> set ss"
proof (induction ss)
  case (Cons s ss)
  then show ?case by (cases s) (auto simp: map_filter_simps)
qed (simp add: map_filter_simps)

lemma insert_tx_undo_Err:
  "insert_tx_undo i undo b = (Inl e, b') \<Longrightarrow> e = UtxosUndoAlreadyExists i \<and> fmlookup (bu_tx_undos b) i \<noteq> None \<and> b' = b"
  by (auto simp: insert_tx_undo_def op_simps result_simps)

lemma insert_tx_undo_ok:
  assumes "insert_tx_undo i undo b = (Inr (), b')" and "mirrored b"
  shows "mirrored b' \<and> bu_tx_undos b' = fmupd i (tu_utxos undo) (bu_tx_undos b) \<and>
    (\<forall>child parent. (child, parent) |\<in>| bu_child_parent b' \<longleftrightarrow>
       (child, parent) |\<in>| bu_child_parent b \<or> child = i \<and> TransactionSource parent \<in> set (tu_sources undo))"
  using assms
  by (auto simp: insert_tx_undo_def op_simps result_simps fold_dependencies source_tx_ids mirrored_def)

section \<open>Sequences of calls on a cache\<close>

inductive utxo_steps :: "('e utxos_cache \<Rightarrow> utxo_call \<Rightarrow> bool) \<Rightarrow> 'e utxos_cache \<Rightarrow> 'e utxos_cache \<Rightarrow> bool" for P c where
  no_utxo_call: "utxo_steps P c c"
| one_utxo_call: "utxo_steps P c a \<Longrightarrow> P a call \<Longrightarrow> utxo_exec call a = (r, b) \<Longrightarrow> utxo_steps P c b"

lemma utxo_steps_valid: "utxo_steps (\<lambda>_. call_valid) c c' \<Longrightarrow> cache_valid c \<Longrightarrow> cache_valid c'"
  by (induction rule: utxo_steps.induct) (auto dest: keeps_validD [OF utxo_exec_valid])

text \<open>
  The calls of the node: all but the mutable reference, which only tests take; what is written back has
  valid flags. They keep a cache synced.
\<close>

fun call_plain :: "utxo_call \<Rightarrow> bool" where
  "call_plain (CallGetMutUtxo k f) \<longleftrightarrow> False"
| "call_plain call \<longleftrightarrow> call_valid call"

lemma batch_write_synced:
  assumes "cache_batch_write cu c = (r, c')" and "container_valid cu" and "utxo_synced c"
  shows "utxo_synced c' \<and> uc_parent c' = uc_parent c"
proof -
  let ?I = "\<lambda>x. utxo_synced x \<and> uc_parent x = uc_parent c"
  have step: "?I t" if e: "entry_valid e" and m: "batch_write_entry k e s = (q, t)" and i: "?I s" for k e s q t
    using m i e by (cases "entry_utxo e")
      (auto simp: batch_write_entry_eq [OF e] entry_spent_utxo entry_valid_spent split: if_splits option.splits)
  obtain q t where t: "try_for_each (\<lambda>(k, e). batch_write_entry k e) (btree_iter (cu_container cu)) c = (q, t)"
    by (cases "try_for_each (\<lambda>(k, e). batch_write_entry k e) (btree_iter (cu_container cu)) c")
  have "?I t"
    using t by (rule try_for_each_invariant [where I = ?I])
      (use assms(2,3) step in \<open>auto simp: btree_iter_set container_valid_def dest: fmpredD\<close>)
  with t assms(1) show ?thesis
    by (cases q) (auto simp: cache_batch_write_def bindS_def set_best_block_eq)
qed

lemma utxo_exec_synced:
  assumes "utxo_synced c" and "call_plain call" and "utxo_exec call c = (r, c')"
  shows "utxo_synced c' \<and> uc_parent c' = uc_parent c"
proof (cases call)
  case (CallBatchWrite cu)
  with batch_write_synced [of cu c r c'] assms show ?thesis by simp
qed (use assms in \<open>auto simp: cache_op_eqs bindS_def returnS_def split: prod.splits sum.splits option.splits if_splits\<close>)

lemma utxo_steps_synced:
  "utxo_steps (\<lambda>_. call_plain) c c' \<Longrightarrow> utxo_synced c \<Longrightarrow> utxo_synced c' \<and> uc_parent c' = uc_parent c"
proof (induction rule: utxo_steps.induct)
  case (one_utxo_call a call r b)
  with utxo_exec_synced [of a call r b] show ?case by auto
qed simp

text \<open>
  Calls that also keep a cache coherent with its parent: an output is added where there is none, or with the
  overwrite flag, and entries are written back from a coherent cache opened on this one. The code does not
  check the first: \<open>add_utxo\<close> looks at the entries of the cache only, and takes an output that just the parent
  has for a new one.
\<close>

fun utxo_call_allowed :: "'e utxos_cache \<Rightarrow> utxo_call \<Rightarrow> bool" where
  "utxo_call_allowed c (CallAddUtxo k u ow) \<longleftrightarrow> ow \<or> cache_utxo c k = Inr None"
| "utxo_call_allowed c (CallGetMutUtxo k f) \<longleftrightarrow> False"
| "utxo_call_allowed c (CallBatchWrite cu) \<longleftrightarrow>
     (\<exists>d. utxo_coherent d \<and> uc_parent d = utxos_cache_view c \<and> cu = consume_cache d)"
| "utxo_call_allowed c _ \<longleftrightarrow> True"

lemma utxo_call_allowed_plain: "utxo_call_allowed c call \<Longrightarrow> call_plain call"
  by (cases call) (auto simp: container_valid_def consume_cache_def entry_coherent_def fmpred_iff dest!: utxo_coherentD)

lemma bind_unit_state: "bindS m (\<lambda>_. returnS ()) c = (r, c') \<Longrightarrow> \<exists>q. m c = (q, c')"
  by (auto simp: bindS_def returnS_def split: prod.splits sum.splits)

lemma utxo_exec_coherent:
  assumes "utxo_coherent c" and "utxo_call_allowed c call" and "utxo_exec call c = (r, c')"
  shows "utxo_coherent c' \<and> uc_parent c' = uc_parent c"
proof (cases call)
  case (CallAddUtxo k u ow)
  with add_utxo_coherent [OF assms(1), of ow k u] assms(2,3) show ?thesis by (auto simp: same_base_def)
next
  case (CallSpendUtxo k)
  with assms(3) obtain q where "spend_utxo k c = (q, c')" by (auto dest!: bind_unit_state)
  from spend_utxo_cases [OF assms(1) this] show ?thesis by (auto simp: same_base_def)
next
  case (CallFetchUtxoEntry k)
  with assms(3) obtain q where "fetch_utxo_entry k c = (q, c')" by (auto dest!: bind_unit_state)
  from fetch_utxo_coherent [OF assms(1) this] show ?thesis by (auto simp: same_base_def)
next
  case (CallUncache k)
  with uncache_coherent [OF assms(1)] assms(3) show ?thesis by (auto simp: same_base_def)
next
  case (CallBatchWrite cu)
  with assms(2) obtain d where "utxo_coherent d" "uc_parent d = utxos_cache_view c" "cu = consume_cache d" by auto
  from flush_to_parent [OF assms(1) this(1,2)] this(3) assms(3) CallBatchWrite show ?thesis by auto
qed (use assms in \<open>auto simp: set_best_block_eq\<close>)

lemma utxo_steps_coherent:
  "utxo_steps utxo_call_allowed c c' \<Longrightarrow> utxo_coherent c \<Longrightarrow> utxo_coherent c' \<and> uc_parent c' = uc_parent c"
proof (induction rule: utxo_steps.induct)
  case (one_utxo_call a call r b)
  with utxo_exec_coherent [of a call r b] show ?case by auto
qed simp

section \<open>The genesis utxos\<close>

definition genesis_utxos :: "gen_block_id \<Rightarrow> tx_output list \<Rightarrow> (utxo_outpoint \<times> utxo) list" where
  "genesis_utxos genesis_id outputs =
     map (\<lambda>(i, out). (UtxoOutPoint (BlockRewardSource genesis_id) (of_nat i), Utxo out (Blockchain 0)))
       (enumerate 0 outputs)"

lemma distinct_enumerated:
  assumes "length xs \<le> 2 ^ 32"
  shows "distinct (map (\<lambda>(i, x). UtxoOutPoint src (of_nat i)) (enumerate 0 xs))"
proof -
  have "inj_on (\<lambda>i. UtxoOutPoint src (of_nat i :: u32)) {0..<length xs}"
  proof (rule inj_onI)
    fix i j
    assume ij: "i \<in> {0..<length xs}" "j \<in> {0..<length xs}" "UtxoOutPoint src (of_nat i :: u32) = UtxoOutPoint src (of_nat j)"
    have "unat (of_nat n :: u32) = n" if "n < length xs" for n
      using that assms by (simp add: unsigned_of_nat take_bit_nat_eq_self_iff)
    with ij show "i = j" by (metis atLeastLessThan_iff utxo_outpoint.inject)
  qed
  then have "distinct (map (\<lambda>i. UtxoOutPoint src (of_nat i :: u32)) [0..<length xs])"
    by (simp add: distinct_map)
  moreover have "map (\<lambda>(i, x). UtxoOutPoint src (of_nat i)) (enumerate 0 xs) =
      map (\<lambda>i. UtxoOutPoint src (of_nat i :: u32)) [0..<length xs]"
    by (rule nth_equalityI) (simp_all add: nth_enumerate_eq)
  ultimately show ?thesis by simp
qed

lemma initialize_db_reads:
  assumes "length outputs \<le> 2 ^ 32" and "im_store s = fmempty"
  shows "\<exists>t. initialize_db in_memory_utxos_storage genesis_id outputs s = (Inr (), t) \<and>
    im_best_block_id t = genesis_id \<and> fmlookup (im_store t) = map_of (genesis_utxos genesis_id outputs)"
proof -
  let ?S = in_memory_utxos_storage
  define s1 where "s1 = s\<lparr>im_best_block_id := genesis_id\<rparr>"
  define c0 where "c0 = \<lparr>uc_parent = utxos_db_view ?S s1, uc_current_block_hash = genesis_id, uc_utxos = fmempty\<rparr>"
  have c0: "utxos_cache_new (utxos_db_view ?S s1) = Inr c0"
    by (simp add: utxos_cache_new_def utxos_db_view_def in_memory_utxos_storage_def s1_def c0_def and_then_def)
  note new = utxos_cache_new_coherent [OF c0]
  have "cache_utxo c0 k = Inr None" for k
    using new assms(2) by (simp add: utxos_db_view_def in_memory_utxos_storage_def map_column_def s1_def)
  then have none: "\<forall>k\<in>fst ` set (genesis_utxos genesis_id outputs). cache_utxo c0 k = Inr None" by simp
  have "map fst (genesis_utxos genesis_id outputs) =
      map (\<lambda>(i, out). UtxoOutPoint (BlockRewardSource genesis_id) (of_nat i)) (enumerate 0 outputs)"
    by (simp add: genesis_utxos_def case_prod_unfold)
  with distinct_enumerated [OF assms(1)] have "distinct (map fst (genesis_utxos genesis_id outputs))" by metis
  from add_all [OF reads_as_refl this none] new obtain c where
    c: "try_for_each (\<lambda>(k, u). add_utxo k u False) (genesis_utxos genesis_id outputs) c0 = (Inr (), c)"
      "reads_as c0 (\<lambda>k. case map_of (genesis_utxos genesis_id outputs) k of Some u \<Rightarrow> Inr (Some u) | None \<Rightarrow> cache_utxo c0 k) c"
    by blast
  then have "utxo_coherent c" "uc_parent c = utxos_db_view ?S s1" "uc_current_block_hash c = genesis_id"
    using new by (auto simp: reads_as_def same_base_def c0_def)
  from in_memory_utxos.flush_utxos [OF this(1,2)] this(3) obtain t where
    t: "utxos_db_batch_write ?S (consume_cache c) s1 = (Inr (), t)" "uv_utxo (utxos_db_view ?S t) = cache_utxo c"
      "uv_best_block_hash (utxos_db_view ?S t) = Inr genesis_id" by auto
  have run: "try_for_each (\<lambda>(index, out). add_utxo (UtxoOutPoint (BlockRewardSource genesis_id) (of_nat index))
      (utxo_new_for_blockchain out 0) False) (enumerate 0 outputs) c0 = (Inr (), c)"
    using c(1) by (simp add: genesis_utxos_def try_for_each_map case_prod_unfold utxo_new_for_blockchain_def)
  have "us_set_best ?S genesis_id s = (Inr (), s1)" by (simp add: in_memory_utxos_storage_def modifyS_def s1_def)
  with c0 run t(1) have "initialize_db ?S genesis_id outputs s = (Inr (), t)"
    by (simp add: initialize_db_def op_simps result_simps)
  moreover have "fmlookup (im_store t) k = map_of (genesis_utxos genesis_id outputs) k" for k
    using fun_cong [OF t(2), of k] c(2) \<open>\<And>k. cache_utxo c0 k = Inr None\<close>
    by (auto simp: reads_as_def utxos_db_view_def in_memory_utxos_storage_def map_column_def split: option.splits)
  moreover have "im_best_block_id t = genesis_id"
    using t(3) by (simp add: utxos_db_view_def in_memory_utxos_storage_def)
  ultimately show ?thesis by auto
qed

section \<open>A concrete utxo set\<close>

definition coin_output :: "amount \<Rightarrow> tx_output" where
  "coin_output a = Transfer (Coin a) AnyoneCanSpend"

definition sample_outpoint :: utxo_outpoint where
  "sample_outpoint = UtxoOutPoint (BlockRewardSource 1) 0"

definition sample_utxo :: utxo where
  "sample_utxo = Utxo (coin_output 10) (Blockchain 0)"

definition sample_utxos :: in_memory_utxos where
  "sample_utxos = \<lparr>im_store = fmap_of_list [(sample_outpoint, sample_utxo)], im_best_block_id = 1\<rparr>"

definition utxo_sample :: "storage_error utxos_cache" where
  "utxo_sample = \<lparr>uc_parent = utxos_db_view in_memory_utxos_storage sample_utxos, uc_current_block_hash = 1,
     uc_utxos = fmempty\<rparr>"

definition sample_tx :: transaction where
  "sample_tx = \<lparr>tx_flags = 0,
     tx_inputs = [AccountInput (AccountOutPoint (AccountNonce 0) (DelegationBalance 3 5)), UtxoInput sample_outpoint],
     tx_outputs = [coin_output 6, DataDeposit [], coin_output 4]\<rparr>"

definition sample_reward :: block_reward_transactable where
  "sample_reward = \<lparr>reward_tx_inputs = Some [UtxoInput sample_outpoint], reward_tx_outputs = Some [coin_output 12]\<rparr>"

lemma utxo_sample_new: "utxos_cache_new (utxos_db_view in_memory_utxos_storage sample_utxos) = Inr utxo_sample"
  by (simp add: utxos_cache_new_def utxos_db_view_def in_memory_utxos_storage_def utxo_sample_def sample_utxos_def and_then_def)

lemma utxo_sample_coherent: "utxo_coherent utxo_sample"
  using utxos_cache_new_coherent [OF utxo_sample_new] by simp

lemma utxo_sample_reads: "cache_utxo utxo_sample k = Inr (if k = sample_outpoint then Some sample_utxo else None)"
  by (simp add: cache_utxo_def utxo_sample_def utxos_db_view_def in_memory_utxos_storage_def map_column_def
      sample_utxos_def fmlookup_of_list)

section \<open>Properties of the utxo set\<close>

text \<open>
  The flags of the cached entries stay valid. Whatever calls are made on a cache (entries written back
  to it being valid), each of its entries keeps one of the five combinations of flags that make sense, and
  the assertion in the constructor of an entry never fails.
\<close>

theorem utxo_entries_stay_valid:
  assumes "utxos_cache_new p = Inr c0" and "utxo_steps (\<lambda>_. call_valid) c0 c" and "call_valid call"
    and "utxo_exec call c = (r, c')"
  shows "cache_valid c' \<and> r \<noteq> Inl Panic"
proof -
  have "cache_valid c0" using assms(1) by (auto simp: utxos_cache_new_def result_simps cache_valid_def)
  from utxo_steps_valid [OF assms(2) this] show ?thesis
    by (rule keeps_validD [OF utxo_exec_valid [OF assms(3)] assms(4)])
qed

theorem utxo_entries_stay_valid_witness:
  "\<exists>r c'. spend_utxo sample_outpoint utxo_sample = (r, c') \<and> cache_valid c'"
proof -
  obtain r c' where m: "utxo_exec (CallSpendUtxo sample_outpoint) utxo_sample = (r, c')"
    by (cases "utxo_exec (CallSpendUtxo sample_outpoint) utxo_sample")
  from utxo_entries_stay_valid [OF utxo_sample_new utxo_steps.no_utxo_call _ m] bind_unit_state [of "spend_utxo _"] m
  show ?thesis by force
qed

text \<open>
  C34: How a cache behaves as a set of outputs, on every branch of adding and spending, after calls that never
  add an output without the overwrite flag where there is one. Spending an output that the cache shows
  returns it and removes just that output; spending any other one is an error that changes nothing the
  cache shows. Adding without the overwrite flag over an unspent entry of the cache is refused; every other
  addition succeeds and changes just that output. In one case the result is not that of a set: an output
  added without the flag over one that only the parent has replaces it, and spending it brings back the
  output of the parent.
\<close>

theorem utxo_cache_is_a_set:
  assumes "utxos_cache_new p = Inr c0" and "utxo_steps utxo_call_allowed c0 c"
  shows "(case cache_utxo c k of
      Inl _ \<Rightarrow> spend_utxo k c = (Inl (Fail UtxoViewRead), c)
    | Inr None \<Rightarrow> (\<exists>e c'. spend_utxo k c = (Inl (Fail e), c') \<and> cache_utxo c' = cache_utxo c \<and>
        e \<in> {NoUtxoFound, UtxoAlreadySpent (outpoint_source k)})
    | Inr (Some u) \<Rightarrow> (\<exists>c'. spend_utxo k c = (Inr u, c') \<and> cache_utxo c' = (cache_utxo c)(k := Inr None))) \<and>
    (if \<not> ow \<and> has_utxo_in_cache c k \<and> (\<exists>w. cache_utxo c k = Inr (Some w))
     then add_utxo k v ow c = (Inl (Fail OverwritingUtxo), c)
     else \<exists>c'. add_utxo k v ow c = (Inr (), c') \<and> cache_utxo c' = (cache_utxo c)(k := Inr (Some v)) \<and>
       (\<exists>c2. spend_utxo k c' = (Inr v, c2) \<and> cache_utxo c2 = (cache_utxo c)(k :=
          if \<not> ow \<and> \<not> has_utxo_in_cache c k then uv_utxo (uc_parent c) k else Inr None)))"
proof -
  have ok: "utxo_coherent c"
    using utxos_cache_new_coherent [OF assms(1)] utxo_steps_coherent [OF assms(2)] by simp
  obtain r c' where r: "spend_utxo k c = (r, c')" by (cases "spend_utxo k c")
  from spend_utxo_cases [OF ok r] r add_utxo_branches [OF ok, of ow k v] show ?thesis
    by (auto split: sum.splits option.splits)
qed

theorem utxo_cache_is_a_set_witness:
  "\<exists>c'. spend_utxo sample_outpoint utxo_sample = (Inr sample_utxo, c') \<and>
     cache_utxo c' = (cache_utxo utxo_sample)(sample_outpoint := Inr None)"
  using utxo_cache_is_a_set [OF utxo_sample_new utxo_steps.no_utxo_call, of sample_outpoint] by (simp add: utxo_sample_reads)

text \<open>
  Flushing a cache that kept to its contract to the database succeeds, and the database then shows
  exactly the outputs and the best block that the cache showed.
\<close>

theorem utxo_flush_refines:
  assumes "utxos_cache_new (utxos_db_view in_memory_utxos_storage s) = Inr c0" and "utxo_steps utxo_call_allowed c0 c"
  shows "\<exists>t. utxos_db_batch_write in_memory_utxos_storage (consume_cache c) s = (Inr (), t) \<and>
    uv_utxo (utxos_db_view in_memory_utxos_storage t) = cache_utxo c \<and>
    uv_best_block_hash (utxos_db_view in_memory_utxos_storage t) = Inr (uc_current_block_hash c)"
proof -
  have "utxo_coherent c" "uc_parent c = utxos_db_view in_memory_utxos_storage s"
    using utxos_cache_new_coherent [OF assms(1)] utxo_steps_coherent [OF assms(2)] by simp_all
  then show ?thesis by (rule in_memory_utxos.flush_utxos)
qed

theorem utxo_flush_refines_witness:
  "\<exists>c t. utxo_exec (CallSpendUtxo sample_outpoint) utxo_sample = (Inr (), c) \<and>
     utxos_db_batch_write in_memory_utxos_storage (consume_cache c) sample_utxos = (Inr (), t) \<and>
     uv_utxo (utxos_db_view in_memory_utxos_storage t) sample_outpoint = Inr None"
proof -
  obtain c where c: "utxo_exec (CallSpendUtxo sample_outpoint) utxo_sample = (Inr (), c)"
      "cache_utxo c sample_outpoint = Inr None"
    using spend_reads [OF reads_as_refl [OF utxo_sample_coherent], of sample_outpoint sample_utxo]
    by (auto simp: utxo_sample_reads op_simps reads_as_def)
  from utxo_flush_refines [OF utxo_sample_new utxo_steps.one_utxo_call [OF utxo_steps.no_utxo_call _ c(1)]] c
  show ?thesis by (metis utxo_call_allowed.simps(4))
qed

text \<open>
  C17: Flushing a child cache into the cache it was opened on, after any calls the node makes on the child.
  The flush is refused with \<open>FreshUtxoAlreadyExists\<close> exactly when the child has an output marked FRESH over an
  entry of the parent that is not spent; otherwise it succeeds and the parent then shows exactly what the
  child showed. A child that never adds an output without the overwrite flag where there is one is never
  refused, and leaves the parent coherent with its own parent.
\<close>

theorem utxo_child_flush_refines:
  assumes "utxo_coherent c" and "utxos_cache_new (utxos_cache_view c) = Inr d0"
    and "utxo_steps (\<lambda>_. call_plain) d0 d"
  shows "(if fresh_conflict d c then fst (cache_batch_write (consume_cache d) c) = Inl (Fail FreshUtxoAlreadyExists)
     else \<exists>c'. cache_batch_write (consume_cache d) c = (Inr (), c') \<and> cache_utxo c' = cache_utxo d \<and>
       uc_current_block_hash c' = uc_current_block_hash d) \<and>
    (utxo_steps utxo_call_allowed d0 d \<longrightarrow> \<not> fresh_conflict d c \<and>
       utxo_coherent (snd (cache_batch_write (consume_cache d) c)))"
proof -
  note new = utxos_cache_new_coherent [OF assms(2)]
  have d: "utxo_synced d" "uc_parent d = utxos_cache_view c"
    using new utxo_steps_synced [OF assms(3)] utxo_coherent_synced by auto
  have "\<not> fresh_conflict d c \<and> utxo_coherent (snd (cache_batch_write (consume_cache d) c))"
    if "utxo_steps utxo_call_allowed d0 d"
  proof -
    have "utxo_coherent d" using new utxo_steps_coherent [OF that] by simp
    from flush_to_parent [OF assms(1) this d(2)] flush_conflict [OF d(1), of c] show ?thesis by auto
  qed
  with flush_conflict [OF d(1), of c] flush_without_conflict [OF assms(1) d] show ?thesis by simp
qed

theorem utxo_child_flush_refines_witness:
  "\<exists>d0 d c'. utxos_cache_new (utxos_cache_view utxo_sample) = Inr d0 \<and>
     utxo_exec (CallSpendUtxo sample_outpoint) d0 = (Inr (), d) \<and>
     cache_batch_write (consume_cache d) utxo_sample = (Inr (), c') \<and> cache_utxo c' sample_outpoint = Inr None"
proof -
  obtain d0 where d0: "utxos_cache_new (utxos_cache_view utxo_sample) = Inr d0"
    by (simp add: utxos_cache_new_def utxos_cache_view_def and_then_def)
  note new = utxos_cache_new_coherent [OF d0]
  then have "cache_utxo d0 sample_outpoint = Inr (Some sample_utxo)" by (simp add: utxos_cache_view_def utxo_sample_reads)
  with spend_reads [OF reads_as_refl, of d0 sample_outpoint sample_utxo] new obtain d where
    d: "utxo_exec (CallSpendUtxo sample_outpoint) d0 = (Inr (), d)" "cache_utxo d sample_outpoint = Inr None"
    by (auto simp: op_simps reads_as_def)
  have "utxo_steps (\<lambda>_. call_plain) d0 d" "utxo_steps utxo_call_allowed d0 d"
    using d(1) by (auto intro!: utxo_steps.one_utxo_call [OF utxo_steps.no_utxo_call,
        where call = "CallSpendUtxo sample_outpoint"])
  from utxo_child_flush_refines [OF utxo_sample_coherent d0 this(1)] this(2)
  obtain c' where "cache_batch_write (consume_cache d) utxo_sample = (Inr (), c')" "cache_utxo c' = cache_utxo d" by auto
  with d0 d show ?thesis by auto
qed

text \<open>
  C4: Connecting a transaction whose outputs are not in the set yet removes the outputs its inputs spend,
  all of them unspent and distinct, and adds those of its outputs that belong in the set; disconnecting it
  with the undo data it returned succeeds and gives back the set and the best block there were before.
\<close>

theorem connect_then_disconnect_transaction:
  assumes "utxo_coherent c" and "\<forall>k\<in>fst ` set (created_utxos get_id tx source). cache_utxo c k = Inr None"
    and "connect_transaction get_id tx source c = (Inr undo, c1)"
  shows "cache_utxo c1 = (\<lambda>k. case map_of (created_utxos get_id tx source) k of
        Some u \<Rightarrow> Inr (Some u)
      | None \<Rightarrow> if k \<in> set (spent_outpoints tx) then Inr None else cache_utxo c k) \<and>
    distinct (spent_outpoints tx) \<and> (\<forall>k\<in>set (spent_outpoints tx). \<exists>u. cache_utxo c k = Inr (Some u)) \<and>
    (\<exists>c2. disconnect_transaction get_id tx (tu_utxos undo) c1 = (Inr (), c2) \<and> utxo_coherent c2 \<and>
      cache_utxo c2 = cache_utxo c \<and> uc_current_block_hash c2 = uc_current_block_hash c)"
proof -
  note con = connect_transaction_reads [OF reads_as_refl [OF assms(1)] assms(2,3)]
    and dis = disconnect_transaction_reads [OF reads_as_refl [OF assms(1)] assms(2,3)]
  have "cache_utxo c1 = (\<lambda>k. case map_of (created_utxos get_id tx source) k of
        Some u \<Rightarrow> Inr (Some u)
      | None \<Rightarrow> if k \<in> set (spent_outpoints tx) then Inr None else cache_utxo c k)"
    using con unfolding reads_as_def by blast
  moreover have "\<exists>c2. disconnect_transaction get_id tx (tu_utxos undo) c1 = (Inr (), c2) \<and> utxo_coherent c2 \<and>
      cache_utxo c2 = cache_utxo c \<and> uc_current_block_hash c2 = uc_current_block_hash c"
    using dis unfolding reads_as_def same_base_def by blast
  ultimately show ?thesis using con by blast
qed

theorem connect_then_disconnect_transaction_witness:
  "\<exists>undo c1 c2. connect_transaction (\<lambda>_. 99) sample_tx (Blockchain 5) utxo_sample = (Inr undo, c1) \<and>
     cache_utxo c1 sample_outpoint = Inr None \<and>
     cache_utxo c1 (UtxoOutPoint (TransactionSource 99) 2) = Inr (Some (Utxo (coin_output 4) (Blockchain 5))) \<and>
     disconnect_transaction (\<lambda>_. 99) sample_tx (tu_utxos undo) c1 = (Inr (), c2) \<and>
     cache_utxo c2 sample_outpoint = Inr (Some sample_utxo)"
proof -
  have created: "created_utxos (\<lambda>_. 99) sample_tx (Blockchain 5) =
      [(UtxoOutPoint (TransactionSource 99) 0, Utxo (coin_output 6) (Blockchain 5)),
       (UtxoOutPoint (TransactionSource 99) 2, Utxo (coin_output 4) (Blockchain 5))]"
      "spent_outpoints sample_tx = [sample_outpoint]" by code_simp+
  have "is_ok (fst (connect_transaction (\<lambda>_. 99) sample_tx (Blockchain 5) utxo_sample))" by code_simp
  then obtain undo c1 where m: "connect_transaction (\<lambda>_. 99) sample_tx (Blockchain 5) utxo_sample = (Inr undo, c1)"
    by (rule result_of_ok)
  have "\<forall>k\<in>fst ` set (created_utxos (\<lambda>_. 99) sample_tx (Blockchain 5)). cache_utxo utxo_sample k = Inr None"
    by (simp add: created utxo_sample_reads sample_outpoint_def)
  from connect_then_disconnect_transaction [OF utxo_sample_coherent this m] m show ?thesis
    by (auto simp: created utxo_sample_reads sample_outpoint_def)
qed

text \<open>
  Connecting a block reward whose outputs are not in the set yet and disconnecting it with the undo data
  it returned gives back the set and the best block, provided the reward has no inputs at all, or at least
  one and only utxo inputs.
\<close>

theorem connect_then_disconnect_reward:
  assumes "utxo_coherent c" and "\<forall>k\<in>fst ` set (reward_utxos reward block_id height). cache_utxo c k = Inr None"
    and "reward_inputs_ok reward" and "connect_block_transactable reward block_id height c = (Inr undo, c1)"
  shows "\<exists>c2. disconnect_block_transactable reward block_id undo c1 = (Inr (), c2) \<and> utxo_coherent c2 \<and>
    cache_utxo c2 = cache_utxo c \<and> uc_current_block_hash c2 = uc_current_block_hash c"
  using disconnect_block_reads [OF reads_as_refl [OF assms(1)] assms(2,4,3)]
  unfolding reads_as_def same_base_def by blast

theorem connect_then_disconnect_reward_witness:
  "\<exists>undo c1 c2. connect_block_transactable sample_reward 8 5 utxo_sample = (Inr undo, c1) \<and>
     disconnect_block_transactable sample_reward 8 undo c1 = (Inr (), c2) \<and>
     cache_utxo c2 sample_outpoint = Inr (Some sample_utxo)"
proof -
  have "is_ok (fst (connect_block_transactable sample_reward 8 5 utxo_sample))" by code_simp
  then obtain undo c1 where m: "connect_block_transactable sample_reward 8 5 utxo_sample = (Inr undo, c1)"
    by (rule result_of_ok)
  have "reward_utxos sample_reward 8 5 = [(UtxoOutPoint (BlockRewardSource 8) 0, Utxo (coin_output 12) (Blockchain 5))]"
    by code_simp
  then have "\<forall>k\<in>fst ` set (reward_utxos sample_reward 8 5). cache_utxo utxo_sample k = Inr None"
    by (simp add: utxo_sample_reads sample_outpoint_def)
  moreover have "reward_inputs_ok sample_reward" by (simp add: reward_inputs_ok_def sample_reward_def)
  ultimately show ?thesis
    using connect_then_disconnect_reward [OF utxo_sample_coherent _ _ m] m by (auto simp: utxo_sample_reads)
qed

text \<open>
  With an account input in front of a utxo input the undo data of a block reward is paired with the wrong
  inputs: connecting spends the utxo, disconnecting succeeds, and the utxo stays spent.
\<close>

theorem reward_undo_misaligned:
  assumes "utxo_coherent c" and "cache_utxo c k = Inr (Some u)"
    and "reward = \<lparr>reward_tx_inputs = Some [AccountInput a, UtxoInput k], reward_tx_outputs = None\<rparr>"
  shows "\<exists>c1 c2. connect_block_transactable reward block_id height c = (Inr (Some [u]), c1) \<and>
    disconnect_block_transactable reward block_id (Some [u]) c1 = (Inr (), c2) \<and> cache_utxo c2 k = Inr None"
proof -
  from spend_reads [OF reads_as_refl [OF assms(1)] assms(2)] obtain c1 where
    c1: "spend_utxo k c = (Inr u, c1)" "cache_utxo c1 k = Inr None" by (auto simp: reads_as_def)
  then have "connect_block_transactable reward block_id height c = (Inr (Some [u]), c1)"
    by (simp add: connect_block_transactable_def assms(3) map_filter_simps op_simps)
  moreover have "disconnect_block_transactable reward block_id (Some [u]) c1 = (Inr (), c1)"
    by (simp add: disconnect_block_transactable_def assms(3) map_filter_simps op_simps ok_or_def)
  ultimately show ?thesis using c1(2) by blast
qed

theorem reward_undo_misaligned_witness:
  "\<exists>c1 c2. connect_block_transactable
       \<lparr>reward_tx_inputs = Some [AccountInput (AccountOutPoint (AccountNonce 0) (DelegationBalance 3 5)),
          UtxoInput sample_outpoint], reward_tx_outputs = None\<rparr> 8 5 utxo_sample = (Inr (Some [sample_utxo]), c1) \<and>
     disconnect_block_transactable
       \<lparr>reward_tx_inputs = Some [AccountInput (AccountOutPoint (AccountNonce 0) (DelegationBalance 3 5)),
          UtxoInput sample_outpoint], reward_tx_outputs = None\<rparr> 8 (Some [sample_utxo]) c1 = (Inr (), c2) \<and>
     cache_utxo c2 sample_outpoint = Inr None"
  by (rule reward_undo_misaligned [OF utxo_sample_coherent _ refl]) (simp add: utxo_sample_reads)

text \<open>
  Adding an output without the overwrite flag over one that only the parent has is accepted: the entry
  is taken for fresh, and spending it drops it from the cache, which uncovers the output of the parent.
\<close>

theorem misplaced_fresh_uncovers_parent:
  assumes "\<not> has_utxo_in_cache c k" and "uv_utxo (uc_parent c) k = Inr (Some old)"
  shows "\<exists>c1 c2. add_utxo k new False c = (Inr (), c1) \<and> spend_utxo k c1 = (Inr new, c2) \<and>
    cache_utxo c2 k = Inr (Some old)"
  using assms by (simp add: has_utxo_in_cache_def add_utxo_eq spend_utxo_eq ok_or_def)

theorem misplaced_fresh_uncovers_parent_witness:
  "\<exists>c1 c2. add_utxo sample_outpoint (Utxo (coin_output 3) Mempool) False utxo_sample = (Inr (), c1) \<and>
     spend_utxo sample_outpoint c1 = (Inr (Utxo (coin_output 3) Mempool), c2) \<and>
     cache_utxo c2 sample_outpoint = Inr (Some sample_utxo)"
proof (rule misplaced_fresh_uncovers_parent)
  show "\<not> has_utxo_in_cache utxo_sample sample_outpoint" by (simp add: has_utxo_in_cache_def utxo_sample_def)
  then show "uv_utxo (uc_parent utxo_sample) sample_outpoint = Inr (Some sample_utxo)"
    using utxo_sample_reads [of sample_outpoint] by (simp add: has_utxo_in_cache_def cache_utxo_at)
qed

text \<open>
  Initializing an empty database puts exactly the outputs of the genesis block in it, unspent at height
  zero, and makes genesis the best block.
\<close>

theorem initialize_db_is_genesis:
  assumes "length outputs \<le> 2 ^ 32" and "im_store s = fmempty"
  shows "\<exists>t. initialize_db in_memory_utxos_storage genesis_id outputs s = (Inr (), t) \<and>
    im_best_block_id t = genesis_id \<and> fmlookup (im_store t) = map_of (genesis_utxos genesis_id outputs)"
  using assms by (rule initialize_db_reads)

theorem initialize_db_is_genesis_witness:
  "\<exists>t. initialize_db in_memory_utxos_storage 1 [coin_output 10] \<lparr>im_store = fmempty, im_best_block_id = 0\<rparr> = (Inr (), t) \<and>
     fmlookup (im_store t) sample_outpoint = Some sample_utxo"
  using initialize_db_is_genesis [of "[coin_output 10]" "\<lparr>im_store = fmempty, im_best_block_id = 0\<rparr>" 1]
  by (auto simp: genesis_utxos_def sample_outpoint_def sample_utxo_def)

text \<open>
  The two sets of dependencies in the undo data of a block mirror each other, whatever undo data is
  inserted: a transaction depends on exactly the transactions its undo data names as sources, and a second
  insertion for a transaction is refused.
\<close>

theorem block_undo_dependencies_mirror:
  assumes "mirrored b"
  shows "case insert_tx_undo i undo b of
      (Inl e, b') \<Rightarrow> e = UtxosUndoAlreadyExists i \<and> fmlookup (bu_tx_undos b) i \<noteq> None \<and> b' = b
    | (Inr _, b') \<Rightarrow> mirrored b' \<and> bu_tx_undos b' = fmupd i (tu_utxos undo) (bu_tx_undos b) \<and>
        (\<forall>child parent. (child, parent) |\<in>| bu_child_parent b' \<longleftrightarrow>
           (child, parent) |\<in>| bu_child_parent b \<or> child = i \<and> TransactionSource parent \<in> set (tu_sources undo))"
proof (cases "insert_tx_undo i undo b")
  case (Pair r b')
  then show ?thesis
  proof (cases r)
    case (Inl e)
    with Pair insert_tx_undo_Err [of i undo b e b'] show ?thesis by simp
  next
    case (Inr u)
    with Pair insert_tx_undo_ok [of i undo b b'] assms show ?thesis by simp
  qed
qed

theorem block_undo_dependencies_mirror_witness:
  "\<exists>b. insert_tx_undo 4 \<lparr>tu_utxos = [None], tu_sources = [TransactionSource 3]\<rparr>
     \<lparr>bu_reward_undo = None, bu_tx_undos = fmempty, bu_child_parent = {||}, bu_parent_child = {||}\<rparr> = (Inr (), b) \<and>
     (3, 4) |\<in>| bu_parent_child b"
proof -
  let ?b = "\<lparr>bu_reward_undo = None, bu_tx_undos = fmempty, bu_child_parent = {||}, bu_parent_child = {||}\<rparr>"
  let ?u = "\<lparr>tu_utxos = [None], tu_sources = [TransactionSource 3]\<rparr>"
  have "is_ok (fst (insert_tx_undo 4 ?u ?b))" by code_simp
  then obtain b where b: "insert_tx_undo 4 ?u ?b = (Inr (), b)" by (rule result_of_ok) simp
  have "mirrored ?b" by (simp add: mirrored_def)
  from block_undo_dependencies_mirror [OF this, of 4 ?u] b show ?thesis by (auto simp: mirrored_def)
qed

end
