(* ===== verification/Undo_Caches.thy ===== *)
theory Undo_Caches
  imports Utxo_Cache
begin

text \<open>
  The undo data a transaction verifier keeps per block or mempool
  (\<open>chainstate/tx-verifier/src/transaction_verifier/\<close>): cached operations and their combination, the
  undo data of a block in the utxo flavour (with the dependencies between transactions) and in the
  accounting flavour, the caches of both, and the flush of a derived verifier's caches into those of its
  parent.
\<close>

section \<open>Cached operations\<close>

datatype 'a cached_operation = Write 'a | Read 'a | Erase

fun op_get :: "'a cached_operation \<Rightarrow> 'a option" where
  "op_get (Write v) = Some v"
| "op_get (Read v) = Some v"
| "op_get Erase = None"

fun op_take :: "'a cached_operation \<Rightarrow> 'a option" where
  "op_take (Write v) = Some v"
| "op_take (Read v) = Some v"
| "op_take Erase = None"

text \<open>\<open>None\<close> is a panic.\<close>

fun combine_known :: "'a cached_operation \<Rightarrow> 'a cached_operation \<Rightarrow> 'a cached_operation option" where
  "combine_known (Write left) (Write right) = (if left = right then Some (Write right) else None)"
| "combine_known (Write _) (Read _) = None"
| "combine_known (Write _) Erase = Some Erase"
| "combine_known (Read _) (Write right) = Some (Write right)"
| "combine_known (Read _) (Read right) = Some (Read right)"
| "combine_known (Read _) Erase = Some Erase"
| "combine_known Erase (Write right) = Some (Write right)"
| "combine_known Erase (Read _) = None"
| "combine_known Erase Erase = Some Erase"

fun combine_ops ::
    "'a cached_operation option \<Rightarrow> 'a cached_operation option \<Rightarrow> 'a cached_operation option option" where
  "combine_ops None None = Some None"
| "combine_ops None (Some v) = Some (Some v)"
| "combine_ops (Some v) None = Some (Some v)"
| "combine_ops (Some left) (Some right) = map_option Some (combine_known left right)"

text \<open>The loop of both \<open>combine\<close> methods over a map of operations.\<close>

fun combine_each ::
    "('k \<times> 'a cached_operation) list \<Rightarrow> ('k, 'a cached_operation) btree_map \<Rightarrow>
     ('k, 'a cached_operation) btree_map option" where
  "combine_each [] m = Some m"
| "combine_each ((k, c) # cs) m =
     (case combine_ops (fmlookup m k) (Some c) of
        None \<Rightarrow> None
      | Some None \<Rightarrow> combine_each cs m
      | Some (Some r) \<Rightarrow> combine_each cs (fmupd k r m))"

text \<open>The keys and the values of a map that are not erased.\<close>

definition live_entries :: "('k::linorder, 'a cached_operation) btree_map \<Rightarrow> ('k, 'a) btree_map" where
  "live_entries m = btree_of_list (List.map_filter (\<lambda>(k, c). map_option (Pair k) (op_get c)) (btree_iter m))"

definition live_keys :: "('k::linorder, unit cached_operation) btree_map \<Rightarrow> 'k fset" where
  "live_keys m = fset_of_list (List.map_filter (\<lambda>(k, c). map_option (\<lambda>_. k) (op_get c)) (btree_iter m))"

section \<open>Sources of transactions\<close>

datatype transaction_source = FromChain block_id | FromMempool

instantiation transaction_source :: linorder
begin

fun less_eq_transaction_source :: "transaction_source \<Rightarrow> transaction_source \<Rightarrow> bool" where
  "less_eq_transaction_source (FromChain a) (FromChain b) = (a \<le> b)"
| "less_eq_transaction_source (FromChain _) FromMempool = True"
| "less_eq_transaction_source FromMempool (FromChain _) = False"
| "less_eq_transaction_source FromMempool FromMempool = True"

definition less_transaction_source :: "transaction_source \<Rightarrow> transaction_source \<Rightarrow> bool" where
  "less_transaction_source a b \<longleftrightarrow> a \<le> b \<and> \<not> b \<le> a"

instance
proof
  fix a b c :: transaction_source
  show "(a < b) = (a \<le> b \<and> \<not> b \<le> a)" by (simp add: less_transaction_source_def)
  show "a \<le> a" by (cases a) simp_all
  show "a \<le> b \<Longrightarrow> b \<le> c \<Longrightarrow> a \<le> c" by (cases a; cases b; cases c) simp_all
  show "a \<le> b \<Longrightarrow> b \<le> a \<Longrightarrow> a = b" by (cases a; cases b) simp_all
  show "a \<le> b \<or> b \<le> a" by (cases a; cases b) auto
qed

end

text \<open>The variants of \<open>ConnectTransactionError\<close> the caches raise; \<open>'e\<close> is the error of the storage.\<close>

datatype 'e undo_cache_error =
    AccountingUndo block_undo_error
  | UtxosUndo utxos_block_undo_error
  | MissingBlockUndo transaction_source
  | MissingUtxoTxUndo tx_id
  | UndoFetch 'e

section \<open>The accounting undo data of a block\<close>

record 'u cached_block_undo =
  cb_reward_undos :: "'u block_reward_undo cached_operation option"
  cb_tx_undos :: "(transaction_id, 'u tx_undo cached_operation) btree_map"

definition cb_set_block_reward_undo ::
    "'u block_reward_undo \<Rightarrow> ('u cached_block_undo, block_undo_error, unit) op" where
  "cb_set_block_reward_undo reward_undo =
     bindS (readS (\<lambda>b. ensure (cb_reward_undos b = None) UndoAlreadyExistsForReward)) (\<lambda>_.
     modifyS (\<lambda>b. b\<lparr>cb_reward_undos := Some (Write reward_undo)\<rparr>))"

definition cb_insert_tx_undo ::
    "transaction_id \<Rightarrow> 'u tx_undo \<Rightarrow> ('u cached_block_undo, block_undo_error, unit) op" where
  "cb_insert_tx_undo i tx_undo =
     bindS (readS (\<lambda>b. ensure (fmlookup (cb_tx_undos b) i = None) (UndoAlreadyExists i))) (\<lambda>_.
     modifyS (\<lambda>b. b\<lparr>cb_tx_undos := fmupd i (Write tx_undo) (cb_tx_undos b)\<rparr>))"

definition cached_block_undo_new ::
    "'u block_reward_undo option \<Rightarrow> (transaction_id, 'u tx_undo) btree_map \<Rightarrow>
     block_undo_error + 'u cached_block_undo" where
  "cached_block_undo_new reward_undo undos =
     (case bindS (case reward_undo of None \<Rightarrow> returnS () | Some r \<Rightarrow> cb_set_block_reward_undo r) (\<lambda>_.
           try_for_each (\<lambda>(i, undo). cb_insert_tx_undo i undo) (btree_iter undos))
        \<lparr>cb_reward_undos = None, cb_tx_undos = fmempty\<rparr> of
       (Inl e, _) \<Rightarrow> Err e
     | (Inr _, b) \<Rightarrow> Ok b)"

definition from_block_undo :: "'u block_undo \<Rightarrow> 'u cached_block_undo" where
  "from_block_undo undo =
     (case consume_block_undo undo of (rewards, txs) \<Rightarrow>
       \<lparr>cb_reward_undos = map_option Read rewards, cb_tx_undos = fmmap Read txs\<rparr>)"

definition cb_consume :: "'u cached_block_undo \<Rightarrow> 'u block_undo" where
  "cb_consume b =
     \<lparr>reward_undos = Option.bind (cb_reward_undos b) op_get,
      tx_undos = live_entries (cb_tx_undos b)\<rparr>"

definition cb_is_empty :: "'u cached_block_undo \<Rightarrow> bool" where
  "cb_is_empty b \<longleftrightarrow>
     (case cb_reward_undos b of None \<Rightarrow> True | Some u \<Rightarrow> op_get u = None) \<and>
     list_all (\<lambda>(_, c). op_get c = None) (btree_iter (cb_tx_undos b))"

definition cb_take_block_reward_undo ::
    "'u cached_block_undo \<Rightarrow> 'u block_reward_undo option \<times> 'u cached_block_undo" where
  "cb_take_block_reward_undo b =
     (Option.bind (cb_reward_undos b) op_take, b\<lparr>cb_reward_undos := None\<rparr>)"

definition cb_take_tx_undo ::
    "transaction_id \<Rightarrow> ('u cached_block_undo, block_undo_error, 'u tx_undo option) op" where
  "cb_take_tx_undo i b =
     (case fmlookup (cb_tx_undos b) i of
        None \<Rightarrow> (Ok None, b)
      | Some tx_undo \<Rightarrow>
          (case op_take tx_undo of
             None \<Rightarrow> (Err (MissingTxUndo i), b)
           | Some result \<Rightarrow> (Ok (Some result), b\<lparr>cb_tx_undos := fmupd i Erase (cb_tx_undos b)\<rparr>)))"

definition cb_combine_reward ::
    "'u block_reward_undo cached_operation option \<Rightarrow> ('u cached_block_undo, block_undo_error, unit) op" where
  "cb_combine_reward other b =
     (case (cb_reward_undos b, other) of
        (_, None) \<Rightarrow> (Ok (), b)
      | (None, Some r) \<Rightarrow> (Ok (), b\<lparr>cb_reward_undos := Some r\<rparr>)
      | (Some left, Some right) \<Rightarrow> (ensure (left = right) UndoAlreadyExistsForReward, b))"

definition cb_combine ::
    "'u cached_block_undo \<Rightarrow> ('u cached_block_undo, block_undo_error failure, unit) op" where
  "cb_combine other =
     bindS (map_errS Fail (cb_combine_reward (cb_reward_undos other))) (\<lambda>_.
     bindS (readS (\<lambda>b. ok_or (combine_each (btree_iter (cb_tx_undos other)) (cb_tx_undos b)) Panic)) (\<lambda>m.
     modifyS (\<lambda>b. b\<lparr>cb_tx_undos := m\<rparr>)))"

section \<open>The cache of accounting undo data\<close>

type_synonym 'u accounting_block_undo_cache = "(transaction_source, 'u cached_block_undo cached_operation) btree_map"

text \<open>
  The steps that the methods of both caches share: a change of the undo data of a source, or fresh data if
  the source has none or erased data; the data found for a source; the data left after a part was taken;
  new data on top of what is there.
\<close>

definition add_to_block ::
    "transaction_source \<Rightarrow> ('b, 'f, unit) op \<Rightarrow> 'f + 'b \<Rightarrow>
     ((transaction_source, 'b cached_operation) btree_map, 'f, unit) op" where
  "add_to_block s change fresh data =
     (case Option.bind (fmlookup data s) op_get of
        Some undo \<Rightarrow>
          (case change undo of
             (Inl e, _) \<Rightarrow> (Err e, data)
           | (Inr _, block_undo) \<Rightarrow> (Ok (), fmupd s (Write block_undo) data))
      | None \<Rightarrow>
          (case fresh of
             Inl e \<Rightarrow> (Err e, data)
           | Inr block_undo \<Rightarrow> (Ok (), fmupd s (Write block_undo) data)))"

definition acc_add_reward_undo ::
    "transaction_source \<Rightarrow> 'u block_reward_undo \<Rightarrow>
     ('u accounting_block_undo_cache, 'e undo_cache_error, unit) op" where
  "acc_add_reward_undo s reward_undo =
     map_errS AccountingUndo
       (add_to_block s (cb_set_block_reward_undo reward_undo) (cached_block_undo_new (Some reward_undo) fmempty))"

definition acc_add_tx_undo ::
    "transaction_source \<Rightarrow> transaction_id \<Rightarrow> 'u tx_undo \<Rightarrow>
     ('u accounting_block_undo_cache, 'e undo_cache_error, unit) op" where
  "acc_add_tx_undo s i tx_undo =
     map_errS AccountingUndo
       (add_to_block s (cb_insert_tx_undo i tx_undo) (cached_block_undo_new None (btree_of_list [(i, tx_undo)])))"

definition fetched_undo ::
    "(transaction_source \<Rightarrow> 'e + 'b option) \<Rightarrow> transaction_source \<Rightarrow>
     (transaction_source, 'b cached_operation) btree_map \<Rightarrow> 'e undo_cache_error + 'b option" where
  "fetched_undo fetcher_func s data =
     (case fmlookup data s of
        None \<Rightarrow> map_err UndoFetch (fetcher_func s)
      | Some (Write undo) \<Rightarrow> Ok (Some undo)
      | Some (Read undo) \<Rightarrow> Ok (Some undo)
      | Some Erase \<Rightarrow> Ok None)"

definition store_rest ::
    "('b \<Rightarrow> bool) \<Rightarrow> transaction_source \<Rightarrow> 'b \<Rightarrow>
     (transaction_source, 'b cached_operation) btree_map \<Rightarrow> (transaction_source, 'b cached_operation) btree_map" where
  "store_rest is_empty s block_undo data =
     (if is_empty block_undo then fmupd s Erase data else fmupd s (Write block_undo) data)"

definition acc_take_tx_undo ::
    "(transaction_source \<Rightarrow> 'e + 'u cached_block_undo option) \<Rightarrow> transaction_source \<Rightarrow> transaction_id \<Rightarrow>
     ('u accounting_block_undo_cache, 'e undo_cache_error, 'u tx_undo option) op" where
  "acc_take_tx_undo fetcher_func s i =
     bindS (readS (fetched_undo fetcher_func s)) (\<lambda>found.
     case found of
       None \<Rightarrow> returnS None
     | Some block_undo \<Rightarrow>
         (case cb_take_tx_undo i block_undo of
            (Inl e, _) \<Rightarrow> failS (AccountingUndo e)
          | (Inr None, _) \<Rightarrow> returnS None
          | (Inr (Some res), rest) \<Rightarrow>
              bindS (modifyS (store_rest cb_is_empty s rest)) (\<lambda>_. returnS (Some res))))"

definition acc_take_block_reward_undo ::
    "(transaction_source \<Rightarrow> 'e + 'u cached_block_undo option) \<Rightarrow> transaction_source \<Rightarrow>
     ('u accounting_block_undo_cache, 'e undo_cache_error, 'u block_reward_undo option) op" where
  "acc_take_block_reward_undo fetcher_func s =
     bindS (readS (fetched_undo fetcher_func s)) (\<lambda>found.
     case found of
       None \<Rightarrow> returnS None
     | Some block_undo \<Rightarrow>
         (case cb_take_block_reward_undo block_undo of
            (None, _) \<Rightarrow> returnS None
          | (Some r, rest) \<Rightarrow> bindS (modifyS (store_rest cb_is_empty s rest)) (\<lambda>_. returnS (Some r))))"

definition set_combined ::
    "('b \<Rightarrow> ('b, 'f failure, unit) op) \<Rightarrow> transaction_source \<Rightarrow> 'b \<Rightarrow>
     ((transaction_source, 'b cached_operation) btree_map, 'f failure, unit) op" where
  "set_combined combine s new_undo data =
     (case fmlookup data s of
        None \<Rightarrow> (Ok (), fmupd s (Write new_undo) data)
      | Some (Write undo) \<Rightarrow> (case combine new_undo undo of (r, undo') \<Rightarrow> (r, fmupd s (Write undo') data))
      | Some (Read undo) \<Rightarrow> (case combine new_undo undo of (r, undo') \<Rightarrow> (r, fmupd s (Read undo') data))
      | Some Erase \<Rightarrow> (Ok (), fmupd s (Write new_undo) data))"

definition acc_set_undo_data ::
    "transaction_source \<Rightarrow> 'u cached_block_undo \<Rightarrow> ('u accounting_block_undo_cache, block_undo_error failure, unit) op" where
  "acc_set_undo_data = set_combined cb_combine"

definition acc_del_undo_data ::
    "transaction_source \<Rightarrow> ('u accounting_block_undo_cache, block_undo_error failure, unit) op" where
  "acc_del_undo_data s = modifyS (fmupd s Erase)"

section \<open>The utxo undo data of a block\<close>

record cached_utxos_block_undo =
  cu_reward_undo :: "utxos_block_reward_undo cached_operation option"
  cu_tx_undos :: "(tx_id, utxos_tx_undo cached_operation) btree_map"
  cu_child_parent :: "(tx_id \<times> tx_id, unit cached_operation) btree_map"
  cu_parent_child :: "(tx_id \<times> tx_id, unit cached_operation) btree_map"

definition cu_default :: cached_utxos_block_undo where
  "cu_default = \<lparr>cu_reward_undo = None, cu_tx_undos = fmempty, cu_child_parent = fmempty, cu_parent_child = fmempty\<rparr>"

definition cu_set_block_reward_undo ::
    "utxos_block_reward_undo \<Rightarrow> (cached_utxos_block_undo, utxos_block_undo_error, unit) op" where
  "cu_set_block_reward_undo reward_undo =
     bindS (readS (\<lambda>b. ensure (cu_reward_undo b = None) UtxosUndoAlreadyExistsForReward)) (\<lambda>_.
     modifyS (\<lambda>b. b\<lparr>cu_reward_undo := Some (Write reward_undo)\<rparr>))"

definition cu_mark :: "unit cached_operation \<Rightarrow> tx_id \<times> tx_id \<Rightarrow> cached_utxos_block_undo \<Rightarrow> cached_utxos_block_undo" where
  "cu_mark c = (\<lambda>(child, parent) b.
     b\<lparr>cu_child_parent := fmupd (child, parent) c (cu_child_parent b),
       cu_parent_child := fmupd (parent, child) c (cu_parent_child b)\<rparr>)"

definition cu_insert_tx_undo ::
    "tx_id \<Rightarrow> utxos_tx_undo_with_sources \<Rightarrow> (cached_utxos_block_undo, utxos_block_undo_error, unit) op" where
  "cu_insert_tx_undo i tx_undo =
     bindS (readS (\<lambda>b. ensure (fmlookup (cu_tx_undos b) i = None) (UtxosUndoAlreadyExists i))) (\<lambda>_.
     bindS (modifyS (\<lambda>b. b\<lparr>cu_tx_undos := fmupd i (Write (tu_utxos tx_undo)) (cu_tx_undos b)\<rparr>)) (\<lambda>_.
     modifyS (fold (\<lambda>source. cu_mark (Write ()) (i, source))
       (List.map_filter source_tx_id (tu_sources tx_undo)))))"

definition cached_utxos_block_undo_new ::
    "utxos_block_reward_undo option \<Rightarrow> (tx_id, utxos_tx_undo_with_sources) btree_map \<Rightarrow>
     utxos_block_undo_error + cached_utxos_block_undo" where
  "cached_utxos_block_undo_new reward_undo undos =
     (case bindS (case reward_undo of None \<Rightarrow> returnS () | Some r \<Rightarrow> cu_set_block_reward_undo r) (\<lambda>_.
           try_for_each (\<lambda>(i, undo). cu_insert_tx_undo i undo) (btree_iter undos)) cu_default of
       (Inl e, _) \<Rightarrow> Err e
     | (Inr _, b) \<Rightarrow> Ok b)"

definition from_utxo_block_undo :: "utxos_block_undo \<Rightarrow> cached_utxos_block_undo" where
  "from_utxo_block_undo undo =
     \<lparr>cu_reward_undo = map_option Read (bu_reward_undo undo),
      cu_tx_undos = fmmap Read (bu_tx_undos undo),
      cu_child_parent = btree_of_list (map (\<lambda>d. (d, Read ())) (sorted_list_of_fset (bu_child_parent undo))),
      cu_parent_child = btree_of_list (map (\<lambda>d. (d, Read ())) (sorted_list_of_fset (bu_parent_child undo)))\<rparr>"

definition cu_consume :: "cached_utxos_block_undo \<Rightarrow> utxos_block_undo_error failure + utxos_block_undo" where
  "cu_consume b =
     utxos_block_undo_from_data (Option.bind (cu_reward_undo b) op_get) (live_entries (cu_tx_undos b))
       (live_keys (cu_child_parent b)) (live_keys (cu_parent_child b))"

definition cu_is_empty :: "cached_utxos_block_undo \<Rightarrow> bool" where
  "cu_is_empty b \<longleftrightarrow>
     (case cu_reward_undo b of None \<Rightarrow> True | Some u \<Rightarrow> op_get u = None) \<and>
     list_all (\<lambda>(_, c). op_get c = None) (btree_iter (cu_tx_undos b))"

definition has_children_of :: "tx_id \<Rightarrow> cached_utxos_block_undo \<Rightarrow> bool" where
  "has_children_of i b \<longleftrightarrow>
     list_ex (\<lambda>(_, c). op_get c \<noteq> None) (filter (\<lambda>((parent, _), _). parent = i) (btree_iter (cu_parent_child b)))"

definition get_parents_of :: "tx_id \<Rightarrow> cached_utxos_block_undo \<Rightarrow> (tx_id \<times> tx_id) list" where
  "get_parents_of i b =
     List.map_filter (\<lambda>(d, c). map_option (\<lambda>_. d) (op_get c))
       (filter (\<lambda>((child, _), _). child = i) (btree_iter (cu_child_parent b)))"

definition cu_take_block_reward_undo ::
    "cached_utxos_block_undo \<Rightarrow> utxos_block_reward_undo option \<times> cached_utxos_block_undo" where
  "cu_take_block_reward_undo b =
     (Option.bind (cu_reward_undo b) op_take, b\<lparr>cu_reward_undo := None\<rparr>)"

definition cu_take_tx_undo ::
    "tx_id \<Rightarrow> (cached_utxos_block_undo, utxos_block_undo_error, utxos_tx_undo option) op" where
  "cu_take_tx_undo i b =
     (if has_children_of i b then (Err (TxUndoWithDependency i), b)
      else
        let to_remove = get_parents_of i b;
            b' = fold (cu_mark Erase) to_remove b
        in (Ok (Option.bind (fmlookup (cu_tx_undos b') i) op_take),
            b'\<lparr>cu_tx_undos := fmupd i Erase (cu_tx_undos b')\<rparr>))"

definition cu_combine_reward ::
    "utxos_block_reward_undo cached_operation option \<Rightarrow> (cached_utxos_block_undo, utxos_block_undo_error, unit) op" where
  "cu_combine_reward other b =
     (case (cu_reward_undo b, other) of
        (_, None) \<Rightarrow> (Ok (), b)
      | (None, Some r) \<Rightarrow> (Ok (), b\<lparr>cu_reward_undo := Some r\<rparr>)
      | (Some left, Some right) \<Rightarrow> (ensure (left = right) UtxosUndoAlreadyExistsForReward, b))"

definition cu_combine ::
    "cached_utxos_block_undo \<Rightarrow> (cached_utxos_block_undo, utxos_block_undo_error failure, unit) op" where
  "cu_combine other =
     bindS (map_errS Fail (cu_combine_reward (cu_reward_undo other))) (\<lambda>_.
     bindS (readS (\<lambda>b. ok_or (combine_each (btree_iter (cu_tx_undos other)) (cu_tx_undos b)) Panic)) (\<lambda>txs.
     bindS (modifyS (\<lambda>b. b\<lparr>cu_tx_undos := txs\<rparr>)) (\<lambda>_.
     bindS (readS (\<lambda>b. ok_or (combine_each (btree_iter (cu_child_parent other)) (cu_child_parent b)) Panic)) (\<lambda>cp.
     bindS (modifyS (\<lambda>b. b\<lparr>cu_child_parent := cp\<rparr>)) (\<lambda>_.
     bindS (readS (\<lambda>b. ok_or (combine_each (btree_iter (cu_parent_child other)) (cu_parent_child b)) Panic)) (\<lambda>pc.
     modifyS (\<lambda>b. b\<lparr>cu_parent_child := pc\<rparr>)))))))"

section \<open>The cache of utxo undo data\<close>

type_synonym utxos_block_undo_cache = "(transaction_source, cached_utxos_block_undo cached_operation) btree_map"

definition can_disconnect_transaction ::
    "(transaction_source \<Rightarrow> 'e + cached_utxos_block_undo option) \<Rightarrow> transaction_source \<Rightarrow> tx_id \<Rightarrow>
     utxos_block_undo_cache \<Rightarrow> 'e undo_cache_error + bool" where
  "can_disconnect_transaction fetcher_func s i data =
     and_then (fetched_undo fetcher_func s data) (\<lambda>block_undo.
     Ok (case block_undo of None \<Rightarrow> False | Some undo \<Rightarrow> \<not> has_children_of i undo))"

definition utxo_add_tx_undo ::
    "transaction_source \<Rightarrow> tx_id \<Rightarrow> utxos_tx_undo_with_sources \<Rightarrow>
     (utxos_block_undo_cache, 'e undo_cache_error, unit) op" where
  "utxo_add_tx_undo s i tx_undo =
     map_errS UtxosUndo
       (add_to_block s (cu_insert_tx_undo i tx_undo) (cached_utxos_block_undo_new None (btree_of_list [(i, tx_undo)])))"

definition utxo_add_reward_undo ::
    "transaction_source \<Rightarrow> utxos_block_reward_undo \<Rightarrow> (utxos_block_undo_cache, 'e undo_cache_error, unit) op" where
  "utxo_add_reward_undo s reward_undo =
     map_errS UtxosUndo
       (add_to_block s (cu_set_block_reward_undo reward_undo) (cached_utxos_block_undo_new (Some reward_undo) fmempty))"

definition utxo_take_tx_undo ::
    "(transaction_source \<Rightarrow> 'e + cached_utxos_block_undo option) \<Rightarrow> transaction_source \<Rightarrow> tx_id \<Rightarrow>
     (utxos_block_undo_cache, 'e undo_cache_error failure, utxos_tx_undo) op" where
  "utxo_take_tx_undo fetcher_func s i =
     bindS (readS (\<lambda>data.
       case fmlookup data s of
         None \<Rightarrow> and_then (map_err (Fail \<circ> UndoFetch) (fetcher_func s)) (\<lambda>undo. ok_or undo (Fail (MissingBlockUndo s)))
       | Some (Write undo) \<Rightarrow> Ok undo
       | Some (Read undo) \<Rightarrow> Ok undo
       | Some Erase \<Rightarrow> Err Panic)) (\<lambda>block_undo.
     case cu_take_tx_undo i block_undo of
       (Inl e, _) \<Rightarrow> failS (Fail (UtxosUndo e))
     | (Inr None, _) \<Rightarrow> failS (Fail (MissingUtxoTxUndo i))
     | (Inr (Some res), rest) \<Rightarrow> bindS (modifyS (store_rest cu_is_empty s rest)) (\<lambda>_. returnS res))"

definition utxo_take_block_reward_undo ::
    "(transaction_source \<Rightarrow> 'e + cached_utxos_block_undo option) \<Rightarrow> transaction_source \<Rightarrow>
     (utxos_block_undo_cache, 'e undo_cache_error, utxos_block_reward_undo option) op" where
  "utxo_take_block_reward_undo fetcher_func s =
     bindS (readS (fetched_undo fetcher_func s)) (\<lambda>found.
     case found of
       None \<Rightarrow> returnS None
     | Some block_undo \<Rightarrow>
         (case cu_take_block_reward_undo block_undo of
            (None, _) \<Rightarrow> returnS None
          | (Some r, rest) \<Rightarrow> bindS (modifyS (store_rest cu_is_empty s rest)) (\<lambda>_. returnS (Some r))))"

definition utxo_set_undo_data ::
    "transaction_source \<Rightarrow> cached_utxos_block_undo \<Rightarrow> (utxos_block_undo_cache, utxos_block_undo_error failure, unit) op" where
  "utxo_set_undo_data = set_combined cu_combine"

definition utxo_del_undo_data ::
    "transaction_source \<Rightarrow> (utxos_block_undo_cache, utxos_block_undo_error failure, unit) op" where
  "utxo_del_undo_data s = modifyS (fmupd s Erase)"

section \<open>Layers of verifiers\<close>

text \<open>What a derived verifier reads from its parent, and the flush of its cache into that of the parent.\<close>

definition undo_data_of ::
    "(transaction_source, 'b cached_operation) btree_map \<Rightarrow> (transaction_source \<Rightarrow> 'e + 'b option) \<Rightarrow>
     transaction_source \<Rightarrow> 'e + 'b option" where
  "undo_data_of data storage s =
     (case fmlookup data s of Some c \<Rightarrow> Ok (op_get c) | None \<Rightarrow> storage s)"

definition flush_undo_entry ::
    "(transaction_source \<Rightarrow> 'b \<Rightarrow> ('s, 'f, unit) op) \<Rightarrow> (transaction_source \<Rightarrow> ('s, 'f, unit) op) \<Rightarrow>
     transaction_source \<Rightarrow> 'b cached_operation \<Rightarrow> ('s, 'f, unit) op" where
  "flush_undo_entry set_undo del_undo s c =
     (case c of Write undo \<Rightarrow> set_undo s undo | Read _ \<Rightarrow> returnS () | Erase \<Rightarrow> del_undo s)"

definition flush_utxo_undo ::
    "utxos_block_undo_cache \<Rightarrow> (utxos_block_undo_cache, utxos_block_undo_error failure, unit) op" where
  "flush_utxo_undo consumed =
     try_for_each (\<lambda>(s, c). flush_undo_entry utxo_set_undo_data utxo_del_undo_data s c) (btree_iter consumed)"

definition flush_accounting_undo ::
    "'u accounting_block_undo_cache \<Rightarrow> ('u accounting_block_undo_cache, block_undo_error failure, unit) op" where
  "flush_accounting_undo consumed =
     try_for_each (\<lambda>(s, c). flush_undo_entry acc_set_undo_data acc_del_undo_data s c) (btree_iter consumed)"

section \<open>Undo data that only grows or is erased\<close>

definition op_extends :: "'a cached_operation \<Rightarrow> 'a cached_operation \<Rightarrow> bool" where
  "op_extends a b \<longleftrightarrow> b = a \<or> b = Erase"

definition dependency_extends :: "unit cached_operation \<Rightarrow> unit cached_operation \<Rightarrow> bool" where
  "dependency_extends a b \<longleftrightarrow> b = a \<or> b = Erase \<or> b = Write ()"

definition ops_extend ::
    "('a cached_operation \<Rightarrow> 'a cached_operation \<Rightarrow> bool) \<Rightarrow> ('k, 'a cached_operation) btree_map \<Rightarrow>
     ('k, 'a cached_operation) btree_map \<Rightarrow> bool" where
  "ops_extend R m n \<longleftrightarrow> (\<forall>k c. fmlookup m k = Some c \<longrightarrow> (\<exists>d. fmlookup n k = Some d \<and> R c d))"

definition cb_extends :: "'u cached_block_undo \<Rightarrow> 'u cached_block_undo \<Rightarrow> bool" where
  "cb_extends a b \<longleftrightarrow>
     (cb_reward_undos a = None \<or> cb_reward_undos b = cb_reward_undos a) \<and>
     ops_extend op_extends (cb_tx_undos a) (cb_tx_undos b)"

definition cu_extends :: "cached_utxos_block_undo \<Rightarrow> cached_utxos_block_undo \<Rightarrow> bool" where
  "cu_extends a b \<longleftrightarrow>
     (cu_reward_undo a = None \<or> cu_reward_undo b = cu_reward_undo a) \<and>
     ops_extend op_extends (cu_tx_undos a) (cu_tx_undos b) \<and>
     ops_extend dependency_extends (cu_child_parent a) (cu_child_parent b) \<and>
     ops_extend dependency_extends (cu_parent_child a) (cu_parent_child b)"

lemma extends_basic [simp]:
  "op_extends c c" "op_extends c Erase" "dependency_extends d d" "dependency_extends d Erase"
  "dependency_extends d (Write ())"
  by (simp_all add: op_extends_def dependency_extends_def)

lemma ops_extend_refl: "(\<And>c. R c c) \<Longrightarrow> ops_extend R m m"
  by (simp add: ops_extend_def)

lemma ops_extend_trans: "transp R \<Longrightarrow> ops_extend R l m \<Longrightarrow> ops_extend R m n \<Longrightarrow> ops_extend R l n"
  unfolding ops_extend_def transp_def by metis

lemma extends_transp: "transp op_extends" "transp dependency_extends"
  by (auto simp: transp_def op_extends_def dependency_extends_def)

lemma ops_extend_upd:
  "ops_extend R m n \<Longrightarrow> (\<And>c. fmlookup m k = Some c \<Longrightarrow> R c d) \<Longrightarrow> ops_extend R m (fmupd k d n)"
  by (auto simp: ops_extend_def)

lemma combine_ops_extends:
  "op_extends c d \<Longrightarrow> combine_ops (Some c) (Some d) = Some (Some d)"
  "dependency_extends x y \<Longrightarrow> combine_ops (Some x) (Some y) = Some (Some y)"
  by (cases c; auto simp: op_extends_def) (cases x; auto simp: dependency_extends_def)

lemma combine_each_lookup:
  assumes "distinct (map fst cs)"
    and "\<And>k c. (k, c) \<in> set cs \<Longrightarrow> combine_ops (fmlookup m k) (Some c) = Some (Some c)"
  shows "\<exists>n. combine_each cs m = Some n \<and>
    (\<forall>k. fmlookup n k = (case map_of cs k of None \<Rightarrow> fmlookup m k | Some c \<Rightarrow> Some c))"
  using assms
proof (induction cs arbitrary: m)
  case (Cons p cs)
  obtain k c where p: "p = (k, c)" by (cases p)
  have "combine_ops (fmlookup (fmupd k c m) j) (Some d) = Some (Some d)" if "(j, d) \<in> set cs" for j d
    using that Cons.prems p by (cases "j = k") force+
  moreover have "distinct (map fst cs)" and "k \<notin> fst ` set cs" using Cons.prems(1) p by auto
  ultimately obtain n where n: "combine_each cs (fmupd k c m) = Some n"
      "\<forall>j. fmlookup n j = (case map_of cs j of None \<Rightarrow> fmlookup (fmupd k c m) j | Some c \<Rightarrow> Some c)"
    using Cons.IH [of "fmupd k c m"] by blast
  have "fmlookup n k = Some c"
    using n(2) \<open>k \<notin> fst ` set cs\<close> by (simp add: map_of_eq_None_iff [THEN iffD2])
  with n Cons.prems(2) [of k c] p show ?case by (auto split: option.split)
qed simp

lemma combine_each_extends:
  assumes "ops_extend R m n" and "\<And>c d. R c d \<Longrightarrow> combine_ops (Some c) (Some d) = Some (Some d)"
  shows "combine_each (btree_iter n) m = Some n"
proof -
  have "combine_ops (fmlookup m k) (Some c) = Some (Some c)" if "(k, c) \<in> set (btree_iter n)" for k c
  proof (cases "fmlookup m k")
    case (Some d)
    with assms(1) that have "R d c" by (fastforce simp: ops_extend_def btree_iter_set)
    with Some show ?thesis by (simp only: assms(2))
  qed simp
  from combine_each_lookup [OF btree_iter_distinct this]
  obtain r where r: "combine_each (btree_iter n) m = Some r"
      "\<forall>k. fmlookup r k = (case fmlookup n k of None \<Rightarrow> fmlookup m k | Some c \<Rightarrow> Some c)" by auto
  have "fmlookup r k = fmlookup n k" for k
    using r(2) assms(1) by (auto simp: ops_extend_def split: option.splits) (metis not_Some_eq)
  then have "r = n" by (intro fmap_ext) simp
  with r show ?thesis by simp
qed

lemmas combine_each_ops = combine_each_extends [OF _ combine_ops_extends(1)]
  combine_each_extends [OF _ combine_ops_extends(2)]

lemma cb_combine_extends: "cb_extends a b \<Longrightarrow> cb_combine b a = (Inr (), b)"
  by (auto simp: cb_combine_def cb_combine_reward_def cb_extends_def op_simps bindS_def map_errS_def readS_def
      modifyS_def map_err_def ok_or_def ensure_def combine_each_ops split: option.splits)

lemma cu_combine_extends: "cu_extends a b \<Longrightarrow> cu_combine b a = (Inr (), b)"
  by (auto simp: cu_combine_def cu_combine_reward_def cu_extends_def op_simps bindS_def map_errS_def readS_def
      modifyS_def map_err_def ok_or_def ensure_def combine_each_ops split: option.splits)

section \<open>Layers of undo caches\<close>

type_synonym 'b undo_layer = "(transaction_source, 'b cached_operation) btree_map"

definition own_undo :: "'b undo_layer \<Rightarrow> transaction_source \<Rightarrow> 'b option" where
  "own_undo data s = Option.bind (fmlookup data s) op_get"

text \<open>
  The states of a derived verifier's cache: it starts empty and each call that is allowed in its state
  leads to the next one, whether the call succeeds or not.
\<close>

inductive layer_reaches :: "('c \<Rightarrow> 'b undo_layer \<Rightarrow> bool) \<Rightarrow> ('c \<Rightarrow> ('b undo_layer, 'f, unit) op) \<Rightarrow> 'b undo_layer \<Rightarrow> bool"
  for allowed run where
  start: "layer_reaches allowed run fmempty"
| call: "layer_reaches allowed run c \<Longrightarrow> allowed x c \<Longrightarrow> run x c = (r, c') \<Longrightarrow> layer_reaches allowed run c'"

definition erase_undo :: "transaction_source \<Rightarrow> ('b undo_layer, 'f, unit) op" where
  "erase_undo s = modifyS (fmupd s Erase)"

definition merged_entry ::
    "('b \<Rightarrow> ('b, 'f failure, unit) op) \<Rightarrow> 'b cached_operation option \<Rightarrow> 'b cached_operation \<Rightarrow>
     'b cached_operation option option" where
  "merged_entry merge v c =
     (case c of
        Read _ \<Rightarrow> Some v
      | Erase \<Rightarrow> Some (Some Erase)
      | Write b \<Rightarrow>
          (case v of
             Some (Write a) \<Rightarrow> (case merge b a of (Inr _, a') \<Rightarrow> Some (Some (Write a')) | (Inl _, _) \<Rightarrow> None)
           | Some (Read a) \<Rightarrow> (case merge b a of (Inr _, a') \<Rightarrow> Some (Some (Read a')) | (Inl _, _) \<Rightarrow> None)
           | _ \<Rightarrow> Some (Some (Write b))))"


interpretation flush_undo: keyed_progress
  "\<lambda>s c. flush_undo_entry (set_combined merge) erase_undo s c" fmlookup "\<lambda>_. merged_entry merge" "\<lambda>_ _ _. ()"
  for merge :: "'b \<Rightarrow> ('b, 'f failure, unit) op"
proof
  fix s c and p t :: "'b undo_layer" and y
  assume "flush_undo_entry (set_combined merge) erase_undo s c p = (Inr y, t)"
  then show "merged_entry merge (fmlookup p s) c = Some (fmlookup t s) \<and>
      (\<forall>j. j \<noteq> s \<longrightarrow> fmlookup t j = fmlookup p j) \<and> y = ()"
    by (auto simp: flush_undo_entry_def set_combined_def erase_undo_def merged_entry_def returnS_def modifyS_def
        split: cached_operation.splits option.splits prod.splits sum.splits)
next
  fix s c and p :: "'b undo_layer" and v
  assume "merged_entry merge (fmlookup p s) c = Some v"
  then show "\<exists>y t. flush_undo_entry (set_combined merge) erase_undo s c p = (Inr y, t)"
    by (auto simp: flush_undo_entry_def set_combined_def erase_undo_def merged_entry_def returnS_def modifyS_def
        split: cached_operation.splits option.splits prod.splits sum.splits)
qed

section \<open>A flushed layer reads as before\<close>

text \<open>
  What the calls on a cache promise: a call leaves the cache, erases the undo data of its source, extends
  the data it found, or starts new data; merging extended data gives the extended data.
\<close>

locale layered_undo =
  fixes run :: "(transaction_source \<Rightarrow> 'e + 'b option) \<Rightarrow> 'c \<Rightarrow> ('b undo_layer, 'f, unit) op"
    and source :: "'c \<Rightarrow> transaction_source"
    and adds :: "'c \<Rightarrow> bool"
    and keeps :: "(transaction_source \<Rightarrow> 'e + 'b option) \<Rightarrow> 'c \<Rightarrow> 'b undo_layer \<Rightarrow> bool"
    and extends :: "'b \<Rightarrow> 'b \<Rightarrow> bool"
    and merge :: "'b \<Rightarrow> ('b, 'g failure, unit) op"
  assumes extends_refl: "extends a a"
    and extends_trans: "extends a b \<Longrightarrow> extends b d \<Longrightarrow> extends a d"
    and merge_extends: "extends a b \<Longrightarrow> merge b a = (Inr (), b)"
    and run_cases: "run fetch x c = (r, c') \<Longrightarrow> keeps fetch x c \<Longrightarrow>
      c' = c \<or> c' = fmupd (source x) Erase c \<or>
      (\<exists>a b. undo_data_of c fetch (source x) = Inr (Some a) \<and> extends a b \<and> c' = fmupd (source x) (Write b) c) \<or>
      adds x \<and> own_undo c (source x) = None \<and> (\<exists>b. c' = fmupd (source x) (Write b) c)"
begin

definition fits :: "'b undo_layer \<Rightarrow> 'b undo_layer \<Rightarrow> bool" where
  "fits p c \<longleftrightarrow> (\<forall>s d. fmlookup c s = Some d \<longrightarrow> d = Erase \<or>
     (\<exists>b. d = Write b \<and> (\<forall>a. own_undo p s = Some a \<longrightarrow> extends a b)))"

lemma fits_call:
  assumes "fits p c" and "run (undo_data_of p fetch) x c = (r, c')" and "keeps (undo_data_of p fetch) x c"
    and start: "adds x \<Longrightarrow> own_undo c (source x) \<noteq> None \<or> own_undo p (source x) = None"
  shows "fits p c'"
proof -
  have put: "fits p (fmupd (source x) d c)"
    if "d = Erase \<or> (\<exists>b. d = Write b \<and> (\<forall>a. own_undo p (source x) = Some a \<longrightarrow> extends a b))" for d
    using assms(1) that by (auto simp: fits_def)
  have ext: "extends a0 b" if "undo_data_of c (undo_data_of p fetch) (source x) = Inr (Some a)" and "extends a b"
    and "own_undo p (source x) = Some a0" for a b a0
  proof (cases "fmlookup c (source x)")
    case None
    with that have "a0 = a" by (auto simp: undo_data_of_def own_undo_def split: option.splits)
    with that show ?thesis by simp
  next
    case (Some d)
    with that(1) assms(1) have "d = Write a" and "extends a0 a"
      using that(3) by (fastforce simp: undo_data_of_def fits_def)+
    with that show ?thesis using extends_trans by blast
  qed
  from run_cases [OF assms(2,3)] show ?thesis
    using assms(1) put ext start by (elim disjE exE conjE) auto
qed

lemma reaches_fits:
  assumes "layer_reaches (\<lambda>x c. (adds x \<longrightarrow> own_undo c (source x) \<noteq> None \<or> own_undo p (source x) = None) \<and>
      keeps (undo_data_of p fetch) x c) (run (undo_data_of p fetch)) c"
  shows "fits p c"
  using assms
proof (induction rule: layer_reaches.induct)
  case start
  then show ?case by (simp add: fits_def)
next
  case (call c x r c')
  then show ?case using fits_call [of p c fetch x r c'] by blast
qed

lemma merged_fits:
  assumes "fits p c" and "fmlookup c s = Some d"
  shows "\<exists>v. merged_entry merge (fmlookup p s) d = Some (Some v) \<and> op_get v = op_get d"
proof (cases "d = Erase")
  case True
  then show ?thesis by (simp add: merged_entry_def)
next
  case False
  with assms obtain b where b: "d = Write b" "\<forall>a. own_undo p s = Some a \<longrightarrow> extends a b"
    unfolding fits_def by blast
  show ?thesis
  proof (cases "fmlookup p s")
    case (Some e)
    with b merge_extends show ?thesis
      by (cases e) (simp_all add: merged_entry_def own_undo_def)
  qed (simp add: b merged_entry_def)
qed

lemma flush_reads_as_layer:
  assumes "fits p c"
  shows "\<exists>p'. try_for_each (\<lambda>(s, d). flush_undo_entry (set_combined merge) erase_undo s d) (btree_iter c) p = (Inr (), p') \<and>
    undo_data_of p' fetch = undo_data_of c (undo_data_of p fetch)"
proof -
  note ok = merged_fits [OF assms]
  then obtain p' where p': "mapS (\<lambda>(s, d). flush_undo_entry (set_combined merge) erase_undo s d) (btree_iter c) p =
      (Inr (map (\<lambda>(k, x). ()) (btree_iter c)), p')"
    using flush_undo.iter_progress [of c merge p] by blast
  note look = flush_undo.mapS_ok [OF p' btree_iter_distinct, THEN conjunct2, rule_format]
  have "undo_data_of p' fetch s = undo_data_of c (undo_data_of p fetch) s" for s
  proof (cases "fmlookup c s")
    case None
    then have "s \<notin> fst ` set (btree_iter c)" by (force simp: btree_iter_set)
    with look [of s] None show ?thesis by (simp add: undo_data_of_def)
  next
    case (Some d)
    then have "merged_entry merge (fmlookup p s) d = Some (fmlookup p' s)"
      using look [of s] by (simp add: btree_iter_set)
    with ok [OF Some] Some show ?thesis by (auto simp: undo_data_of_def)
  qed
  with p' show ?thesis by (auto simp: try_for_each_Inr)
qed

lemmas derived_layer_flushes = reaches_fits [THEN flush_reads_as_layer]

end

section \<open>Calls on the caches\<close>

datatype ('u, 'r) undo_call =
    AddTxUndo transaction_source tx_id 'u
  | AddRewardUndo transaction_source 'r
  | TakeTxUndo transaction_source tx_id
  | TakeRewardUndo transaction_source

fun call_source :: "('u, 'r) undo_call \<Rightarrow> transaction_source" where
  "call_source (AddTxUndo s _ _) = s"
| "call_source (AddRewardUndo s _) = s"
| "call_source (TakeTxUndo s _) = s"
| "call_source (TakeRewardUndo s) = s"

fun call_adds :: "('u, 'r) undo_call \<Rightarrow> bool" where
  "call_adds (AddTxUndo _ _ _) = True"
| "call_adds (AddRewardUndo _ _) = True"
| "call_adds (TakeTxUndo _ _) = False"
| "call_adds (TakeRewardUndo _) = False"

fun utxo_undo_run ::
    "(transaction_source \<Rightarrow> 'e + cached_utxos_block_undo option) \<Rightarrow>
     (utxos_tx_undo_with_sources, utxos_block_reward_undo) undo_call \<Rightarrow>
     (utxos_block_undo_cache, 'e undo_cache_error failure, unit) op" where
  "utxo_undo_run fetch (AddTxUndo s i u) = map_errS Fail (utxo_add_tx_undo s i u)"
| "utxo_undo_run fetch (AddRewardUndo s r) = map_errS Fail (utxo_add_reward_undo s r)"
| "utxo_undo_run fetch (TakeTxUndo s i) = bindS (utxo_take_tx_undo fetch s i) (\<lambda>_. returnS ())"
| "utxo_undo_run fetch (TakeRewardUndo s) = bindS (map_errS Fail (utxo_take_block_reward_undo fetch s)) (\<lambda>_. returnS ())"

fun acc_undo_run ::
    "(transaction_source \<Rightarrow> 'e + 'u cached_block_undo option) \<Rightarrow>
     ('u tx_undo, 'u block_reward_undo) undo_call \<Rightarrow>
     ('u accounting_block_undo_cache, 'e undo_cache_error, unit) op" where
  "acc_undo_run fetch (AddTxUndo s i u) = acc_add_tx_undo s i u"
| "acc_undo_run fetch (AddRewardUndo s r) = acc_add_reward_undo s r"
| "acc_undo_run fetch (TakeTxUndo s i) = bindS (acc_take_tx_undo fetch s i) (\<lambda>_. returnS ())"
| "acc_undo_run fetch (TakeRewardUndo s) = bindS (acc_take_block_reward_undo fetch s) (\<lambda>_. returnS ())"

text \<open>Taking the reward undo of a block leaves nothing of its undo data.\<close>

definition reward_taken_last ::
    "('b \<Rightarrow> 'r option \<times> 'b) \<Rightarrow> ('b \<Rightarrow> bool) \<Rightarrow> (transaction_source \<Rightarrow> 'e + 'b option) \<Rightarrow>
     ('u, 'r) undo_call \<Rightarrow> 'b undo_layer \<Rightarrow> bool" where
  "reward_taken_last take_reward is_empty fetch x c =
     (case x of
        TakeRewardUndo s \<Rightarrow>
          (case undo_data_of c fetch s of
             Inr (Some b) \<Rightarrow> (case take_reward b of (r, rest) \<Rightarrow> r = None \<or> is_empty rest)
           | _ \<Rightarrow> True)
      | _ \<Rightarrow> True)"

text \<open>
  A derived verifier adds undo data for a source only if it already holds undo data for it or its parent
  holds none.
\<close>

definition adds_in_place :: "'b undo_layer \<Rightarrow> ('u, 'r) undo_call \<Rightarrow> 'b undo_layer \<Rightarrow> bool" where
  "adds_in_place p x c \<longleftrightarrow>
     (call_adds x \<longrightarrow> own_undo c (call_source x) \<noteq> None \<or> own_undo p (call_source x) = None)"

section \<open>Both caches are layers\<close>

lemma cb_extends_refl: "cb_extends a a"
  by (simp add: cb_extends_def ops_extend_refl)

lemma cu_extends_refl: "cu_extends a a"
  by (simp add: cu_extends_def ops_extend_refl)

lemma cb_extends_trans: "cb_extends a b \<Longrightarrow> cb_extends b d \<Longrightarrow> cb_extends a d"
  by (auto simp: cb_extends_def intro: ops_extend_trans [OF extends_transp(1)])

lemma cu_extends_trans: "cu_extends a b \<Longrightarrow> cu_extends b d \<Longrightarrow> cu_extends a d"
  by (auto simp: cu_extends_def intro: ops_extend_trans [OF extends_transp(1)] ops_extend_trans [OF extends_transp(2)])

lemma cu_mark_extends: "c = Write () \<or> c = Erase \<Longrightarrow> cu_extends a b \<Longrightarrow> cu_extends a (cu_mark c d b)"
  by (cases d) (auto simp: cu_mark_def cu_extends_def intro!: ops_extend_upd)

lemma cu_marks_extend:
  "c = Write () \<or> c = Erase \<Longrightarrow> cu_extends a b \<Longrightarrow> cu_extends a (fold (\<lambda>x. cu_mark c (f x)) xs b)"
  by (induction xs arbitrary: b) (auto intro: cu_mark_extends)

lemma set_reward_extends:
  "cb_set_block_reward_undo r a = (Inr u, b) \<Longrightarrow> cb_extends a b"
  "cu_set_block_reward_undo q c = (Inr u, d) \<Longrightarrow> cu_extends c d"
  by (auto simp: cb_set_block_reward_undo_def cu_set_block_reward_undo_def op_simps result_simps cb_extends_def
      cu_extends_def ops_extend_refl)

lemma insert_tx_extends:
  "cb_insert_tx_undo i v a = (Inr u, b) \<Longrightarrow> cb_extends a b"
  "cu_insert_tx_undo i w c = (Inr u, d) \<Longrightarrow> cu_extends c d"
proof -
  show "cb_extends a b" if "cb_insert_tx_undo i v a = (Inr u, b)"
    using that by (auto simp: cb_insert_tx_undo_def op_simps result_simps cb_extends_def intro!: ops_extend_upd ops_extend_refl)
  assume ins: "cu_insert_tx_undo i w c = (Inr u, d)"
  then have "cu_extends c (c\<lparr>cu_tx_undos := fmupd i (Write (tu_utxos w)) (cu_tx_undos c)\<rparr>)"
    by (auto simp: cu_insert_tx_undo_def op_simps result_simps cu_extends_def ops_extend_refl intro!: ops_extend_upd)
  then show "cu_extends c d"
    using ins by (auto simp: cu_insert_tx_undo_def op_simps result_simps intro!: cu_marks_extend)
qed

lemma take_tx_extends:
  "cb_take_tx_undo i a = (r, b) \<Longrightarrow> cb_extends a b"
  "cu_take_tx_undo i c = (q, d) \<Longrightarrow> cu_extends c d"
proof -
  show "cb_extends a b" if "cb_take_tx_undo i a = (r, b)"
    using that by (auto simp: cb_take_tx_undo_def cb_extends_def ops_extend_refl split: option.splits
        intro!: ops_extend_upd)
  assume t: "cu_take_tx_undo i c = (q, d)"
  have "cu_extends c (fold (cu_mark Erase) (get_parents_of i c) c)"
    using cu_marks_extend [of Erase c c "\<lambda>x. x" "get_parents_of i c"] by (simp add: cu_extends_refl)
  with t show "cu_extends c d"
    by (auto simp: cu_take_tx_undo_def Let_def cu_extends_refl split: if_splits)
      (auto simp: cu_extends_def intro!: ops_extend_upd)
qed

lemma add_to_block_cases:
  assumes "add_to_block s change fresh c = (r, c')" and "\<And>a u b. change a = (Inr u, b) \<Longrightarrow> extends a b"
  shows "c' = c \<or> (\<exists>a b. undo_data_of c fetch s = Inr (Some a) \<and> extends a b \<and> c' = fmupd s (Write b) c) \<or>
    own_undo c s = None \<and> (\<exists>b. c' = fmupd s (Write b) c)"
  using assms
  by (auto simp: add_to_block_def undo_data_of_def own_undo_def split: option.splits prod.splits sum.splits) blast

lemma fetched_undo_data:
  "fetched_undo fetch s c = map_err UndoFetch (undo_data_of c fetch s)"
  by (auto simp: fetched_undo_def undo_data_of_def map_err_def split: option.splits cached_operation.splits)

lemma take_cases:
  assumes "c' = c \<or> (\<exists>a b. undo_data_of c fetch s = Inr (Some a) \<and> extends a b \<and> c' = store_rest e s b c)"
  shows "c' = c \<or> c' = fmupd s Erase c \<or>
    (\<exists>a b. undo_data_of c fetch s = Inr (Some a) \<and> extends a b \<and> c' = fmupd s (Write b) c)"
  using assms by (auto simp: store_rest_def split: if_splits)

lemma map_errS_state: "map_errS h m c = (r, c') \<Longrightarrow> \<exists>q. m c = (q, c')"
  by (auto simp: map_errS_def split: prod.splits)

lemma and_return_state: "bindS m (\<lambda>_. returnS ()) c = (r, c') \<Longrightarrow> \<exists>q. m c = (q, c')"
  by (auto simp: bindS_def returnS_def split: prod.splits sum.splits)

lemma acc_take_tx_state:
  assumes "acc_take_tx_undo fetch s i c = (r, c')"
  shows "c' = c \<or> (\<exists>a b. undo_data_of c fetch s = Inr (Some a) \<and> cb_extends a b \<and> c' = store_rest cb_is_empty s b c)"
  using assms
  by (auto simp: acc_take_tx_undo_def bindS_def readS_def returnS_def failS_def modifyS_def fetched_undo_data map_err_def
      dest: take_tx_extends split: option.splits prod.splits sum.splits)

lemma acc_take_reward_state:
  assumes "acc_take_block_reward_undo fetch s c = (r, c')"
    and "reward_taken_last cb_take_block_reward_undo cb_is_empty fetch (TakeRewardUndo s) c"
  shows "c' = c \<or> c' = fmupd s Erase c"
  using assms
  by (auto simp: acc_take_block_reward_undo_def reward_taken_last_def bindS_def readS_def returnS_def failS_def
      modifyS_def fetched_undo_data map_err_def store_rest_def split: option.splits prod.splits sum.splits)

lemma utxo_take_tx_state:
  assumes "utxo_take_tx_undo fetch s i c = (r, c')"
  shows "c' = c \<or> (\<exists>a b. undo_data_of c fetch s = Inr (Some a) \<and> cu_extends a b \<and> c' = store_rest cu_is_empty s b c)"
proof -
  define found where "found = (case fmlookup c s of
         None \<Rightarrow> and_then (map_err (Fail \<circ> UndoFetch) (fetch s)) (\<lambda>undo. ok_or undo (Fail (MissingBlockUndo s)))
       | Some (Write undo) \<Rightarrow> Inr undo | Some (Read undo) \<Rightarrow> Inr undo | Some Erase \<Rightarrow> Inl Panic)"
  have "undo_data_of c fetch s = Inr (Some a)" if "found = Inr a" for a
    using that by (auto simp: found_def undo_data_of_def and_then_def map_err_def ok_or_def
        split: option.splits cached_operation.splits sum.splits)
  with assms show ?thesis
    unfolding utxo_take_tx_undo_def bindS_def readS_def found_def [symmetric]
    by (auto simp: returnS_def failS_def modifyS_def bindS_def
      dest: take_tx_extends split: option.splits prod.splits sum.splits)
qed

lemma utxo_take_reward_state:
  assumes "utxo_take_block_reward_undo fetch s c = (r, c')"
    and "reward_taken_last cu_take_block_reward_undo cu_is_empty fetch (TakeRewardUndo s) c"
  shows "c' = c \<or> c' = fmupd s Erase c"
  using assms
  by (auto simp: utxo_take_block_reward_undo_def reward_taken_last_def bindS_def readS_def returnS_def failS_def
      modifyS_def fetched_undo_data map_err_def store_rest_def split: option.splits prod.splits sum.splits)

lemma acc_undo_run_cases:
  assumes "acc_undo_run fetch x c = (r, c')" and "reward_taken_last cb_take_block_reward_undo cb_is_empty fetch x c"
  shows "c' = c \<or> c' = fmupd (call_source x) Erase c \<or>
      (\<exists>a b. undo_data_of c fetch (call_source x) = Inr (Some a) \<and> cb_extends a b \<and>
        c' = fmupd (call_source x) (Write b) c) \<or>
      call_adds x \<and> own_undo c (call_source x) = None \<and> (\<exists>b. c' = fmupd (call_source x) (Write b) c)"
proof (cases x)
  case (AddTxUndo s i u)
  with assms(1) show ?thesis
    using add_to_block_cases [where extends = cb_extends and fetch = fetch, OF _ insert_tx_extends(1)]
    by (fastforce simp: acc_add_tx_undo_def dest: map_errS_state)
next
  case (AddRewardUndo s u)
  with assms(1) show ?thesis
    using add_to_block_cases [where extends = cb_extends and fetch = fetch, OF _ set_reward_extends(1)]
    by (fastforce simp: acc_add_reward_undo_def dest: map_errS_state)
next
  case (TakeTxUndo s i)
  with assms(1) obtain q where "acc_take_tx_undo fetch s i c = (q, c')" by (auto dest: and_return_state)
  from take_cases [OF acc_take_tx_state [OF this]] TakeTxUndo show ?thesis by auto
next
  case (TakeRewardUndo s)
  with assms(1) obtain q where "acc_take_block_reward_undo fetch s c = (q, c')" by (auto dest: and_return_state)
  from acc_take_reward_state [OF this] assms(2) TakeRewardUndo show ?thesis by auto
qed

lemma utxo_undo_run_cases:
  assumes "utxo_undo_run fetch x c = (r, c')" and "reward_taken_last cu_take_block_reward_undo cu_is_empty fetch x c"
  shows "c' = c \<or> c' = fmupd (call_source x) Erase c \<or>
      (\<exists>a b. undo_data_of c fetch (call_source x) = Inr (Some a) \<and> cu_extends a b \<and>
        c' = fmupd (call_source x) (Write b) c) \<or>
      call_adds x \<and> own_undo c (call_source x) = None \<and> (\<exists>b. c' = fmupd (call_source x) (Write b) c)"
proof (cases x)
  case (AddTxUndo s i u)
  with assms(1) show ?thesis
    using add_to_block_cases [where extends = cu_extends and fetch = fetch, OF _ insert_tx_extends(2)]
    by (fastforce simp: utxo_add_tx_undo_def dest!: map_errS_state)
next
  case (AddRewardUndo s u)
  with assms(1) show ?thesis
    using add_to_block_cases [where extends = cu_extends and fetch = fetch, OF _ set_reward_extends(2)]
    by (fastforce simp: utxo_add_reward_undo_def dest!: map_errS_state)
next
  case (TakeTxUndo s i)
  with assms(1) obtain q where "utxo_take_tx_undo fetch s i c = (q, c')" by (auto dest: and_return_state)
  from take_cases [OF utxo_take_tx_state [OF this]] TakeTxUndo show ?thesis by auto
next
  case (TakeRewardUndo s)
  with assms(1) obtain q where "utxo_take_block_reward_undo fetch s c = (q, c')"
    by (auto dest!: and_return_state map_errS_state)
  from utxo_take_reward_state [OF this] assms(2) TakeRewardUndo show ?thesis by auto
qed

interpretation utxo_layer: layered_undo utxo_undo_run call_source call_adds
  "reward_taken_last cu_take_block_reward_undo cu_is_empty" cu_extends cu_combine
  by unfold_locales (fact cu_extends_refl, fact cu_extends_trans, fact cu_combine_extends, fact utxo_undo_run_cases)

interpretation acc_layer: layered_undo acc_undo_run call_source call_adds
  "reward_taken_last cb_take_block_reward_undo cb_is_empty" cb_extends cb_combine
  by unfold_locales (fact cb_extends_refl, fact cb_extends_trans, fact cb_combine_extends, fact acc_undo_run_cases)

section \<open>The live content of undo data\<close>

lemma set_map_filter_iff: "y \<in> set (List.map_filter f xs) \<longleftrightarrow> (\<exists>x\<in>set xs. f x = Some y)"
  by (induction xs) (auto simp: map_filter_simps split: option.splits)

lemma map_of_map_filter:
  "distinct (map fst xs) \<Longrightarrow>
     map_of (List.map_filter (\<lambda>(k, c). map_option (Pair k) (f c)) xs) k = Option.bind (map_of xs k) f"
proof (induction xs)
  case (Cons p xs)
  obtain j c where p: "p = (j, c)" by (cases p)
  have "map_of xs k = None" if "j = k" using Cons.prems p that by (auto simp: map_of_eq_None_iff)
  with Cons p show ?case by (cases "f c") (auto simp: map_filter_simps)
qed (simp add: map_filter_simps)

lemma map_filter_keys:
  "distinct (map fst xs) \<Longrightarrow> distinct (map fst (List.map_filter (\<lambda>(k, c). map_option (Pair k) (f c)) xs))"
proof (induction xs)
  case (Cons p xs)
  obtain j c where p: "p = (j, c)" by (cases p)
  have "fst ` set (List.map_filter (\<lambda>(k, c). map_option (Pair k) (f c)) xs) \<subseteq> fst ` set xs"
    by (auto simp: set_map_filter_iff) force
  with Cons p show ?case by (cases "f c") (auto simp: map_filter_simps)
qed (simp add: map_filter_simps)

lemma live_entries_lookup [simp]: "fmlookup (live_entries m) k = Option.bind (fmlookup m k) op_get"
  by (simp add: live_entries_def btree_of_list_lookup map_filter_keys map_of_map_filter)

lemma live_entries_eqI:
  "(\<And>k. Option.bind (fmlookup m k) op_get = fmlookup n k) \<Longrightarrow> live_entries m = n"
  by (rule fmap_ext) simp

lemma live_entries_simps [simp]:
  "live_entries (fmupd k (Write v) m) = fmupd k v (live_entries m)"
  "live_entries (fmupd k Erase m) = fmdrop k (live_entries m)"
  by (rule live_entries_eqI; simp)+

lemma live_entries_read [simp]: "live_entries (fmmap Read n) = n"
proof (rule live_entries_eqI)
  show "Option.bind (fmlookup (fmmap Read n) k) op_get = fmlookup n k" for k by (cases "fmlookup n k") simp_all
qed

lemma op_take_is_get [simp]: "op_take = op_get"
proof
  show "op_take c = op_get c" for c by (cases c) simp_all
qed

lemma live_keys_iff [simp]: "k |\<in>| live_keys m \<longleftrightarrow> Option.bind (fmlookup m k) op_get \<noteq> None"
proof -
  have "k |\<in>| live_keys m \<longleftrightarrow> (\<exists>c. fmlookup m k = Some c \<and> op_get c \<noteq> None)"
    by (auto simp: live_keys_def fset_of_list_elem set_map_filter_iff btree_iter_set intro!: bexI [of _ "(k, _)"])
  then show ?thesis by (cases "fmlookup m k") auto
qed

lemma cu_is_empty_iff:
  "cu_is_empty b \<longleftrightarrow> Option.bind (cu_reward_undo b) op_get = None \<and> live_entries (cu_tx_undos b) = fmempty"
proof -
  have "list_all (\<lambda>(_, c). op_get c = None) (btree_iter (cu_tx_undos b)) \<longleftrightarrow> live_entries (cu_tx_undos b) = fmempty"
    (is "?L \<longleftrightarrow> ?R")
  proof
    assume L: ?L
    have "fmlookup (live_entries (cu_tx_undos b)) k = None" for k
      using L by (cases "fmlookup (cu_tx_undos b) k") (auto simp: list_all_iff btree_iter_set)
    then show ?R by (intro fmap_ext) simp
  next
    assume ?R
    then have "Option.bind (fmlookup (cu_tx_undos b) k) op_get = None" for k
      by (metis fmempty_lookup live_entries_lookup)
    then show ?L by (auto simp: list_all_iff btree_iter_set) (metis bind.bind_lunit)
  qed
  then show ?thesis by (auto simp: cu_is_empty_def split: option.split)
qed

lemma has_children_iff:
  "has_children_of i b \<longleftrightarrow> (\<exists>child. (i, child) |\<in>| live_keys (cu_parent_child b))"
proof -
  have "has_children_of i b \<longleftrightarrow> (\<exists>child c. fmlookup (cu_parent_child b) (i, child) = Some c \<and> op_get c \<noteq> None)"
    by (auto simp: has_children_of_def list_ex_iff btree_iter_set)
  also have "\<dots> \<longleftrightarrow> (\<exists>child. (i, child) |\<in>| live_keys (cu_parent_child b))"
    by (auto simp: bind_eq_Some_conv)
  finally show ?thesis .
qed

lemma get_parents_set:
  "(child, parent) \<in> set (get_parents_of i b) \<longleftrightarrow> child = i \<and> (child, parent) |\<in>| live_keys (cu_child_parent b)"
proof -
  have "(child, parent) \<in> set (get_parents_of i b) \<longleftrightarrow>
      child = i \<and> (\<exists>c. fmlookup (cu_child_parent b) (child, parent) = Some c \<and> op_get c \<noteq> None)"
    by (auto simp: get_parents_of_def set_map_filter_iff btree_iter_set)
  then show ?thesis by (auto simp: bind_eq_Some_conv)
qed

lemma cu_mark_simps [simp]:
  "cu_child_parent (cu_mark c (x, y) b) = fmupd (x, y) c (cu_child_parent b)"
  "cu_parent_child (cu_mark c (x, y) b) = fmupd (y, x) c (cu_parent_child b)"
  "cu_tx_undos (cu_mark c d b) = cu_tx_undos b" "cu_reward_undo (cu_mark c d b) = cu_reward_undo b"
  by (simp_all add: cu_mark_def split: prod.split)

lemma cu_marks_lookup:
  "fmlookup (cu_child_parent (fold (cu_mark c) ds b)) (x, y) =
     (if (x, y) \<in> set ds then Some c else fmlookup (cu_child_parent b) (x, y))"
  "fmlookup (cu_parent_child (fold (cu_mark c) ds b)) (y, x) =
     (if (x, y) \<in> set ds then Some c else fmlookup (cu_parent_child b) (y, x))"
  "cu_tx_undos (fold (cu_mark c) ds b) = cu_tx_undos b"
  "cu_reward_undo (fold (cu_mark c) ds b) = cu_reward_undo b"
proof (induction ds arbitrary: b)
  case (Cons d ds)
  case 1 from Cons show ?case by (cases d) simp
  case 2 from Cons show ?case by (cases d) simp
  case 3 from Cons show ?case by (cases d) simp
  case 4 from Cons show ?case by (cases d) simp
qed simp_all

text \<open>The two dependency maps mirror each other, and only a transaction with undo data depends on others.\<close>

definition cu_mirrored :: "cached_utxos_block_undo \<Rightarrow> bool" where
  "cu_mirrored b \<longleftrightarrow>
     (\<forall>child parent. (child, parent) |\<in>| live_keys (cu_child_parent b) \<longleftrightarrow> (parent, child) |\<in>| live_keys (cu_parent_child b))"

definition live_dependency :: "cached_utxos_block_undo \<Rightarrow> tx_id \<Rightarrow> tx_id \<Rightarrow> bool" where
  "live_dependency b child parent \<longleftrightarrow> (child, parent) |\<in>| live_keys (cu_child_parent b)"

definition cu_well_formed :: "cached_utxos_block_undo \<Rightarrow> bool" where
  "cu_well_formed b \<longleftrightarrow> cu_mirrored b \<and>
     (\<forall>child parent. live_dependency b child parent \<longrightarrow> fmlookup (live_entries (cu_tx_undos b)) child \<noteq> None)"

definition same_live :: "cached_utxos_block_undo \<Rightarrow> cached_utxos_block_undo \<Rightarrow> bool" where
  "same_live a b \<longleftrightarrow> cu_reward_undo a = cu_reward_undo b \<and>
     live_entries (cu_tx_undos a) = live_entries (cu_tx_undos b) \<and> live_dependency a = live_dependency b"

lemma cu_insert_ok:
  assumes "fmlookup (cu_tx_undos b) i = None" and "cu_well_formed b"
  shows "\<exists>b'. cu_insert_tx_undo i u b = (Inr (), b') \<and> cu_well_formed b' \<and>
    cu_reward_undo b' = cu_reward_undo b \<and> cu_tx_undos b' = fmupd i (Write (tu_utxos u)) (cu_tx_undos b) \<and>
    (\<forall>child parent. live_dependency b' child parent \<longleftrightarrow>
       live_dependency b child parent \<or> child = i \<and> TransactionSource parent \<in> set (tu_sources u))"
proof -
  define ds where "ds = map (Pair i) (List.map_filter source_tx_id (tu_sources u))"
  let ?b = "fold (cu_mark (Write ())) ds (b\<lparr>cu_tx_undos := fmupd i (Write (tu_utxos u)) (cu_tx_undos b)\<rparr>)"
  have ins: "cu_insert_tx_undo i u b = (Inr (), ?b)"
    using assms(1) by (simp add: cu_insert_tx_undo_def bindS_def readS_def modifyS_def ensure_def ds_def fold_map o_def)
  have ds: "(child, parent) \<in> set ds \<longleftrightarrow> child = i \<and> TransactionSource parent \<in> set (tu_sources u)" for child parent
    by (auto simp: ds_def source_tx_ids)
  have dep: "live_dependency ?b child parent \<longleftrightarrow> live_dependency b child parent \<or> (child, parent) \<in> set ds" for child parent
    by (simp add: live_dependency_def cu_marks_lookup)
  have "cu_mirrored ?b" using assms(2) by (auto simp: cu_well_formed_def cu_mirrored_def cu_marks_lookup)
  moreover have "fmlookup (live_entries (cu_tx_undos ?b)) child \<noteq> None" if "live_dependency ?b child parent" for child parent
    using that dep ds assms by (auto simp: cu_well_formed_def cu_marks_lookup)
  ultimately have "cu_well_formed ?b" by (auto simp: cu_well_formed_def)
  with ins dep ds show ?thesis by (auto simp: cu_marks_lookup)
qed

lemma cu_take_ok:
  assumes "cu_well_formed b" and "\<And>child. \<not> live_dependency b child i"
  shows "\<exists>b'. cu_take_tx_undo i b = (Inr (fmlookup (live_entries (cu_tx_undos b)) i), b') \<and> cu_well_formed b' \<and>
    cu_reward_undo b' = cu_reward_undo b \<and> cu_tx_undos b' = fmupd i Erase (cu_tx_undos b) \<and>
    (\<forall>child parent. live_dependency b' child parent \<longleftrightarrow> live_dependency b child parent \<and> child \<noteq> i)"
proof -
  let ?m = "fold (cu_mark Erase) (get_parents_of i b) b"
  let ?b = "?m\<lparr>cu_tx_undos := fmupd i Erase (cu_tx_undos b)\<rparr>"
  have "\<not> has_children_of i b"
    using assms by (auto simp: has_children_iff cu_well_formed_def cu_mirrored_def live_dependency_def)
  then have take: "cu_take_tx_undo i b = (Inr (fmlookup (live_entries (cu_tx_undos b)) i), ?b)"
    by (simp add: cu_take_tx_undo_def cu_marks_lookup)
  have dep: "live_dependency ?b child parent \<longleftrightarrow> live_dependency b child parent \<and> child \<noteq> i" for child parent
    by (auto simp: live_dependency_def cu_marks_lookup get_parents_set)
  have "cu_mirrored ?b"
    using assms(1) by (auto simp: cu_well_formed_def cu_mirrored_def cu_marks_lookup get_parents_set)
  with dep assms(1) have "cu_well_formed ?b" by (auto simp: cu_well_formed_def)
  with take dep show ?thesis by (auto simp: cu_marks_lookup)
qed

section \<open>Disconnecting in the reverse order\<close>

lemma fmupd_twice [simp]: "fmupd k a (fmupd k b m) = fmupd k a m"
  by (rule fmap_ext) simp

lemma fmupd_same: "fmlookup m k = Some a \<Longrightarrow> fmupd k a m = m"
  by (rule fmap_ext) auto

lemma btree_iter_single [simp]:
  "btree_iter (fmupd k v fmempty) = [(k, v)]" "btree_iter (btree_of_list [(k, v)]) = [(k, v)]"
  by (simp_all add: btree_iter_def btree_of_list_def sorted_list_of_fmap_def sorted_list_of_fset.rep_eq)

lemma mapS_snoc:
  "mapS f xs s = (Inr ys, t) \<Longrightarrow> f x t = (Inr y, u) \<Longrightarrow> mapS f (xs @ [x]) s = (Inr (ys @ [y]), u)"
  by (induction xs arbitrary: s ys) (fastforce simp: op_simps)+

text \<open>Each transaction spends outputs of earlier ones of the list, or of others.\<close>

fun spends_earlier :: "(tx_id \<times> utxos_tx_undo_with_sources) list \<Rightarrow> bool" where
  "spends_earlier [] = True"
| "spends_earlier ((i, u) # txs) =
     (list_all (\<lambda>j. TransactionSource j \<notin> set (tu_sources u)) (i # map fst txs) \<and> spends_earlier txs)"

lemma utxo_add_own:
  "fmlookup c s = Some (Write b) \<Longrightarrow> cu_insert_tx_undo i u b = (Inr (), b') \<Longrightarrow>
     utxo_add_tx_undo s i u c = (Inr (), fmupd s (Write b') c)"
  by (simp add: utxo_add_tx_undo_def add_to_block_def map_errS_def map_err_def)

lemma utxo_add_fresh:
  "own_undo c s = None \<Longrightarrow> cu_insert_tx_undo i u cu_default = (Inr (), b') \<Longrightarrow>
     utxo_add_tx_undo s i u c = (Inr (), fmupd s (Write b') c)"
  by (simp add: utxo_add_tx_undo_def add_to_block_def map_errS_def map_err_def own_undo_def
      cached_utxos_block_undo_new_def bindS_def returnS_def)

lemma utxo_take_own:
  "fmlookup c s = Some (Write b) \<Longrightarrow> cu_take_tx_undo i b = (Inr (Some v), b') \<Longrightarrow>
     utxo_take_tx_undo fetch s i c = (Inr v, store_rest cu_is_empty s b' c)"
  by (simp add: utxo_take_tx_undo_def bindS_def readS_def modifyS_def returnS_def)

lemma cu_take_back:
  assumes ins: "cu_insert_tx_undo i u b = (Inr (), b1)" and wf: "cu_well_formed b"
    and new: "fmlookup (cu_tx_undos b) i = None" "\<And>child. \<not> live_dependency b child i"
    and self: "TransactionSource i \<notin> set (tu_sources u)"
    and b2: "same_live b2 b1" "cu_well_formed b2"
  shows "\<exists>b3. cu_take_tx_undo i b2 = (Inr (Some (tu_utxos u)), b3) \<and> same_live b3 b \<and> cu_well_formed b3"
proof -
  from cu_insert_ok [OF new(1) wf, of u] ins
  have b1: "cu_reward_undo b1 = cu_reward_undo b" "cu_tx_undos b1 = fmupd i (Write (tu_utxos u)) (cu_tx_undos b)"
    "\<And>child parent. live_dependency b1 child parent \<longleftrightarrow>
       live_dependency b child parent \<or> child = i \<and> TransactionSource parent \<in> set (tu_sources u)" by auto
  have "\<not> live_dependency b2 child i" for child
    using b2(1) b1(3) new(2) self by (auto simp: same_live_def)
  from cu_take_ok [OF b2(2) this] obtain b3 where b3:
      "cu_take_tx_undo i b2 = (Inr (fmlookup (live_entries (cu_tx_undos b2)) i), b3)" "cu_well_formed b3"
      "cu_reward_undo b3 = cu_reward_undo b2" "cu_tx_undos b3 = fmupd i Erase (cu_tx_undos b2)"
      "\<And>child parent. live_dependency b3 child parent \<longleftrightarrow> live_dependency b2 child parent \<and> child \<noteq> i"
    by blast
  have "fmlookup (live_entries (cu_tx_undos b2)) i = Some (tu_utxos u)"
    using b2(1) b1(2) by (simp add: same_live_def)
  moreover have "live_entries (cu_tx_undos b3) = live_entries (cu_tx_undos b)"
    using b2(1) b1(2) b3(4) new(1) by (intro fmap_ext) (simp add: same_live_def)
  moreover have "live_dependency b child parent \<Longrightarrow> child \<noteq> i" for child parent
    using wf new(1) by (auto simp: cu_well_formed_def)
  then have "live_dependency b3 = live_dependency b"
    using b2(1) b1(3) b3(5) by (auto simp: same_live_def fun_eq_iff)
  ultimately show ?thesis using b3 b2(1) b1(1) by (auto simp: same_live_def)
qed

lemma same_live_empty: "same_live a b \<Longrightarrow> cu_is_empty a \<longleftrightarrow> cu_is_empty b"
  by (simp add: same_live_def cu_is_empty_iff)

lemma undo_in_reverse:
  fixes fetch :: "transaction_source \<Rightarrow> 'e + cached_utxos_block_undo option"
  assumes "fmlookup c s = Some (Write b)" and "cu_well_formed b" and "\<not> cu_is_empty b"
    and "distinct (map fst txs)" and "spends_earlier txs"
    and "\<And>i. i \<in> fst ` set txs \<Longrightarrow> fmlookup (cu_tx_undos b) i = None \<and> (\<forall>child. \<not> live_dependency b child i)"
  shows "\<exists>c1 b2. try_for_each (\<lambda>(i, u). utxo_add_tx_undo s i u :: (_, 'e undo_cache_error, _) op) txs c = (Inr (), c1) \<and>
    mapS (\<lambda>(i, _). utxo_take_tx_undo fetch s i) (rev txs) c1 =
      (Inr (map (\<lambda>(_, u). tu_utxos u) (rev txs)), fmupd s (Write b2) c) \<and>
    same_live b2 b \<and> cu_well_formed b2"
  using assms
proof (induction txs arbitrary: b c)
  case Nil
  then show ?case by (intro exI [of _ c] exI [of _ b]) (simp add: op_simps fmupd_same same_live_def)
next
  case (Cons p ys)
  obtain i u where p: "p = (i, u)" by (cases p)
  from Cons.prems(6) [of i] p have i: "fmlookup (cu_tx_undos b) i = None" "\<And>child. \<not> live_dependency b child i" by auto
  from cu_insert_ok [OF i(1) Cons.prems(2), of u] obtain b1 where b1: "cu_insert_tx_undo i u b = (Inr (), b1)"
      "cu_well_formed b1" "cu_tx_undos b1 = fmupd i (Write (tu_utxos u)) (cu_tx_undos b)"
      "\<And>child parent. live_dependency b1 child parent \<longleftrightarrow>
         live_dependency b child parent \<or> child = i \<and> TransactionSource parent \<in> set (tu_sources u)" by blast
  have "\<not> cu_is_empty b1" using b1(3) by (auto simp: cu_is_empty_iff)
  moreover have "fmlookup (cu_tx_undos b1) j = None \<and> (\<forall>child. \<not> live_dependency b1 child j)" if "j \<in> fst ` set ys" for j
    using that Cons.prems(4,5) Cons.prems(6) [of j] p b1(3,4) by (auto simp: list_all_iff)
  moreover have "distinct (map fst ys)" "spends_earlier ys" using Cons.prems(4,5) p by auto
  ultimately obtain c1 b2 where IH:
      "try_for_each (\<lambda>(i, u). utxo_add_tx_undo s i u :: (_, 'e undo_cache_error, _) op) ys (fmupd s (Write b1) c) = (Inr (), c1)"
      "mapS (\<lambda>(i, _). utxo_take_tx_undo fetch s i) (rev ys) c1 =
         (Inr (map (\<lambda>(_, u). tu_utxos u) (rev ys)), fmupd s (Write b2) c)"
      "same_live b2 b1" "cu_well_formed b2"
    using Cons.IH [of "fmupd s (Write b1) c" b1] b1(2) by auto
  have "TransactionSource i \<notin> set (tu_sources u)" using Cons.prems(5) p by simp
  from cu_take_back [OF b1(1) Cons.prems(2) i this IH(3,4)]
  obtain b3 where b3: "cu_take_tx_undo i b2 = (Inr (Some (tu_utxos u)), b3)" "same_live b3 b" "cu_well_formed b3" by blast
  have "utxo_take_tx_undo fetch s i (fmupd s (Write b2) c) = (Inr (tu_utxos u), fmupd s (Write b3) c)"
    using b3 Cons.prems(3) by (simp add: utxo_take_own [OF _ b3(1)] store_rest_def same_live_empty)
  then have "mapS (\<lambda>(i, _). utxo_take_tx_undo fetch s i) (rev (p # ys)) c1 =
      (Inr (map (\<lambda>(_, u). tu_utxos u) (rev (p # ys))), fmupd s (Write b3) c)"
    using mapS_snoc [OF IH(2)] p by simp
  moreover have "try_for_each (\<lambda>(i, u). utxo_add_tx_undo s i u :: (_, 'e undo_cache_error, _) op) (p # ys) c = (Inr (), c1)"
    using IH(1) p by (simp add: bindS_def utxo_add_own [OF Cons.prems(1) b1(1)])
  ultimately show ?case using b3 by blast
qed

lemma undo_back_in_reverse:
  fixes fetch :: "transaction_source \<Rightarrow> 'e + cached_utxos_block_undo option"
  assumes "own_undo c s = None" and "txs \<noteq> []" and "distinct (map fst txs)" and "spends_earlier txs"
  shows "\<exists>c1. try_for_each (\<lambda>(i, u). utxo_add_tx_undo s i u :: (_, 'e undo_cache_error, _) op) txs c = (Inr (), c1) \<and>
    mapS (\<lambda>(i, _). utxo_take_tx_undo fetch s i) (rev txs) c1 =
      (Inr (map (\<lambda>(_, u). tu_utxos u) (rev txs)), fmupd s Erase c)"
proof -
  from assms(2) obtain i u ys where txs: "txs = (i, u) # ys" by (metis list.exhaust surj_pair)
  have wf: "cu_well_formed cu_default" and new: "fmlookup (cu_tx_undos cu_default) j = None" "\<not> live_dependency cu_default child j" for j child
    by (auto simp: cu_well_formed_def cu_mirrored_def live_dependency_def cu_default_def)
  from cu_insert_ok [OF new(1) wf, of i u] obtain b where b: "cu_insert_tx_undo i u cu_default = (Inr (), b)"
      "cu_well_formed b" "cu_tx_undos b = fmupd i (Write (tu_utxos u)) (cu_tx_undos cu_default)"
      "\<And>child parent. live_dependency b child parent \<longleftrightarrow>
         live_dependency cu_default child parent \<or> child = i \<and> TransactionSource parent \<in> set (tu_sources u)" by blast
  have "\<not> cu_is_empty b" using b(3) by (auto simp: cu_is_empty_iff)
  moreover have "fmlookup (cu_tx_undos b) j = None \<and> (\<forall>child. \<not> live_dependency b child j)" if "j \<in> fst ` set ys" for j
    using that assms(3,4) txs b(3,4) new by (auto simp: list_all_iff)
  moreover have "distinct (map fst ys)" "spends_earlier ys" "TransactionSource i \<notin> set (tu_sources u)"
    using assms(3,4) txs by auto
  ultimately obtain c1 b2 where IH:
      "try_for_each (\<lambda>(i, u). utxo_add_tx_undo s i u :: (_, 'e undo_cache_error, _) op) ys (fmupd s (Write b) c) = (Inr (), c1)"
      "mapS (\<lambda>(i, _). utxo_take_tx_undo fetch s i) (rev ys) c1 =
         (Inr (map (\<lambda>(_, u). tu_utxos u) (rev ys)), fmupd s (Write b2) c)"
      "same_live b2 b" "cu_well_formed b2"
    using undo_in_reverse [of "fmupd s (Write b) c" s b ys fetch] b(2) by auto
  from cu_take_back [OF b(1) wf new _ IH(3,4)] \<open>TransactionSource i \<notin> _\<close>
  obtain b3 where b3: "cu_take_tx_undo i b2 = (Inr (Some (tu_utxos u)), b3)" "same_live b3 cu_default" by blast
  have "cu_is_empty b3"
    using same_live_empty [OF b3(2)] by (simp add: cu_is_empty_iff cu_default_def live_entries_eqI)
  then have "utxo_take_tx_undo fetch s i (fmupd s (Write b2) c) = (Inr (tu_utxos u), fmupd s Erase c)"
    by (simp add: utxo_take_own [OF _ b3(1)] store_rest_def)
  then have "mapS (\<lambda>(i, _). utxo_take_tx_undo fetch s i) (rev txs) c1 =
      (Inr (map (\<lambda>(_, u). tu_utxos u) (rev txs)), fmupd s Erase c)"
    using mapS_snoc [OF IH(2)] txs by simp
  then show ?thesis using IH(1) txs by (auto simp: bindS_def utxo_add_fresh [OF assms(1) b(1)])
qed

lemma del_undo_erases: "utxo_del_undo_data = erase_undo" "acc_del_undo_data = erase_undo"
  by (simp_all add: fun_eq_iff utxo_del_undo_data_def acc_del_undo_data_def erase_undo_def)

lemma flush_undo_layers:
  "flush_utxo_undo c = try_for_each (\<lambda>(s, d). flush_undo_entry (set_combined cu_combine) erase_undo s d) (btree_iter c)"
  "flush_accounting_undo a = try_for_each (\<lambda>(s, d). flush_undo_entry (set_combined cb_combine) erase_undo s d) (btree_iter a)"
  by (simp_all add: flush_utxo_undo_def flush_accounting_undo_def utxo_set_undo_data_def acc_set_undo_data_def
      del_undo_erases)

section \<open>Undo data in the database\<close>

lemma live_keys_read [simp]: "live_keys (btree_of_list (map (\<lambda>d. (d, Read ())) (sorted_list_of_fset D))) = D"
proof -
  have "distinct (map fst (map (\<lambda>d. (d, Read ())) (sorted_list_of_fset D)))"
    by (simp add: o_def sorted_list_of_fset.rep_eq)
  then have "fmlookup (btree_of_list (map (\<lambda>d. (d, Read ())) (sorted_list_of_fset D))) k = (if k |\<in>| D then Some (Read ()) else None)" for k
    by (auto simp: btree_of_list_lookup map_of_eq_None_iff sorted_list_of_fset.rep_eq intro!: map_of_is_SomeI)
  then show ?thesis by (intro fset_eqI) simp
qed

lemma bind_read [simp]: "Option.bind (map_option Read v) op_get = v"
  by (cases v) simp_all

lemma cu_consume_stored: "mirrored d \<Longrightarrow> cu_consume (from_utxo_block_undo d) = Ok d"
  by (cases d) (auto simp: cu_consume_def from_utxo_block_undo_def utxos_block_undo_from_data_def mirrored_def and_then_def
      ensure_def option.map_comp)

lemma cu_consume_ok: "cu_mirrored b \<Longrightarrow> \<exists>d. cu_consume b = Ok d \<and> mirrored d"
  by (auto simp: cu_consume_def utxos_block_undo_from_data_def cu_mirrored_def mirrored_def and_then_def ensure_def)

lemma cb_consume_stored: "cb_consume (from_block_undo d) = d"
  by (cases d) (simp add: cb_consume_def from_block_undo_def consume_block_undo_def split: option.split)

section \<open>Examples\<close>

definition sample_undo :: "tx_id option \<Rightarrow> utxos_tx_undo_with_sources" where
  "sample_undo parent = \<lparr>tu_utxos = [Some sample_utxo],
     tu_sources = (case parent of None \<Rightarrow> [] | Some i \<Rightarrow> [TransactionSource i])\<rparr>"

definition no_undo :: "transaction_source \<Rightarrow> storage_error + 'b option" where
  "no_undo s = Ok None"

definition sample_parent :: utxos_block_undo_cache where
  "sample_parent = snd (try_for_each (utxo_undo_run no_undo)
     [AddTxUndo FromMempool 1 (sample_undo None), AddTxUndo FromMempool 2 (sample_undo (Some 1))] fmempty)"

definition sample_child :: utxos_block_undo_cache where
  "sample_child = snd (utxo_undo_run (undo_data_of sample_parent no_undo) (TakeTxUndo FromMempool 2) fmempty)"

definition sample_acc_parent :: "nat accounting_block_undo_cache" where
  "sample_acc_parent = snd (try_for_each (acc_undo_run no_undo)
     [AddTxUndo FromMempool 1 (TxUndo [7]), AddTxUndo FromMempool 2 (TxUndo [8])] fmempty)"

definition sample_acc_child :: "nat accounting_block_undo_cache" where
  "sample_acc_child = snd (acc_undo_run (undo_data_of sample_acc_parent no_undo) (TakeTxUndo FromMempool 1) fmempty)"

section \<open>Properties of the undo caches\<close>

definition undo_allowed ::
    "('b \<Rightarrow> 'r option \<times> 'b) \<Rightarrow> ('b \<Rightarrow> bool) \<Rightarrow> 'b undo_layer \<Rightarrow> (transaction_source \<Rightarrow> 'e + 'b option) \<Rightarrow>
     ('u, 'r) undo_call \<Rightarrow> 'b undo_layer \<Rightarrow> bool" where
  "undo_allowed take_reward is_empty p fetch x c \<longleftrightarrow>
     adds_in_place p x c \<and> reward_taken_last take_reward is_empty (undo_data_of p fetch) x c"

text \<open>
  C19: A transaction verifier derived from another one reads utxo undo data through its parent. Whatever calls
  it makes, if it starts undo data for a block only where its parent has none, and takes the reward undo of
  a block last, then flushing its cache into that of its parent succeeds without panic, and the parent then
  gives for every source the undo data the derived verifier gave.
\<close>

theorem utxo_undo_layer_refines:
  assumes "layer_reaches (undo_allowed cu_take_block_reward_undo cu_is_empty p fetch)
      (utxo_undo_run (undo_data_of p fetch)) c"
  shows "\<exists>p'. flush_utxo_undo c p = (Inr (), p') \<and> undo_data_of p' fetch = undo_data_of c (undo_data_of p fetch)"
proof -
  have "layer_reaches (\<lambda>x c. (call_adds x \<longrightarrow> own_undo c (call_source x) \<noteq> None \<or> own_undo p (call_source x) = None) \<and>
      reward_taken_last cu_take_block_reward_undo cu_is_empty (undo_data_of p fetch) x c)
      (utxo_undo_run (undo_data_of p fetch)) c"
    using assms by (simp add: undo_allowed_def [abs_def] adds_in_place_def)
  from utxo_layer.derived_layer_flushes [OF this, of fetch] show ?thesis by (simp add: flush_undo_layers)
qed

theorem utxo_undo_layer_refines_witness:
  "\<exists>p' b. flush_utxo_undo sample_child sample_parent = (Inr (), p') \<and>
     undo_data_of p' no_undo FromMempool = Inr (Some b) \<and> \<not> has_children_of 1 b \<and> \<not> cu_is_empty b"
proof -
  have "layer_reaches (undo_allowed cu_take_block_reward_undo cu_is_empty sample_parent no_undo)
      (utxo_undo_run (undo_data_of sample_parent no_undo)) sample_child"
    by (rule layer_reaches.call [OF layer_reaches.start, where x = "TakeTxUndo FromMempool 2",
          where r = "fst (utxo_undo_run (undo_data_of sample_parent no_undo) (TakeTxUndo FromMempool 2) fmempty)"])
      (simp_all add: undo_allowed_def adds_in_place_def reward_taken_last_def sample_child_def del: utxo_undo_run.simps)
  from utxo_undo_layer_refines [OF this] obtain p' where "flush_utxo_undo sample_child sample_parent = (Inr (), p')"
      "undo_data_of p' no_undo = undo_data_of sample_child (undo_data_of sample_parent no_undo)" by blast
  moreover have "case undo_data_of sample_child (undo_data_of sample_parent no_undo) FromMempool of
      Inr (Some b) \<Rightarrow> \<not> has_children_of 1 b \<and> \<not> cu_is_empty b | _ \<Rightarrow> False"
    by code_simp
  ultimately show ?thesis by (auto split: sum.splits option.splits)
qed

text \<open>C35: The same for the accounting undo data of the staking pools, the tokens and the orders.\<close>

theorem accounting_undo_layer_refines:
  assumes "layer_reaches (undo_allowed cb_take_block_reward_undo cb_is_empty p fetch)
      (acc_undo_run (undo_data_of p fetch)) c"
  shows "\<exists>p'. flush_accounting_undo c p = (Inr (), p') \<and> undo_data_of p' fetch = undo_data_of c (undo_data_of p fetch)"
proof -
  have "layer_reaches (\<lambda>x c. (call_adds x \<longrightarrow> own_undo c (call_source x) \<noteq> None \<or> own_undo p (call_source x) = None) \<and>
      reward_taken_last cb_take_block_reward_undo cb_is_empty (undo_data_of p fetch) x c)
      (acc_undo_run (undo_data_of p fetch)) c"
    using assms by (simp add: undo_allowed_def [abs_def] adds_in_place_def)
  from acc_layer.derived_layer_flushes [OF this, of fetch] show ?thesis by (simp add: flush_undo_layers)
qed

theorem accounting_undo_layer_refines_witness:
  "\<exists>p' b. flush_accounting_undo sample_acc_child sample_acc_parent = (Inr (), p') \<and>
     undo_data_of p' no_undo FromMempool = Inr (Some b) \<and>
     fmlookup (cb_tx_undos b) 1 = Some Erase \<and> fmlookup (cb_tx_undos b) 2 = Some (Write (TxUndo [8]))"
proof -
  have "layer_reaches (undo_allowed cb_take_block_reward_undo cb_is_empty sample_acc_parent no_undo)
      (acc_undo_run (undo_data_of sample_acc_parent no_undo)) sample_acc_child"
    by (rule layer_reaches.call [OF layer_reaches.start, where x = "TakeTxUndo FromMempool 1",
          where r = "fst (acc_undo_run (undo_data_of sample_acc_parent no_undo) (TakeTxUndo FromMempool 1) fmempty)"])
      (simp_all add: undo_allowed_def adds_in_place_def reward_taken_last_def sample_acc_child_def del: acc_undo_run.simps)
  from accounting_undo_layer_refines [OF this]
  obtain p' where "flush_accounting_undo sample_acc_child sample_acc_parent = (Inr (), p')"
      "undo_data_of p' no_undo = undo_data_of sample_acc_child (undo_data_of sample_acc_parent no_undo)" by blast
  moreover have "case undo_data_of sample_acc_child (undo_data_of sample_acc_parent no_undo) FromMempool of
      Inr (Some b) \<Rightarrow> fmlookup (cb_tx_undos b) 1 = Some Erase \<and> fmlookup (cb_tx_undos b) 2 = Some (Write (TxUndo [8]))
    | _ \<Rightarrow> False"
    by code_simp
  ultimately show ?thesis by (auto split: sum.splits option.splits)
qed

text \<open>
  C18: The utxo undo data of transactions that are connected one after the other, each spending outputs of
  earlier ones or of other transactions, can be taken back in the reverse order: every step of both passes
  succeeds, the undo data come back as they were given, and at the end the undo data of the block are erased.
\<close>

theorem undo_data_comes_back_in_reverse:
  fixes fetch :: "transaction_source \<Rightarrow> 'e + cached_utxos_block_undo option"
  assumes "own_undo c s = None" and "txs \<noteq> []" and "distinct (map fst txs)" and "spends_earlier txs"
  shows "\<exists>c1. try_for_each (\<lambda>(i, u). utxo_add_tx_undo s i u :: (_, 'e undo_cache_error, _) op) txs c = (Inr (), c1) \<and>
    mapS (\<lambda>(i, _). utxo_take_tx_undo fetch s i) (rev txs) c1 =
      (Inr (map (\<lambda>(_, u). tu_utxos u) (rev txs)), fmupd s Erase c)"
  by (rule undo_back_in_reverse [OF assms])

theorem undo_data_comes_back_in_reverse_witness:
  "\<exists>c. try_for_each (\<lambda>(i, u). utxo_add_tx_undo FromMempool i u :: (_, storage_error undo_cache_error, _) op)
      [(1, sample_undo None), (2, sample_undo (Some 1))] fmempty = (Inr (), c) \<and>
    mapS (\<lambda>(i, _). utxo_take_tx_undo no_undo FromMempool i) [(2, sample_undo (Some 1)), (1, sample_undo None)] c =
      (Inr [[Some sample_utxo], [Some sample_utxo]], fmupd FromMempool Erase fmempty)"
  using undo_data_comes_back_in_reverse [of fmempty FromMempool "[(1, sample_undo None), (2, sample_undo (Some 1))]" no_undo]
  by (simp add: own_undo_def sample_undo_def)

text \<open>
  C37: If a derived verifier connects a transaction of a block (or of the mempool) for which its parent holds
  undo data, and disconnects it again, then the flush of its cache erases all the undo data the parent holds
  for that source: from then on taking the undo data of any other transaction of the source panics.
\<close>

theorem derived_disconnect_erases_parents_undo:
  fixes fetch :: "transaction_source \<Rightarrow> 'e + cached_utxos_block_undo option"
  assumes "fmlookup p s = Some (Write b)" and "TransactionSource i \<notin> set (tu_sources u)"
  shows "\<exists>c c' p'. utxo_undo_run (undo_data_of p fetch) (AddTxUndo s i u) fmempty = (Inr (), c) \<and>
    utxo_undo_run (undo_data_of p fetch) (TakeTxUndo s i) c = (Inr (), c') \<and>
    flush_utxo_undo c' p = (Inr (), p') \<and> utxo_take_tx_undo fetch s j p' = (Inl Panic, p')"
proof -
  let ?f = "undo_data_of p fetch"
  from undo_back_in_reverse [of fmempty s "[(i, u)]" ?f] assms(2)
  obtain c where c: "utxo_add_tx_undo s i u fmempty = (Inr () :: 'e undo_cache_error + unit, c)"
      "utxo_take_tx_undo ?f s i c = (Inr (tu_utxos u), fmupd s Erase fmempty)"
    by (auto simp: op_simps own_undo_def)
  have "flush_utxo_undo (fmupd s Erase fmempty) p = (Inr (), fmupd s Erase p)"
    by (simp add: flush_undo_layers flush_undo_entry_def erase_undo_def bindS_def modifyS_def returnS_def)
  moreover have "utxo_take_tx_undo fetch s j (fmupd s Erase p) = (Inl Panic, fmupd s Erase p)"
    by (simp add: utxo_take_tx_undo_def bindS_def readS_def)
  ultimately show ?thesis using c by (auto simp: map_errS_def map_err_def bindS_def returnS_def)
qed

theorem derived_disconnect_erases_parents_undo_witness:
  "\<exists>c c' p'. utxo_undo_run (undo_data_of sample_parent no_undo) (AddTxUndo FromMempool 3 (sample_undo None)) fmempty = (Inr (), c) \<and>
    utxo_undo_run (undo_data_of sample_parent no_undo) (TakeTxUndo FromMempool 3) c = (Inr (), c') \<and>
    flush_utxo_undo c' sample_parent = (Inr (), p') \<and> utxo_take_tx_undo no_undo FromMempool 2 p' = (Inl Panic, p')"
proof -
  have "case fmlookup sample_parent FromMempool of Some (Write b) \<Rightarrow> True | _ \<Rightarrow> False" by code_simp
  then obtain b where "fmlookup sample_parent FromMempool = Some (Write b)"
    by (auto split: option.splits cached_operation.splits)
  from derived_disconnect_erases_parents_undo [OF this, of 3 "sample_undo None" no_undo 2] show ?thesis
    by (simp add: sample_undo_def del: utxo_undo_run.simps)
qed

end
