(* ===== verification/Reward_Distribution.thy ===== *)
theory Reward_Distribution
  imports Undo_Caches Pos_Accounting Chain_Config
begin

text \<open>
  The reward of a block of the proof of stake (\<open>transaction_verifier/reward_distribution.rs\<close>) and the
  adapter through which the verifier changes the stake
  (\<open>transaction_verifier/pos_accounting_delta_adapter.rs\<close>): every operation runs on a fresh delta, which is
  merged into the delta of the verifier and into the delta of the block.
\<close>

section \<open>The adapter\<close>

record 'e pos_adapter =
  accounting_delta :: "'e pos_delta"
  accounting_block_deltas :: "(transaction_source, pos_delta_data) btree_map"

definition pos_adapter_new :: "'e pos_view \<Rightarrow> 'e pos_adapter" where
  "pos_adapter_new parent = \<lparr> accounting_delta = pos_delta_new parent, accounting_block_deltas = fmempty \<rparr>"

definition adapter_batch_write_delta :: "pos_delta_data \<Rightarrow> ('e pos_adapter, pos_error, delta_merge_undo) op" where
  "adapter_batch_write_delta data =
     zoomS accounting_delta (\<lambda>d. accounting_delta_update (\<lambda>_. d)) (batch_write_delta data)"

text \<open>\<open>entry(source).or_default().merge_with_delta(delta)\<close>: the entry is there even if the merge fails.\<close>

definition apply_accounting_delta :: "transaction_source \<Rightarrow> pos_delta_data \<Rightarrow> ('e pos_adapter, pos_error, unit) op" where
  "apply_accounting_delta src delta a =
     (let old = (case fmlookup (accounting_block_deltas a) src of Some d \<Rightarrow> d | None \<Rightarrow> pos_delta_data_new) in
      case pos_merge_with_delta delta old of (r, new) \<Rightarrow>
        (and_then r (\<lambda>_. Ok ()),
         a\<lparr> accounting_block_deltas := fmupd src new (accounting_block_deltas a) \<rparr>))"

definition adapter_merge_delta :: "transaction_source \<Rightarrow> pos_delta_data \<Rightarrow> ('e pos_adapter, pos_error, unit) op" where
  "adapter_merge_delta src delta =
     bindS (adapter_batch_write_delta delta) (\<lambda>_. apply_accounting_delta src delta)"

text \<open>The common shape of the operations: on a new delta over the one of the verifier, which is then merged.\<close>

definition adapter_op :: "transaction_source \<Rightarrow> (pos_error pos_delta, pos_error, 'u) op \<Rightarrow>
    ('e pos_adapter, pos_error, 'u) op" where
  "adapter_op src m =
     bindS (\<lambda>a. case m (pos_delta_new (pos_delta_view (accounting_delta a))) of
         (r, delta) \<Rightarrow> (and_then r (\<lambda>u. Ok (u, pos_data delta)), a)) (\<lambda>(undo, delta).
     bindS (adapter_merge_delta src delta) (\<lambda>_. returnS undo))"

definition adapter_create_pool ::
    "transaction_source \<Rightarrow> pool_id \<Rightarrow> pool_data \<Rightarrow> ('e pos_adapter, pos_error, pos_accounting_undo) op" where
  "adapter_create_pool src pool data = adapter_op src (create_pool pool data)"

definition adapter_decommission_pool ::
    "transaction_source \<Rightarrow> pool_id \<Rightarrow> ('e pos_adapter, pos_error, pos_accounting_undo) op" where
  "adapter_decommission_pool src pool = adapter_op src (decommission_pool pool)"

definition adapter_increase_staker_rewards ::
    "transaction_source \<Rightarrow> pool_id \<Rightarrow> amount \<Rightarrow> ('e pos_adapter, pos_error, pos_accounting_undo) op" where
  "adapter_increase_staker_rewards src pool a = adapter_op src (increase_staker_rewards pool a)"

definition adapter_create_delegation_id ::
    "transaction_source \<Rightarrow> pool_id \<Rightarrow> delegation_id \<Rightarrow> destination \<Rightarrow>
     ('e pos_adapter, pos_error, pos_accounting_undo) op" where
  "adapter_create_delegation_id src pool deleg key = adapter_op src (create_delegation_id pool deleg key)"

definition adapter_delete_delegation_id ::
    "transaction_source \<Rightarrow> delegation_id \<Rightarrow> ('e pos_adapter, pos_error, pos_accounting_undo) op" where
  "adapter_delete_delegation_id src deleg = adapter_op src (delete_delegation_id deleg)"

definition adapter_delegate_staking ::
    "transaction_source \<Rightarrow> delegation_id \<Rightarrow> amount \<Rightarrow> ('e pos_adapter, pos_error, pos_accounting_undo) op" where
  "adapter_delegate_staking src deleg a = adapter_op src (delegate_staking deleg a)"

definition adapter_spend_share ::
    "transaction_source \<Rightarrow> delegation_id \<Rightarrow> amount \<Rightarrow> ('e pos_adapter, pos_error, pos_accounting_undo) op" where
  "adapter_spend_share src deleg a = adapter_op src (spend_share_from_delegation_id deleg a)"

definition adapter_undo ::
    "transaction_source \<Rightarrow> pos_accounting_undo \<Rightarrow> ('e pos_adapter, pos_error, unit) op" where
  "adapter_undo src undo = adapter_op src (pos_undo undo)"

section \<open>The reward of the staker\<close>

datatype reward_distribution_error =
    RewardPosAccountingError pos_error
  | InvariantPoolBalanceIsZero pool_id
  | InvariantStakerBalanceGreaterThanPoolBalance pool_id amount amount
  | RewardAdditionError block_id
  | TotalDelegationBalanceZero pool_id
  | RewardPoolDataNotFound pool_id
  | StakerRewardCalculationFailed block_id pool_id
  | StakerRewardCannotExceedTotalReward block_id pool_id amount amount
  | DistributedDelegationsRewardExceedTotal pool_id block_id amount amount
  | DelegationRewardOverflow delegation_id amount amount amount
  | DelegationsRewardSumFailed block_id pool_id
  | StakerRewardOverflow pool_id amount amount amount

text \<open>\<open>TryInto\<close> of a 256-bit number to the integers of amounts.\<close>

definition u256_to_amount :: "u256 \<Rightarrow> amount option" where
  "u256_to_amount v = (if v \<le> ucast (- 1 :: u128) then Some (ucast v) else None)"

definition calculate_staker_reward_v0 :: "amount \<Rightarrow> amount \<Rightarrow> per_thousand \<Rightarrow> amount option" where
  "calculate_staker_reward_v0 total_reward cost mpt = (case amount_sub total_reward cost of
      Some to_distribute \<Rightarrow>
        Option.bind (amount_mul to_distribute (ucast (per_thousand_value mpt))) (\<lambda>v.
        Option.bind (amount_div v 1000) (\<lambda>v. amount_add v cost))
    | None \<Rightarrow> Some total_reward)"

definition calculate_staker_reward_v1 :: "amount \<Rightarrow> amount \<Rightarrow> amount \<Rightarrow> amount \<Rightarrow> per_thousand \<Rightarrow> pool_id \<Rightarrow>
    reward_distribution_error failure + amount" where
  "calculate_staker_reward_v1 total_reward pool_balance staker_bal cost mpt pool =
     and_then (ensure (staker_bal \<le> pool_balance)
       (Fail (InvariantStakerBalanceGreaterThanPoolBalance pool staker_bal pool_balance))) (\<lambda>_.
     and_then (ensure (amount_zero < pool_balance) (Fail (InvariantPoolBalanceIsZero pool))) (\<lambda>_.
     case amount_sub total_reward cost of
       Some to_distribute \<Rightarrow>
         and_then (ok_or (checked_mul_u (ucast to_distribute :: u256) (ucast staker_bal)) Panic) (\<lambda>numer.
         and_then (ok_or (checked_div_u numer (ucast pool_balance)) Panic) (\<lambda>quotient.
         and_then (ok_or (u256_to_amount quotient) Panic) (\<lambda>pro_rata.
         and_then (ok_or (amount_sub to_distribute pro_rata) Panic) (\<lambda>delegators_reward.
         and_then (ok_or (Option.bind (checked_mul_u (ucast delegators_reward :: u256) (ucast (per_thousand_value mpt)))
           (\<lambda>v. checked_div_u v 1000)) Panic) (\<lambda>margin.
         and_then (ok_or (u256_to_amount margin) Panic) (\<lambda>margin_reward.
         ok_or (Option.bind (amount_add margin_reward pro_rata) (\<lambda>v. amount_add v cost))
           (Fail (StakerRewardOverflow pool margin_reward pro_rata cost))))))))
     | None \<Rightarrow> Ok total_reward))"

section \<open>The rewards of the delegations\<close>

definition delegation_reward :: "pool_id \<Rightarrow> amount \<Rightarrow> amount \<Rightarrow> delegation_id \<times> amount \<Rightarrow>
    reward_distribution_error failure + delegation_id \<times> amount" where
  "delegation_reward pool total_balance total_reward = (\<lambda>(deleg, balance).
     and_then (ok_or (checked_mul_u (ucast total_reward :: u256) (ucast balance)) Panic) (\<lambda>numer.
     and_then (ok_or (checked_div_u numer (ucast total_balance)) (Fail (TotalDelegationBalanceZero pool))) (\<lambda>reward.
     and_then (ok_or (u256_to_amount reward) (Fail (DelegationRewardOverflow deleg total_balance total_reward balance)))
       (\<lambda>reward. Ok (deleg, reward)))))"

definition calculate_rewards_per_delegation :: "(delegation_id \<times> amount) list \<Rightarrow> pool_id \<Rightarrow> amount \<Rightarrow> amount \<Rightarrow>
    reward_distribution_error failure + (delegation_id \<times> amount) list" where
  "calculate_rewards_per_delegation shares pool total_balance total_reward =
     and_then (ensure (total_balance \<noteq> amount_zero) (Fail (TotalDelegationBalanceZero pool))) (\<lambda>_.
     collect_each (delegation_reward pool total_balance total_reward) shares)"

type_synonym ('e, 'a) reward_op = "('e pos_adapter, reward_distribution_error failure, 'a) op"

abbreviation reward_pos :: "('e pos_adapter, pos_error, 'a) op \<Rightarrow> ('e, 'a) reward_op" where
  "reward_pos \<equiv> map_errS (Fail \<circ> RewardPosAccountingError)"

definition distribute_delegations_pos_reward :: "transaction_source \<Rightarrow> (delegation_id, amount) btree_map \<Rightarrow> block_id \<Rightarrow>
    pool_id \<Rightarrow> amount \<Rightarrow> amount \<Rightarrow> ('e, pos_accounting_undo list \<times> amount) reward_op" where
  "distribute_delegations_pos_reward src shares block pool total_balance total_reward =
     bindS (liftS (calculate_rewards_per_delegation (btree_iter shares) pool total_balance total_reward)) (\<lambda>rewards.
     bindS (mapS (\<lambda>(deleg, reward). reward_pos (adapter_delegate_staking src deleg reward))
       (filter (\<lambda>(_, reward). amount_zero < reward) rewards)) (\<lambda>undos.
     bindS (liftS (ok_or (amount_sum (map snd rewards)) (Fail (DelegationsRewardSumFailed block pool)))) (\<lambda>distributed.
     bindS (liftS (ok_or (amount_sub total_reward distributed)
       (Fail (DistributedDelegationsRewardExceedTotal pool block distributed total_reward)))) (\<lambda>remainder.
     returnS (undos, remainder)))))"

section \<open>Distribution\<close>

definition staker_reward_of :: "reward_distribution_version \<Rightarrow> block_id \<Rightarrow> pool_id \<Rightarrow> pool_data \<Rightarrow> amount \<Rightarrow> amount \<Rightarrow>
    reward_distribution_error failure + amount" where
  "staker_reward_of version block pool data pool_balance total_reward = (case version of
      RewardDistributionV0 \<Rightarrow>
        ok_or (calculate_staker_reward_v0 total_reward (cost_per_block data) (margin_ratio_per_thousand data))
          (Fail (StakerRewardCalculationFailed block pool))
    | RewardDistributionV1 \<Rightarrow>
        and_then (map_err (Fail \<circ> RewardPosAccountingError) (staker_balance data)) (\<lambda>staker_bal.
        calculate_staker_reward_v1 total_reward pool_balance staker_bal (cost_per_block data)
          (margin_ratio_per_thousand data) pool))"

definition distribute_pos_reward :: "transaction_source \<Rightarrow> block_id \<Rightarrow> pool_id \<Rightarrow> amount \<Rightarrow>
    reward_distribution_version \<Rightarrow> ('e, pos_accounting_undo list) reward_op" where
  "distribute_pos_reward src block pool total_reward version =
     bindS (reward_pos (readS (\<lambda>a. get_pool_data (accounting_delta a) pool))) (\<lambda>data.
     bindS (liftS (ok_or data (Fail (RewardPoolDataNotFound pool)))) (\<lambda>data.
     bindS (reward_pos (readS (\<lambda>a. get_pool_balance (accounting_delta a) pool))) (\<lambda>pool_balance.
     bindS (liftS (staker_reward_of version block pool data pool_balance total_reward)) (\<lambda>staker_reward.
     bindS (liftS (ok_or (amount_sub total_reward staker_reward)
       (Fail (StakerRewardCannotExceedTotalReward block pool staker_reward total_reward)))) (\<lambda>total_delegations_reward.
     bindS (if amount_zero < total_delegations_reward then
         bindS (reward_pos (readS (\<lambda>a. get_pool_delegations_shares (accounting_delta a) pool))) (\<lambda>shares.
         case shares of
           Some shares \<Rightarrow>
             bindS (liftS (ok_or (amount_sum (map snd (btree_iter shares)))
               (Fail (DelegationsRewardSumFailed block pool)))) (\<lambda>total_delegations_balance.
             if amount_zero < total_delegations_balance
             then distribute_delegations_pos_reward src shares block pool total_delegations_balance total_delegations_reward
             else returnS ([], total_delegations_reward))
         | None \<Rightarrow> returnS ([], total_delegations_reward))
       else returnS ([], amount_zero)) (\<lambda>(delegation_undos, unallocated_reward).
     bindS (liftS (ok_or (amount_add staker_reward unallocated_reward) (Fail (RewardAdditionError block))))
       (\<lambda>total_staker_reward.
     bindS (reward_pos (adapter_increase_staker_rewards src pool total_staker_reward)) (\<lambda>undo.
     returnS (delegation_undos @ [undo])))))))))"

section \<open>Arithmetic in 256 bits\<close>

lemma u256_to_amount_Some: "u256_to_amount v = Some a \<longleftrightarrow> uint v = uint a"
proof -
  have max: "uint (ucast (- 1 :: u128) :: u256) = 2 ^ 128 - 1"
    by (simp add: unsigned_minus_1_eq_mask mask_eq_exp_minus_1)
  have "uint (ucast v :: u128) = uint v mod 2 ^ 128"
    by (simp add: unsigned_ucast_eq take_bit_eq_mod)
  moreover have "uint a < 2 ^ 128" using uint_lt2p [of a] by simp
  moreover have "v \<le> ucast (- 1 :: u128) \<longleftrightarrow> uint v < 2 ^ 128" unfolding word_le_def max by auto
  ultimately show ?thesis
    by (auto simp: u256_to_amount_def word_uint_eq_iff mod_pos_pos_trivial split: if_splits)
qed

lemma u256_to_amount_ex:
  assumes "uint v \<le> uint (a :: amount)"
  obtains b where "u256_to_amount v = Some b" "uint b = uint v"
  using int_below_word [OF uint_ge_0 assms] that by (auto simp: u256_to_amount_Some)

lemma share_le:
  fixes x :: int
  assumes "0 \<le> x" "s \<le> p" "0 < p"
  shows "x * s div p \<le> x"
proof -
  have "x * s div p \<le> x * p div p" using assms by (intro zdiv_mono1 mult_left_mono) auto
  then show ?thesis using assms by simp
qed

lemma share_nonneg: "0 \<le> x \<Longrightarrow> 0 \<le> s \<Longrightarrow> 0 < p \<Longrightarrow> 0 \<le> x * s div (p :: int)"
  by (simp add: pos_imp_zdiv_nonneg_iff)

text \<open>The reward of the staker as a number: the cost, a share by the balances, and the margin of the rest.\<close>

definition staker_share :: "int \<Rightarrow> int \<Rightarrow> int \<Rightarrow> int \<Rightarrow> int \<Rightarrow> int" where
  "staker_share reward pool staker cost margin =
     (if cost \<le> reward then
        (let rest = reward - cost; own = rest * staker div pool in cost + own + (rest - own) * margin div 1000)
      else reward)"

lemma staker_share_bounds:
  assumes "0 \<le> staker" "staker \<le> pool" "0 < pool" "0 \<le> margin" "margin \<le> 1000" "0 \<le> reward" "0 \<le> cost"
  shows "0 \<le> staker_share reward pool staker cost margin" "staker_share reward pool staker cost margin \<le> reward"
proof -
  have "0 \<le> (reward - cost) * staker div pool \<and> (reward - cost) * staker div pool \<le> reward - cost" if "cost \<le> reward"
    using share_le [of "reward - cost" staker pool] share_nonneg [of "reward - cost" staker pool] assms that by simp
  moreover have "0 \<le> x * margin div 1000 \<and> x * margin div 1000 \<le> x" if "0 \<le> x" for x
    using share_le [of x margin 1000] share_nonneg [of x margin 1000] assms that by simp
  ultimately have *: "cost \<le> reward \<Longrightarrow> let own = (reward - cost) * staker div pool; m = (reward - cost - own) * margin div 1000 in
      0 \<le> own \<and> own \<le> reward - cost \<and> 0 \<le> m \<and> m \<le> reward - cost - own" by (simp add: Let_def)
  show "0 \<le> staker_share reward pool staker cost margin" "staker_share reward pool staker cost margin \<le> reward"
    using * assms by (auto simp: staker_share_def Let_def)
qed

lemma rate_256:
  fixes d s p :: amount
  assumes "uint s \<le> uint p" "0 < uint p"
  obtains n q r where "checked_mul_u (ucast d :: u256) (ucast s) = Some n" "checked_div_u n (ucast p) = Some q"
    "u256_to_amount q = Some r" "uint r = uint d * uint s div uint p" "uint r \<le> uint d"
proof -
  obtain n where n: "checked_mul_u (ucast d :: u256) (ucast s) = Some n" "uint n = uint d * uint s"
    using product_256 by blast
  have "(ucast p :: u256) \<noteq> 0" using assms(2) by (auto simp: word_uint_eq_iff)
  then obtain q where q: "checked_div_u n (ucast p) = Some q" "uint q = uint d * uint s div uint p"
    using n by (cases "checked_div_u n (ucast p)") (auto simp: checked_simps)
  have "uint q \<le> uint d" using share_le [of "uint d" "uint s" "uint p"] assms q by simp
  then obtain r where "u256_to_amount q = Some r" "uint r = uint q" by (rule u256_to_amount_ex)
  with that n q \<open>uint q \<le> uint d\<close> show thesis by simp
qed

lemma margin_256:
  fixes d :: amount and m :: u16
  assumes "uint m \<le> 1000"
  obtains n q r where "checked_mul_u (ucast d :: u256) (ucast m) = Some n" "checked_div_u n 1000 = Some q"
    "u256_to_amount q = Some r" "uint r = uint d * uint m div 1000" "uint r \<le> uint d"
proof -
  have m: "uint (ucast m :: u128) = uint m" "(ucast (ucast m :: u128) :: u256) = ucast m"
    by (simp_all add: uint_up_ucast is_up word_uint_eq_iff)
  obtain n q r where "checked_mul_u (ucast d :: u256) (ucast (ucast m :: u128)) = Some n"
    "checked_div_u n (ucast (1000 :: u128)) = Some q" "u256_to_amount q = Some r"
    "uint r = uint d * uint (ucast m :: u128) div uint (1000 :: u128)" "uint r \<le> uint d"
    using rate_256 [of "ucast m" 1000 d] assms m(1) by auto
  with that show thesis by (simp add: m)
qed

lemma amount_difference:
  assumes "uint b \<le> uint a"
  obtains c where "amount_sub a b = Some c" "uint c = uint a - uint b"
  using assms by (cases "amount_sub a b") (auto simp: amount_sub_def checked_simps)

lemma amount_total:
  assumes "uint a + uint b \<le> uint (l :: amount)"
  obtains c where "amount_add a b = Some c" "uint c = uint a + uint b"
  using assms uint_lt2p [of l] by (cases "amount_add a b") (auto simp: amount_add_def checked_simps)

text \<open>
  The reward of the staker in the second version never fails for a pool with a positive balance that holds
  the staker's, and a margin of at most 1000 per thousand: it is the cost per block, the staker's share of the
  rest by the balances, and the margin of what is left, and it is never more than the whole reward.
\<close>

theorem staker_reward_v1_exact:
  assumes "staker_bal \<le> pool_balance" "0 < pool_balance" "per_thousand_value mpt \<le> 1000"
  shows "\<exists>r. calculate_staker_reward_v1 reward pool_balance staker_bal cost mpt pool = Ok r \<and> r \<le> reward \<and>
    uint r = staker_share (uint reward) (uint pool_balance) (uint staker_bal) (uint cost) (uint (per_thousand_value mpt))"
proof (cases "amount_sub reward cost")
  case None
  then have "uint reward < uint cost" by (simp add: amount_sub_def checked_simps)
  then show ?thesis using assms None
    by (simp add: calculate_staker_reward_v1_def and_then_def ensure_def amount_zero_def staker_share_def)
next
  case (Some d)
  have bounds: "uint staker_bal \<le> uint pool_balance" "0 < uint pool_balance" "uint (per_thousand_value mpt) \<le> 1000"
    using assms by (auto simp: word_le_def word_less_def)
  have d: "uint d = uint reward - uint cost" using Some by (simp add: amount_sub_def checked_simps)
  obtain n q pr where pr: "checked_mul_u (ucast d :: u256) (ucast staker_bal) = Some n" "checked_div_u n (ucast pool_balance) = Some q"
      "u256_to_amount q = Some pr" "uint pr = uint d * uint staker_bal div uint pool_balance" "uint pr \<le> uint d"
    using bounds(1,2) by (rule rate_256)
  obtain dr where dr: "amount_sub d pr = Some dr" "uint dr = uint d - uint pr"
    using pr(5) by (rule amount_difference)
  obtain n' q' mr where mr: "checked_mul_u (ucast dr :: u256) (ucast (per_thousand_value mpt)) = Some n'"
      "checked_div_u n' 1000 = Some q'" "u256_to_amount q' = Some mr"
      "uint mr = uint dr * uint (per_thousand_value mpt) div 1000" "uint mr \<le> uint dr"
    using bounds(3) by (rule margin_256)
  obtain v where v: "amount_add mr pr = Some v" "uint v = uint mr + uint pr"
    using amount_total [of mr pr d] mr(5) dr(2) by auto
  obtain r where r: "amount_add v cost = Some r" "uint r = uint v + uint cost"
    using amount_total [of v cost reward] v(2) mr(5) dr(2) d by auto
  have "uint cost \<le> uint reward" using d uint_ge_0 [of d] by linarith
  then have "uint r = staker_share (uint reward) (uint pool_balance) (uint staker_bal) (uint cost) (uint (per_thousand_value mpt))"
    using r(2) v(2) mr(4) dr(2) pr(4) d by (simp add: staker_share_def Let_def)
  moreover have "r \<le> reward" using r(2) v(2) mr(5) dr(2) d by (simp add: word_le_def)
  ultimately show ?thesis using assms Some pr dr mr v r
    by (simp add: calculate_staker_reward_v1_def and_then_def ensure_def ok_or_def amount_zero_def)
qed

section \<open>The rewards of the delegations\<close>

lemma amount_sum_uint: "amount_sum xs = Some a \<longleftrightarrow> uint a = (\<Sum>x\<leftarrow>xs. uint x)"
  by (simp add: amount_sum_def amount_try_fold_Some amount_zero_def)

lemma delegation_reward_exact:
  assumes "uint balance \<le> uint total_balance" "total_balance \<noteq> 0"
  obtains r where "delegation_reward pool total_balance reward (deleg, balance) = Ok (deleg, r)"
    "uint r = uint reward * uint balance div uint total_balance"
proof -
  have "0 < uint total_balance" using assms(2) by (simp add: word_neq_0_conv word_less_def)
  from rate_256 [OF assms(1) this, of reward] obtain n q r where
    "checked_mul_u (ucast reward :: u256) (ucast balance) = Some n" "checked_div_u n (ucast total_balance) = Some q"
    "u256_to_amount q = Some r" and r: "uint r = uint reward * uint balance div uint total_balance" by blast
  then have "delegation_reward pool total_balance reward (deleg, balance) = Ok (deleg, r)"
    by (simp add: delegation_reward_def and_then_def ok_or_def)
  with r that show thesis by blast
qed

lemma floors_below:
  fixes t b :: int
  assumes "0 < b" "0 \<le> t"
  shows "b * (\<Sum>x\<leftarrow>xs. t * x div b) \<le> t * sum_list xs \<and> t * sum_list xs \<le> b * (\<Sum>x\<leftarrow>xs. t * x div b) + b * int (length xs) - int (length xs)"
proof (induction xs)
  case (Cons x xs)
  have "b * (t * x div b) \<le> t * x" "t * x \<le> b * (t * x div b) + b - 1"
    using assms(1) by (simp_all add: minus_mod_eq_mult_div [symmetric])
  with Cons show ?case by (simp add: algebra_simps)
qed simp

lemma member_le_total: "x \<in> set xs \<Longrightarrow> uint x \<le> (\<Sum>x\<leftarrow>xs. uint (x :: amount))"
  by (rule member_le_sum_list) auto

lemma rewards_exact:
  assumes "\<forall>(i, b)\<in>set shares. uint b \<le> uint total_balance" "total_balance \<noteq> 0"
  shows "\<exists>rewards. calculate_rewards_per_delegation shares pool total_balance reward = Ok rewards \<and>
    map (\<lambda>(i, r). (i, uint r)) rewards = map (\<lambda>(i, b). (i, uint reward * uint b div uint total_balance)) shares"
proof -
  have "\<exists>rewards. collect_each (delegation_reward pool total_balance reward) shares = Ok rewards \<and>
      map (\<lambda>(i, r). (i, uint r)) rewards = map (\<lambda>(i, b). (i, uint reward * uint b div uint total_balance)) shares"
    using assms(1)
  proof (induction shares)
    case (Cons s shares)
    obtain i b where s: "s = (i, b)" by (cases s)
    obtain r where "delegation_reward pool total_balance reward (i, b) = Ok (i, r)"
        "uint r = uint reward * uint b div uint total_balance"
      using Cons.prems assms(2) by (auto simp: s elim: delegation_reward_exact)
    with Cons show ?case by (auto simp: s and_then_def)
  qed simp
  then show ?thesis
    using assms(2) by (simp add: calculate_rewards_per_delegation_def and_then_def ensure_def amount_zero_def)
qed

text \<open>
  C24: The reward of the delegations is divided by their balances: each gets its proportional part rounded
  down, the parts together are at most the reward, and what the rounding leaves over is fewer atoms than
  there are delegations.
\<close>

theorem delegation_rewards_proportional:
  assumes "amount_sum (map snd shares) = Some total_balance" "total_balance \<noteq> 0"
  shows "\<exists>rewards. calculate_rewards_per_delegation shares pool total_balance reward = Ok rewards \<and>
    map (\<lambda>(i, r). (i, uint r)) rewards = map (\<lambda>(i, b). (i, uint reward * uint b div uint total_balance)) shares \<and>
    (\<Sum>(i, r)\<leftarrow>rewards. uint r) \<le> uint reward \<and>
    uint reward - (\<Sum>(i, r)\<leftarrow>rewards. uint r) < int (length shares)"
proof -
  define T where "T = uint total_balance"
  have sum: "T = (\<Sum>b\<leftarrow>map snd shares. uint b)" and pos: "0 < T"
    using assms uint_ge_0 [of total_balance]
    by (auto simp: T_def amount_sum_uint word_uint_eq_iff order_less_le)
  have "\<forall>(i, b)\<in>set shares. uint b \<le> uint total_balance"
    using member_le_total [of _ "map snd shares"] sum by (force simp: T_def)
  then obtain rewards where r: "calculate_rewards_per_delegation shares pool total_balance reward = Ok rewards"
      "map (\<lambda>(i, r). (i, uint r)) rewards = map (\<lambda>(i, b). (i, uint reward * uint b div uint total_balance)) shares"
    using rewards_exact [OF _ assms(2)] by blast
  define S where "S = (\<Sum>(i, r)\<leftarrow>rewards. uint r)"
  have "map (\<lambda>(i, r). uint r) rewards = map (\<lambda>x. uint reward * x div T) (map (uint \<circ> snd) shares)"
    using arg_cong [OF r(2), of "map snd"] by (simp add: T_def comp_def case_prod_unfold)
  then have "S = (\<Sum>x\<leftarrow>map (uint \<circ> snd) shares. uint reward * x div T)" by (simp add: S_def)
  with floors_below [OF pos, of "uint reward" "map (uint \<circ> snd) shares"] sum
  have below: "T * S \<le> T * uint reward"
    "uint reward * T \<le> T * S + T * int (length shares) - int (length shares)"
    by (simp_all add: comp_def mult.commute)
  have "shares \<noteq> []" using sum pos by auto
  then have "0 < int (length shares)" by simp
  with below(2) have "T * (uint reward - S) < T * int (length shares)"
    unfolding right_diff_distrib mult.commute [of T "uint reward"] by linarith
  with below(1) pos have "S \<le> uint reward" "uint reward - S < int (length shares)"
    by (simp_all only: mult_le_cancel_left_pos mult_less_cancel_left_pos)
  with r show ?thesis unfolding S_def by blast
qed

theorem delegation_rewards_proportional_witness:
  "\<exists>rewards. calculate_rewards_per_delegation [(1, 2), (2, 5)] 9 7 10 = Ok rewards \<and>
     map (\<lambda>(i, r). (i, uint r)) rewards = [(1, 2), (2, 7)] \<and> (\<Sum>(i, r)\<leftarrow>rewards. uint r) \<le> 10"
proof -
  have "amount_sum (map snd [(1 :: delegation_id, 2), (2, 5)]) = Some 7" by code_simp
  from delegation_rewards_proportional [OF this, of 9 10] show ?thesis by auto
qed

section \<open>The whole reward\<close>

lemma adapter_op_result:
  assumes "adapter_op src m a = (Ok u, a')"
  shows "\<exists>c. m (pos_delta_new (pos_delta_view (accounting_delta a))) = (Ok u, c)"
  using assms by (auto simp: adapter_op_def op_simps result_simps split: prod.splits)

lemma adapter_delegate_undo: "adapter_delegate_staking src i r a = (Ok u, a') \<Longrightarrow> u = DelegateStakingUndo i r"
  by (auto simp: adapter_delegate_staking_def delegate_staking_Ok dest!: adapter_op_result)

lemma adapter_increase_undo:
  "adapter_increase_staker_rewards src pool s a = (Ok u, a') \<Longrightarrow> \<exists>d. u = IncreaseStakerRewardsUndo pool s d"
  by (auto simp: adapter_increase_staker_rewards_def increase_staker_rewards_Ok dest!: adapter_op_result)

lemma delegate_all_undos:
  "mapS (\<lambda>(i, r). reward_pos (adapter_delegate_staking src i r)) xs a = (Ok us, a') \<Longrightarrow>
     us = map (\<lambda>(i, r). DelegateStakingUndo i r) xs"
  by (induction xs arbitrary: a us) (auto simp: op_simps dest: adapter_delegate_undo)

lemma sum_positive: "(\<Sum>(i, r)\<leftarrow>filter (\<lambda>(_, r). 0 < r) xs. uint r) = (\<Sum>r\<leftarrow>map snd xs. uint (r :: amount))"
  by (induction xs) (auto simp: word_gt_0)

lemma distribute_delegations_total:
  assumes "distribute_delegations_pos_reward src shares block pool total_balance reward a = (Ok (us, rest), a')"
  shows "\<exists>rs. us = map (\<lambda>(i, r). DelegateStakingUndo i r) rs \<and> (\<Sum>(i, r)\<leftarrow>rs. uint r) + uint rest = uint reward"
proof -
  from assms obtain rewards a1 s where "mapS (\<lambda>(i, r). reward_pos (adapter_delegate_staking src i r))
      (filter (\<lambda>(_, r). amount_zero < r) rewards) a1 = (Ok us, a')"
    and "amount_sum (map snd rewards) = Some s" "amount_sub reward s = Some rest"
    by (auto simp: distribute_delegations_pos_reward_def op_simps ok_or_eq)
  then show ?thesis
    by (intro exI [of _ "filter (\<lambda>(_, r). 0 < r) rewards"])
      (auto simp: delegate_all_undos sum_positive amount_sum_uint amount_sub_def checked_simps amount_zero_def)
qed

text \<open>
  C8: A distribution that succeeds gives out the reward of the block exactly, whatever the version and the
  rounding: the amounts that are delegated and the amount that goes to the staker of the pool add up to
  the reward.
\<close>

theorem reward_fully_distributed:
  assumes "distribute_pos_reward src block pool reward version a = (Ok undos, a')"
  shows "\<exists>rs s d. undos = map (\<lambda>(i, r). DelegateStakingUndo i r) rs @ [IncreaseStakerRewardsUndo pool s d] \<and>
    (\<Sum>(i, r)\<leftarrow>rs. uint r) + uint s = uint reward"
proof -
  from assms obtain staker rest us unalloc total u a1 a2 where
    rest: "amount_sub reward staker = Some rest" and total: "amount_add staker unalloc = Some total"
    and inc: "adapter_increase_staker_rewards src pool total a2 = (Ok u, a')" and undos: "undos = us @ [u]"
    and d: "us = [] \<and> unalloc = rest \<or>
      (\<exists>shares tb. distribute_delegations_pos_reward src shares block pool tb rest a1 = (Ok (us, unalloc), a2))"
    by (auto simp: distribute_pos_reward_def op_simps ok_or_eq amount_zero_def word_gt_0
        split: if_splits option.splits) blast+
  have "\<exists>rs. us = map (\<lambda>(i, r). DelegateStakingUndo i r) rs \<and> (\<Sum>(i, r)\<leftarrow>rs. uint r) + uint unalloc = uint rest"
    using d distribute_delegations_total by force
  then show ?thesis
    using adapter_increase_undo [OF inc] rest total undos
    by (auto simp: amount_sub_def amount_add_def checked_simps)
qed

theorem reward_fully_distributed_witness:
  "\<exists>undos a' rs s d. distribute_pos_reward (FromChain 3) 3 1 50 RewardDistributionV1
       (pos_adapter_new (pos_delta_view pos_sample)) = (Ok undos, a') \<and>
     undos = map (\<lambda>(i, r). DelegateStakingUndo i r) rs @ [IncreaseStakerRewardsUndo 1 s d] \<and>
     (\<Sum>(i, r)\<leftarrow>rs. uint r) + uint s = 50"
proof -
  let ?m = "distribute_pos_reward (FromChain 3) 3 1 50 RewardDistributionV1
    (pos_adapter_new (pos_delta_view pos_sample))"
  have "is_ok (fst ?m)" by code_simp
  then obtain undos a' where m: "?m = (Ok undos, a')" by (auto simp: is_ok_iff) (metis prod.collapse)
  from reward_fully_distributed [OF m] m show ?thesis by auto
qed

end
