(* ===== verification/Signatures.thy ===== *)
theory Signatures
  imports Chain_Config
begin

text \<open>
  Witnesses of inputs and what they sign (\<open>common/src/chain/transaction/signature\<close>): the parts of a
  transaction a signature hash commits to, the commitments to spent outputs and account states, and the
  verification and production of signatures for a public key, a public key hash and a classical multisig
  challenge. The signature scheme, the hash functions and the binary codec are third-party code: they are
  the fields of a record that the operations take as an argument. A message is the hash it encodes.
\<close>

section \<open>Signature hash types\<close>

datatype sig_hash_type = SigHashType (sig_hash_byte: u8)

definition SIGHASH_ALL :: u8 where "SIGHASH_ALL = 0x01"
definition SIGHASH_NONE :: u8 where "SIGHASH_NONE = 0x02"
definition SIGHASH_SINGLE :: u8 where "SIGHASH_SINGLE = 0x03"
definition ANYONECANPAY :: u8 where "ANYONECANPAY = 0x80"
definition MASK_OUT :: u8 where "MASK_OUT = 0x7f"
definition MASK_IN :: u8 where "MASK_IN = 0x80"

datatype inputs_mode = CommitWhoPays | AnyoneCanPay

datatype outputs_mode = CommitAllOutputs | CommitNoOutputs | CommitSingleOutput

definition sighash_all :: sig_hash_type where
  "sighash_all = SigHashType SIGHASH_ALL"

definition inputs_mode :: "sig_hash_type \<Rightarrow> inputs_mode" where
  "inputs_mode m = (if and (sig_hash_byte m) MASK_IN = ANYONECANPAY then AnyoneCanPay else CommitWhoPays)"

definition outputs_mode :: "sig_hash_type \<Rightarrow> outputs_mode" where
  "outputs_mode m = (let masked = and (sig_hash_byte m) MASK_OUT in
     if masked = SIGHASH_NONE then CommitNoOutputs
     else if masked = SIGHASH_SINGLE then CommitSingleOutput
     else CommitAllOutputs)"

section \<open>Classical multisig challenges\<close>

type_synonym signature = "u8 list"

record classic_multisig_challenge =
  min_required_signatures :: u8
  challenge_public_keys :: "public_key list"

datatype classic_multisig_challenge_error =
    TooManyPublicKeys nat nat
  | MoreRequiredSignaturesThanPublicKeys u8 nat
  | EmptyPublicKeys
  | MinRequiredSignaturesIsZero

definition challenge_is_valid ::
    "chain_config \<Rightarrow> classic_multisig_challenge \<Rightarrow> classic_multisig_challenge_error + unit" where
  "challenge_is_valid cfg c =
     (let keys = length (challenge_public_keys c) in
      if challenge_public_keys c = [] then Err EmptyPublicKeys
      else if max_classic_multisig_public_keys_count cfg < keys then
        Err (TooManyPublicKeys keys (max_classic_multisig_public_keys_count cfg))
      else if min_required_signatures c = 0 then Err MinRequiredSignaturesIsZero
      else if keys < unat (min_required_signatures c) then
        Err (MoreRequiredSignaturesThanPublicKeys (min_required_signatures c) keys)
      else Ok ())"

text \<open>A challenge is built from a nonzero number of signatures.\<close>

definition challenge_new ::
    "chain_config \<Rightarrow> u8 \<Rightarrow> public_key list \<Rightarrow> classic_multisig_challenge_error + classic_multisig_challenge" where
  "challenge_new cfg required keys =
     (let res = \<lparr> min_required_signatures = required, challenge_public_keys = keys \<rparr> in
      and_then (challenge_is_valid cfg res) (\<lambda>_. Ok res))"

text \<open>The signatures are kept by the index of the public key they are for.\<close>

record authorized_classical_multisig_spend =
  ms_signatures :: "(u8, signature) btree_map"
  ms_challenge :: classic_multisig_challenge

definition multisig_new_empty :: "classic_multisig_challenge \<Rightarrow> authorized_classical_multisig_spend" where
  "multisig_new_empty c = \<lparr> ms_signatures = fmempty, ms_challenge = c \<rparr>"

definition available_signatures_count :: "authorized_classical_multisig_spend \<Rightarrow> nat" where
  "available_signatures_count s = length (btree_iter (ms_signatures s))"

definition ms_add_signature ::
    "u8 \<Rightarrow> signature \<Rightarrow> authorized_classical_multisig_spend \<Rightarrow> authorized_classical_multisig_spend" where
  "ms_add_signature i sig s = s\<lparr> ms_signatures := fmupd i sig (ms_signatures s) \<rparr>"

section \<open>Errors\<close>

datatype multisig_structure_error =
    Overconstrained nat nat
  | InvalidChallenge classic_multisig_challenge_error
  | InvalidMultisigSignatureIndex

datatype multisig_signing_error =
    AttemptedToSignClassicalMultisigWithInvalidChallenge classic_multisig_challenge_error
  | ClassicalMultisigIndexAlreadyExists u8
  | AttemptedToSignAlreadyCompleteClassicalMultisig
  | InvalidClassicalMultisigKeyIndex u8 nat
  | AttemptedToSignClassicalMultisigWithPreExistingInvalidSignature
  | SpendeePrivateChallengePublicKeyMismatch
  | MultisigProducingSignatureFailed
  | MultisigStructure multisig_structure_error

datatype destination_sig_error =
    InvalidSigHashValue u8
  | InvalidInputIndex nat nat
  | InvalidInputCommitmentsCountVsInputs nat nat
  | InvalidSignatureIndex nat nat
  | SigHashRequestWithoutInputs
  | SignatureVerificationWithoutInputs
  | DecodingWitnessFailed
  | SignatureVerificationFailed
  | PublicKeyToHashMismatch
  | AddressAuthDecodingFailed
  | InvalidSignatureEncoding
  | SignatureNotFound
  | SignatureNotNeeded
  | ProducingSignatureFailed
  | SpendeePrivatePublicKeyMismatch
  | AttemptedToVerifyStandardSignatureForAnyoneCanSpend
  | AttemptedToProduceSignatureForAnyoneCanSpend
  | AttemptedToProduceClassicalMultisigSignatureInUnipartySignatureCode
  | InvalidClassicalMultisig multisig_structure_error
  | IncompleteClassicalMultisigSignature u8 u8
  | InvalidClassicalMultisigSignature
  | ClassicalMultisigWitnessHashMismatch
  | InvalidClassicalMultisigAuthorization
  | IncompleteClassicalMultisigAuthorization
  | UnsupportedDestination

definition sig_hash_type_try_from :: "u8 \<Rightarrow> destination_sig_error + sig_hash_type" where
  "sig_hash_type_try_from b =
     (if and b MASK_OUT \<in> set [SIGHASH_ALL, SIGHASH_NONE, SIGHASH_SINGLE] then Ok (SigHashType b)
      else Err (InvalidSigHashValue b))"

section \<open>Witnesses\<close>

record standard_input_signature =
  sighash_type :: sig_hash_type
  raw_signature :: "u8 list"

datatype input_witness = NoSignature "u8 list option" | StandardSignature standard_input_signature

text \<open>A witness from which additional data has been taken out: the raw signature is only a signature.\<close>

datatype evaluated_input_witness =
    EvaluatedNoSignature "u8 list option"
  | EvaluatedStandard standard_input_signature

type_synonym htlc_secret = "u8 list"

datatype authorized_htlc_spend = HtlcSpend htlc_secret "u8 list" | HtlcRefund "u8 list"

section \<open>Signed transactions\<close>

record signed_transaction =
  stx_transaction :: transaction
  stx_signatures :: "input_witness list"

datatype transaction_creation_error = TransactionInvalidWitnessCount

definition signed_transaction_new ::
    "transaction \<Rightarrow> input_witness list \<Rightarrow> transaction_creation_error + signed_transaction" where
  "signed_transaction_new tx signatures =
     and_then (ensure (length signatures = length (tx_inputs tx)) TransactionInvalidWitnessCount) (\<lambda>_.
     Ok \<lparr> stx_transaction = tx, stx_signatures = signatures \<rparr>)"

text \<open>What can be signed (\<open>Signable\<close>), and the signatures that come with it (\<open>Transactable\<close>).\<close>

record signable =
  sg_inputs :: "tx_input list option"
  sg_outputs :: "tx_output list option"
  sg_version_byte :: "u8 option"
  sg_flags :: "u128 option"

record transactable = signable +
  tr_signatures :: "input_witness option list"

definition signable_of_transaction :: "transaction \<Rightarrow> signable" where
  "signable_of_transaction tx = \<lparr> sg_inputs = Some (tx_inputs tx), sg_outputs = Some (tx_outputs tx),
     sg_version_byte = Some 1, sg_flags = Some (tx_flags tx) \<rparr>"

definition transactable_of_signed :: "signed_transaction \<Rightarrow> transactable" where
  "transactable_of_signed stx = signable.extend (signable_of_transaction (stx_transaction stx))
     (transactable.fields (map Some (stx_signatures stx)))"

definition transactable_of_reward ::
    "block_reward_transactable \<Rightarrow> input_witness list option \<Rightarrow> transactable" where
  "transactable_of_reward reward witness = \<lparr> sg_inputs = reward_tx_inputs reward,
     sg_outputs = reward_tx_outputs reward, sg_version_byte = None, sg_flags = None,
     tr_signatures = (case witness of Some w \<Rightarrow> map Some w | None \<Rightarrow> []) \<rparr>"

section \<open>Commitments to inputs\<close>

datatype sighash_input_commitment =
    CommitNone
  | CommitUtxo tx_output
  | CommitProduceBlockFromStakeUtxo tx_output amount
  | CommitFillOrderAccountCommand output_value output_value
  | CommitConcludeOrderAccountCommand output_value output_value amount amount

datatype ('u, 'p, 'o) commitment_creation_error =
    UtxoProviderError 'u nat
  | PoolInfoProviderError 'p nat
  | OrderInfoProviderError 'o nat
  | NonUtxoKernelInput tx_input nat
  | CommitmentUtxoNotFound utxo_outpoint nat
  | CommitmentPoolNotFound pool_id nat
  | CommitmentOrderNotFound order_id nat

datatype pool_info = PoolInfo (pi_staker_balance: amount)

record order_info =
  oi_initially_asked :: output_value
  oi_initially_given :: output_value
  oi_ask_balance :: amount
  oi_give_balance :: amount

record ('u, 'p, 'o) info_providers =
  ip_get_utxo :: "nat \<Rightarrow> utxo_outpoint \<Rightarrow> 'u + tx_output option"
  ip_get_pool_info :: "pool_id \<Rightarrow> 'p + pool_info option"
  ip_get_order_info :: "order_id \<Rightarrow> 'o + order_info option"

definition utxo_getter :: "('u, 'p, 'o) info_providers \<Rightarrow> utxo_outpoint \<Rightarrow> nat \<Rightarrow>
    ('u, 'p, 'o) commitment_creation_error + tx_output" where
  "utxo_getter ip outpoint idx =
     and_then (map_err (\<lambda>e. UtxoProviderError e idx) (ip_get_utxo ip idx outpoint)) (\<lambda>u.
     ok_or u (CommitmentUtxoNotFound outpoint idx))"

definition pool_info_getter :: "('u, 'p, 'o) info_providers \<Rightarrow> pool_id \<Rightarrow> nat \<Rightarrow>
    ('u, 'p, 'o) commitment_creation_error + pool_info" where
  "pool_info_getter ip pool idx =
     and_then (map_err (\<lambda>e. PoolInfoProviderError e idx) (ip_get_pool_info ip pool)) (\<lambda>p.
     ok_or p (CommitmentPoolNotFound pool idx))"

definition order_info_getter :: "('u, 'p, 'o) info_providers \<Rightarrow> order_id \<Rightarrow> nat \<Rightarrow>
    ('u, 'p, 'o) commitment_creation_error + order_info" where
  "order_info_getter ip order idx =
     and_then (map_err (\<lambda>e. OrderInfoProviderError e idx) (ip_get_order_info ip order)) (\<lambda>o'.
     ok_or o' (CommitmentOrderNotFound order idx))"

definition kernel_input_commitments :: "tx_input list \<Rightarrow> ('u, 'p, 'o) info_providers \<Rightarrow>
    ('u, 'p, 'o) commitment_creation_error + sighash_input_commitment list" where
  "kernel_input_commitments kernel_inputs ip =
     collect_each (\<lambda>(idx, input). case input of
         UtxoInput outpoint \<Rightarrow> and_then (utxo_getter ip outpoint idx) (\<lambda>u. Ok (CommitUtxo u))
       | _ \<Rightarrow> Err (NonUtxoKernelInput input idx)) (enumerated kernel_inputs)"

definition input_commitment_v1 :: "('u, 'p, 'o) info_providers \<Rightarrow> nat \<times> tx_input \<Rightarrow>
    ('u, 'p, 'o) commitment_creation_error + sighash_input_commitment" where
  "input_commitment_v1 ip = (\<lambda>(idx, input).
     let fill = (\<lambda>order. and_then (order_info_getter ip order idx) (\<lambda>info.
           Ok (CommitFillOrderAccountCommand (oi_initially_asked info) (oi_initially_given info))));
         conclude = (\<lambda>order. and_then (order_info_getter ip order idx) (\<lambda>info.
           Ok (CommitConcludeOrderAccountCommand (oi_initially_asked info) (oi_initially_given info)
             (oi_ask_balance info) (oi_give_balance info)))) in
     case input of
       UtxoInput outpoint \<Rightarrow>
         and_then (utxo_getter ip outpoint idx) (\<lambda>u. case u of
             ProduceBlockFromStake _ pool \<Rightarrow>
               and_then (pool_info_getter ip pool idx) (\<lambda>info.
               Ok (CommitProduceBlockFromStakeUtxo u (pi_staker_balance info)))
           | _ \<Rightarrow> Ok (CommitUtxo u))
     | AccountInput _ \<Rightarrow> Ok CommitNone
     | AccountCommandInput _ command \<Rightarrow> (case command of
           ConcludeOrder order \<Rightarrow> conclude order
         | FillOrder order _ _ \<Rightarrow> fill order
         | _ \<Rightarrow> Ok CommitNone)
     | OrderAccountCommandInput command \<Rightarrow> (case command of
           FillOrderV1 order _ \<Rightarrow> fill order
         | ConcludeOrderV1 order \<Rightarrow> conclude order
         | FreezeOrder _ \<Rightarrow> Ok CommitNone))"

text \<open>The first version makes the queries of the second one too.\<close>

definition input_commitment_v0 :: "('u, 'p, 'o) info_providers \<Rightarrow> nat \<times> tx_input \<Rightarrow>
    ('u, 'p, 'o) commitment_creation_error + sighash_input_commitment" where
  "input_commitment_v0 ip = (\<lambda>(idx, input).
     and_then (input_commitment_v1 ip (idx, input)) (\<lambda>_.
     case input of
       UtxoInput outpoint \<Rightarrow> and_then (utxo_getter ip outpoint idx) (\<lambda>u. Ok (CommitUtxo u))
     | _ \<Rightarrow> Ok CommitNone))"

definition transaction_input_commitments :: "tx_input list \<Rightarrow> ('u, 'p, 'o) info_providers \<Rightarrow>
    sighash_input_commitment_version \<Rightarrow>
    ('u, 'p, 'o) commitment_creation_error + sighash_input_commitment list" where
  "transaction_input_commitments inputs ip version = (case version of
      SighashInputCommitmentV0 \<Rightarrow> collect_each (input_commitment_v0 ip) (enumerated inputs)
    | SighashInputCommitmentV1 \<Rightarrow> collect_each (input_commitment_v1 ip) (enumerated inputs))"

definition transaction_input_commitments_at_height :: "tx_input list \<Rightarrow> ('u, 'p, 'o) info_providers \<Rightarrow>
    chain_config \<Rightarrow> block_height \<Rightarrow>
    ('u, 'p, 'o) commitment_creation_error failure + sighash_input_commitment list" where
  "transaction_input_commitments_at_height inputs ip cfg height =
     and_then (ok_or (map_option sighash_input_commitment_version (upgrade_at cfg height)) Panic) (\<lambda>version.
     map_err Fail (transaction_input_commitments inputs ip version))"

section \<open>Signature hashes\<close>

text \<open>What is written to the hash stream, in the order of writing; every item stands for its encoding.\<close>

datatype sighash_item =
    HashMode u8
  | HashVersion u8
  | HashFlags u128
  | HashCount u32
  | HashInput tx_input
  | HashCommitment sighash_input_commitment
  | HashOutputs "tx_output list"
  | HashOutput tx_output

definition inputs_signature_hash :: "tx_input list \<Rightarrow> sighash_input_commitment list \<Rightarrow> sig_hash_type \<Rightarrow>
    tx_input \<Rightarrow> nat \<Rightarrow> destination_sig_error + sighash_item list" where
  "inputs_signature_hash inputs commitments mode target_input idx =
     and_then (ensure (idx < length inputs) (InvalidInputIndex idx (length inputs))) (\<lambda>_.
     Ok (case inputs_mode mode of
         CommitWhoPays \<Rightarrow>
           HashCount (of_nat (length inputs)) # map HashInput inputs @
           HashCount (of_nat (length commitments)) # map HashCommitment commitments
       | AnyoneCanPay \<Rightarrow> [HashInput target_input, HashCommitment (commitments ! idx)]))"

definition outputs_signature_hash :: "tx_output list \<Rightarrow> sig_hash_type \<Rightarrow> nat \<Rightarrow>
    destination_sig_error + sighash_item list" where
  "outputs_signature_hash outputs mode idx = (case outputs_mode mode of
      CommitAllOutputs \<Rightarrow> Ok [HashOutputs outputs]
    | CommitNoOutputs \<Rightarrow> Ok []
    | CommitSingleOutput \<Rightarrow>
        and_then (ok_or (get_index outputs idx) (InvalidInputIndex idx (length outputs))) (\<lambda>output.
        Ok [HashOutput output]))"

definition hash_if_some :: "('a \<Rightarrow> sighash_item) \<Rightarrow> 'a option \<Rightarrow> sighash_item list" where
  "hash_if_some f v = (case v of Some x \<Rightarrow> [f x] | None \<Rightarrow> [])"

definition stream_signature_hash :: "'a signable_scheme \<Rightarrow> sighash_input_commitment list \<Rightarrow> sig_hash_type \<Rightarrow>
    nat \<Rightarrow> destination_sig_error + sighash_item list" where
  "stream_signature_hash tx commitments mode idx =
     and_then (ok_or (sg_inputs tx) SigHashRequestWithoutInputs) (\<lambda>inputs.
     and_then (ok_or (get_index inputs idx) (InvalidInputIndex idx (length inputs))) (\<lambda>target_input.
     and_then (ensure (length commitments = length inputs)
       (InvalidInputCommitmentsCountVsInputs (length commitments) (length inputs))) (\<lambda>_.
     and_then (inputs_signature_hash inputs commitments mode target_input idx) (\<lambda>inputs_items.
     and_then (outputs_signature_hash (case sg_outputs tx of Some out \<Rightarrow> out | None \<Rightarrow> []) mode idx) (\<lambda>outputs_items.
     Ok (HashMode (sig_hash_byte mode) # hash_if_some HashVersion (sg_version_byte tx) @
       hash_if_some HashFlags (sg_flags tx) @ inputs_items @ outputs_items))))))"

section \<open>Third-party functions\<close>

type_synonym private_key = "u8 list"

record 'aux crypto =
  cr_finalize :: "sighash_item list \<Rightarrow> h256"
  cr_key_hash :: "public_key \<Rightarrow> public_key_hash"
  cr_challenge_hash :: "classic_multisig_challenge \<Rightarrow> public_key_hash"
  cr_verify_message :: "public_key \<Rightarrow> signature \<Rightarrow> h256 \<Rightarrow> bool"
  cr_from_private_key :: "private_key \<Rightarrow> public_key"
  cr_sign_message :: "private_key \<Rightarrow> h256 \<Rightarrow> 'aux \<Rightarrow> signature option \<times> 'aux"
  cr_encode_key_spend :: "signature \<Rightarrow> u8 list"
  cr_decode_key_spend :: "u8 list \<Rightarrow> signature option"
  cr_encode_key_hash_spend :: "public_key \<times> signature \<Rightarrow> u8 list"
  cr_decode_key_hash_spend :: "u8 list \<Rightarrow> (public_key \<times> signature) option"
  cr_encode_multisig_spend :: "authorized_classical_multisig_spend \<Rightarrow> u8 list"
  cr_decode_multisig_spend :: "u8 list \<Rightarrow> authorized_classical_multisig_spend option"
  cr_encode_htlc_spend :: "authorized_htlc_spend \<Rightarrow> u8 list"
  cr_decode_htlc_spend :: "u8 list \<Rightarrow> authorized_htlc_spend option"
  cr_hash160 :: "u8 list \<Rightarrow> htlc_secret_hash"

definition signature_hash :: "'aux crypto \<Rightarrow> sig_hash_type \<Rightarrow> 'a signable_scheme \<Rightarrow>
    sighash_input_commitment list \<Rightarrow> nat \<Rightarrow> destination_sig_error + h256" where
  "signature_hash cr mode tx commitments idx =
     and_then (stream_signature_hash tx commitments mode idx) (\<lambda>items. Ok (cr_finalize cr items))"

section \<open>Verification\<close>

definition verify_public_key_spending :: "'aux crypto \<Rightarrow> public_key \<Rightarrow> signature \<Rightarrow> h256 \<Rightarrow>
    destination_sig_error + unit" where
  "verify_public_key_spending cr spendee_pubkey spender_signature sighash =
     (if \<not> cr_verify_message cr spendee_pubkey spender_signature sighash then Err SignatureVerificationFailed
      else Ok ())"

definition verify_public_key_hash_spending :: "'aux crypto \<Rightarrow> public_key_hash \<Rightarrow> public_key \<times> signature \<Rightarrow>
    h256 \<Rightarrow> destination_sig_error + unit" where
  "verify_public_key_hash_spending cr spendee_addr = (\<lambda>(key, sig) sighash.
     if cr_key_hash cr key \<noteq> spendee_addr then Err PublicKeyToHashMismatch
     else if \<not> cr_verify_message cr key sig sighash then Err SignatureVerificationFailed
     else Ok ())"

datatype multisig_state = MultisigIncomplete nat nat | MultisigComplete nat

datatype sigs_verify_result = CompleteAndValid | SigsIncomplete | SigsInvalid

definition missing_signatures_count :: "authorized_classical_multisig_spend \<Rightarrow> int" where
  "missing_signatures_count s =
     int (unat (min_required_signatures (ms_challenge s))) - int (available_signatures_count s)"

definition check_structurally_valid :: "chain_config \<Rightarrow> authorized_classical_multisig_spend \<Rightarrow>
    multisig_structure_error + multisig_state" where
  "check_structurally_valid cfg s =
     (let keys = length (challenge_public_keys (ms_challenge s)); available = available_signatures_count s;
          required = unat (min_required_signatures (ms_challenge s)); missing = missing_signatures_count s in
      and_then (map_err InvalidChallenge (challenge_is_valid cfg (ms_challenge s))) (\<lambda>_.
      if list_ex (\<lambda>(index, _). keys \<le> unat index) (btree_iter (ms_signatures s)) then Err InvalidMultisigSignatureIndex
      else if missing < 0 then Err (Overconstrained available required)
      else if missing = 0 then Ok (MultisigComplete available)
      else Ok (MultisigIncomplete available required)))"

definition verify_signatures :: "'aux crypto \<Rightarrow> chain_config \<Rightarrow> h256 \<Rightarrow> authorized_classical_multisig_spend \<Rightarrow>
    multisig_structure_error + sigs_verify_result" where
  "verify_signatures cr cfg message s =
     and_then (check_structurally_valid cfg s) (\<lambda>_.
     let verification_result = list_all (\<lambda>(index, sig).
           cr_verify_message cr (challenge_public_keys (ms_challenge s) ! unat index) sig message)
           (btree_iter (ms_signatures s)) in
     if \<not> verification_result then Ok SigsInvalid
     else if available_signatures_count s < unat (min_required_signatures (ms_challenge s)) then Ok SigsIncomplete
     else Ok CompleteAndValid)"

definition verify_classical_multisig_spending :: "'aux crypto \<Rightarrow> chain_config \<Rightarrow> public_key_hash \<Rightarrow>
    authorized_classical_multisig_spend \<Rightarrow> h256 \<Rightarrow> destination_sig_error + unit" where
  "verify_classical_multisig_spending cr cfg challenge_hash s sighash =
     (if cr_challenge_hash cr (ms_challenge s) \<noteq> challenge_hash then Err ClassicalMultisigWitnessHashMismatch
      else
        and_then (map_err InvalidClassicalMultisig (check_structurally_valid cfg s)) (\<lambda>_.
        and_then (map_err InvalidClassicalMultisig (verify_signatures cr cfg sighash s)) (\<lambda>result.
        case result of
          CompleteAndValid \<Rightarrow> Ok ()
        | SigsIncomplete \<Rightarrow> Err (IncompleteClassicalMultisigSignature
            (min_required_signatures (ms_challenge s)) (of_nat (available_signatures_count s)))
        | SigsInvalid \<Rightarrow> Err InvalidClassicalMultisigSignature)))"

definition standard_verify_signature :: "'aux crypto \<Rightarrow> chain_config \<Rightarrow> standard_input_signature \<Rightarrow> destination \<Rightarrow>
    h256 \<Rightarrow> destination_sig_error + unit" where
  "standard_verify_signature cr cfg witness dest sighash = (case dest of
      PublicKeyHash addr \<Rightarrow>
        and_then (ok_or (cr_decode_key_hash_spend cr (raw_signature witness)) AddressAuthDecodingFailed) (\<lambda>c.
        verify_public_key_hash_spending cr addr c sighash)
    | PublicKey pubkey \<Rightarrow>
        and_then (ok_or (cr_decode_key_spend cr (raw_signature witness)) InvalidSignatureEncoding) (\<lambda>c.
        verify_public_key_spending cr pubkey c sighash)
    | ScriptHash _ \<Rightarrow> Err UnsupportedDestination
    | AnyoneCanSpend \<Rightarrow> Err AttemptedToVerifyStandardSignatureForAnyoneCanSpend
    | ClassicMultisig h \<Rightarrow>
        and_then (ok_or (cr_decode_multisig_spend cr (raw_signature witness)) InvalidSignatureEncoding) (\<lambda>c.
        verify_classical_multisig_spending cr cfg h c sighash))"

definition verify_signature :: "'aux crypto \<Rightarrow> chain_config \<Rightarrow> destination \<Rightarrow> 'a signable_scheme \<Rightarrow>
    evaluated_input_witness \<Rightarrow> sighash_input_commitment list \<Rightarrow> nat \<Rightarrow> destination_sig_error + unit" where
  "verify_signature cr cfg dest tx witness commitments idx =
     and_then (ok_or (sg_inputs tx) SignatureVerificationWithoutInputs) (\<lambda>inputs.
     and_then (ensure (idx < length inputs) (InvalidSignatureIndex idx (length inputs))) (\<lambda>_.
     case dest of
       AnyoneCanSpend \<Rightarrow> (case witness of
           EvaluatedNoSignature _ \<Rightarrow> Ok ()
         | EvaluatedStandard _ \<Rightarrow> Err SignatureNotNeeded)
     | _ \<Rightarrow> (case witness of
           EvaluatedNoSignature _ \<Rightarrow> Err SignatureNotFound
         | EvaluatedStandard w \<Rightarrow>
             and_then (signature_hash cr (sighash_type w) tx commitments idx) (\<lambda>sighash.
             standard_verify_signature cr cfg w dest sighash))))"

section \<open>Production\<close>

text \<open>The provider of auxiliary randomness is the state of the operations that sign.\<close>

definition sign_message :: "'aux crypto \<Rightarrow> 'e \<Rightarrow> private_key \<Rightarrow> h256 \<Rightarrow> ('aux, 'e, signature) op" where
  "sign_message cr e key msg aux = (case cr_sign_message cr key msg aux of (sig, aux') \<Rightarrow> (ok_or sig e, aux'))"

definition sign_public_key_spending :: "'aux crypto \<Rightarrow> private_key \<Rightarrow> public_key \<Rightarrow> h256 \<Rightarrow>
    ('aux, destination_sig_error, signature) op" where
  "sign_public_key_spending cr key spendee_pubkey sighash =
     (if spendee_pubkey \<noteq> cr_from_private_key cr key then failS SpendeePrivatePublicKeyMismatch
      else sign_message cr ProducingSignatureFailed key sighash)"

definition sign_public_key_hash_spending :: "'aux crypto \<Rightarrow> private_key \<Rightarrow> public_key_hash \<Rightarrow> h256 \<Rightarrow>
    ('aux, destination_sig_error, public_key \<times> signature) op" where
  "sign_public_key_hash_spending cr key spendee_addr sighash =
     (let public_key = cr_from_private_key cr key in
      if cr_key_hash cr public_key \<noteq> spendee_addr then failS PublicKeyToHashMismatch
      else bindS (sign_message cr ProducingSignatureFailed key sighash) (\<lambda>sig. returnS (public_key, sig)))"

definition produce_uniparty_signature_for_input :: "'aux crypto \<Rightarrow> private_key \<Rightarrow> sig_hash_type \<Rightarrow> destination \<Rightarrow>
    'a signable_scheme \<Rightarrow> sighash_input_commitment list \<Rightarrow> nat \<Rightarrow>
    ('aux, destination_sig_error, standard_input_signature) op" where
  "produce_uniparty_signature_for_input cr key mode dest tx commitments idx =
     bindS (liftS (signature_hash cr mode tx commitments idx)) (\<lambda>sighash.
     bindS (case dest of
         PublicKeyHash addr \<Rightarrow>
           bindS (sign_public_key_hash_spending cr key addr sighash) (\<lambda>s. returnS (cr_encode_key_hash_spend cr s))
       | PublicKey pubkey \<Rightarrow>
           bindS (sign_public_key_spending cr key pubkey sighash) (\<lambda>s. returnS (cr_encode_key_spend cr s))
       | ScriptHash _ \<Rightarrow> failS UnsupportedDestination
       | AnyoneCanSpend \<Rightarrow> failS AttemptedToProduceSignatureForAnyoneCanSpend
       | ClassicMultisig _ \<Rightarrow> failS AttemptedToProduceClassicalMultisigSignatureInUnipartySignatureCode) (\<lambda>raw.
     returnS \<lparr> sighash_type = mode, raw_signature = raw \<rparr>))"

definition produce_classical_multisig_signature_for_input :: "'aux crypto \<Rightarrow> chain_config \<Rightarrow>
    authorized_classical_multisig_spend \<Rightarrow> sig_hash_type \<Rightarrow> 'a signable_scheme \<Rightarrow> sighash_input_commitment list \<Rightarrow>
    nat \<Rightarrow> destination_sig_error + standard_input_signature" where
  "produce_classical_multisig_signature_for_input cr cfg authorization mode tx commitments idx =
     and_then (signature_hash cr mode tx commitments idx) (\<lambda>sighash.
     and_then (map_err InvalidClassicalMultisig (check_structurally_valid cfg authorization)) (\<lambda>_.
     and_then (map_err InvalidClassicalMultisig (verify_signatures cr cfg sighash authorization)) (\<lambda>result.
     case result of
       CompleteAndValid \<Rightarrow> Ok \<lparr> sighash_type = mode, raw_signature = cr_encode_multisig_spend cr authorization \<rparr>
     | SigsIncomplete \<Rightarrow> Err IncompleteClassicalMultisigAuthorization
     | SigsInvalid \<Rightarrow> Err InvalidClassicalMultisigAuthorization)))"

datatype multisig_completion_status =
    CompleteSpend authorized_classical_multisig_spend
  | IncompleteSpend authorized_classical_multisig_spend

definition on_structure :: "multisig_structure_error + 'a \<Rightarrow> ('aux, multisig_signing_error failure, 'a) op" where
  "on_structure r = liftS (map_err (Fail \<circ> MultisigStructure) r)"

definition sign_classical_multisig_spending :: "'aux crypto \<Rightarrow> chain_config \<Rightarrow> u8 \<Rightarrow> private_key \<Rightarrow>
    classic_multisig_challenge \<Rightarrow> h256 \<Rightarrow> authorized_classical_multisig_spend \<Rightarrow>
    ('aux, multisig_signing_error failure, multisig_completion_status) op" where
  "sign_classical_multisig_spending cr cfg key_index key challenge msg current =
     (let fail = (\<lambda>e. failS (Fail e)) in
      bindS (liftS (map_err (Fail \<circ> AttemptedToSignClassicalMultisigWithInvalidChallenge)
        (challenge_is_valid cfg challenge))) (\<lambda>_.
      if fmlookup (ms_signatures current) key_index \<noteq> None
      then fail (ClassicalMultisigIndexAlreadyExists key_index)
      else
        bindS (on_structure (check_structurally_valid cfg current)) (\<lambda>_.
        bindS (on_structure (verify_signatures cr cfg msg current)) (\<lambda>result.
        case result of
          CompleteAndValid \<Rightarrow> fail AttemptedToSignAlreadyCompleteClassicalMultisig
        | SigsInvalid \<Rightarrow> fail AttemptedToSignClassicalMultisigWithPreExistingInvalidSignature
        | SigsIncomplete \<Rightarrow>
            (case get_index (challenge_public_keys challenge) (unat key_index) of
               None \<Rightarrow> fail (InvalidClassicalMultisigKeyIndex key_index (length (challenge_public_keys challenge)))
             | Some spendee_pubkey \<Rightarrow>
                 if spendee_pubkey \<noteq> cr_from_private_key cr key then fail SpendeePrivateChallengePublicKeyMismatch
                 else
                   bindS (sign_message cr (Fail MultisigProducingSignatureFailed) key msg) (\<lambda>sig.
                   let current' = ms_add_signature key_index sig current in
                   bindS (on_structure (check_structurally_valid cfg current')) (\<lambda>_.
                   bindS (on_structure (verify_signatures cr cfg msg current')) (\<lambda>result'.
                   case result' of
                     CompleteAndValid \<Rightarrow> returnS (CompleteSpend current')
                   | SigsIncomplete \<Rightarrow> returnS (IncompleteSpend current')
                   | SigsInvalid \<Rightarrow> failS Panic))))))))"

definition produce_uniparty_signature_for_htlc_spending :: "'aux crypto \<Rightarrow> private_key \<Rightarrow> sig_hash_type \<Rightarrow>
    destination \<Rightarrow> 'a signable_scheme \<Rightarrow> sighash_input_commitment list \<Rightarrow> nat \<Rightarrow> htlc_secret \<Rightarrow>
    ('aux, destination_sig_error, standard_input_signature) op" where
  "produce_uniparty_signature_for_htlc_spending cr key mode dest tx commitments idx secret =
     bindS (produce_uniparty_signature_for_input cr key mode dest tx commitments idx) (\<lambda>sig.
     returnS \<lparr> sighash_type = sighash_type sig,
       raw_signature = cr_encode_htlc_spend cr (HtlcSpend secret (raw_signature sig)) \<rparr>)"

definition produce_uniparty_signature_for_htlc_refunding :: "'aux crypto \<Rightarrow> private_key \<Rightarrow> sig_hash_type \<Rightarrow>
    destination \<Rightarrow> 'a signable_scheme \<Rightarrow> sighash_input_commitment list \<Rightarrow> nat \<Rightarrow>
    ('aux, destination_sig_error, standard_input_signature) op" where
  "produce_uniparty_signature_for_htlc_refunding cr key mode dest tx commitments idx =
     bindS (produce_uniparty_signature_for_input cr key mode dest tx commitments idx) (\<lambda>sig.
     returnS \<lparr> sighash_type = sighash_type sig,
       raw_signature = cr_encode_htlc_spend cr (HtlcRefund (raw_signature sig)) \<rparr>)"

definition produce_classical_multisig_signature_for_htlc_refunding :: "'aux crypto \<Rightarrow> chain_config \<Rightarrow>
    authorized_classical_multisig_spend \<Rightarrow> sig_hash_type \<Rightarrow> 'a signable_scheme \<Rightarrow> sighash_input_commitment list \<Rightarrow>
    nat \<Rightarrow> destination_sig_error + standard_input_signature" where
  "produce_classical_multisig_signature_for_htlc_refunding cr cfg authorization mode tx commitments idx =
     and_then (produce_classical_multisig_signature_for_input cr cfg authorization mode tx commitments idx) (\<lambda>sig.
     Ok \<lparr> sighash_type = sighash_type sig,
       raw_signature = cr_encode_htlc_spend cr (HtlcRefund (raw_signature sig)) \<rparr>)"

section \<open>What a signature commits to\<close>

lemma tagged_append_eq:
  assumes "inj f" "set us \<inter> range f = {}" "set vs \<inter> range f = {}"
  shows "map f xs @ us = map f ys @ vs \<longleftrightarrow> xs = ys \<and> us = vs"
  using assms
proof (induction xs arbitrary: ys)
  case Nil
  then show ?case by (cases ys) auto
next
  case (Cons x xs)
  then show ?case by (cases ys) (auto simp: inj_eq)
qed

text \<open>The parts of the inputs and of the outputs that the mode of a signature includes.\<close>

definition same_committed_inputs :: "sig_hash_type \<Rightarrow> tx_input list \<Rightarrow> sighash_input_commitment list \<Rightarrow> nat \<Rightarrow>
    tx_input list \<Rightarrow> sighash_input_commitment list \<Rightarrow> nat \<Rightarrow> bool" where
  "same_committed_inputs mode inputs cs idx inputs' cs' idx' = (case inputs_mode mode of
      CommitWhoPays \<Rightarrow> inputs = inputs' \<and> cs = cs'
    | AnyoneCanPay \<Rightarrow> inputs ! idx = inputs' ! idx' \<and> cs ! idx = cs' ! idx')"

definition same_committed_outputs :: "sig_hash_type \<Rightarrow> tx_output list \<Rightarrow> nat \<Rightarrow> tx_output list \<Rightarrow> nat \<Rightarrow> bool" where
  "same_committed_outputs mode outputs idx outputs' idx' = (case outputs_mode mode of
      CommitAllOutputs \<Rightarrow> outputs = outputs'
    | CommitNoOutputs \<Rightarrow> True
    | CommitSingleOutput \<Rightarrow> outputs ! idx = outputs' ! idx')"

lemma committed_outputs:
  assumes "outputs_signature_hash outs mode idx = Ok items" "outputs_signature_hash outs' mode idx' = Ok items'"
  shows "items = items' \<longleftrightarrow> same_committed_outputs mode outs idx outs' idx'"
  using assms by (auto simp: outputs_signature_hash_def same_committed_outputs_def result_simps get_index_eq
      split: outputs_mode.splits)

lemma outputs_items:
  "outputs_signature_hash outs mode idx = Ok items \<Longrightarrow>
     set items \<inter> range HashInput = {} \<and> set items \<inter> range HashCommitment = {}"
  by (auto simp: outputs_signature_hash_def result_simps split: outputs_mode.splits)

lemma committed_inputs:
  assumes "inputs_signature_hash inputs cs mode (inputs ! idx) idx = Ok items"
    and "inputs_signature_hash inputs' cs' mode (inputs' ! idx') idx' = Ok items'"
    and "length cs = length inputs" "length cs' = length inputs'"
    and "set outs \<inter> range HashInput = {} \<and> set outs \<inter> range HashCommitment = {}"
    and "set outs' \<inter> range HashInput = {} \<and> set outs' \<inter> range HashCommitment = {}"
  shows "items @ outs = items' @ outs' \<longleftrightarrow>
    same_committed_inputs mode inputs cs idx inputs' cs' idx' \<and> outs = outs'"
proof (cases "inputs_mode mode")
  case CommitWhoPays
  have inj: "inj HashInput" "inj HashCommitment" by (auto intro: injI)
  have cs: "map HashCommitment cs @ outs = map HashCommitment cs' @ outs' \<longleftrightarrow> cs = cs' \<and> outs = outs'"
    using assms(5,6) inj(2) by (intro tagged_append_eq) auto
  have "map HashInput inputs @ HashCount n # map HashCommitment cs @ outs =
      map HashInput inputs' @ HashCount n' # map HashCommitment cs' @ outs' \<longleftrightarrow>
      inputs = inputs' \<and> HashCount n # map HashCommitment cs @ outs = HashCount n' # map HashCommitment cs' @ outs'"
    for n n'
    using assms(5,6) inj(1) by (intro tagged_append_eq) auto
  then show ?thesis using assms(1-4) CommitWhoPays
    by (auto simp: inputs_signature_hash_def same_committed_inputs_def result_simps cs)
next
  case AnyoneCanPay
  then show ?thesis using assms(1,2)
    by (auto simp: inputs_signature_hash_def same_committed_inputs_def result_simps)
qed

text \<open>
  C15: Two signature hashes are taken of the same sequence of items exactly when they agree on the mode, on the
  version and the flags, and on what the mode includes: all the inputs and all their commitments, or (anyone
  can pay) only the signed input and its commitment; all the outputs, none, or the one at the index of the
  input. The items are those of two transactions, at their input \<open>idx\<close> and \<open>idx'\<close>.
\<close>

lemma sighash_commits_exactly:
  assumes "stream_signature_hash (signable_of_transaction tx) cs mode idx = Ok items"
    and "stream_signature_hash (signable_of_transaction tx') cs' mode' idx' = Ok items'"
  shows "items = items' \<longleftrightarrow> mode = mode' \<and> tx_flags tx = tx_flags tx' \<and>
    same_committed_inputs mode (tx_inputs tx) cs idx (tx_inputs tx') cs' idx' \<and>
    same_committed_outputs mode (tx_outputs tx) idx (tx_outputs tx') idx'"
proof -
  obtain ins outs where i: "inputs_signature_hash (tx_inputs tx) cs mode (tx_inputs tx ! idx) idx = Ok ins"
      "outputs_signature_hash (tx_outputs tx) mode idx = Ok outs" "idx < length (tx_inputs tx)"
      "length cs = length (tx_inputs tx)"
      "items = HashMode (sig_hash_byte mode) # HashVersion 1 # HashFlags (tx_flags tx) # ins @ outs"
    using assms(1) by (auto simp: stream_signature_hash_def signable_of_transaction_def hash_if_some_def
        result_simps get_index_eq)
  obtain ins' outs' where i': "inputs_signature_hash (tx_inputs tx') cs' mode' (tx_inputs tx' ! idx') idx' = Ok ins'"
      "outputs_signature_hash (tx_outputs tx') mode' idx' = Ok outs'" "idx' < length (tx_inputs tx')"
      "length cs' = length (tx_inputs tx')"
      "items' = HashMode (sig_hash_byte mode') # HashVersion 1 # HashFlags (tx_flags tx') # ins' @ outs'"
    using assms(2) by (auto simp: stream_signature_hash_def signable_of_transaction_def hash_if_some_def
        result_simps get_index_eq)
  show ?thesis
  proof (cases "mode = mode'")
    case False
    then show ?thesis using i(5) i'(5) by (cases mode, cases mode') auto
  next
    case True
    then show ?thesis
      using i i' committed_inputs [OF i(1) _ i(4) i'(4), of idx' ins' outs outs'] outputs_items [OF i(2)]
        outputs_items [OF i'(2)] committed_outputs [OF i(2)] by auto
  qed
qed

section \<open>Classical multisig\<close>

lemma btree_iter_all: "list_all f (btree_iter m) \<longleftrightarrow> (\<forall>k v. fmlookup m k = Some v \<longrightarrow> f (k, v))"
  by (auto simp: list_all_iff btree_iter_set)

lemma btree_iter_any: "list_ex f (btree_iter m) \<longleftrightarrow> (\<exists>k v. fmlookup m k = Some v \<and> f (k, v))"
  by (force simp: list_ex_iff btree_iter_set)

lemma challenge_is_valid_eq:
  "challenge_is_valid cfg c = Ok u \<longleftrightarrow>
     0 < unat (min_required_signatures c) \<and>
     unat (min_required_signatures c) \<le> length (challenge_public_keys c) \<and>
     length (challenge_public_keys c) \<le> max_classic_multisig_public_keys_count cfg"
  by (auto simp: challenge_is_valid_def Let_def unat_gt_0)

text \<open>The signatures of a spend are for keys of its challenge.\<close>

definition indices_in_range :: "authorized_classical_multisig_spend \<Rightarrow> bool" where
  "indices_in_range s = list_all (\<lambda>(i, _). unat i < length (challenge_public_keys (ms_challenge s)))
     (btree_iter (ms_signatures s))"

lemma missing_signatures_neg:
  "missing_signatures_count s < 0 \<longleftrightarrow> unat (min_required_signatures (ms_challenge s)) < available_signatures_count s"
  unfolding missing_signatures_count_def by linarith

lemma check_structurally_valid_eq:
  "(\<exists>st. check_structurally_valid cfg s = Ok st) \<longleftrightarrow> challenge_is_valid cfg (ms_challenge s) = Ok () \<and>
     indices_in_range s \<and>
     available_signatures_count s \<le> unat (min_required_signatures (ms_challenge s))"
proof -
  have "list_ex (\<lambda>(index, _). length (challenge_public_keys (ms_challenge s)) \<le> unat index)
      (btree_iter (ms_signatures s)) \<longleftrightarrow> \<not> indices_in_range s"
    by (simp add: indices_in_range_def btree_iter_all btree_iter_any not_less)
  then show ?thesis
    by (auto simp: check_structurally_valid_def Let_def result_simps missing_signatures_neg split: if_splits)
qed

lemma verify_signatures_eq:
  "verify_signatures cr cfg msg s = Ok r \<longleftrightarrow> (\<exists>st. check_structurally_valid cfg s = Ok st) \<and>
     r = (if \<not> list_all (\<lambda>(i, sig). cr_verify_message cr (challenge_public_keys (ms_challenge s) ! unat i) sig msg)
            (btree_iter (ms_signatures s)) then SigsInvalid
          else if available_signatures_count s < unat (min_required_signatures (ms_challenge s)) then SigsIncomplete
          else CompleteAndValid)"
  by (auto simp: verify_signatures_def Let_def result_simps)

text \<open>
  C14: A classical multisig witness is accepted exactly when its challenge is the one of the destination and a
  valid one, it holds as many signatures as the challenge requires and no more, and each of them is for a
  different key of the challenge and verifies for that key.
\<close>

lemma multisig_accepts_exactly_required:
  "verify_classical_multisig_spending cr cfg challenge_hash s sighash = Ok () \<longleftrightarrow>
     cr_challenge_hash cr (ms_challenge s) = challenge_hash \<and>
     challenge_is_valid cfg (ms_challenge s) = Ok () \<and>
     fcard (fmdom (ms_signatures s)) = unat (min_required_signatures (ms_challenge s)) \<and>
     (\<forall>i sig. fmlookup (ms_signatures s) i = Some sig \<longrightarrow>
        unat i < length (challenge_public_keys (ms_challenge s)) \<and>
        cr_verify_message cr (challenge_public_keys (ms_challenge s) ! unat i) sig sighash)"
proof -
  have "length (btree_iter m) = fcard (fmdom m)" for m :: "(u8, signature) btree_map"
    using distinct_card [OF btree_iter_distinct, of m]
    by (simp add: fcard.rep_eq fmdom.rep_eq flip: btree_iter_lookup dom_map_of_conv_image_fst)
  then have count: "available_signatures_count s = fcard (fmdom (ms_signatures s))"
    by (simp add: available_signatures_count_def)
  show ?thesis
    by (auto simp: verify_classical_multisig_spending_def result_simps verify_signatures_eq
        check_structurally_valid_eq indices_in_range_def btree_iter_all count split: if_splits)
qed

section \<open>Signing and verifying\<close>

text \<open>
  What the code relies on of the signature scheme and the codec: a signature made with a private key verifies
  for its public key, and a witness is decoded to what was encoded.
\<close>

definition crypto_laws :: "'aux crypto \<Rightarrow> bool" where
  "crypto_laws cr \<longleftrightarrow>
     (\<forall>key msg aux sig aux'. cr_sign_message cr key msg aux = (Some sig, aux') \<longrightarrow>
        cr_verify_message cr (cr_from_private_key cr key) sig msg) \<and>
     (\<forall>s. cr_decode_key_spend cr (cr_encode_key_spend cr s) = Some s) \<and>
     (\<forall>s. cr_decode_key_hash_spend cr (cr_encode_key_hash_spend cr s) = Some s) \<and>
     (\<forall>s. cr_decode_htlc_spend cr (cr_encode_htlc_spend cr s) = Some s)"

lemma signed_message_verifies:
  "crypto_laws cr \<Longrightarrow> cr_sign_message cr key msg aux = (Some sig, aux') \<Longrightarrow>
     cr_verify_message cr (cr_from_private_key cr key) sig msg"
  unfolding crypto_laws_def by blast

lemma sign_message_eq:
  "sign_message cr e key msg aux = (Ok sig, aux') \<longleftrightarrow> cr_sign_message cr key msg aux = (Some sig, aux')"
  by (auto simp: sign_message_def result_simps split: prod.splits)

lemma signature_hash_index: "signature_hash cr mode tx cs idx = Ok h \<Longrightarrow>
    \<exists>inputs. sg_inputs tx = Some inputs \<and> idx < length inputs"
  by (auto simp: signature_hash_def stream_signature_hash_def result_simps get_index_eq)

text \<open>
  C27: A signature that is produced for an input is accepted for it: whenever the production for a destination
  succeeds, the verification of the result for that destination, over the same transaction, commitments
  and index, succeeds.
\<close>

lemma produced_signature_verifies:
  assumes "crypto_laws cr"
    and "produce_uniparty_signature_for_input cr key mode dest tx cs idx aux = (Ok sig, aux')"
  shows "verify_signature cr cfg dest tx (EvaluatedStandard sig) cs idx = Ok ()"
proof -
  obtain h where h: "signature_hash cr mode tx cs idx = Ok h" and mode: "sighash_type sig = mode"
    using assms(2) by (auto simp: produce_uniparty_signature_for_input_def op_simps)
  have "standard_verify_signature cr cfg sig dest h = Ok () \<and> dest \<noteq> AnyoneCanSpend"
  proof (cases dest)
    case (PublicKeyHash addr)
    then obtain s where "raw_signature sig = cr_encode_key_hash_spend cr (cr_from_private_key cr key, s)"
      "cr_sign_message cr key h aux = (Some s, aux')" "cr_key_hash cr (cr_from_private_key cr key) = addr"
      using assms(2) h by (auto simp: produce_uniparty_signature_for_input_def op_simps sign_message_eq
          sign_public_key_hash_spending_def Let_def)
    then show ?thesis using assms(1) PublicKeyHash by (auto simp: standard_verify_signature_def crypto_laws_def
          and_then_def ok_or_def verify_public_key_hash_spending_def dest: signed_message_verifies [OF assms(1)])
  next
    case (PublicKey pubkey)
    then obtain s where "raw_signature sig = cr_encode_key_spend cr s"
      "cr_sign_message cr key h aux = (Some s, aux')" "cr_from_private_key cr key = pubkey"
      using assms(2) h by (auto simp: produce_uniparty_signature_for_input_def op_simps sign_message_eq
          sign_public_key_spending_def)
    then show ?thesis using assms(1) PublicKey by (auto simp: standard_verify_signature_def crypto_laws_def
          and_then_def ok_or_def verify_public_key_spending_def dest: signed_message_verifies [OF assms(1)])
  qed (use assms(2) in \<open>simp_all add: produce_uniparty_signature_for_input_def op_simps\<close>)
  then show ?thesis using h mode signature_hash_index [OF h]
    by (cases dest) (auto simp: verify_signature_def result_simps)
qed

text \<open>
  C38: Adding a signature to a classical multisig spend panics only when the challenge that is passed in has
  other public keys than the challenge of the spend: with the same keys, the new signature verifies.
\<close>

lemma multisig_signing_panics_only_on_mismatch:
  assumes "crypto_laws cr"
    and "sign_classical_multisig_spending cr cfg i key challenge msg current aux = (Err Panic, aux')"
  shows "challenge_public_keys challenge \<noteq> challenge_public_keys (ms_challenge current)"
proof
  assume same: "challenge_public_keys challenge = challenge_public_keys (ms_challenge current)"
  have old: "list_all (\<lambda>(j, sig). cr_verify_message cr (challenge_public_keys challenge ! unat j) sig msg)
      (btree_iter (ms_signatures current))"
    and new: "\<exists>sig aux2 aux3. unat i < length (challenge_public_keys challenge) \<and>
      challenge_public_keys challenge ! unat i = cr_from_private_key cr key \<and>
      cr_sign_message cr key msg aux2 = (Some sig, aux3) \<and>
      verify_signatures cr cfg msg (ms_add_signature i sig current) = Ok SigsInvalid"
    using assms(2) same by (auto simp: sign_classical_multisig_spending_def Let_def op_simps on_structure_def
        result_simps verify_signatures_eq sign_message_eq get_index_eq sign_message_def
        split: if_splits sigs_verify_result.splits option.splits prod.splits)
  from new obtain sig aux2 aux3 where new: "challenge_public_keys challenge ! unat i = cr_from_private_key cr key"
      "cr_sign_message cr key msg aux2 = (Some sig, aux3)"
      "verify_signatures cr cfg msg (ms_add_signature i sig current) = Ok SigsInvalid" by blast
  show False
    using old new same signed_message_verifies [OF assms(1) new(2)]
    by (auto simp: verify_signatures_eq btree_iter_all ms_add_signature_def split: if_splits)
qed

section \<open>Examples\<close>

text \<open>A scheme that satisfies the laws: a signature is the key itself, and a pair is encoded with the length of its
  first component in unary.\<close>

definition sample_pair :: "u8 list \<times> u8 list \<Rightarrow> u8 list" where
  "sample_pair p = replicate (length (fst p)) 0 @ 1 # fst p @ snd p"

definition sample_unpair :: "u8 list \<Rightarrow> u8 list \<times> u8 list" where
  "sample_unpair xs = (let n = length (takeWhile (\<lambda>x. x = 0) xs); rest = drop (Suc n) xs in (take n rest, drop n rest))"

lemma sample_unpair_pair [simp]: "sample_unpair (sample_pair p) = p"
proof -
  have "takeWhile (\<lambda>x. x = 0) (replicate n 0 @ 1 # xs) = replicate n (0 :: u8)" for n xs
    by (simp add: takeWhile_append)
  then show ?thesis by (simp add: sample_unpair_def sample_pair_def Let_def)
qed

definition sample_crypto :: "unit crypto" where
  "sample_crypto = \<lparr> cr_finalize = (\<lambda>items. of_nat (length items)), cr_key_hash = (\<lambda>k. of_nat (length k)),
     cr_challenge_hash = (\<lambda>c. of_nat (length (challenge_public_keys c))),
     cr_verify_message = (\<lambda>k sig _. k = sig), cr_from_private_key = (\<lambda>k. k),
     cr_sign_message = (\<lambda>k _ aux. (Some k, aux)),
     cr_encode_key_spend = (\<lambda>s. s), cr_decode_key_spend = Some,
     cr_encode_key_hash_spend = sample_pair, cr_decode_key_hash_spend = Some \<circ> sample_unpair,
     cr_encode_multisig_spend = (\<lambda>_. []),
     cr_decode_multisig_spend = (\<lambda>_. None),
     cr_encode_htlc_spend = (\<lambda>s. case s of HtlcSpend secret raw \<Rightarrow> 0 # sample_pair (secret, raw) | HtlcRefund raw \<Rightarrow> 1 # raw),
     cr_decode_htlc_spend = (\<lambda>xs. case xs of [] \<Rightarrow> None
       | x # rest \<Rightarrow> Some (if x = 0 then case_prod HtlcSpend (sample_unpair rest) else HtlcRefund rest)),
     cr_hash160 = (\<lambda>s. of_nat (length s)) \<rparr>"

lemma sample_crypto_laws: "crypto_laws sample_crypto"
  by (auto simp: crypto_laws_def sample_crypto_def split: authorized_htlc_spend.split)

definition sample_key_tx :: "amount \<Rightarrow> transaction" where
  "sample_key_tx a = \<lparr> tx_flags = 0, tx_inputs = [UtxoInput (UtxoOutPoint (TransactionSource 5) 0)],
     tx_outputs = [Transfer (Coin a) AnyoneCanSpend] \<rparr>"

definition sample_challenge :: classic_multisig_challenge where
  "sample_challenge = \<lparr> min_required_signatures = 1, challenge_public_keys = [[7], [8]] \<rparr>"

lemmas sample_sig_defs = sample_key_tx_def sample_challenge_def sample_crypto_def

lemma sample_stream: "\<exists>items. stream_signature_hash (signable_of_transaction (sample_key_tx a)) [CommitNone]
    (SigHashType 0x82) 0 = Ok items"
  by (simp add: stream_signature_hash_def signable_of_transaction_def sample_key_tx_def get_index_def and_then_def
      ok_or_def ensure_def inputs_signature_hash_def outputs_signature_hash_def outputs_mode_def MASK_OUT_def
      SIGHASH_NONE_def)

theorem sighash_commits_exactly_witness:
  "\<exists>items. stream_signature_hash (signable_of_transaction (sample_key_tx 1)) [CommitNone] (SigHashType 0x82) 0 = Ok items \<and>
     stream_signature_hash (signable_of_transaction (sample_key_tx 2)) [CommitNone] (SigHashType 0x82) 0 = Ok items"
proof -
  obtain items items' where
      s: "stream_signature_hash (signable_of_transaction (sample_key_tx 1)) [CommitNone] (SigHashType 0x82) 0 = Ok items"
      "stream_signature_hash (signable_of_transaction (sample_key_tx 2)) [CommitNone] (SigHashType 0x82) 0 = Ok items'"
    using sample_stream [of 1] sample_stream [of 2] by blast
  have "items = items'"
    unfolding sighash_commits_exactly [OF s] by code_simp
  with s show ?thesis by blast
qed

theorem multisig_accepts_exactly_required_witness:
  "verify_classical_multisig_spending sample_crypto sample_config 2
     \<lparr> ms_signatures = fmupd 1 [8] fmempty, ms_challenge = sample_challenge \<rparr> 0 = Ok ()"
  unfolding multisig_accepts_exactly_required
  by (simp add: sample_sig_defs challenge_is_valid_def sample_config_def fcard.rep_eq)

theorem produced_signature_verifies_witness:
  "\<exists>sig aux. produce_uniparty_signature_for_input sample_crypto [7] sighash_all (PublicKey [7])
      (signable_of_transaction (sample_key_tx 1)) [CommitNone] 0 () = (Ok sig, aux) \<and>
    verify_signature sample_crypto sample_config (PublicKey [7]) (signable_of_transaction (sample_key_tx 1))
      (EvaluatedStandard sig) [CommitNone] 0 = Ok ()"
proof -
  have "produce_uniparty_signature_for_input sample_crypto [7] sighash_all (PublicKey [7])
      (signable_of_transaction (sample_key_tx 1)) [CommitNone] 0 () =
      (Ok \<lparr> sighash_type = sighash_all, raw_signature = [7] \<rparr>, ())"
    by code_simp
  with produced_signature_verifies [OF sample_crypto_laws this] show ?thesis by blast
qed

theorem multisig_signing_panics_only_on_mismatch_witness:
  "fst (sign_classical_multisig_spending sample_crypto sample_config 0 [9] (sample_challenge\<lparr>challenge_public_keys := [[9], [8]]\<rparr>)
      0 (multisig_new_empty sample_challenge) ()) = Err Panic \<and>
    challenge_public_keys (sample_challenge\<lparr>challenge_public_keys := [[9], [8]]\<rparr>) \<noteq>
      challenge_public_keys (ms_challenge (multisig_new_empty sample_challenge))"
proof -
  have "sign_classical_multisig_spending sample_crypto sample_config 0 [9] (sample_challenge\<lparr>challenge_public_keys := [[9], [8]]\<rparr>)
      0 (multisig_new_empty sample_challenge) () = (Err Panic, ())"
    by code_simp
  with multisig_signing_panics_only_on_mismatch [OF sample_crypto_laws this] show ?thesis by simp
qed

end
