(* ===== verification/Check_Transaction.thy ===== *)
theory Check_Transaction
  imports Signatures
begin

text \<open>
  The checks a transaction has to pass on its own, without the ledger
  (\<open>chainstate/tx-verifier/src/transaction_verifier/check_transaction.rs\<close> and \<open>tokens_check\<close>): its size,
  its inputs and witnesses, the data of the tokens it issues, and the upgrades that have to be active for
  what it does. The hash of a transaction (\<open>get_id\<close>), the length of its encoding (\<open>encoded_size\<close>) and the
  Unicode tables behind \<open>char::is_alphanumeric\<close> are parameters.
\<close>

section \<open>Size\<close>

definition has_smart_contracts :: "transaction \<Rightarrow> bool" where
  "has_smart_contracts tx = False"

datatype transaction_size = ScriptedTransaction nat | SmartContractTransaction nat

definition transaction_data_size :: "(signed_transaction \<Rightarrow> nat) \<Rightarrow> signed_transaction \<Rightarrow> transaction_size" where
  "transaction_data_size encoded_size tx =
     (if has_smart_contracts (stx_transaction tx) then SmartContractTransaction (encoded_size tx)
      else ScriptedTransaction (encoded_size tx))"

section \<open>Text\<close>

text \<open>
  \<open>String::from_utf8\<close>: the code points of well-formed UTF-8, which has no overlong forms, no surrogates
  and nothing above \<open>0x10FFFF\<close>.
\<close>

definition continuation :: "u8 \<Rightarrow> bool" where
  "continuation b \<longleftrightarrow> 0x80 \<le> b \<and> b < 0xC0"

fun from_utf8 :: "u8 list \<Rightarrow> nat list option" where
  "from_utf8 [] = Some []"
| "from_utf8 (a # rest) =
     (if a < 0x80 then map_option ((#) (unat a)) (from_utf8 rest)
      else if a < 0xC2 then None
      else if a < 0xE0 then
        (case rest of
           b # rest' \<Rightarrow>
             if continuation b
             then map_option ((#) ((unat a - 0xC0) * 64 + (unat b - 0x80))) (from_utf8 rest') else None
         | _ \<Rightarrow> None)
      else if a < 0xF0 then
        (case rest of
           b # c # rest' \<Rightarrow>
             (let cp = (unat a - 0xE0) * 4096 + (unat b - 0x80) * 64 + (unat c - 0x80) in
              if continuation b \<and> continuation c \<and> 0x800 \<le> cp \<and> \<not> (0xD800 \<le> cp \<and> cp < 0xE000)
              then map_option ((#) cp) (from_utf8 rest') else None)
         | _ \<Rightarrow> None)
      else if a < 0xF5 then
        (case rest of
           b # c # d # rest' \<Rightarrow>
             (let cp = (unat a - 0xF0) * 262144 + (unat b - 0x80) * 4096 + (unat c - 0x80) * 64
                 + (unat d - 0x80) in
              if continuation b \<and> continuation c \<and> continuation d \<and> 0x10000 \<le> cp \<and> cp < 0x110000
              then map_option ((#) cp) (from_utf8 rest') else None)
         | _ \<Rightarrow> None)
      else None)"

definition is_ascii_alphanumeric :: "nat \<Rightarrow> bool" where
  "is_ascii_alphanumeric c \<longleftrightarrow> (0x30 \<le> c \<and> c \<le> 0x39) \<or> (0x41 \<le> c \<and> c \<le> 0x5A) \<or> (0x61 \<le> c \<and> c \<le> 0x7A)"

definition is_alphanumeric :: "(nat \<Rightarrow> bool) \<Rightarrow> nat \<Rightarrow> bool" where
  "is_alphanumeric unicode c = (if c < 0x80 then is_ascii_alphanumeric c else unicode c)"

definition is_rfc3986_valid_symbol :: "nat \<Rightarrow> bool" where
  "is_rfc3986_valid_symbol c \<longleftrightarrow> c \<in> set (map of_char ''%:/?#[]@!$&'()*+,;=-._~'')"

section \<open>Data of issued tokens\<close>

datatype token_issuance_error =
    IssueErrorInvalidNameLength
  | IssueErrorInvalidTickerLength
  | IssueErrorInvalidDescriptionLength
  | IssueErrorTickerHasNoneAlphaNumericChar
  | IssueErrorNameHasNoneAlphaNumericChar
  | IssueErrorDescriptionHasNonAlphaNumericChar
  | IssueAmountIsZero
  | IssueErrorTooManyDecimals
  | IssueErrorIncorrectMetadataURI
  | IssueErrorIncorrectIconURI
  | IssueErrorIncorrectMediaURI
  | MediaHashTooShort
  | MediaHashTooLong
  | TokenIdMismatch token_id token_id

definition check_is_text_ascii_alphanumeric :: "u8 list \<Rightarrow> bool" where
  "check_is_text_ascii_alphanumeric str = list_all (\<lambda>c. is_ascii_alphanumeric (unat c)) str"

definition is_uri_valid :: "(nat \<Rightarrow> bool) \<Rightarrow> u8 list \<Rightarrow> bool" where
  "is_uri_valid unicode uri = (case from_utf8 uri of
      Some chars \<Rightarrow> list_all (\<lambda>ch. is_alphanumeric unicode ch \<or> is_rfc3986_valid_symbol ch) chars
    | None \<Rightarrow> False)"

definition check_media_hash :: "chain_config \<Rightarrow> u8 list \<Rightarrow> token_issuance_error + unit" where
  "check_media_hash cfg hash =
     and_then (ensure (min_hash_len cfg \<le> length hash) MediaHashTooShort) (\<lambda>_.
     ensure (length hash \<le> max_hash_len cfg) MediaHashTooLong)"

definition check_token_ticker :: "u8 list \<Rightarrow> token_issuance_error + unit" where
  "check_token_ticker ticker =
     and_then (ensure (length ticker \<le> token_max_ticker_len \<and> ticker \<noteq> []) IssueErrorInvalidTickerLength) (\<lambda>_.
     ensure (check_is_text_ascii_alphanumeric ticker) IssueErrorTickerHasNoneAlphaNumericChar)"

definition check_nft_name :: "chain_config \<Rightarrow> u8 list \<Rightarrow> token_issuance_error + unit" where
  "check_nft_name cfg name =
     and_then (ensure (length name \<le> token_max_name_len cfg \<and> name \<noteq> []) IssueErrorInvalidNameLength) (\<lambda>_.
     ensure (check_is_text_ascii_alphanumeric name) IssueErrorNameHasNoneAlphaNumericChar)"

definition check_nft_description :: "chain_config \<Rightarrow> u8 list \<Rightarrow> token_issuance_error + unit" where
  "check_nft_description cfg description =
     and_then (ensure (length description \<le> token_max_description_len cfg \<and> description \<noteq> [])
       IssueErrorInvalidDescriptionLength) (\<lambda>_.
     ensure (check_is_text_ascii_alphanumeric description) IssueErrorDescriptionHasNonAlphaNumericChar)"

text \<open>
  A URI that may be absent (\<open>DataOrNoVec\<close>) is encoded as a vector, which is empty when it is absent; the
  check reads the vector back from its encoding.
\<close>

definition data_or_no_vec :: "u8 list option \<Rightarrow> u8 list" where
  "data_or_no_vec v = (case v of Some v \<Rightarrow> v | None \<Rightarrow> [])"

definition check_optional_uri ::
    "(nat \<Rightarrow> bool) \<Rightarrow> chain_config \<Rightarrow> u8 list option \<Rightarrow> token_issuance_error \<Rightarrow> token_issuance_error + unit" where
  "check_optional_uri unicode cfg v e =
     (let uri = data_or_no_vec v in
      if uri \<noteq> [] then
        and_then (ensure (length uri \<le> token_max_uri_len cfg) e) (\<lambda>_. ensure (is_uri_valid unicode uri) e)
      else Ok ())"

definition check_nft_issuance_data ::
    "(nat \<Rightarrow> bool) \<Rightarrow> chain_config \<Rightarrow> nft_metadata \<Rightarrow> token_issuance_error + unit" where
  "check_nft_issuance_data unicode cfg issuance =
     and_then (check_token_ticker (nft_ticker issuance)) (\<lambda>_.
     and_then (check_nft_name cfg (nft_name issuance)) (\<lambda>_.
     and_then (check_nft_description cfg (nft_description issuance)) (\<lambda>_.
     and_then (check_optional_uri unicode cfg (nft_icon_uri issuance) IssueErrorIncorrectIconURI) (\<lambda>_.
     and_then (check_optional_uri unicode cfg (nft_additional_metadata_uri issuance) IssueErrorIncorrectMetadataURI) (\<lambda>_.
     and_then (check_optional_uri unicode cfg (nft_media_uri issuance) IssueErrorIncorrectMediaURI) (\<lambda>_.
     check_media_hash cfg (nft_media_hash issuance)))))))"

definition check_tokens_issuance ::
    "(nat \<Rightarrow> bool) \<Rightarrow> chain_config \<Rightarrow> token_issuance \<Rightarrow> token_issuance_error + unit" where
  "check_tokens_issuance unicode cfg issuance = (case issuance of
     TokenIssuanceV1 issuance_data \<Rightarrow>
       and_then (check_token_ticker (iss_token_ticker issuance_data)) (\<lambda>_.
       and_then (ensure (iss_number_of_decimals issuance_data \<le> token_max_dec_count cfg)
         IssueErrorTooManyDecimals) (\<lambda>_.
       and_then (ensure (is_uri_valid unicode (iss_metadata_uri issuance_data))
         IssueErrorIncorrectMetadataURI) (\<lambda>_.
       ensure (length (iss_metadata_uri issuance_data) \<le> token_max_uri_len cfg)
         IssueErrorIncorrectMetadataURI))))"

section \<open>Issuances in a transaction\<close>

definition is_token_or_nft_issuance :: "tx_output \<Rightarrow> bool" where
  "is_token_or_nft_issuance output =
     (let v0_issuance = (\<lambda>v. case v of
            TokenV0 d \<Rightarrow> (case d of TokenIssuanceV0 _ \<Rightarrow> True | NftIssuance _ \<Rightarrow> True | TokenTransfer _ \<Rightarrow> False)
          | Coin _ \<Rightarrow> False
          | TokenV1 _ _ \<Rightarrow> False) in
      case output of
        Transfer v _ \<Rightarrow> v0_issuance v
      | LockThenTransfer v _ _ \<Rightarrow> v0_issuance v
      | Burn v \<Rightarrow> v0_issuance v
      | IssueFungibleToken _ \<Rightarrow> True
      | IssueNft _ _ _ \<Rightarrow> True
      | _ \<Rightarrow> False)"

definition get_tokens_issuance_count :: "tx_output list \<Rightarrow> nat" where
  "get_tokens_issuance_count outputs = length (filter is_token_or_nft_issuance outputs)"

section \<open>The checks\<close>

datatype tokens_check_error =
    IssueError token_issuance_error tx_id
  | MultipleTokenIssuanceInTransaction tx_id
  | InsufficientTokenFees tx_id
  | InvariantBrokenUndoIssuanceOnNonexistentToken token_id
  | InvariantBrokenRegisterIssuanceWithDuplicateId token_id
  | TokenMetadataUriTooLarge token_id

datatype check_transaction_error =
    DuplicateInputInTransaction tx_id
  | InvalidWitnessCount tx_id
  | EmptyInputsInTransaction tx_id
  | CheckTokensError tokens_check_error
  | NoSignatureDataSizeTooLarge nat nat tx_id
  | NoSignatureDataNotAllowed tx_id
  | DataDepositMaxSizeExceeded nat nat tx_id
  | TxSizeTooLarge tx_id nat nat
  | DeprecatedTokenOperationVersion token_issuance_version tx_id
  | HtlcsAreNotActivated
  | OrdersAreNotActivated tx_id
  | OrdersV1AreNotActivated tx_id
  | DeprecatedOrdersCommands tx_id
  | OrdersCurrenciesMustBeDifferent tx_id
  | ChangeTokenMetadataUriNotActivated
  | AttemptToFillOrderWithZero order_id tx_id

type_synonym check_result = "check_transaction_error failure + unit"

definition check_size :: "(transaction \<Rightarrow> tx_id) \<Rightarrow> (signed_transaction \<Rightarrow> nat) \<Rightarrow> chain_config \<Rightarrow>
    signed_transaction \<Rightarrow> check_result" where
  "check_size get_id encoded_size cfg tx = (case transaction_data_size encoded_size tx of
      ScriptedTransaction n \<Rightarrow>
        (let max_allowed_size = max_block_size_from_std_scripts cfg in
         ensure (n \<le> max_allowed_size) (Fail (TxSizeTooLarge (get_id (stx_transaction tx)) n max_allowed_size)))
    | SmartContractTransaction n \<Rightarrow>
        (let max_allowed_size = max_block_size_from_smart_contracts cfg in
         ensure (n \<le> max_allowed_size) (Fail (TxSizeTooLarge (get_id (stx_transaction tx)) n max_allowed_size))))"

fun check_new_inputs :: "tx_id \<Rightarrow> tx_input set \<Rightarrow> tx_input list \<Rightarrow> check_result" where
  "check_new_inputs txid seen [] = Ok ()"
| "check_new_inputs txid seen (input # rest) =
     and_then (ensure (input \<notin> seen) (Fail (DuplicateInputInTransaction txid))) (\<lambda>_.
     check_new_inputs txid (insert input seen) rest)"

definition check_duplicate_inputs :: "(transaction \<Rightarrow> tx_id) \<Rightarrow> signed_transaction \<Rightarrow> check_result" where
  "check_duplicate_inputs get_id tx =
     (let inputs = tx_inputs (stx_transaction tx); txid = get_id (stx_transaction tx) in
      and_then (ensure (inputs \<noteq> []) (Fail (EmptyInputsInTransaction txid))) (\<lambda>_.
      check_new_inputs txid {} inputs))"

definition check_witness_count :: "(transaction \<Rightarrow> tx_id) \<Rightarrow> signed_transaction \<Rightarrow> check_result" where
  "check_witness_count get_id tx =
     ensure (length (tx_inputs (stx_transaction tx)) = length (stx_signatures tx))
       (Fail (InvalidWitnessCount (get_id (stx_transaction tx))))"

definition is_token_v0 :: "output_value \<Rightarrow> bool" where
  "is_token_v0 v = (case v of Coin _ \<Rightarrow> False | TokenV1 _ _ \<Rightarrow> False | TokenV0 _ \<Rightarrow> True)"

definition has_tokens_v0_op :: "tx_output \<Rightarrow> bool" where
  "has_tokens_v0_op output = (case output of
      Transfer v _ \<Rightarrow> is_token_v0 v
    | Burn v \<Rightarrow> is_token_v0 v
    | LockThenTransfer v _ _ \<Rightarrow> is_token_v0 v
    | Htlc v _ \<Rightarrow> is_token_v0 v
    | CreateOrder data \<Rightarrow>
        (let ask_token_v0 = is_token_v0 (chain_ask data); give_token_v0 = is_token_v0 (chain_ask data) in
         ask_token_v0 \<or> give_token_v0)
    | _ \<Rightarrow> False)"

definition upgrade_value :: "(chainstate_upgrade \<Rightarrow> 'a) \<Rightarrow> chain_config \<Rightarrow> block_height \<Rightarrow> 'e failure + 'a" where
  "upgrade_value f cfg height = ok_or (map_option f (upgrade_at cfg height)) Panic"

definition check_metadata_uri_change :: "chain_config \<Rightarrow> bool \<Rightarrow> tx_input \<Rightarrow> check_result" where
  "check_metadata_uri_change cfg activated input = (case input of
      AccountCommandInput _ command \<Rightarrow> (case command of
          ChangeTokenMetadataUri i metadata_uri \<Rightarrow>
            and_then (ensure activated (Fail ChangeTokenMetadataUriNotActivated)) (\<lambda>_.
            ensure (length metadata_uri \<le> token_max_uri_len cfg)
              (Fail (CheckTokensError (TokenMetadataUriTooLarge i))))
        | _ \<Rightarrow> Ok ())
    | _ \<Rightarrow> Ok ())"

definition check_issuance_output :: "(nat \<Rightarrow> bool) \<Rightarrow> chain_config \<Rightarrow> tx_id \<Rightarrow> tx_output \<Rightarrow> check_result" where
  "check_issuance_output unicode cfg txid output =
     (let issue_error = map_err (\<lambda>e. Fail (CheckTokensError (IssueError e txid))) in
      case output of
        IssueFungibleToken issuance \<Rightarrow> issue_error (check_tokens_issuance unicode cfg issuance)
      | IssueNft _ issuance _ \<Rightarrow> (case issuance of
            NftIssuanceV0 data \<Rightarrow> issue_error (check_nft_issuance_data unicode cfg data))
      | _ \<Rightarrow> Ok ())"

definition check_tokens_tx :: "(nat \<Rightarrow> bool) \<Rightarrow> (transaction \<Rightarrow> tx_id) \<Rightarrow> chain_config \<Rightarrow> block_height \<Rightarrow>
    signed_transaction \<Rightarrow> check_result" where
  "check_tokens_tx unicode get_id cfg height stx =
     (let tx = stx_transaction stx; txid = get_id tx in
      and_then (upgrade_value token_issuance_version cfg height) (\<lambda>latest_token_version.
      and_then (case latest_token_version of
          TokenIssuanceVersionV0 \<Rightarrow> Ok ()
        | TokenIssuanceVersionV1 \<Rightarrow>
            ensure (\<not> list_ex has_tokens_v0_op (tx_outputs tx))
              (Fail (DeprecatedTokenOperationVersion TokenIssuanceVersionV0 txid))) (\<lambda>_.
      and_then (ensure (get_tokens_issuance_count (tx_outputs tx) \<le> 1)
        (Fail (CheckTokensError (MultipleTokenIssuanceInTransaction txid)))) (\<lambda>_.
      and_then (upgrade_value change_token_metadata_uri_activated cfg height) (\<lambda>activated.
      and_then (try_each (check_metadata_uri_change cfg activated) (tx_inputs tx)) (\<lambda>_.
      try_each (check_issuance_output unicode cfg txid) (tx_outputs tx)))))))"

definition check_witness_data :: "chain_config \<Rightarrow> tx_id \<Rightarrow> input_witness \<Rightarrow> check_result" where
  "check_witness_data cfg txid signature = (case signature of
      NoSignature data \<Rightarrow>
        if \<not> data_in_no_signature_witness_allowed cfg \<and> data \<noteq> None then Err (Fail (NoSignatureDataNotAllowed txid))
        else (case data of
            Some inner_data \<Rightarrow>
              ensure (length inner_data \<le> data_in_no_signature_witness_max_size cfg)
                (Fail (NoSignatureDataSizeTooLarge (length inner_data) (data_in_no_signature_witness_max_size cfg) txid))
          | None \<Rightarrow> Ok ())
    | StandardSignature _ \<Rightarrow> Ok ())"

definition check_no_signature_size :: "(transaction \<Rightarrow> tx_id) \<Rightarrow> chain_config \<Rightarrow> signed_transaction \<Rightarrow> check_result" where
  "check_no_signature_size get_id cfg tx =
     try_each (check_witness_data cfg (get_id (stx_transaction tx))) (stx_signatures tx)"

definition check_data_deposit :: "chain_config \<Rightarrow> block_height \<Rightarrow> tx_id \<Rightarrow> tx_output \<Rightarrow> check_result" where
  "check_data_deposit cfg height txid output = (case output of
      DataDeposit v \<Rightarrow>
        and_then (ok_or (data_deposit_max_size cfg height) Panic) (\<lambda>max_size.
        ensure (length v \<le> max_size) (Fail (DataDepositMaxSizeExceeded (length v) max_size txid)))
    | _ \<Rightarrow> Ok ())"

definition check_data_deposit_outputs ::
    "(transaction \<Rightarrow> tx_id) \<Rightarrow> chain_config \<Rightarrow> block_height \<Rightarrow> signed_transaction \<Rightarrow> check_result" where
  "check_data_deposit_outputs get_id cfg height tx =
     try_each (check_data_deposit cfg height (get_id (stx_transaction tx))) (tx_outputs (stx_transaction tx))"

definition is_htlc :: "tx_output \<Rightarrow> bool" where
  "is_htlc output = (case output of Htlc _ _ \<Rightarrow> True | _ \<Rightarrow> False)"

definition check_htlc_outputs :: "chain_config \<Rightarrow> block_height \<Rightarrow> signed_transaction \<Rightarrow> check_result" where
  "check_htlc_outputs cfg height tx =
     and_then (upgrade_value htlc_activated cfg height) (\<lambda>activated.
     if activated then Ok ()
     else ensure (\<not> list_ex is_htlc (tx_outputs (stx_transaction tx))) (Fail HtlcsAreNotActivated))"

definition check_order_input :: "orders_version \<Rightarrow> tx_id \<Rightarrow> tx_input \<Rightarrow> check_result" where
  "check_order_input version txid input =
     (let deprecated = (case version of OrdersV0 \<Rightarrow> Ok () | OrdersV1 \<Rightarrow> Err (Fail (DeprecatedOrdersCommands txid))) in
      case input of
        UtxoInput _ \<Rightarrow> Ok ()
      | AccountInput _ \<Rightarrow> Ok ()
      | AccountCommandInput _ command \<Rightarrow> (case command of
            FillOrder _ _ _ \<Rightarrow> deprecated
          | ConcludeOrder _ \<Rightarrow> deprecated
          | _ \<Rightarrow> Ok ())
      | OrderAccountCommandInput cmd \<Rightarrow>
          and_then (case version of OrdersV0 \<Rightarrow> Err (Fail (OrdersV1AreNotActivated txid)) | OrdersV1 \<Rightarrow> Ok ()) (\<lambda>_.
          case cmd of
            FillOrderV1 i fill \<Rightarrow> ensure (amount_zero < fill) (Fail (AttemptToFillOrderWithZero i txid))
          | ConcludeOrderV1 _ \<Rightarrow> Ok ()
          | FreezeOrder _ \<Rightarrow> Ok ()))"

definition check_order_output :: "chain_config \<Rightarrow> block_height \<Rightarrow> tx_id \<Rightarrow> tx_output \<Rightarrow> check_result" where
  "check_order_output cfg height txid output = (case output of
      CreateOrder data \<Rightarrow>
        and_then (upgrade_value orders_activated cfg height) (\<lambda>activated.
        if activated then
          ensure (from_output_value (chain_ask data) \<noteq> from_output_value (chain_give data))
            (Fail (OrdersCurrenciesMustBeDifferent txid))
        else Err (Fail (OrdersAreNotActivated txid)))
    | _ \<Rightarrow> Ok ())"

definition check_order_inputs_outputs ::
    "(transaction \<Rightarrow> tx_id) \<Rightarrow> chain_config \<Rightarrow> block_height \<Rightarrow> signed_transaction \<Rightarrow> check_result" where
  "check_order_inputs_outputs get_id cfg height stx =
     (let tx = stx_transaction stx; txid = get_id tx in
      and_then (upgrade_value upgrade_orders_version cfg height) (\<lambda>version.
      and_then (try_each (check_order_input version txid) (tx_inputs tx)) (\<lambda>_.
      try_each (check_order_output cfg height txid) (tx_outputs tx))))"

definition check_transaction :: "(nat \<Rightarrow> bool) \<Rightarrow> (transaction \<Rightarrow> tx_id) \<Rightarrow> (signed_transaction \<Rightarrow> nat) \<Rightarrow>
    chain_config \<Rightarrow> block_height \<Rightarrow> signed_transaction \<Rightarrow> check_result" where
  "check_transaction unicode get_id encoded_size cfg height tx =
     and_then (check_size get_id encoded_size cfg tx) (\<lambda>_.
     and_then (check_duplicate_inputs get_id tx) (\<lambda>_.
     and_then (check_witness_count get_id tx) (\<lambda>_.
     and_then (check_tokens_tx unicode get_id cfg height tx) (\<lambda>_.
     and_then (check_no_signature_size get_id cfg tx) (\<lambda>_.
     and_then (check_data_deposit_outputs get_id cfg height tx) (\<lambda>_.
     and_then (check_htlc_outputs cfg height tx) (\<lambda>_.
     check_order_inputs_outputs get_id cfg height tx)))))))"

section \<open>What an accepted transaction satisfies\<close>

lemma check_new_inputs_eq:
  "check_new_inputs txid seen inputs = Ok u \<longleftrightarrow> distinct inputs \<and> set inputs \<inter> seen = {}"
  by (induction inputs arbitrary: seen) (auto simp: result_simps)

lemma check_duplicate_inputs_eq:
  "check_duplicate_inputs get_id tx = Ok u \<longleftrightarrow> tx_inputs (stx_transaction tx) \<noteq> [] \<and> distinct (tx_inputs (stx_transaction tx))"
  by (auto simp: check_duplicate_inputs_def Let_def result_simps check_new_inputs_eq)

lemma check_size_eq:
  "check_size get_id encoded_size cfg tx = Ok u \<longleftrightarrow> encoded_size tx \<le> max_block_size_from_std_scripts cfg"
  by (auto simp: check_size_def transaction_data_size_def has_smart_contracts_def Let_def result_simps)

lemma upgrade_value_eq: "upgrade_value f cfg height = Ok v \<longleftrightarrow> (\<exists>up. upgrade_at cfg height = Some up \<and> v = f up)"
  by (auto simp: upgrade_value_def result_simps)

lemma check_metadata_uri_change_eq:
  "check_metadata_uri_change cfg activated input = Ok u \<longleftrightarrow>
     (\<forall>n tok uri. input = AccountCommandInput n (ChangeTokenMetadataUri tok uri) \<longrightarrow>
        activated \<and> length uri \<le> token_max_uri_len cfg)"
  by (auto simp: check_metadata_uri_change_def result_simps split: tx_input.splits account_command.splits)

lemma data_deposit_limit: "upgrade_at cfg height = Some up \<Longrightarrow> \<exists>n. data_deposit_max_size cfg height = Some n"
  by (simp add: data_deposit_max_size_def split: option.splits)

text \<open>What the checks ask of one input, one output and one witness when the upgrade \<open>up\<close> is in force.\<close>

definition input_permitted :: "chain_config \<Rightarrow> chainstate_upgrade \<Rightarrow> tx_input \<Rightarrow> bool" where
  "input_permitted cfg up input = (case input of
      UtxoInput _ \<Rightarrow> True
    | AccountInput _ \<Rightarrow> True
    | AccountCommandInput _ command \<Rightarrow> (case command of
          ChangeTokenMetadataUri _ uri \<Rightarrow> change_token_metadata_uri_activated up \<and> length uri \<le> token_max_uri_len cfg
        | FillOrder _ _ _ \<Rightarrow> upgrade_orders_version up = OrdersV0
        | ConcludeOrder _ \<Rightarrow> upgrade_orders_version up = OrdersV0
        | _ \<Rightarrow> True)
    | OrderAccountCommandInput command \<Rightarrow> upgrade_orders_version up = OrdersV1 \<and>
        (case command of FillOrderV1 _ fill \<Rightarrow> amount_zero < fill | _ \<Rightarrow> True))"

definition output_permitted :: "(nat \<Rightarrow> bool) \<Rightarrow> chain_config \<Rightarrow> nat \<Rightarrow> chainstate_upgrade \<Rightarrow> tx_output \<Rightarrow> bool" where
  "output_permitted unicode cfg deposit_limit up output \<longleftrightarrow>
     (token_issuance_version up = TokenIssuanceVersionV0 \<or> \<not> has_tokens_v0_op output) \<and>
     (case output of
        IssueFungibleToken issuance \<Rightarrow> check_tokens_issuance unicode cfg issuance = Ok ()
      | IssueNft _ issuance _ \<Rightarrow> (case issuance of NftIssuanceV0 data \<Rightarrow> check_nft_issuance_data unicode cfg data = Ok ())
      | DataDeposit v \<Rightarrow> length v \<le> deposit_limit
      | Htlc _ _ \<Rightarrow> htlc_activated up
      | CreateOrder data \<Rightarrow> orders_activated up \<and>
          from_output_value (chain_ask data) \<noteq> from_output_value (chain_give data)
      | _ \<Rightarrow> True)"

definition witness_permitted :: "chain_config \<Rightarrow> input_witness \<Rightarrow> bool" where
  "witness_permitted cfg w = (case w of
      NoSignature (Some data) \<Rightarrow> data_in_no_signature_witness_allowed cfg \<and>
        length data \<le> data_in_no_signature_witness_max_size cfg
    | _ \<Rightarrow> True)"

lemma input_checks:
  "check_metadata_uri_change cfg (change_token_metadata_uri_activated up) input = Ok () \<and>
     check_order_input (upgrade_orders_version up) txid input = Ok () \<longleftrightarrow> input_permitted cfg up input"
  by (cases "upgrade_orders_version up") (auto simp: check_metadata_uri_change_def check_order_input_def Let_def
      input_permitted_def result_simps
      split: tx_input.splits account_command.splits order_account_command.splits)

lemma output_checks:
  assumes "upgrade_at cfg height = Some up" "data_deposit_max_size cfg height = Some limit"
  shows "(token_issuance_version up = TokenIssuanceVersionV0 \<or> \<not> has_tokens_v0_op output) \<and>
     check_issuance_output unicode cfg txid output = Ok () \<and> check_data_deposit cfg height txid output = Ok () \<and>
     (htlc_activated up \<or> \<not> is_htlc output) \<and> check_order_output cfg height txid output = Ok () \<longleftrightarrow>
     output_permitted unicode cfg limit up output"
  using assms by (cases "output") (auto simp: output_permitted_def check_issuance_output_def check_data_deposit_def
      check_order_output_def is_htlc_def Let_def result_simps upgrade_value_eq split: nft_issuance.splits)

lemma witness_checks: "check_witness_data cfg txid w = Ok () \<longleftrightarrow> witness_permitted cfg w"
  by (auto simp: check_witness_data_def witness_permitted_def result_simps split: input_witness.splits option.splits)

lemma check_transaction_iff:
  assumes "upgrade_at cfg height = Some up" "data_deposit_max_size cfg height = Some limit"
  shows "check_transaction unicode get_id encoded_size cfg height tx = Ok () \<longleftrightarrow>
    encoded_size tx \<le> max_block_size_from_std_scripts cfg \<and>
    tx_inputs (stx_transaction tx) \<noteq> [] \<and> distinct (tx_inputs (stx_transaction tx)) \<and>
    length (stx_signatures tx) = length (tx_inputs (stx_transaction tx)) \<and>
    get_tokens_issuance_count (tx_outputs (stx_transaction tx)) \<le> 1 \<and>
    list_all (input_permitted cfg up) (tx_inputs (stx_transaction tx)) \<and>
    list_all (output_permitted unicode cfg limit up) (tx_outputs (stx_transaction tx)) \<and>
    list_all (witness_permitted cfg) (stx_signatures tx)"
proof -
  have tokens: "check_tokens_tx unicode get_id cfg height tx = Ok () \<longleftrightarrow>
      get_tokens_issuance_count (tx_outputs (stx_transaction tx)) \<le> 1 \<and>
      (\<forall>i\<in>set (tx_inputs (stx_transaction tx)). check_metadata_uri_change cfg (change_token_metadata_uri_activated up) i = Ok ()) \<and>
      (\<forall>x\<in>set (tx_outputs (stx_transaction tx)).
        (token_issuance_version up = TokenIssuanceVersionV0 \<or> \<not> has_tokens_v0_op x) \<and>
        check_issuance_output unicode cfg (get_id (stx_transaction tx)) x = Ok ())"
    using assms(1) by (cases "token_issuance_version up") (auto simp: check_tokens_tx_def Let_def result_simps
        upgrade_value_eq try_each_eq list_ex_iff)
  have htlc: "check_htlc_outputs cfg height tx = Ok () \<longleftrightarrow>
      (\<forall>x\<in>set (tx_outputs (stx_transaction tx)). htlc_activated up \<or> \<not> is_htlc x)"
    using assms(1) by (auto simp: check_htlc_outputs_def result_simps upgrade_value_eq list_ex_iff)
  show ?thesis
    using assms(1) unfolding check_transaction_def and_then_eq check_size_eq check_duplicate_inputs_eq
    by (simp add: tokens htlc check_witness_count_def check_no_signature_size_def check_data_deposit_outputs_def Let_def
        check_order_inputs_outputs_def result_simps try_each_eq upgrade_value_eq list_all_iff witness_checks
        input_checks [symmetric, where txid = "get_id (stx_transaction tx)"]
        output_checks [OF assms, symmetric, where txid = "get_id (stx_transaction tx)"])
      (auto 0 3)
qed

text \<open>
  C10: A transaction passes exactly when its encoding fits into a block, it has inputs, no input twice, and one
  witness per input, it issues at most one token, and each of its inputs, outputs and witnesses is one the
  upgrade in force at the height permits.
\<close>

theorem check_transaction_accepts_iff:
  assumes "upgrade_at cfg height = Some up" "data_deposit_max_size cfg height = Some limit"
  shows "check_transaction unicode get_id encoded_size cfg height tx = Ok () \<longleftrightarrow>
    encoded_size tx \<le> max_block_size_from_std_scripts cfg \<and>
    tx_inputs (stx_transaction tx) \<noteq> [] \<and> distinct (tx_inputs (stx_transaction tx)) \<and>
    length (stx_signatures tx) = length (tx_inputs (stx_transaction tx)) \<and>
    get_tokens_issuance_count (tx_outputs (stx_transaction tx)) \<le> 1 \<and>
    list_all (input_permitted cfg up) (tx_inputs (stx_transaction tx)) \<and>
    list_all (output_permitted unicode cfg limit up) (tx_outputs (stx_transaction tx)) \<and>
    list_all (witness_permitted cfg) (stx_signatures tx)"
  by (rule check_transaction_iff [OF assms])

section \<open>Failures\<close>

lemma no_panic_and_then: "r \<noteq> Err Panic \<Longrightarrow> (\<And>a. r = Ok a \<Longrightarrow> f a \<noteq> Err Panic) \<Longrightarrow> and_then r f \<noteq> Err Panic"
  by (auto simp: and_then_eq)

lemma no_panic_ensure: "ensure b (Fail e) \<noteq> Err Panic"
  by (simp add: ensure_eq)

lemma no_panic_map_err: "map_err (\<lambda>e. Fail (h e)) r \<noteq> Err Panic"
  by (simp add: map_err_eq)

lemma no_panic_try_each: "(\<And>x. x \<in> set xs \<Longrightarrow> f x \<noteq> Err Panic) \<Longrightarrow> try_each f xs \<noteq> Err Panic"
  using try_each_Err by fastforce

lemma no_panic_upgrade_value: "upgrade_at cfg height = Some up \<Longrightarrow> upgrade_value f cfg height \<noteq> Err Panic"
  by (simp add: upgrade_value_def ok_or_def)

lemma no_panic_ok: "Ok a \<noteq> Err Panic" "Err (Fail e) \<noteq> Err Panic"
  by simp_all

lemmas no_panic_rules = no_panic_ok no_panic_and_then no_panic_ensure no_panic_map_err no_panic_try_each

lemma check_new_inputs_no_panic: "check_new_inputs txid seen inputs \<noteq> Err Panic"
  by (induction inputs arbitrary: seen) (auto simp: result_simps)

lemma upgrade_in_force:
  assumes "upgrades_ok (chainstate_upgrades cfg)"
  obtains up limit where "upgrade_at cfg height = Some up" "data_deposit_max_size cfg height = Some limit"
proof -
  obtain p up where "version_at_height (chainstate_upgrades cfg) height = Some (p, up)"
    using version_at_height_ok [OF assms] by metis
  then have "upgrade_at cfg height = Some up" by (simp add: upgrade_at_def)
  with that data_deposit_limit [OF this] show thesis by blast
qed

text \<open>
  With a table of upgrades as \<open>initialize\<close> accepts it, the checks never panic: every failure is an error.
\<close>

theorem check_transaction_no_panic:
  assumes "upgrades_ok (chainstate_upgrades cfg)"
  shows "check_transaction unicode get_id encoded_size cfg height tx \<noteq> Err Panic"
proof -
  obtain up limit where up: "upgrade_at cfg height = Some up" "data_deposit_max_size cfg height = Some limit"
    using assms by (rule upgrade_in_force)
  have leaves: "check_metadata_uri_change cfg a i \<noteq> Err Panic" "check_issuance_output unicode cfg t x \<noteq> Err Panic"
      "check_witness_data cfg t w \<noteq> Err Panic" "check_data_deposit cfg height t x \<noteq> Err Panic"
      "check_order_input v t i \<noteq> Err Panic" "check_order_output cfg height t x \<noteq> Err Panic" for a i t x w v
    using up by (auto simp: check_metadata_uri_change_def check_issuance_output_def check_witness_data_def Let_def
        check_data_deposit_def check_order_input_def check_order_output_def upgrade_value_def result_simps
        split: tx_input.splits account_command.splits tx_output.splits nft_issuance.splits input_witness.splits
        option.splits order_account_command.splits orders_version.splits if_splits)
  show ?thesis
    unfolding check_transaction_def check_size_def check_duplicate_inputs_def check_witness_count_def
      check_tokens_tx_def check_no_signature_size_def check_data_deposit_outputs_def check_htlc_outputs_def
      check_order_inputs_outputs_def Let_def
    by (intro no_panic_rules leaves check_new_inputs_no_panic no_panic_upgrade_value [OF up(1)])
      (auto simp: ensure_eq split: transaction_size.splits token_issuance_version.splits)
qed

section \<open>Examples\<close>

text \<open>A transaction that makes an order, and functions that stand for the hash and the length of its encoding.\<close>

definition sample_order_tx :: "output_value \<Rightarrow> output_value \<Rightarrow> signed_transaction" where
  "sample_order_tx ask give = \<lparr> stx_transaction = \<lparr> tx_flags = 0,
       tx_inputs = [UtxoInput (UtxoOutPoint (TransactionSource 5) 0)],
       tx_outputs = [CreateOrder \<lparr> chain_conclude_key = AnyoneCanSpend, chain_ask = ask, chain_give = give \<rparr>] \<rparr>,
     stx_signatures = [NoSignature None] \<rparr>"

abbreviation sample_check_transaction :: "signed_transaction \<Rightarrow> check_result" where
  "sample_check_transaction tx \<equiv> check_transaction (\<lambda>_. False) (\<lambda>_. 1) (\<lambda>tx. length (stx_signatures tx)) sample_config 10 tx"

theorem check_transaction_accepts_iff_witness:
  "sample_check_transaction (sample_order_tx (Coin 3) (TokenV1 7 4)) = Ok () \<and>
   sample_check_transaction (sample_order_tx (Coin 3) (Coin 4)) \<noteq> Ok ()"
proof -
  obtain up limit where u: "upgrade_at sample_config 10 = Some up" "data_deposit_max_size sample_config 10 = Some limit"
    and up: "upgrade_at sample_config 10 = Some up" "orders_activated up" "token_issuance_version up = TokenIssuanceVersionV1"
    by (simp add: upgrade_at_def data_deposit_max_size_def sample_config_def version_at_height_def)
  show ?thesis unfolding check_transaction_accepts_iff [OF u]
    using up by (simp add: sample_order_tx_def sample_config_def get_tokens_issuance_count_def is_token_or_nft_issuance_def
        input_permitted_def output_permitted_def witness_permitted_def has_tokens_v0_op_def is_token_v0_def
        from_output_value_def)
qed

theorem check_transaction_no_panic_witness:
  "sample_check_transaction (sample_order_tx (Coin 3) (Coin 4)) \<noteq> Err Panic"
  by (rule check_transaction_no_panic) code_simp

text \<open>The same transaction with another order in the place of its output number \<open>n\<close>.\<close>

definition with_order :: "nat \<Rightarrow> chain_order_data \<Rightarrow> signed_transaction \<Rightarrow> signed_transaction" where
  "with_order n data tx = tx\<lparr>stx_transaction := (stx_transaction tx)
     \<lparr>tx_outputs := (tx_outputs (stx_transaction tx))[n := CreateOrder data]\<rparr>\<rparr>"

lemma with_order_fields [simp]:
  "tx_inputs (stx_transaction (with_order n data tx)) = tx_inputs (stx_transaction tx)"
  "tx_outputs (stx_transaction (with_order n data tx)) = (tx_outputs (stx_transaction tx))[n := CreateOrder data]"
  "stx_signatures (with_order n data tx) = stx_signatures tx"
  by (simp_all add: with_order_def)

lemma issuance_count_with_order:
  "get_tokens_issuance_count (outputs[n := CreateOrder data]) \<le> get_tokens_issuance_count outputs"
proof (cases "n < length outputs")
  case True
  have "filter P (xs[n := y]) = filter P (take n xs) @ filter P (drop (Suc n) xs)" if "n < length xs" "\<not> P y"
    for P and xs :: "tx_output list" and y using that by (simp add: upd_conv_take_nth_drop)
  then show ?thesis using True
    by (subst (2) id_take_nth_drop [OF True]) (simp add: get_tokens_issuance_count_def is_token_or_nft_issuance_def)
qed (simp add: list_update_beyond)

lemma order_permitted:
  "output_permitted unicode cfg limit up (CreateOrder data) \<longleftrightarrow>
     (token_issuance_version up = TokenIssuanceVersionV0 \<or> \<not> is_token_v0 (chain_ask data)) \<and> orders_activated up \<and>
     from_output_value (chain_ask data) \<noteq> from_output_value (chain_give data)"
  by (auto simp: output_permitted_def has_tokens_v0_op_def Let_def)

lemma accepted_with_order:
  assumes "upgrade_at cfg height = Some up" and "data_deposit_max_size cfg height = Some limit"
    and "check_transaction unicode get_id encoded_size cfg height tx = Ok ()"
    and "encoded_size (with_order n data tx) \<le> max_block_size_from_std_scripts cfg"
    and "output_permitted unicode cfg limit up (CreateOrder data)"
  shows "check_transaction unicode get_id encoded_size cfg height (with_order n data tx) = Ok ()"
  using assms(3-5) issuance_count_with_order [of "tx_outputs (stx_transaction tx)" n data]
    set_update_subset_insert [of "tx_outputs (stx_transaction tx)" n "CreateOrder data"]
  unfolding check_transaction_iff [OF assms(1,2)] by (auto simp: list_all_iff)

text \<open>
  C39: The check of deprecated token versions misses what an order gives: it looks at the currency that is
  asked for twice. After the upgrade to the first version of tokens, take any transaction that passes the
  checks, with an order in it. If the order is made to give any version zero token data, and the encoding still
  fits, the transaction passes; if it is made to ask for any version zero token data, it is refused as using a
  deprecated version.
\<close>

theorem order_giving_v0_tokens_accepted:
  assumes "upgrade_at cfg height = Some up" and "token_issuance_version up = TokenIssuanceVersionV1"
    and "data_deposit_max_size cfg height = Some limit"
    and "check_transaction unicode get_id encoded_size cfg height tx = Ok ()"
    and "n < length (tx_outputs (stx_transaction tx))" and "tx_outputs (stx_transaction tx) ! n = CreateOrder data"
  shows "(let tx' = with_order n (data\<lparr>chain_give := TokenV0 v\<rparr>) tx in
      encoded_size tx' \<le> max_block_size_from_std_scripts cfg \<longrightarrow>
      check_transaction unicode get_id encoded_size cfg height tx' = Ok ()) \<and>
    (let tx' = with_order n (data\<lparr>chain_ask := TokenV0 v\<rparr>) tx in
      encoded_size tx' \<le> max_block_size_from_std_scripts cfg \<longrightarrow>
      check_transaction unicode get_id encoded_size cfg height tx' =
        Err (Fail (DeprecatedTokenOperationVersion TokenIssuanceVersionV0 (get_id (stx_transaction tx')))))"
proof -
  note accepted = assms(4) [unfolded check_transaction_iff [OF assms(1,3)]]
  have "output_permitted unicode cfg limit up (CreateOrder data)"
    using accepted assms(5,6) by (metis list_all_length)
  then have "output_permitted unicode cfg limit up (CreateOrder (data\<lparr>chain_give := TokenV0 v\<rparr>))"
    using assms(2) by (cases "chain_ask data") (auto simp: order_permitted is_token_v0_def from_output_value_def)
  from accepted_with_order [OF assms(1,3,4) _ this] have give:
    "encoded_size (with_order n (data\<lparr>chain_give := TokenV0 v\<rparr>) tx) \<le> max_block_size_from_std_scripts cfg \<Longrightarrow>
       check_transaction unicode get_id encoded_size cfg height (with_order n (data\<lparr>chain_give := TokenV0 v\<rparr>) tx) = Ok ()" .
  let ?tx = "with_order n (data\<lparr>chain_ask := TokenV0 v\<rparr>) tx"
  have ask: "check_transaction unicode get_id encoded_size cfg height ?tx =
      Err (Fail (DeprecatedTokenOperationVersion TokenIssuanceVersionV0 (get_id (stx_transaction ?tx))))"
    if "encoded_size ?tx \<le> max_block_size_from_std_scripts cfg"
  proof -
    have "check_size get_id encoded_size cfg ?tx = Ok ()" "check_duplicate_inputs get_id ?tx = Ok ()"
      "check_witness_count get_id ?tx = Ok ()"
      using that accepted by (auto simp: check_size_eq check_duplicate_inputs_eq check_witness_count_def result_simps)
    moreover have "has_tokens_v0_op (CreateOrder (data\<lparr>chain_ask := TokenV0 v\<rparr>))"
      by (simp add: has_tokens_v0_op_def is_token_v0_def)
    then have "list_ex has_tokens_v0_op (tx_outputs (stx_transaction ?tx))"
      using assms(5) by (auto simp: list_ex_iff intro: set_update_memI)
    ultimately show ?thesis using assms(1,2)
      by (simp add: check_transaction_def check_tokens_tx_def upgrade_value_def Let_def and_then_def ok_or_def ensure_def)
  qed
  from give ask show ?thesis by (simp add: Let_def)
qed

theorem order_giving_v0_tokens_accepted_witness:
  "let v0 = TokenV0 (TokenTransfer \<lparr> transfer_token_id = 7, transfer_amount = 4 \<rparr>) in
     sample_check_transaction (sample_order_tx v0 (TokenV1 7 4)) =
       Err (Fail (DeprecatedTokenOperationVersion TokenIssuanceVersionV0 1)) \<and>
     sample_check_transaction (sample_order_tx (Coin 3) v0) = Ok ()"
proof -
  obtain up limit where u: "upgrade_at sample_config 10 = Some up" "token_issuance_version up = TokenIssuanceVersionV1"
    "data_deposit_max_size sample_config 10 = Some limit"
    by (simp add: upgrade_at_def data_deposit_max_size_def sample_config_def version_at_height_def)
  have "sample_check_transaction (sample_order_tx (Coin 3) (TokenV1 7 4)) = Ok ()" by code_simp
  from order_giving_v0_tokens_accepted [OF u this, where n = 0
      and data = "\<lparr> chain_conclude_key = AnyoneCanSpend, chain_ask = Coin 3, chain_give = TokenV1 7 4 \<rparr>"
      and v = "TokenTransfer \<lparr> transfer_token_id = 7, transfer_amount = 4 \<rparr>"]
  show ?thesis by (simp add: sample_order_tx_def with_order_def Let_def sample_config_def)
qed

end
