(* ===== verification/Mintscript.thy ===== *)
theory Mintscript
  imports Signatures Utxo_Cache Tokens_Accounting Orders_Accounting Pos_Accounting
begin

text \<open>
  Spending conditions as scripts (\<open>mintscript/src\<close>): thresholds of conditions over signatures, time locks
  and hash locks, their verification by a loop over an explicit stack, the checkers of the three kinds of
  leaves, and the translation of an input of a transaction or a block reward into a script.
\<close>

section \<open>Scripts\<close>

datatype hash_challenge =
    Ripemd160 "u8 list"
  | Sha1 "u8 list"
  | Sha256 "u8 list"
  | Hash160 htlc_secret_hash
  | Hash256 "u8 list"

datatype dissatisfied_script = DissatisfiedFalse

datatype witness_script =
    ThresholdScript threshold
  | SignatureScript destination evaluated_input_witness
  | TimelockScript output_time_lock
  | HashLockScript hash_challenge "u8 list"
and threshold = Threshold (threshold_required: nat) (threshold_conditions: "script_condition list")
and script_condition = Satisfied witness_script | Dissatisfied dissatisfied_script

datatype script_construction_error = InvalidThreshold nat nat

datatype threshold_error = ThresholdInsufficient | ThresholdExcessive

definition threshold_new :: "nat \<Rightarrow> script_condition list \<Rightarrow> script_construction_error + threshold" where
  "threshold_new required conditions =
     and_then (ensure (required \<le> length conditions) (InvalidThreshold required (length conditions))) (\<lambda>_.
     Ok (Threshold required conditions))"

definition threshold_true :: threshold where
  "threshold_true = Threshold 0 []"

definition script_true :: witness_script where
  "script_true = ThresholdScript threshold_true"

definition script_threshold :: "nat \<Rightarrow> script_condition list \<Rightarrow> script_construction_error + witness_script" where
  "script_threshold required conds = and_then (threshold_new required conds) (\<lambda>t. Ok (ThresholdScript t))"

definition disjunction :: "script_condition list \<Rightarrow> script_construction_error + witness_script" where
  "disjunction conds = script_threshold 1 conds"

text \<open>The assertion of \<open>threshold_unchecked\<close> compares the number of conditions with itself.\<close>

definition conjunction :: "script_condition list \<Rightarrow> witness_script" where
  "conjunction conds = ThresholdScript (Threshold (length conds) conds)"

definition satisfied_conjunction :: "witness_script list \<Rightarrow> witness_script" where
  "satisfied_conjunction conds = conjunction (map Satisfied conds)"

definition as_satisfied :: "script_condition \<Rightarrow> witness_script option" where
  "as_satisfied c = (case c of Satisfied ws \<Rightarrow> Some ws | Dissatisfied _ \<Rightarrow> None)"

definition condition_from_bool :: "bool \<Rightarrow> script_condition" where
  "condition_from_bool b = (if b then Satisfied script_true else Dissatisfied DissatisfiedFalse)"

definition required_dissat :: "threshold \<Rightarrow> nat option" where
  "required_dissat t =
     (if threshold_required t \<le> length (threshold_conditions t)
      then Some (length (threshold_conditions t) - threshold_required t) else None)"

definition collect_satisfied_unchecked :: "threshold \<Rightarrow> witness_script list" where
  "collect_satisfied_unchecked t = List.map_filter as_satisfied (threshold_conditions t)"

text \<open>The loop of \<open>collect_satisfied\<close>, with what is left of both kinds of conditions and the scripts so far.\<close>

fun collect_loop :: "script_condition list \<Rightarrow> nat \<Rightarrow> nat \<Rightarrow> witness_script list \<Rightarrow>
    threshold_error + nat \<times> nat \<times> witness_script list" where
  "collect_loop [] left_sat left_dissat satisfied = Ok (left_sat, left_dissat, satisfied)"
| "collect_loop (Satisfied ws # conds) left_sat left_dissat satisfied =
     (case left_sat of
        0 \<Rightarrow> Err ThresholdExcessive
      | Suc n \<Rightarrow> collect_loop conds n left_dissat (satisfied @ [ws]))"
| "collect_loop (Dissatisfied _ # conds) left_sat left_dissat satisfied =
     (case left_dissat of
        0 \<Rightarrow> Err ThresholdInsufficient
      | Suc n \<Rightarrow> collect_loop conds left_sat n satisfied)"

definition collect_satisfied :: "threshold \<Rightarrow> threshold_error failure + witness_script list" where
  "collect_satisfied t =
     and_then (ok_or (required_dissat t) Panic) (\<lambda>dissat.
     and_then (map_err Fail (collect_loop (threshold_conditions t) (threshold_required t) dissat []))
       (\<lambda>(left_sat, left_dissat, satisfied).
     and_then (ensure (left_dissat = 0 \<and> left_sat = 0) Panic) (\<lambda>_. Ok satisfied)))"

section \<open>Verification\<close>

datatype ('s, 't, 'h) script_error =
    ScriptSignature 's
  | ScriptTimelock 't
  | ScriptHashlock 'h
  | ScriptThreshold threshold_error

text \<open>A visitor checks the leaves of a script; it may change its state.\<close>

record ('v, 's, 't, 'h) script_visitor =
  visit_signature :: "destination \<Rightarrow> evaluated_input_witness \<Rightarrow> ('v, 's failure, unit) op"
  visit_timelock :: "output_time_lock \<Rightarrow> ('v, 't failure, unit) op"
  visit_hashlock :: "hash_challenge \<Rightarrow> u8 list \<Rightarrow> ('v, 'h failure, unit) op"

text \<open>One turn of the loop for the expression that was popped: the expressions to push, topmost first.\<close>

definition verify_expr :: "('v, 's, 't, 'h) script_visitor \<Rightarrow> witness_script \<Rightarrow>
    ('v, ('s, 't, 'h) script_error failure, witness_script list) op" where
  "verify_expr v expr = (case expr of
      SignatureScript dest sig \<Rightarrow>
        bindS (map_errS (map_failure ScriptSignature) (visit_signature v dest sig)) (\<lambda>_. returnS [])
    | TimelockScript lock \<Rightarrow> bindS (map_errS (map_failure ScriptTimelock) (visit_timelock v lock)) (\<lambda>_. returnS [])
    | ThresholdScript thresh \<Rightarrow> liftS (map_err (map_failure ScriptThreshold) (collect_satisfied thresh))
    | HashLockScript challenge preimage \<Rightarrow>
        bindS (map_errS (map_failure ScriptHashlock) (visit_hashlock v challenge preimage)) (\<lambda>_. returnS []))"

text \<open>
  The loop over the evaluation stack, whose top is the head of the list. \<open>None\<close> is the value of a loop
  that does not end.
\<close>

partial_function (option) verify_stack :: "('v, 's, 't, 'h) script_visitor \<Rightarrow> witness_script list \<Rightarrow> 'v \<Rightarrow>
    ((('s, 't, 'h) script_error failure + unit) \<times> 'v) option" where
  "verify_stack v stack st = (case stack of
      [] \<Rightarrow> Some (Inr (), st)
    | expr # rest \<Rightarrow>
        (case verify_expr v expr st of (r, st') \<Rightarrow>
           (case r of
              Inl e \<Rightarrow> Some (Inl e, st')
            | Inr pushed \<Rightarrow> verify_stack v (pushed @ rest) st')))"

definition script_verify :: "('v, 's, 't, 'h) script_visitor \<Rightarrow> witness_script \<Rightarrow> 'v \<Rightarrow>
    ((('s, 't, 'h) script_error failure + unit) \<times> 'v) option" where
  "script_verify v script st = verify_stack v [script] st"

section \<open>Checkers\<close>

datatype hashlock_error = IncorrectHashSize | HashMismatch

definition ensure_hashes_equal :: "'h \<Rightarrow> 'h \<Rightarrow> hashlock_error + unit" where
  "ensure_hashes_equal left right = ensure (left = right) HashMismatch"

text \<open>Only \<open>Hash160\<close> challenges are implemented; the others panic.\<close>

definition check_hashlock :: "'aux crypto \<Rightarrow> hash_challenge \<Rightarrow> u8 list \<Rightarrow> hashlock_error failure + unit" where
  "check_hashlock cr challenge preimage = (case challenge of
      Hash160 expected_hash \<Rightarrow> map_err Fail (ensure_hashes_equal (cr_hash160 cr preimage) expected_hash)
    | _ \<Rightarrow> Err Panic)"

datatype 'c timelock_error =
    TimelockContextError 'c
  | HeightArith
  | TimestampArith
  | HeightLocked block_height block_height
  | TimestampLocked block_timestamp block_timestamp

text \<open>What is known of the place where an output is spent and where it comes from; finding it may fail.\<close>

record 'c timelock_context =
  spending_height :: block_height
  spending_time :: block_timestamp
  source_height :: "'c failure + block_height"
  source_time :: "'c failure + block_timestamp"

definition check_at_least :: "'n::linorder \<Rightarrow> 'n \<Rightarrow> ('n \<Rightarrow> 'n \<Rightarrow> 'e) \<Rightarrow> 'e + unit" where
  "check_at_least cur req err_f = ensure (req \<le> cur) (err_f cur req)"

text \<open>
  A distance is an \<open>i64\<close>. A height that is not one is an error of the addition, and a sum that is not one
  a panic; the outer option is \<open>None\<close> for the panic.
\<close>

type_synonym block_distance = "64 word"

definition block_height_add :: "block_height \<Rightarrow> block_distance \<Rightarrow> block_height option option" where
  "block_height_add height distance =
     (if 0 \<le> sint height then
        map_option (\<lambda>result. if 0 \<le> sint result then Some result else None) (checked_add_s height distance)
      else Some None)"

definition block_distance_try_from :: "u64 \<Rightarrow> block_distance option" where
  "block_distance_try_from d = (if 0 \<le> sint d then Some d else None)"

definition check_timelock :: "'c timelock_context \<Rightarrow> output_time_lock \<Rightarrow> 'c timelock_error failure + unit" where
  "check_timelock ctx lock = (case lock of
      UntilHeight required \<Rightarrow> map_err Fail (check_at_least (spending_height ctx) required HeightLocked)
    | UntilTime required \<Rightarrow> map_err Fail (check_at_least (spending_time ctx) required TimestampLocked)
    | ForBlockCount d \<Rightarrow>
        and_then (ok_or (block_distance_try_from d) (Fail HeightArith)) (\<lambda>distance.
        and_then (map_err (map_failure TimelockContextError) (source_height ctx)) (\<lambda>height.
        and_then (ok_or (block_height_add height distance) Panic) (\<lambda>sum.
        and_then (ok_or sum (Fail HeightArith)) (\<lambda>required.
        map_err Fail (check_at_least (spending_height ctx) required HeightLocked)))))
    | ForSeconds dt \<Rightarrow>
        and_then (map_err (map_failure TimelockContextError) (source_time ctx)) (\<lambda>time.
        and_then (ok_or (checked_add_u time dt) (Fail TimestampArith)) (\<lambda>required.
        map_err Fail (check_at_least (spending_time ctx) required TimestampLocked))))"

text \<open>
  The three script checkers. A checker that accepts everything (\<open>NoOp...\<close>) has no error; the types of its
  errors are left open.
\<close>

definition no_op :: "('v, 'e, unit) op" where
  "no_op = returnS ()"

definition timelock_only_checker :: "'c timelock_context \<Rightarrow> (unit, 's, 'c timelock_error, 'h) script_visitor" where
  "timelock_only_checker ctx = \<lparr> visit_signature = (\<lambda>_ _. no_op),
     visit_timelock = (\<lambda>lock. liftS (check_timelock ctx lock)), visit_hashlock = (\<lambda>_ _. no_op) \<rparr>"

definition signature_only_checker ::
    "(destination \<Rightarrow> evaluated_input_witness \<Rightarrow> 's + unit) \<Rightarrow> (unit, 's, 't, 'h) script_visitor" where
  "signature_only_checker check_signature = \<lparr>
     visit_signature = (\<lambda>dest sig. liftS (map_err Fail (check_signature dest sig))),
     visit_timelock = (\<lambda>_. no_op), visit_hashlock = (\<lambda>_ _. no_op) \<rparr>"

definition full_checker :: "'aux crypto \<Rightarrow> (destination \<Rightarrow> evaluated_input_witness \<Rightarrow> 's + unit) \<Rightarrow>
    'c timelock_context \<Rightarrow> (unit, 's, 'c timelock_error, hashlock_error) script_visitor" where
  "full_checker cr check_signature ctx = \<lparr>
     visit_signature = (\<lambda>dest sig. liftS (map_err Fail (check_signature dest sig))),
     visit_timelock = (\<lambda>lock. liftS (check_timelock ctx lock)),
     visit_hashlock = (\<lambda>challenge preimage. liftS (check_hashlock cr challenge preimage)) \<rparr>"

section \<open>Translation of inputs\<close>

datatype translation_error =
    Unspendable
  | IllegalAccountSpend
  | IllegalOutputSpend
  | TranslationPosError pos_error
  | TranslationTokensError tokens_error
  | TranslationOrdersError orders_error
  | TranslationSignatureError destination_sig_error
  | TranslationPoolNotFound pool_id
  | TranslationDelegationNotFound delegation_id
  | TranslationTokenNotFound token_id
  | TranslationOrderNotFound order_id

datatype input_info =
    InfoUtxo utxo_outpoint tx_output "utxo_source option"
  | InfoAccount account_outpoint
  | InfoAccountCommand account_command
  | InfoOrderAccountCommand order_account_command

record per_input_data =
  input_info :: input_info
  input_witness :: input_witness

text \<open>\<open>SignatureInfoProvider\<close>: the input and the destinations the accounting knows.\<close>

record signature_info = per_input_data +
  get_pool_decommission_destination :: "pool_id \<Rightarrow> pos_error + destination option"
  get_delegation_spend_destination :: "delegation_id \<Rightarrow> pos_error + destination option"
  get_tokens_authority :: "token_id \<Rightarrow> tokens_error + destination option"
  get_orders_conclude_destination :: "order_id \<Rightarrow> orders_error + destination option"

definition evaluate_witness :: "input_witness \<Rightarrow> evaluated_input_witness" where
  "evaluate_witness w = (case w of
      NoSignature d \<Rightarrow> EvaluatedNoSignature d
    | StandardSignature s \<Rightarrow> EvaluatedStandard s)"

definition to_signature_witness_script :: "'a per_input_data_scheme \<Rightarrow> destination \<Rightarrow> witness_script" where
  "to_signature_witness_script ctx dest = SignatureScript dest (evaluate_witness (input_witness ctx))"

text \<open>A destination that has to be looked up, and the script of a signature for it.\<close>

definition looked_up_signature :: "'a per_input_data_scheme \<Rightarrow> ('e \<Rightarrow> translation_error) \<Rightarrow> translation_error \<Rightarrow>
    'e + destination option \<Rightarrow> translation_error + witness_script" where
  "looked_up_signature ctx err missing r =
     and_then (map_err err r) (\<lambda>d. and_then (ok_or d missing) (\<lambda>dest.
     Ok (to_signature_witness_script ctx dest)))"

definition pool_signature :: "'a signature_info_scheme \<Rightarrow> pool_id \<Rightarrow> translation_error + witness_script" where
  "pool_signature ctx pool = looked_up_signature ctx TranslationPosError (TranslationPoolNotFound pool)
     (get_pool_decommission_destination ctx pool)"

definition delegation_signature :: "'a signature_info_scheme \<Rightarrow> delegation_id \<Rightarrow>
    translation_error + witness_script" where
  "delegation_signature ctx deleg = looked_up_signature ctx TranslationPosError
     (TranslationDelegationNotFound deleg) (get_delegation_spend_destination ctx deleg)"

definition authority_signature :: "'a signature_info_scheme \<Rightarrow> token_id \<Rightarrow> translation_error + witness_script" where
  "authority_signature ctx tok = looked_up_signature ctx TranslationTokensError (TranslationTokenNotFound tok)
     (get_tokens_authority ctx tok)"

definition conclude_signature :: "'a signature_info_scheme \<Rightarrow> order_id \<Rightarrow> translation_error + witness_script" where
  "conclude_signature ctx order = looked_up_signature ctx TranslationOrdersError (TranslationOrderNotFound order)
     (get_orders_conclude_destination ctx order)"

text \<open>The witness of a hashed timelock contract says whether it is spent or refunded.\<close>

definition htlc_witness :: "'aux crypto \<Rightarrow> 'a per_input_data_scheme \<Rightarrow>
    translation_error + sig_hash_type \<times> authorized_htlc_spend" where
  "htlc_witness cr ctx = (case input_witness ctx of
      NoSignature _ \<Rightarrow> Err (TranslationSignatureError SignatureNotFound)
    | StandardSignature sig \<Rightarrow>
        and_then (ok_or (cr_decode_htlc_spend cr (raw_signature sig))
          (TranslationSignatureError InvalidSignatureEncoding)) (\<lambda>spend. Ok (sighash_type sig, spend)))"

definition htlc_signature :: "destination \<Rightarrow> sig_hash_type \<Rightarrow> u8 list \<Rightarrow> witness_script" where
  "htlc_signature dest mode raw =
     SignatureScript dest (EvaluatedStandard \<lparr> sighash_type = mode, raw_signature = raw \<rparr>)"

definition translate_account_command :: "'a signature_info_scheme \<Rightarrow> account_command \<Rightarrow>
    translation_error + witness_script" where
  "translate_account_command ctx command = (case command of
      MintTokens tok _ \<Rightarrow> authority_signature ctx tok
    | UnmintTokens tok \<Rightarrow> authority_signature ctx tok
    | LockTokenSupply tok \<Rightarrow> authority_signature ctx tok
    | FreezeToken tok _ \<Rightarrow> authority_signature ctx tok
    | UnfreezeToken tok \<Rightarrow> authority_signature ctx tok
    | ChangeTokenMetadataUri tok _ \<Rightarrow> authority_signature ctx tok
    | ChangeTokenAuthority tok _ \<Rightarrow> authority_signature ctx tok
    | ConcludeOrder order \<Rightarrow> conclude_signature ctx order
    | FillOrder _ _ _ \<Rightarrow> Ok script_true)"

definition translate_order_account_command :: "'a signature_info_scheme \<Rightarrow> order_account_command \<Rightarrow>
    translation_error + witness_script" where
  "translate_order_account_command ctx command = (case command of
      FillOrderV1 _ _ \<Rightarrow> Ok (to_signature_witness_script ctx AnyoneCanSpend)
    | FreezeOrder order \<Rightarrow> conclude_signature ctx order
    | ConcludeOrderV1 order \<Rightarrow> conclude_signature ctx order)"

definition translate_account :: "'a signature_info_scheme \<Rightarrow> account_outpoint \<Rightarrow>
    translation_error + witness_script" where
  "translate_account ctx outpoint =
     (case outpoint of AccountOutPoint _ (DelegationBalance deleg _) \<Rightarrow> delegation_signature ctx deleg)"

definition translate_transaction_input :: "'aux crypto \<Rightarrow> 'a signature_info_scheme \<Rightarrow>
    translation_error + witness_script" where
  "translate_transaction_input cr ctx = (case input_info ctx of
      InfoUtxo _ utxo _ \<Rightarrow> (case utxo of
          Transfer _ dest \<Rightarrow> Ok (to_signature_witness_script ctx dest)
        | LockThenTransfer _ dest timelock \<Rightarrow>
            Ok (satisfied_conjunction [TimelockScript timelock, to_signature_witness_script ctx dest])
        | CreateStakePool _ data \<Rightarrow> Ok (to_signature_witness_script ctx (sp_decommission_key data))
        | ProduceBlockFromStake _ pool \<Rightarrow> pool_signature ctx pool
        | Htlc _ htlc \<Rightarrow>
            and_then (htlc_witness cr ctx) (\<lambda>(mode, spend). Ok (case spend of
                HtlcSpend secret raw \<Rightarrow> satisfied_conjunction
                  [HashLockScript (Hash160 (secret_hash htlc)) secret, htlc_signature (spend_key htlc) mode raw]
              | HtlcRefund raw \<Rightarrow> satisfied_conjunction
                  [TimelockScript (refund_timelock htlc), htlc_signature (refund_key htlc) mode raw]))
        | IssueNft _ _ dest \<Rightarrow> Ok (to_signature_witness_script ctx dest)
        | _ \<Rightarrow> Err Unspendable)
    | InfoAccount outpoint \<Rightarrow> translate_account ctx outpoint
    | InfoAccountCommand command \<Rightarrow> translate_account_command ctx command
    | InfoOrderAccountCommand command \<Rightarrow> translate_order_account_command ctx command)"

definition translate_reward_input :: "'a per_input_data_scheme \<Rightarrow> translation_error + witness_script" where
  "translate_reward_input ctx = (case input_info ctx of
      InfoUtxo _ utxo _ \<Rightarrow> (case utxo of
          Transfer _ _ \<Rightarrow> Err IllegalOutputSpend
        | LockThenTransfer _ _ _ \<Rightarrow> Err IllegalOutputSpend
        | IssueNft _ _ _ \<Rightarrow> Err IllegalOutputSpend
        | Htlc _ _ \<Rightarrow> Err IllegalOutputSpend
        | ProduceBlockFromStake d _ \<Rightarrow> Ok (to_signature_witness_script ctx d)
        | CreateStakePool _ data \<Rightarrow> Ok (to_signature_witness_script ctx (sp_staker data))
        | _ \<Rightarrow> Err Unspendable)
    | _ \<Rightarrow> Err IllegalAccountSpend)"

definition translate_timelock_only :: "'aux crypto \<Rightarrow> 'a per_input_data_scheme \<Rightarrow>
    translation_error + witness_script" where
  "translate_timelock_only cr ctx = (case input_info ctx of
      InfoUtxo _ utxo _ \<Rightarrow> (case utxo of
          LockThenTransfer _ _ timelock \<Rightarrow> Ok (TimelockScript timelock)
        | Htlc _ htlc \<Rightarrow>
            and_then (htlc_witness cr ctx) (\<lambda>(_, spend). Ok (case spend of
                HtlcSpend _ _ \<Rightarrow> script_true
              | HtlcRefund _ \<Rightarrow> TimelockScript (refund_timelock htlc)))
        | Transfer _ _ \<Rightarrow> Ok script_true
        | CreateStakePool _ _ \<Rightarrow> Ok script_true
        | ProduceBlockFromStake _ _ \<Rightarrow> Ok script_true
        | IssueNft _ _ _ \<Rightarrow> Ok script_true
        | _ \<Rightarrow> Err Unspendable)
    | _ \<Rightarrow> Ok script_true)"

definition translate_signature_only :: "'aux crypto \<Rightarrow> 'a signature_info_scheme \<Rightarrow>
    translation_error + witness_script" where
  "translate_signature_only cr ctx = (case input_info ctx of
      InfoUtxo _ utxo _ \<Rightarrow> (case utxo of
          Transfer _ dest \<Rightarrow> Ok (to_signature_witness_script ctx dest)
        | LockThenTransfer _ dest _ \<Rightarrow> Ok (to_signature_witness_script ctx dest)
        | CreateStakePool _ data \<Rightarrow> Ok (to_signature_witness_script ctx (sp_decommission_key data))
        | ProduceBlockFromStake _ pool \<Rightarrow> pool_signature ctx pool
        | Htlc _ htlc \<Rightarrow>
            and_then (htlc_witness cr ctx) (\<lambda>(mode, spend). Ok (case spend of
                HtlcSpend _ raw \<Rightarrow> htlc_signature (spend_key htlc) mode raw
              | HtlcRefund raw \<Rightarrow> htlc_signature (refund_key htlc) mode raw))
        | IssueNft _ _ dest \<Rightarrow> Ok (to_signature_witness_script ctx dest)
        | _ \<Rightarrow> Err Unspendable)
    | InfoAccount outpoint \<Rightarrow> translate_account ctx outpoint
    | InfoAccountCommand command \<Rightarrow> translate_account_command ctx command
    | InfoOrderAccountCommand command \<Rightarrow> translate_order_account_command ctx command)"

section \<open>Satisfied conditions\<close>

lemma as_satisfied_simps [simp]: "as_satisfied (Satisfied w) = Some w" "as_satisfied (Dissatisfied x) = None"
  by (simp_all add: as_satisfied_def)

lemma satisfied_le: "length (List.map_filter as_satisfied conds) \<le> length conds"
proof (induction conds)
  case (Cons c conds)
  then show ?case by (cases c) auto
qed simp

lemma collect_loop_ok:
  "collect_loop conds left_sat left_dissat acc = Ok (s, d, ws) \<longleftrightarrow>
     ws = acc @ List.map_filter as_satisfied conds \<and> left_sat = s + length (List.map_filter as_satisfied conds) \<and>
     left_dissat + length (List.map_filter as_satisfied conds) = d + length conds"
proof (induction conds left_sat left_dissat acc rule: collect_loop.induct)
  case (2 w conds left_sat left_dissat acc)
  then show ?case by (cases left_sat) auto
next
  case (3 x conds left_sat left_dissat acc)
  then show ?case using satisfied_le [of conds] by (cases left_dissat) auto
qed auto

lemma collect_satisfied_ok:
  assumes "threshold_required t \<le> length (threshold_conditions t)"
  shows "collect_satisfied t = Ok ws \<longleftrightarrow>
    length (collect_satisfied_unchecked t) = threshold_required t \<and> ws = collect_satisfied_unchecked t"
proof -
  have "collect_satisfied t = Ok ws \<longleftrightarrow>
      collect_loop (threshold_conditions t) (threshold_required t)
        (length (threshold_conditions t) - threshold_required t) [] = Ok (0, 0, ws)"
    using assms by (auto simp: collect_satisfied_def required_dissat_def and_then_eq ok_or_eq map_err_eq ensure_eq)
  then show ?thesis
    using assms satisfied_le [of "threshold_conditions t"] by (auto simp: collect_loop_ok collect_satisfied_unchecked_def)
qed

lemma collect_satisfied_no_panic:
  assumes "threshold_required t \<le> length (threshold_conditions t)"
  shows "collect_satisfied t \<noteq> Err Panic"
proof
  assume "collect_satisfied t = Err Panic"
  then obtain s d ws where "collect_loop (threshold_conditions t) (threshold_required t)
      (length (threshold_conditions t) - threshold_required t) [] = Ok (s, d, ws)" "\<not> (d = 0 \<and> s = 0)"
    using assms by (auto simp: collect_satisfied_def required_dissat_def and_then_eq ok_or_eq map_err_eq ensure_eq)
  then show False using assms satisfied_le [of "threshold_conditions t"] by (auto simp: collect_loop_ok)
qed

lemma conjunction_collects: "collect_satisfied (Threshold (length ws) (map Satisfied ws)) = Ok ws"
proof -
  have "List.map_filter as_satisfied (map Satisfied ws) = ws"
    by (induction ws) auto
  then show ?thesis by (simp add: collect_satisfied_ok collect_satisfied_unchecked_def)
qed

section \<open>Evaluation of scripts\<close>

lemma try_for_each_fundef_cong [fundef_cong]:
  "xs = ys \<Longrightarrow> (\<And>x. x \<in> set ys \<Longrightarrow> f x = g x) \<Longrightarrow> try_for_each f xs = try_for_each g ys"
  by (induction xs arbitrary: ys) auto

lemma satisfied_size:
  "(\<Sum>w\<leftarrow>List.map_filter as_satisfied conds. Suc (size w)) \<le> size_list size conds"
proof (induction conds)
  case (Cons c conds)
  then show ?case by (cases c) auto
qed simp

lemma collected_scripts:
  assumes "collect_satisfied t = Ok ws"
  shows "(\<Sum>w\<leftarrow>ws. Suc (size w)) < size t"
proof -
  obtain s d d' where "collect_loop (threshold_conditions t) (threshold_required t) d [] = Ok (s, d', ws)"
    using assms by (auto simp: collect_satisfied_def and_then_eq map_err_eq)
  then have "ws = List.map_filter as_satisfied (threshold_conditions t)" by (simp add: collect_loop_ok)
  then show ?thesis using satisfied_size [of "threshold_conditions t"] by (cases t) simp
qed

lemma collected_script_smaller: "collect_satisfied t = Ok ws \<Longrightarrow> w \<in> set ws \<Longrightarrow> size w < size t"
  using collected_scripts [of t ws] member_le_sum_list [of "Suc (size w)" "map (\<lambda>w. Suc (size w)) ws"] by auto

text \<open>The value of a script: its leaves are visited from left to right, below the thresholds that are met.\<close>

function script_eval :: "('v, 's, 't, 'h) script_visitor \<Rightarrow> witness_script \<Rightarrow>
    ('v, ('s, 't, 'h) script_error failure, unit) op" where
  "script_eval v (SignatureScript dest sig) = map_errS (map_failure ScriptSignature) (visit_signature v dest sig)"
| "script_eval v (TimelockScript lock) = map_errS (map_failure ScriptTimelock) (visit_timelock v lock)"
| "script_eval v (HashLockScript challenge preimage) =
     map_errS (map_failure ScriptHashlock) (visit_hashlock v challenge preimage)"
| "script_eval v (ThresholdScript t) = (case collect_satisfied t of
      Inl e \<Rightarrow> failS (map_failure ScriptThreshold e)
    | Inr ws \<Rightarrow> try_for_each (script_eval v) ws)"
  by pat_completeness auto
termination
  by (relation "measure (\<lambda>(_, s). size s)") (auto dest: collected_script_smaller)

lemma verify_stack_evaluates:
  "verify_stack v stack st = Some (try_for_each (script_eval v) stack st)"
proof (induction "\<Sum>w\<leftarrow>stack. Suc (size w)" arbitrary: stack st rule: less_induct)
  case less
  show ?case
  proof (cases stack)
    case Nil
    then show ?thesis by (subst verify_stack.simps) (simp add: returnS_def)
  next
    case (Cons expr rest)
    have rec: "verify_stack v (ws @ rest) st' = Some (try_for_each (script_eval v) (ws @ rest) st')"
      if "(\<Sum>w\<leftarrow>ws. Suc (size w)) < Suc (size expr)" for ws st'
      using less [of "ws @ rest" st'] that Cons by simp
    have thr: "(\<Sum>w\<leftarrow>ws. Suc (size w)) < Suc (size expr)" if "expr = ThresholdScript t" "collect_satisfied t = Ok ws" for t ws
      using collected_scripts [OF that(2)] that(1) by simp
    have nil: "verify_stack v rest st' = Some (try_for_each (script_eval v) rest st')" for st'
      using rec [of "[]" st'] by simp
    have step: "verify_stack v (expr # rest) st = (case verify_expr v expr st of (r, st') \<Rightarrow> (case r of
        Inl e \<Rightarrow> Some (Inl e, st') | Inr pushed \<Rightarrow> verify_stack v (pushed @ rest) st'))"
      by (subst verify_stack.simps) simp
    show ?thesis
    proof (cases expr)
      case (ThresholdScript t)
      then show ?thesis unfolding Cons step using rec thr Cons
        by (auto simp: verify_expr_def liftS_def map_err_def bindS_def failS_def try_for_each_append
            split: sum.splits prod.splits)
    qed (unfold Cons step, use nil in \<open>auto simp: verify_expr_def bindS_def returnS_def map_errS_def map_err_def
          split: sum.splits prod.splits\<close>)
  qed
qed

lemma script_verify_evaluates: "script_verify v script st = Some (script_eval v script st)"
  by (simp add: script_verify_def verify_stack_evaluates bindS_def returnS_def split: prod.splits sum.splits)

section \<open>Time locks\<close>

lemma checked_of_int_s_64:
  "checked_of_int_s x = (if - (2 ^ 63) \<le> x \<and> x < 2 ^ 63 then Some (word_of_int x :: 64 word) else None)"
  by (simp add: checked_of_int_s_def in_signed_def)

lemma sum_below: "0 \<le> a \<Longrightarrow> 0 \<le> b \<Longrightarrow> a + b < n \<Longrightarrow> a < n \<and> b < (n :: int)"
  by linarith

lemma sint_u64: "sint (w :: 64 word) = (if uint w < 2 ^ 63 then uint w else uint w - 2 ^ 64)"
proof -
  have "sint w = (uint w + 2 ^ 63) mod 2 ^ 64 - 2 ^ 63"
    by (simp add: sint_uint signed_take_bit_eq_take_bit_shift take_bit_eq_mod)
  moreover have "0 \<le> uint w" "uint w < 2 ^ 64" using uint_lt2p [of w] by auto
  ultimately show ?thesis
    by (cases "uint w < 2 ^ 63") (simp_all add: mod_pos_pos_trivial mod_pos_geq)
qed

lemma sint_u64_nonneg: "0 \<le> sint (w :: 64 word) \<longleftrightarrow> uint w < 2 ^ 63"
  using uint_lt2p [of w] by (auto simp: sint_u64)

lemma sint_u64_eq: "uint (w :: 64 word) < 2 ^ 63 \<Longrightarrow> sint w = uint w"
  by (simp add: sint_u64)

lemma block_height_add_eq:
  assumes "uint d < 2 ^ 63"
  shows "block_height_add h d = (if 2 ^ 63 \<le> uint h then Some None
     else if uint h + uint d < 2 ^ 63 then Some (Some (h + d)) else None)"
proof -
  have "word_of_int (uint h + uint d) = h + d" by (simp flip: word_add_def)
  moreover have "uint (h + d) = (uint h + uint d) mod 2 ^ 64" by (simp add: uint_word_ariths)
  moreover have "- (2 ^ 63) \<le> uint h + uint d"
    by (rule order_trans [of _ 0]) simp_all
  ultimately show ?thesis using assms
    by (cases "uint h < 2 ^ 63") (simp_all add: block_height_add_def checked_add_s_def checked_of_int_s_64
        sint_u64_nonneg sint_u64_eq mod_pos_pos_trivial)
qed

lemma block_distance_try_from_eq: "block_distance_try_from d = (if uint d < 2 ^ 63 then Some d else None)"
  by (simp add: block_distance_try_from_def sint_u64_nonneg)

text \<open>
  C29: A lock is passed in exactly these cases, over unbounded integers: the spending block has the height or
  the time of an absolute lock; for a relative lock, the height or the time of the block that created the output
  is known, the sum with the distance is below \<open>2 ^ 63\<close> for heights, and the spending block has reached it.
\<close>

lemma timelock_accepts_iff_passed:
  "check_timelock ctx lock = Ok () \<longleftrightarrow> (case lock of
      UntilHeight h \<Rightarrow> uint h \<le> uint (spending_height ctx)
    | UntilTime t \<Rightarrow> uint t \<le> uint (spending_time ctx)
    | ForBlockCount d \<Rightarrow> (\<exists>h. source_height ctx = Ok h \<and> uint h + uint d < 2 ^ 63 \<and>
        uint h + uint d \<le> uint (spending_height ctx))
    | ForSeconds s \<Rightarrow> (\<exists>t. source_time ctx = Ok t \<and> uint t + uint s \<le> uint (spending_time ctx)))"
proof (cases lock)
  case (ForBlockCount d)
  have "uint (h + d) = uint h + uint d \<and> uint h < 2 ^ 63 \<and> uint d < 2 ^ 63"
    if "uint h + uint d < 2 ^ 63" for h :: block_height
    using that sum_below [of "uint h" "uint d"] by (simp add: uint_word_ariths mod_pos_pos_trivial)
  then show ?thesis using ForBlockCount
    by (cases "source_height ctx") (auto simp: check_timelock_def and_then_eq ok_or_eq map_err_eq ensure_eq
        check_at_least_def word_le_def block_distance_try_from_eq block_height_add_eq not_less [symmetric]
        split: if_splits)
next
  case (ForSeconds s)
  have "uint t + uint s < 2 ^ 64" if "uint t + uint s \<le> uint (spending_time ctx)" for t :: block_timestamp
    using that uint_lt2p [of "spending_time ctx"] by simp
  moreover have "uint (t + s) = uint t + uint s" if "uint t + uint s < 2 ^ 64" for t :: block_timestamp
    using that by (simp add: uint_word_ariths mod_pos_pos_trivial)
  ultimately show ?thesis using ForSeconds
    by (fastforce simp: check_timelock_def and_then_eq ok_or_eq map_err_eq ensure_eq check_at_least_def word_le_def
        checked_add_u_def split: if_splits)
qed (auto simp: check_timelock_def check_at_least_def map_err_eq ensure_eq word_le_def)

lemma map_failure_Panic [simp]: "map_failure f e = Panic \<longleftrightarrow> e = Panic" "Panic = map_failure f e \<longleftrightarrow> e = Panic"
  by (cases e; auto)+

text \<open>
  C36: Checking a lock panics, when finding the height and the time of the source block does not, exactly when a
  relative lock on the height has a distance that is an \<open>i64\<close>, the height of the source block is known and
  an \<open>i64\<close> too, and their sum is not: the addition of a distance to a height unwraps the checked sum, so an
  output whose distance is close to \<open>i64::MAX\<close> stops the node that verifies an input spending it.
\<close>

lemma timelock_panics_iff_height_overflows:
  assumes "source_height ctx \<noteq> Err Panic" "source_time ctx \<noteq> Err Panic"
  shows "check_timelock ctx lock = Err Panic \<longleftrightarrow> (\<exists>d h. lock = ForBlockCount d \<and> uint d < 2 ^ 63 \<and>
     source_height ctx = Ok h \<and> uint h < 2 ^ 63 \<and> 2 ^ 63 \<le> uint h + uint d)"
  using assms by (cases lock) (auto simp: check_timelock_def and_then_eq ok_or_eq map_err_eq ensure_eq check_at_least_def
        block_distance_try_from_eq block_height_add_eq not_less split: if_splits)

section \<open>What a spent output asks for\<close>

lemma full_checker_simps [simp]:
  "visit_signature (full_checker cr sig ctx) dest w = liftS (map_err Fail (sig dest w))"
  "visit_timelock (full_checker cr sig ctx) lock = liftS (check_timelock ctx lock)"
  "visit_hashlock (full_checker cr sig ctx) challenge p = liftS (check_hashlock cr challenge p)"
  by (simp_all add: full_checker_def)

lemma single_checker_simps [simp]:
  "visit_signature (timelock_only_checker ctx) dest w = no_op"
  "visit_timelock (timelock_only_checker ctx) lock = liftS (check_timelock ctx lock)"
  "visit_signature (signature_only_checker sig) dest w = liftS (map_err Fail (sig dest w))"
  "visit_timelock (signature_only_checker sig) lock = no_op"
  by (simp_all add: timelock_only_checker_def signature_only_checker_def)

lemma script_true_accepted [simp]: "script_eval v script_true st = (Ok (), st)"
  using conjunction_collects [of "[]"] by (simp add: script_true_def threshold_true_def returnS_def)

lemma satisfied_conjunction_eval [simp]:
  "script_eval v (satisfied_conjunction ws) = try_for_each (script_eval v) ws"
  by (simp add: satisfied_conjunction_def conjunction_def conjunction_collects)

lemmas translation_defs = translate_transaction_input_def translate_timelock_only_def translate_signature_only_def
  htlc_witness_def

lemma looked_up_signature_eq:
  "looked_up_signature ctx err missing r = Ok s \<longleftrightarrow>
     (\<exists>dest. r = Ok (Some dest) \<and> s = to_signature_witness_script ctx dest)"
  by (auto simp: looked_up_signature_def and_then_eq ok_or_eq map_err_eq)

lemmas leaf_simps = map_errS_def map_err_def bindS_def returnS_def liftS_def no_op_def

text \<open>
  C9: A hashed timelock contract is spent in exactly two ways: by a witness that decodes to a secret with the
  contract's hash and a signature the spend key accepts, or by one that decodes to a refund, when the refund
  lock has passed, with a signature the refund key accepts.
\<close>

lemma htlc_spent_by_secret_or_refund:
  assumes "input_info ctx = InfoUtxo outpoint (Htlc amt htlc) source"
  shows "(\<exists>script. translate_transaction_input cr ctx = Ok script \<and>
      script_verify (full_checker cr check_signature tctx) script () = Some (Ok (), ())) \<longleftrightarrow>
    (\<exists>sig. input_witness ctx = StandardSignature sig \<and> (case cr_decode_htlc_spend cr (raw_signature sig) of
        Some (HtlcSpend secret raw) \<Rightarrow> cr_hash160 cr secret = secret_hash htlc \<and>
          check_signature (spend_key htlc)
            (EvaluatedStandard \<lparr> sighash_type = sighash_type sig, raw_signature = raw \<rparr>) = Ok ()
      | Some (HtlcRefund raw) \<Rightarrow> check_timelock tctx (refund_timelock htlc) = Ok () \<and>
          check_signature (refund_key htlc)
            (EvaluatedStandard \<lparr> sighash_type = sighash_type sig, raw_signature = raw \<rparr>) = Ok ()
      | None \<Rightarrow> False))"
proof (cases "input_witness ctx")
  case (StandardSignature sig)
  show ?thesis
  proof (cases "cr_decode_htlc_spend cr (raw_signature sig)")
    case (Some spend)
    then show ?thesis using assms StandardSignature
      by (cases spend) (auto simp: translate_transaction_input_def htlc_witness_def script_verify_evaluates
          htlc_signature_def check_hashlock_def ensure_hashes_equal_def ensure_def and_then_def ok_or_def leaf_simps
          split: sum.splits)
  qed (use assms StandardSignature in \<open>simp add: translate_transaction_input_def htlc_witness_def and_then_def ok_or_def\<close>)
qed (use assms in \<open>simp add: translate_transaction_input_def htlc_witness_def and_then_def\<close>)

lemma full_check_partial:
  assumes "translate_transaction_input cr ctx = Ok script"
    and "script_verify (full_checker cr check_signature tctx) script () = Some (Ok (), ())"
  shows "(\<exists>s. translate_timelock_only cr ctx = Ok s \<and>
      script_verify (timelock_only_checker tctx) s () = Some (Ok (), ())) \<and>
    (\<exists>s. translate_signature_only cr ctx = Ok s \<and>
      script_verify (signature_only_checker check_signature) s () = Some (Ok (), ()))"
proof (cases "input_info ctx")
  case (InfoUtxo outpoint utxo source)
  show ?thesis
  proof (cases utxo)
    case (Htlc amt htlc)
    obtain sig spend where "input_witness ctx = StandardSignature sig"
      "cr_decode_htlc_spend cr (raw_signature sig) = Some spend"
      using assms(1) InfoUtxo Htlc by (auto simp: translate_transaction_input_def htlc_witness_def and_then_eq
          ok_or_eq split: input_witness.splits)
    then show ?thesis using assms InfoUtxo Htlc
      by (cases spend) (auto simp: translation_defs htlc_signature_def and_then_def ok_or_def
          script_verify_evaluates leaf_simps split: sum.splits)
  qed (use assms InfoUtxo in \<open>auto simp: translation_defs pool_signature_def looked_up_signature_eq to_signature_witness_script_def
        script_verify_evaluates leaf_simps split: sum.splits\<close>)
qed (use assms in \<open>auto simp: translation_defs translate_account_def translate_account_command_def
      translate_order_account_command_def pool_signature_def delegation_signature_def authority_signature_def
      conclude_signature_def looked_up_signature_eq to_signature_witness_script_def
      script_verify_evaluates leaf_simps
      split: sum.splits account_outpoint.splits account_spending.splits account_command.splits
        order_account_command.splits\<close>)

text \<open>
  An input that passes the full check passes the check of its time locks alone and the check of its
  signatures alone: the restricted translations succeed and their scripts are accepted.
\<close>

theorem full_check_covers_partial_checks:
  assumes "translate_transaction_input cr ctx = Ok script"
    and "script_verify (full_checker cr check_signature tctx) script () = Some (Ok (), ())"
  shows "(\<exists>s. translate_timelock_only cr ctx = Ok s \<and>
      script_verify (timelock_only_checker tctx) s () = Some (Ok (), ())) \<and>
    (\<exists>s. translate_signature_only cr ctx = Ok s \<and>
      script_verify (signature_only_checker check_signature) s () = Some (Ok (), ()))"
  using full_check_partial [OF assms] .

text \<open>
  C13: The verification of a script ends, whatever the script and whatever its checker does: the loop over the
  stack computes the value of the script, the checks of its leaves from left to right below the thresholds that
  are met, up to the first error.
\<close>

theorem script_verification_terminates: "script_verify v script st = Some (script_eval v script st)"
  by (rule script_verify_evaluates)

text \<open>
  A threshold with at least as many conditions as it requires never panics, and it is met exactly when the
  number of its satisfied conditions is the required one, neither fewer nor more; the scripts still to be
  verified are then those of the satisfied conditions, in their order.
\<close>

theorem threshold_met_exactly:
  assumes "threshold_new required conds = Ok t"
  shows "collect_satisfied t \<noteq> Err Panic \<and> (collect_satisfied t = Ok ws \<longleftrightarrow>
    ws = List.map_filter as_satisfied conds \<and> length ws = required)"
proof -
  have t: "t = Threshold required conds" "required \<le> length conds"
    using assms by (auto simp: threshold_new_def result_simps)
  then show ?thesis
    using collect_satisfied_ok [of t ws] collect_satisfied_no_panic [of t]
    by (auto simp: collect_satisfied_unchecked_def)
qed

section \<open>Examples\<close>

definition sample_lock_context :: "unit timelock_context" where
  "sample_lock_context = \<lparr> spending_height = 12, spending_time = 100, source_height = Ok 7, source_time = Ok 50 \<rparr>"

definition sample_htlc :: hashed_timelock_contract where
  "sample_htlc = \<lparr> secret_hash = 2, spend_key = PublicKey [7], refund_timelock = ForBlockCount 5,
     refund_key = PublicKey [8] \<rparr>"

definition sample_htlc_input :: "u8 list \<Rightarrow> signature_info" where
  "sample_htlc_input raw = \<lparr> input_info = InfoUtxo (UtxoOutPoint (TransactionSource 5) 0) (Htlc (Coin 3) sample_htlc) None,
     input_witness = StandardSignature \<lparr> sighash_type = sighash_all, raw_signature = raw \<rparr>,
     get_pool_decommission_destination = (\<lambda>_. Ok None), get_delegation_spend_destination = (\<lambda>_. Ok None),
     get_tokens_authority = (\<lambda>_. Ok None), get_orders_conclude_destination = (\<lambda>_. Ok None) \<rparr>"

definition sample_check :: "destination \<Rightarrow> evaluated_input_witness \<Rightarrow> destination_sig_error + unit" where
  "sample_check dest w = (case w of
      EvaluatedStandard sig \<Rightarrow> standard_verify_signature sample_crypto sample_config sig dest 0
    | EvaluatedNoSignature _ \<Rightarrow> Err SignatureNotFound)"

text \<open>A refund, ten blocks after the contract was made.\<close>

theorem htlc_spent_by_secret_or_refund_witness:
  "(\<exists>script. translate_transaction_input sample_crypto (sample_htlc_input [1, 8]) = Ok script \<and>
      script_verify (full_checker sample_crypto sample_check sample_lock_context) script () = Some (Ok (), ())) \<and>
   \<not> (\<exists>script. translate_transaction_input sample_crypto (sample_htlc_input [1, 7]) = Ok script \<and>
      script_verify (full_checker sample_crypto sample_check sample_lock_context) script () = Some (Ok (), ()))"
proof -
  have info: "input_info (sample_htlc_input raw) =
      InfoUtxo (UtxoOutPoint (TransactionSource 5) 0) (Htlc (Coin 3) sample_htlc) None" for raw
    by (simp add: sample_htlc_input_def)
  have lock: "check_timelock sample_lock_context (ForBlockCount 5) = Ok ()" by code_simp
  show ?thesis
    unfolding htlc_spent_by_secret_or_refund [OF info]
    by (simp add: sample_htlc_input_def sample_htlc_def sample_crypto_def sample_check_def
        standard_verify_signature_def verify_public_key_spending_def and_then_def ok_or_def lock)
qed

theorem full_check_covers_partial_checks_witness:
  "\<exists>s. translate_timelock_only sample_crypto (sample_htlc_input [1, 8]) = Ok s \<and>
     script_verify (timelock_only_checker sample_lock_context) s () = Some (Ok (), ())"
proof -
  obtain script where s: "translate_transaction_input sample_crypto (sample_htlc_input [1, 8]) = Ok script"
    "script = satisfied_conjunction [TimelockScript (ForBlockCount 5), htlc_signature (PublicKey [8]) sighash_all [8]]"
    by (simp add: translate_transaction_input_def sample_htlc_input_def htlc_witness_def sample_crypto_def
        and_then_def ok_or_def sample_htlc_def)
  moreover have "check_timelock sample_lock_context (ForBlockCount 5) = Ok ()" by code_simp
  moreover have "sample_check (PublicKey [8])
      (EvaluatedStandard \<lparr> sighash_type = sighash_all, raw_signature = [8] \<rparr>) = Ok ()" by code_simp
  ultimately have "script_verify (full_checker sample_crypto sample_check sample_lock_context) script () = Some (Ok (), ())"
    by (simp add: script_verify_evaluates htlc_signature_def leaf_simps)
  from full_check_covers_partial_checks [OF s(1) this] show ?thesis by blast
qed

theorem threshold_met_exactly_witness:
  "threshold_new 1 [Satisfied script_true, Satisfied script_true] =
     Ok (Threshold 1 [Satisfied script_true, Satisfied script_true]) \<and>
   collect_satisfied (Threshold 1 [Satisfied script_true, Satisfied script_true]) \<noteq> Ok [script_true]"
proof -
  have t: "threshold_new 1 [Satisfied script_true, Satisfied script_true] =
      Ok (Threshold 1 [Satisfied script_true, Satisfied script_true])"
    by (simp add: threshold_new_def ensure_def and_then_def)
  with threshold_met_exactly [OF t, of "[script_true]"] show ?thesis by simp
qed

theorem timelock_panics_iff_height_overflows_witness:
  "check_timelock sample_lock_context (ForBlockCount 0x7FFFFFFFFFFFFFFF) = Err Panic"
  by (subst timelock_panics_iff_height_overflows) (simp_all add: sample_lock_context_def)

end
