(* ===== verification/Block_Index.thy ===== *)
theory Block_Index
  imports Signatures
begin

text \<open>
  The tree of block indices (\<open>chainstate/types/src\<close>, \<open>chainstate/src/detail/chainstateref\<close>): the status word
  of a block, the trust it adds to its chain, the ancestor at a height, found by a walk that skips along
  the tree, the last common ancestor of two blocks, the blocks of a new best chain, and the index made for
  a new block. The store of block indices is a function from identifiers; the weights of empty time slots,
  which the code computes with floating point numbers, are a parameter.
\<close>

section \<open>Block status\<close>

datatype block_validation_stage = Unchecked | CheckBlockOk | FullyChecked

fun stage_number :: "block_validation_stage \<Rightarrow> u64" where
  "stage_number Unchecked = 0"
| "stage_number CheckBlockOk = 1"
| "stage_number FullyChecked = 2"

definition stage_from_u64 :: "u64 \<Rightarrow> block_validation_stage option" where
  "stage_from_u64 v =
     (if v = 0 then Some Unchecked else if v = 1 then Some CheckBlockOk else if v = 2 then Some FullyChecked
      else None)"

fun stage_next :: "block_validation_stage \<Rightarrow> block_validation_stage option" where
  "stage_next Unchecked = Some CheckBlockOk"
| "stage_next CheckBlockOk = Some FullyChecked"
| "stage_next FullyChecked = None"

datatype block_status = BlockStatus (status_word: u64)

datatype block_status_bit_area =
    ValidationStage
  | ValidationFailedBit
  | InvalidParentBit
  | ExplicitlyInvalidatedBit
  | ReservedArea

text \<open>The bits of an area are those from its start up to the start of the next one.\<close>

fun bit_range_of :: "block_status_bit_area \<Rightarrow> nat \<times> nat" where
  "bit_range_of ValidationStage = (0, 8)"
| "bit_range_of ValidationFailedBit = (8, 9)"
| "bit_range_of InvalidParentBit = (9, 10)"
| "bit_range_of ExplicitlyInvalidatedBit = (10, 11)"
| "bit_range_of ReservedArea = (11, 64)"

definition fail_bits_range :: "nat \<times> nat" where
  "fail_bits_range = (8, 11)"

text \<open>A failed assertion is \<open>None\<close>.\<close>

definition get_bits :: "block_status \<Rightarrow> nat \<times> nat \<Rightarrow> u64 option" where
  "get_bits s = (\<lambda>(first, last).
     if \<not> (first < last \<and> last \<le> 64) then None
     else if last - first = 64 then Some (status_word s)
     else (let lsb_mask = push_bit (last - first) 1 - 1 in Some (and (drop_bit first (status_word s)) lsb_mask)))"

definition set_bits :: "nat \<times> nat \<Rightarrow> u64 \<Rightarrow> block_status \<Rightarrow> block_status option" where
  "set_bits = (\<lambda>(first, last) val s.
     if \<not> (first < last \<and> last \<le> 64) then None
     else if last - first = 64 then Some (BlockStatus val)
     else (let lsb_mask = push_bit (last - first) 1 - 1; mask = push_bit first lsb_mask in
       if val \<le> lsb_mask then Some (BlockStatus (or (and (status_word s) (not mask)) (push_bit first val)))
       else None))"

definition get_field :: "block_status \<Rightarrow> block_status_bit_area \<Rightarrow> u64 option" where
  "get_field s area = get_bits s (bit_range_of area)"

definition set_field :: "block_status_bit_area \<Rightarrow> u64 \<Rightarrow> block_status \<Rightarrow> block_status option" where
  "set_field area = set_bits (bit_range_of area)"

definition block_status_new :: block_status where
  "block_status_new = BlockStatus 0"

definition set_last_valid_stage :: "block_validation_stage \<Rightarrow> block_status \<Rightarrow> block_status option" where
  "set_last_valid_stage stage = set_field ValidationStage (stage_number stage)"

definition new_at_stage :: "block_validation_stage \<Rightarrow> block_status option" where
  "new_at_stage stage = set_last_valid_stage stage block_status_new"

definition new_fully_checked :: "block_status option" where
  "new_fully_checked = new_at_stage FullyChecked"

definition last_valid_stage :: "block_status \<Rightarrow> block_validation_stage option" where
  "last_valid_stage s = Option.bind (get_field s ValidationStage) stage_from_u64"

definition advance_validation_stage_to :: "block_validation_stage \<Rightarrow> block_status \<Rightarrow> block_status option" where
  "advance_validation_stage_to new_stage s =
     Option.bind (last_valid_stage s) (\<lambda>stage.
     if stage_next stage = Some new_stage then set_last_valid_stage new_stage s else None)"

definition status_is_ok :: "block_status \<Rightarrow> bool option" where
  "status_is_ok s = map_option (\<lambda>bits. bits = 0) (get_bits s fail_bits_range)"

definition is_fully_valid :: "block_status \<Rightarrow> bool option" where
  "is_fully_valid s = Option.bind (last_valid_stage s) (\<lambda>stage.
     if stage = FullyChecked then status_is_ok s else Some False)"

definition set_validation_failed :: "block_status \<Rightarrow> block_status option" where
  "set_validation_failed = set_field ValidationFailedBit 1"

definition validation_failed :: "block_status \<Rightarrow> bool option" where
  "validation_failed s = map_option (\<lambda>v. v \<noteq> 0) (get_field s ValidationFailedBit)"

definition set_has_invalid_parent :: "block_status \<Rightarrow> block_status option" where
  "set_has_invalid_parent = set_field InvalidParentBit 1"

definition has_invalid_parent :: "block_status \<Rightarrow> bool option" where
  "has_invalid_parent s = map_option (\<lambda>v. v \<noteq> 0) (get_field s InvalidParentBit)"

definition set_explicitly_invalidated :: "block_status \<Rightarrow> block_status option" where
  "set_explicitly_invalidated = set_field ExplicitlyInvalidatedBit 1"

definition is_explicitly_invalidated :: "block_status \<Rightarrow> bool option" where
  "is_explicitly_invalidated s = map_option (\<lambda>v. v \<noteq> 0) (get_field s ExplicitlyInvalidatedBit)"

definition with_cleared_fail_bits :: "block_status \<Rightarrow> block_status option" where
  "with_cleared_fail_bits = set_bits fail_bits_range 0"

section \<open>Blocks and their indices\<close>

record pos_block_data =
  kernel_inputs :: "tx_input list"
  kernel_witness :: "input_witness list"
  stake_pool_id :: pool_id
  vrf_data :: "u8 list"
  compact_target :: compact

record pow_block_data =
  pow_bits :: compact
  pow_nonce :: u128

datatype consensus_data = NoConsensus | PoWConsensus pow_block_data | PoSConsensus pos_block_data

record block_header =
  hdr_prev_block_id :: gen_block_id
  hdr_tx_merkle_root :: h256
  hdr_witness_merkle_root :: h256
  hdr_timestamp :: block_timestamp
  hdr_consensus_data :: consensus_data

record block_index =
  bi_block_id :: block_id
  bi_block_header :: block_header
  bi_some_ancestor :: gen_block_id
  bi_chain_trust :: u256
  bi_height :: block_height
  bi_chain_time_max :: block_timestamp
  bi_chain_transaction_count :: u128
  bi_status :: block_status
  bi_is_persisted :: bool

record genesis =
  genesis_id :: gen_block_id
  genesis_timestamp :: block_timestamp

datatype gen_block_index = GenBlock block_index | GenGenesis genesis

definition gen_block_id :: "gen_block_index \<Rightarrow> gen_block_id" where
  "gen_block_id g = (case g of GenBlock b \<Rightarrow> bi_block_id b | GenGenesis g \<Rightarrow> genesis_id g)"

definition gen_block_timestamp :: "gen_block_index \<Rightarrow> block_timestamp" where
  "gen_block_timestamp g =
     (case g of GenBlock b \<Rightarrow> hdr_timestamp (bi_block_header b) | GenGenesis g \<Rightarrow> genesis_timestamp g)"

definition gen_chain_timestamps_max :: "gen_block_index \<Rightarrow> block_timestamp" where
  "gen_chain_timestamps_max g = (case g of GenBlock b \<Rightarrow> bi_chain_time_max b | GenGenesis g \<Rightarrow> genesis_timestamp g)"

definition gen_block_height :: "gen_block_index \<Rightarrow> block_height" where
  "gen_block_height g = (case g of GenBlock b \<Rightarrow> bi_height b | GenGenesis _ \<Rightarrow> 0)"

definition gen_chain_trust :: "gen_block_index \<Rightarrow> u256" where
  "gen_chain_trust g = (case g of GenBlock b \<Rightarrow> bi_chain_trust b | GenGenesis _ \<Rightarrow> 0)"

definition gen_chain_transaction_count :: "gen_block_index \<Rightarrow> u128" where
  "gen_chain_transaction_count g = (case g of GenBlock b \<Rightarrow> bi_chain_transaction_count b | GenGenesis _ \<Rightarrow> 0)"

definition bi_prev_block_id :: "block_index \<Rightarrow> gen_block_id" where
  "bi_prev_block_id b = hdr_prev_block_id (bi_block_header b)"

definition gen_prev_block_id :: "gen_block_index \<Rightarrow> gen_block_id option" where
  "gen_prev_block_id g = (case g of GenBlock b \<Rightarrow> Some (bi_prev_block_id b) | GenGenesis _ \<Rightarrow> None)"

text \<open>The store: the genesis block of the chain and the indices of the other blocks.\<close>

record 'e block_tree =
  bt_genesis :: genesis
  bt_get_block_index :: "block_id \<Rightarrow> 'e + block_index option"
  bt_block_id_by_height :: "block_height \<Rightarrow> 'e + gen_block_id option"
  bt_best_block_id :: "'e + gen_block_id"

definition gen_block_index_getter :: "'e block_tree \<Rightarrow> gen_block_id \<Rightarrow> 'e + gen_block_index option" where
  "gen_block_index_getter t i =
     (if i = genesis_id (bt_genesis t) then Ok (Some (GenGenesis (bt_genesis t)))
      else and_then (bt_get_block_index t i) (\<lambda>b. Ok (map_option GenBlock b)))"

section \<open>Skipping along the chain\<close>

definition invert_lowest_one :: "u64 \<Rightarrow> u64" where
  "invert_lowest_one n = and n (n - 1)"

definition get_skip_height :: "block_height \<Rightarrow> block_height" where
  "get_skip_height h =
     (if h < 2 then 0
      else if and h 1 \<noteq> 0 then invert_lowest_one (invert_lowest_one (h - 1)) + 1
      else invert_lowest_one h)"

datatype 'e get_ancestor_error =
    AncestorStorageError 'e
  | InvalidAncestorHeight block_height block_height
  | AncestorPrevBlockIndexNotFound gen_block_id
  | StartingPointNotFound gen_block_id

type_synonym 'e ancestor_result = "'e get_ancestor_error failure + gen_block_index"

text \<open>
  The loop of \<open>block_index_ancestor_getter\<close>. The walk is at the index \<open>walk\<close> and counts its own height; the
  value of a loop that does not end is \<open>None\<close>.
\<close>

definition takes_skip :: "block_height \<Rightarrow> block_height \<Rightarrow> block_height \<Rightarrow> bool" where
  "takes_skip target height_skip height_skip_prev =
     (let at_target = height_skip = target; still_not_there = target < height_skip;
          too_close = height_skip_prev + 2 < height_skip; prev_too_close = target \<le> height_skip_prev in
      at_target \<or> (still_not_there \<and> \<not> (too_close \<and> prev_too_close)))"

partial_function (option) ancestor_walk ::
    "'e block_tree \<Rightarrow> block_height \<Rightarrow> block_height \<Rightarrow> gen_block_index \<Rightarrow> 'e ancestor_result option" where
  "ancestor_walk t target height walk =
     (if height < target then Some (Err Panic)
      else if height = target then Some (Ok walk)
      else (case walk of
        GenGenesis _ \<Rightarrow> Some (Ok walk)
      | GenBlock cur \<Rightarrow>
          (let height_prev = height - 1; height_skip = get_skip_height height;
               height_skip_prev = get_skip_height height_prev in
           if takes_skip target height_skip height_skip_prev then
             (case gen_block_index_getter t (bi_some_ancestor cur) of
                Inl e \<Rightarrow> Some (Err (Fail (AncestorStorageError e)))
              | Inr None \<Rightarrow> Some (Err Panic)
              | Inr (Some next) \<Rightarrow> ancestor_walk t target height_skip next)
           else
             (case gen_block_index_getter t (bi_prev_block_id cur) of
                Inl e \<Rightarrow> Some (Err (Fail (AncestorStorageError e)))
              | Inr None \<Rightarrow> Some (Err (Fail (AncestorPrevBlockIndexNotFound (bi_prev_block_id cur))))
              | Inr (Some next) \<Rightarrow> ancestor_walk t target height_prev next))))"

datatype ancestor_getter_starting_point = StartBlockIndex gen_block_index | StartBlockId gen_block_id

definition block_index_ancestor_getter ::
    "'e block_tree \<Rightarrow> ancestor_getter_starting_point \<Rightarrow> block_height \<Rightarrow> 'e ancestor_result option" where
  "block_index_ancestor_getter t start target =
     (let index = (case start of
          StartBlockIndex bi \<Rightarrow> Ok bi
        | StartBlockId i \<Rightarrow>
            and_then (map_err (Fail \<circ> AncestorStorageError) (gen_block_index_getter t i)) (\<lambda>b.
            ok_or b (Fail (StartingPointNotFound i)))) in
      case index of
        Inl e \<Rightarrow> Some (Err e)
      | Inr index \<Rightarrow>
          if gen_block_height index < target
          then Some (Err (Fail (InvalidAncestorHeight (gen_block_height index) target)))
          else ancestor_walk t target (gen_block_height index) index)"

definition get_ancestor :: "'e block_tree \<Rightarrow> gen_block_index \<Rightarrow> block_height \<Rightarrow> 'e ancestor_result option" where
  "get_ancestor t index target = block_index_ancestor_getter t (StartBlockIndex index) target"

section \<open>Common ancestors and new chains\<close>

datatype 'e property_query_error =
    QueryStorageError 'e
  | QueryGetAncestorError "'e get_ancestor_error"
  | QueryPrevBlockIndexNotFound block_id gen_block_id
  | BestBlockIndexNotFound

type_synonym ('e, 'a) query_result = "'e property_query_error failure + 'a"

definition get_previous_block_index :: "'e block_tree \<Rightarrow> block_index \<Rightarrow> ('e, gen_block_index) query_result" where
  "get_previous_block_index t b =
     and_then (map_err (Fail \<circ> QueryStorageError) (gen_block_index_getter t (bi_prev_block_id b))) (\<lambda>p.
     ok_or p (Fail (QueryPrevBlockIndexNotFound (bi_block_id b) (bi_prev_block_id b))))"

fun ancestor_failure :: "'e get_ancestor_error failure \<Rightarrow> 'e property_query_error failure" where
  "ancestor_failure (Fail e) = Fail (QueryGetAncestorError e)"
| "ancestor_failure Panic = Panic"

partial_function (option) lockstep_walk ::
    "'e block_tree \<Rightarrow> gen_block_index \<Rightarrow> gen_block_index \<Rightarrow> ('e, gen_block_index) query_result option" where
  "lockstep_walk t first second =
     (if gen_block_id first = gen_block_id second then Some (Ok first)
      else (case first of
        GenGenesis _ \<Rightarrow> Some (Err Panic)
      | GenBlock a \<Rightarrow> (case second of
            GenGenesis _ \<Rightarrow> Some (Err Panic)
          | GenBlock b \<Rightarrow>
              (case get_previous_block_index t a of
                 Inl e \<Rightarrow> Some (Err e)
               | Inr first' \<Rightarrow> (case get_previous_block_index t b of
                     Inl e \<Rightarrow> Some (Err e)
                   | Inr second' \<Rightarrow> lockstep_walk t first' second')))))"

definition then_walk :: "'e ancestor_result option \<Rightarrow>
    (gen_block_index \<Rightarrow> ('e, gen_block_index) query_result option) \<Rightarrow> ('e, gen_block_index) query_result option" where
  "then_walk r f = Option.bind r (\<lambda>r. case r of Inl e \<Rightarrow> Some (Err (ancestor_failure e)) | Inr a \<Rightarrow> f a)"

definition last_common_ancestor ::
    "'e block_tree \<Rightarrow> gen_block_index \<Rightarrow> gen_block_index \<Rightarrow> ('e, gen_block_index) query_result option" where
  "last_common_ancestor t first second =
     (let h1 = gen_block_height first; h2 = gen_block_height second in
      if h2 < h1 then then_walk (get_ancestor t first h2) (\<lambda>first'. lockstep_walk t first' second)
      else if h1 < h2 then then_walk (get_ancestor t second h1) (\<lambda>second'. lockstep_walk t first second')
      else lockstep_walk t first second)"

definition get_best_block_index :: "'e block_tree \<Rightarrow> ('e, gen_block_index) query_result" where
  "get_best_block_index t =
     and_then (map_err (Fail \<circ> QueryStorageError) (bt_best_block_id t)) (\<lambda>best.
     and_then (map_err (Fail \<circ> QueryStorageError) (gen_block_index_getter t best)) (\<lambda>index.
     ok_or index (Fail BestBlockIndexNotFound)))"

definition last_common_ancestor_in_main_chain ::
    "'e block_tree \<Rightarrow> gen_block_index \<Rightarrow> ('e, gen_block_index) query_result option" where
  "last_common_ancestor_in_main_chain t index = (case get_best_block_index t of
      Inl e \<Rightarrow> Some (Err e)
    | Inr best \<Rightarrow> last_common_ancestor t index best)"

definition get_block_height_in_main_chain ::
    "'e block_tree \<Rightarrow> gen_block_id \<Rightarrow> ('e, block_height option) query_result" where
  "get_block_height_in_main_chain t i =
     (if i = genesis_id (bt_genesis t) then Ok (Some 0)
      else
        and_then (map_err (Fail \<circ> QueryStorageError) (bt_get_block_index t i)) (\<lambda>index.
        case index of
          None \<Rightarrow> Ok None
        | Some b \<Rightarrow>
            and_then (map_err (Fail \<circ> QueryStorageError) (bt_block_id_by_height t (bi_height b))) (\<lambda>main.
            Ok (if main = Some i then Some (bi_height b) else None))))"

definition is_block_in_main_chain :: "'e block_tree \<Rightarrow> gen_block_id \<Rightarrow> ('e, bool) query_result" where
  "is_block_in_main_chain t i = and_then (get_block_height_in_main_chain t i) (\<lambda>h. Ok (h \<noteq> None))"

partial_function (option) new_chain_walk ::
    "'e block_tree \<Rightarrow> block_index list \<Rightarrow> block_index \<Rightarrow> ('e, block_index list) query_result option" where
  "new_chain_walk t found b =
     (case is_block_in_main_chain t (bi_block_id b) of
        Inl e \<Rightarrow> Some (Err e)
      | Inr in_main \<Rightarrow>
          if in_main then Some (Ok found)
          else (case get_previous_block_index t b of
              Inl e \<Rightarrow> Some (Err e)
            | Inr prev \<Rightarrow> (case prev of
                  GenGenesis _ \<Rightarrow> Some (Ok (b # found))
                | GenBlock p \<Rightarrow> new_chain_walk t (b # found) p)))"

text \<open>The blocks are pushed from the tip down and the list is reversed at the end.\<close>

definition get_new_chain :: "'e block_tree \<Rightarrow> block_index \<Rightarrow> ('e, block_index list) query_result option" where
  "get_new_chain t tip = new_chain_walk t [] tip"

section \<open>Trust\<close>

text \<open>
  The target a compact number stands for; the error carries the value too. A size of more than 34 bytes
  shifts all bits out.
\<close>

definition compact_to_u256 :: "compact \<Rightarrow> u256 option + u256" where
  "compact_to_u256 c =
     (let size = unat (drop_bit 24 c); w = and c 0x007FFFFF;
          w' = (if size \<le> 3 then drop_bit (8 * (3 - size)) w else w);
          value = (if size \<le> 3 then ucast w' else push_bit (8 * (size - 3)) (ucast w)) in
      if (w' \<noteq> 0 \<and> and c 0x00800000 \<noteq> 0) \<or>
         (w' \<noteq> 0 \<and> (34 < size \<or> (0xFF < w' \<and> 33 < size) \<or> (0xFFFF < w' \<and> 32 < size)))
      then Err (Some value) else Ok value)"

definition pow_block_proof :: "pow_block_data \<Rightarrow> u256 option" where
  "pow_block_proof d = (case compact_to_u256 (pow_bits d) of
      Inl _ \<Rightarrow> None
    | Inr target \<Rightarrow>
        Option.bind (checked_add_u target 1) (\<lambda>target1.
        Option.bind (checked_div_u (not target) target1) (\<lambda>ret.
        Some (case checked_add_u ret 1 of Some r \<Rightarrow> r | None \<Rightarrow> - 1))))"

definition scaling_factor :: u64 where
  "scaling_factor = 1000000000000000000"

definition get_weight_for_timeslot :: "u64 list \<Rightarrow> u64 \<Rightarrow> u64" where
  "get_weight_for_timeslot timeslots_weights timeslot =
     (if length timeslots_weights \<le> unat timeslot then scaling_factor - 1
      else timeslots_weights ! unat timeslot)"

text \<open>\<open>None\<close> is the panic of the subtraction.\<close>

definition calculate_block_proof :: "u64 list \<Rightarrow> u64 \<Rightarrow> u256 option" where
  "calculate_block_proof timeslots_weights timestamp_diff =
     checked_sub_u (ucast scaling_factor) (ucast (get_weight_for_timeslot timeslots_weights timestamp_diff))"

text \<open>The outer result has the panic.\<close>

definition get_block_proof :: "u64 list \<Rightarrow> consensus_data \<Rightarrow> block_timestamp \<Rightarrow> block_timestamp \<Rightarrow>
    'e failure + u256 option" where
  "get_block_proof timeslots_weights data prev_timestamp this_timestamp = (case data of
      NoConsensus \<Rightarrow> Ok (Some 1)
    | PoWConsensus pow_data \<Rightarrow> Ok (pow_block_proof pow_data)
    | PoSConsensus _ \<Rightarrow> (case checked_sub_u this_timestamp prev_timestamp of
          None \<Rightarrow> Ok None
        | Some timestamp_diff \<Rightarrow>
            and_then (ok_or (calculate_block_proof timeslots_weights timestamp_diff) Panic) (\<lambda>p. Ok (Some p))))"

section \<open>New blocks\<close>

record block_body =
  block_header :: block_header
  block_reward_outputs :: "tx_output list"
  block_transactions :: "signed_transaction list"

datatype 'e block_error =
    BlockIndexQueryError gen_block_id 'e
  | PrevBlockNotFoundForNewBlock block_id
  | BlockProofCalculationError block_id

text \<open>
  \<open>create_block_index_for_new_block\<close>: the block comes with its identifier, the hash of its header. The
  result of a walk to the skipped ancestor that fails is a panic.
\<close>

definition create_block_index_for_new_block :: "u64 list \<Rightarrow> 'e block_tree \<Rightarrow> block_id \<Rightarrow> block_body \<Rightarrow>
    block_status \<Rightarrow> ('e block_error failure + block_index) option" where
  "create_block_index_for_new_block timeslots_weights t i block status =
     (let header = block_header block; prev_id = hdr_prev_block_id header in
      case and_then (map_err (\<lambda>e. Fail (BlockIndexQueryError prev_id e)) (gen_block_index_getter t prev_id)) (\<lambda>p.
           and_then (ok_or p (Fail (PrevBlockNotFoundForNewBlock i))) (\<lambda>prev.
           and_then (ok_or (next_height (gen_block_height prev)) Panic) (\<lambda>height. Ok (prev, height)))) of
        Inl e \<Rightarrow> Some (Err e)
      | Inr (prev, height) \<Rightarrow>
          Option.bind (get_ancestor t prev (get_skip_height height)) (\<lambda>r. Some (
            case r of
              Inl _ \<Rightarrow> Err Panic
            | Inr ancestor \<Rightarrow>
                and_then (ok_or (checked_add_u (gen_chain_transaction_count prev)
                  (of_nat (length (block_transactions block)))) Panic) (\<lambda>count.
                and_then (get_block_proof timeslots_weights (hdr_consensus_data header)
                  (gen_block_timestamp prev) (hdr_timestamp header)) (\<lambda>p.
                and_then (ok_or p (Fail (BlockProofCalculationError i))) (\<lambda>proof.
                and_then (ok_or (checked_add_u (gen_chain_trust prev) proof) Panic) (\<lambda>trust.
                Ok \<lparr> bi_block_id = i, bi_block_header = header, bi_some_ancestor = gen_block_id ancestor,
                  bi_chain_trust = trust, bi_height = height,
                  bi_chain_time_max = max (gen_chain_timestamps_max prev) (hdr_timestamp header),
                  bi_chain_transaction_count = count, bi_status = status, bi_is_persisted = False \<rparr>)))))))"

section \<open>Median time\<close>

definition median_time_span :: nat where
  "median_time_span = 11"

text \<open>
  The first blocks of the history of a block, the block itself first; the iterator stops after the genesis
  block and at a block that is missing, and a storage error is a panic.
\<close>

fun history_timestamps :: "'e block_tree \<Rightarrow> nat \<Rightarrow> gen_block_id \<Rightarrow> block_timestamp list option" where
  "history_timestamps t 0 i = Some []"
| "history_timestamps t (Suc n) i = (case gen_block_index_getter t i of
      Inl _ \<Rightarrow> None
    | Inr None \<Rightarrow> Some []
    | Inr (Some g) \<Rightarrow> (case g of
          GenGenesis _ \<Rightarrow> Some [gen_block_timestamp g]
        | GenBlock b \<Rightarrow> map_option ((#) (gen_block_timestamp g)) (history_timestamps t n (bi_prev_block_id b))))"

definition median_of :: "block_timestamp list \<Rightarrow> block_timestamp option" where
  "median_of ts = (let sorted = sort ts in get_index sorted (length sorted div 2))"

definition calculate_median_time_past :: "'e block_tree \<Rightarrow> gen_block_id \<Rightarrow> block_timestamp option" where
  "calculate_median_time_past t i = Option.bind (history_timestamps t median_time_span i) median_of"

section \<open>Skip heights\<close>

lemma pred_less: "n \<noteq> 0 \<Longrightarrow> n - 1 < n" for n :: u64
  by (simp add: word_less_nat_alt measure_unat)

lemma invert_lowest_one_less: "n \<noteq> 0 \<Longrightarrow> invert_lowest_one n < n"
  unfolding invert_lowest_one_def by (rule le_less_trans [OF word_and_le1 pred_less])

lemma invert_lowest_one_le: "invert_lowest_one n \<le> n"
  by (simp add: invert_lowest_one_def word_and_le2)

lemma get_skip_height_less: "0 < h \<Longrightarrow> get_skip_height h < h"
proof -
  assume h: "0 < h"
  show ?thesis
  proof (cases "h < 2")
    case True
    with h show ?thesis by (simp add: get_skip_height_def)
  next
    case False
    let ?x = "h - 1"
    have x: "?x \<noteq> 0" using False by auto
    have "invert_lowest_one (invert_lowest_one ?x) < ?x"
      using invert_lowest_one_less [OF x] invert_lowest_one_le le_less_trans by blast
    then have "invert_lowest_one (invert_lowest_one ?x) + 1 \<le> ?x"
      by (rule inc_le)
    moreover have "?x < h" using h by (intro pred_less) auto
    ultimately have "invert_lowest_one (invert_lowest_one ?x) + 1 < h" by (rule le_less_trans)
    moreover have "invert_lowest_one h < h" using h by (intro invert_lowest_one_less) auto
    ultimately show ?thesis using False by (simp add: get_skip_height_def)
  qed
qed

section \<open>Trees of block indices\<close>

text \<open>The reference: from parent to parent, one block at a time.\<close>

fun ancestor_after :: "'e block_tree \<Rightarrow> nat \<Rightarrow> gen_block_index \<Rightarrow> gen_block_index option" where
  "ancestor_after t 0 g = Some g"
| "ancestor_after t (Suc n) g = (case g of
      GenGenesis _ \<Rightarrow> None
    | GenBlock b \<Rightarrow> (case gen_block_index_getter t (bi_prev_block_id b) of
          Inr (Some p) \<Rightarrow> ancestor_after t n p
        | _ \<Rightarrow> None))"

definition in_tree :: "'e block_tree \<Rightarrow> gen_block_index \<Rightarrow> bool" where
  "in_tree t g \<longleftrightarrow> gen_block_index_getter t (gen_block_id g) = Ok (Some g)"

text \<open>
  What the store promises: every index is stored under its identifier, its parent is stored and one block
  lower, and the ancestor it points to is the one at the skip height.
\<close>

definition index_ok :: "'e block_tree \<Rightarrow> block_index \<Rightarrow> bool" where
  "index_ok t b \<longleftrightarrow> bi_block_id b \<noteq> genesis_id (bt_genesis t) \<and>
     (\<exists>p. gen_block_index_getter t (bi_prev_block_id b) = Ok (Some p) \<and>
        uint (bi_height b) = uint (gen_block_height p) + 1) \<and>
     (\<exists>a. ancestor_after t (unat (bi_height b) - unat (get_skip_height (bi_height b))) (GenBlock b) = Some a \<and>
        gen_block_id a = bi_some_ancestor b)"

definition tree_ok :: "'e block_tree \<Rightarrow> bool" where
  "tree_ok t \<longleftrightarrow> (\<forall>i. \<exists>r. bt_get_block_index t i = Ok r) \<and>
     (\<forall>i b. bt_get_block_index t i = Ok (Some b) \<longrightarrow> i \<noteq> genesis_id (bt_genesis t) \<longrightarrow> bi_block_id b = i \<and> index_ok t b)"

lemma getter_found:
  assumes "tree_ok t" and "gen_block_index_getter t i = Ok (Some g)"
  shows "gen_block_id g = i" and "in_tree t g" and "g = GenBlock b \<Longrightarrow> index_ok t b"
    and "g = GenGenesis x \<Longrightarrow> x = bt_genesis t"
proof -
  show *: "gen_block_id g = i" "g = GenBlock b \<Longrightarrow> index_ok t b" "g = GenGenesis x \<Longrightarrow> x = bt_genesis t"
    using assms by (auto simp: gen_block_index_getter_def tree_ok_def gen_block_id_def result_simps split: if_splits)
  then show "in_tree t g" using assms by (simp add: in_tree_def)
qed

lemma getter_total:
  assumes "tree_ok t"
  shows "\<exists>r. gen_block_index_getter t i = Ok r"
proof -
  obtain r where "bt_get_block_index t i = Ok r" using assms unfolding tree_ok_def by blast
  then show ?thesis by (simp add: gen_block_index_getter_def and_then_def)
qed

lemma in_tree_ok: "tree_ok t \<Longrightarrow> in_tree t (GenBlock b) \<Longrightarrow> index_ok t b"
  by (auto simp: in_tree_def dest: getter_found(3))

lemma in_tree_genesis: "tree_ok t \<Longrightarrow> in_tree t (GenGenesis x) \<Longrightarrow> x = bt_genesis t"
  by (auto simp: in_tree_def dest: getter_found(4))

text \<open>Indices of a tree are determined by their identifiers.\<close>

lemma in_tree_eq: "in_tree t g \<Longrightarrow> in_tree t g' \<Longrightarrow> gen_block_id g = gen_block_id g' \<longleftrightarrow> g = g'"
  unfolding in_tree_def by (metis option.inject sum.inject(2))

lemma parent_in_tree:
  assumes "tree_ok t" and "in_tree t (GenBlock b)"
  obtains p where "gen_block_index_getter t (bi_prev_block_id b) = Ok (Some p)" "in_tree t p"
    "unat (bi_height b) = Suc (unat (gen_block_height p))" "0 < bi_height b"
proof -
  from in_tree_ok [OF assms] obtain p where p: "gen_block_index_getter t (bi_prev_block_id b) = Ok (Some p)"
      "uint (bi_height b) = uint (gen_block_height p) + 1" by (auto simp: index_ok_def)
  have "int (unat (bi_height b)) = int (Suc (unat (gen_block_height p)))"
    using p(2) unfolding uint_nat by linarith
  then have "unat (bi_height b) = Suc (unat (gen_block_height p))" by (simp only: of_nat_eq_iff)
  moreover have "in_tree t p" using getter_found(2) [OF assms(1) p(1)] .
  moreover from calculation(1) have "0 < bi_height b" by (metis nat.distinct(1) unat_0 word_gt_0)
  ultimately show ?thesis using that p(1) by blast
qed

lemma genesis_height: "in_tree t (GenGenesis x) \<Longrightarrow> gen_block_height (GenGenesis x) = 0"
  by (simp add: gen_block_height_def)

text \<open>Every ancestor down to the genesis block is there, at its height.\<close>

lemma ancestor_after_total:
  assumes "tree_ok t" and "in_tree t g" and "n \<le> unat (gen_block_height g)"
  shows "\<exists>a. ancestor_after t n g = Some a \<and> in_tree t a \<and> unat (gen_block_height a) = unat (gen_block_height g) - n"
  using assms(2,3)
proof (induction n arbitrary: g)
  case 0
  then show ?case by simp
next
  case (Suc n)
  show ?case
  proof (cases g)
    case (GenBlock b)
    obtain p where p: "gen_block_index_getter t (bi_prev_block_id b) = Ok (Some p)" "in_tree t p"
      "unat (bi_height b) = Suc (unat (gen_block_height p))"
      by (rule parent_in_tree [OF assms(1) Suc.prems(1) [unfolded GenBlock]])
    with Suc.IH [OF p(2)] Suc.prems(2) GenBlock show ?thesis by (simp add: gen_block_height_def)
  next
    case (GenGenesis x)
    with Suc.prems show ?thesis by (simp add: gen_block_height_def)
  qed
qed

lemma ancestor_after_add:
  "ancestor_after t (m + n) g = Option.bind (ancestor_after t m g) (ancestor_after t n)"
  by (induction m arbitrary: g) (auto split: gen_block_index.splits sum.splits option.splits)

section \<open>The walk to an ancestor\<close>

lemma takes_skip_target: "takes_skip target skip prev \<Longrightarrow> target \<le> skip"
  by (auto simp: takes_skip_def Let_def)

lemma skipped_ancestor:
  assumes "tree_ok t" and "in_tree t (GenBlock b)"
  obtains a where "gen_block_index_getter t (bi_some_ancestor b) = Ok (Some a)" "in_tree t a"
    "ancestor_after t (unat (bi_height b) - unat (get_skip_height (bi_height b))) (GenBlock b) = Some a"
    "gen_block_height a = get_skip_height (bi_height b)"
proof -
  let ?n = "unat (bi_height b) - unat (get_skip_height (bi_height b))"
  from in_tree_ok [OF assms] obtain a where a: "ancestor_after t ?n (GenBlock b) = Some a"
      "gen_block_id a = bi_some_ancestor b" by (auto simp: index_ok_def)
  have "0 < bi_height b" by (rule parent_in_tree [OF assms])
  then have skip: "unat (get_skip_height (bi_height b)) < unat (bi_height b)"
    using get_skip_height_less by (simp add: word_less_nat_alt)
  have "?n \<le> unat (gen_block_height (GenBlock b))" by (simp add: gen_block_height_def)
  from ancestor_after_total [OF assms this] a(1)
  have "in_tree t a" "unat (gen_block_height a) = unat (bi_height b) - ?n" by (simp_all add: gen_block_height_def)
  then show ?thesis using that [of a] a skip by (simp add: in_tree_def word_unat_eq_iff)
qed

lemma ancestor_walk_finds:
  assumes "tree_ok t" and "in_tree t g" and "gen_block_height g = h" and "target \<le> h"
  shows "\<exists>a. ancestor_walk t target h g = Some (Ok a) \<and> ancestor_after t (unat h - unat target) g = Some a"
  using assms(2-)
proof (induction "unat h" arbitrary: h g rule: less_induct)
  case less
  show ?case
  proof (cases "h = target")
    case True
    then show ?thesis by (subst ancestor_walk.simps) simp
  next
    case False
    with less.prems(3) have lt: "unat target < unat h" by (simp add: word_le_nat_alt word_unat_eq_iff)
    obtain b where g: "g = GenBlock b"
      using less.prems(2) lt by (cases g) (auto simp: gen_block_height_def)
    have h: "bi_height b = h" using less.prems(2) g by (simp add: gen_block_height_def)
    note tree = assms(1) less.prems(1) [unfolded g]
    let ?skip = "get_skip_height h"
    show ?thesis
    proof (cases "takes_skip target ?skip (get_skip_height (h - 1))")
      case True
      obtain a where a: "gen_block_index_getter t (bi_some_ancestor b) = Ok (Some a)" "in_tree t a"
          "ancestor_after t (unat h - unat ?skip) g = Some a" "gen_block_height a = ?skip"
        by (rule skipped_ancestor [OF tree]) (simp add: h g)
      have "unat ?skip < unat h" using lt get_skip_height_less [of h] by (simp add: word_less_nat_alt)
      from less.hyps [OF this a(2,4) takes_skip_target [OF True]] obtain c where
          c: "ancestor_walk t target ?skip a = Some (Ok c)" "ancestor_after t (unat ?skip - unat target) a = Some c"
        by blast
      have "unat h - unat target = (unat h - unat ?skip) + (unat ?skip - unat target)"
        using takes_skip_target [OF True] \<open>unat ?skip < unat h\<close> by (simp add: word_le_nat_alt)
      then have "ancestor_after t (unat h - unat target) g = Some c"
        using a(3) c(2) by (simp only: ancestor_after_add) simp
      moreover have "ancestor_walk t target h g = Some (Ok c)"
        using lt True a(1) c(1) by (subst ancestor_walk.simps) (simp add: g word_less_nat_alt Let_def \<open>h \<noteq> target\<close>)
      ultimately show ?thesis by blast
    next
      case skip: False
      obtain p where p: "gen_block_index_getter t (bi_prev_block_id b) = Ok (Some p)" "in_tree t p"
          "unat h = Suc (unat (gen_block_height p))"
        by (rule parent_in_tree [OF tree]) (simp add: h)
      have hp: "gen_block_height p = h - 1" using p(3) lt by (simp add: word_unat_eq_iff unat_minus_one)
      have "unat (h - 1) < unat h" "target \<le> h - 1" using p(3) hp lt by (simp_all add: word_le_nat_alt)
      from less.hyps [OF this(1) p(2) hp this(2)] obtain c where
          c: "ancestor_walk t target (h - 1) p = Some (Ok c)" "ancestor_after t (unat (h - 1) - unat target) p = Some c"
        by blast
      have "unat h - unat target = Suc (unat (h - 1) - unat target)" using p(3) hp lt by simp
      then have "ancestor_after t (unat h - unat target) g = Some c" using c(2) p(1) by (simp add: g)
      moreover have "ancestor_walk t target h g = Some (Ok c)"
        using lt skip p(1) c(1) by (subst ancestor_walk.simps) (simp add: g word_less_nat_alt Let_def \<open>h \<noteq> target\<close>)
      ultimately show ?thesis by blast
    qed
  qed
qed

lemma get_ancestor_finds:
  assumes "tree_ok t" and "in_tree t g" and "target \<le> gen_block_height g"
  shows "\<exists>a. get_ancestor t g target = Some (Ok a) \<and> in_tree t a \<and> gen_block_height a = target \<and>
    ancestor_after t (unat (gen_block_height g) - unat target) g = Some a"
proof -
  from ancestor_walk_finds [OF assms(1,2) refl assms(3)] obtain a where
      a: "ancestor_walk t target (gen_block_height g) g = Some (Ok a)"
        "ancestor_after t (unat (gen_block_height g) - unat target) g = Some a" by blast
  moreover have "in_tree t a" "unat (gen_block_height a) = unat target"
    using ancestor_after_total [OF assms(1,2), of "unat (gen_block_height g) - unat target"] a(2) assms(3)
    by (auto simp: word_le_nat_alt)
  ultimately show ?thesis using assms(3)
    by (auto simp: get_ancestor_def block_index_ancestor_getter_def word_unat_eq_iff)
qed

section \<open>Common ancestors\<close>

definition is_ancestor :: "'e block_tree \<Rightarrow> gen_block_index \<Rightarrow> gen_block_index \<Rightarrow> bool" where
  "is_ancestor t a g \<longleftrightarrow> (\<exists>n. ancestor_after t n g = Some a)"

lemma is_ancestor_self: "is_ancestor t g g"
  unfolding is_ancestor_def by (rule exI [of _ 0]) simp

lemma is_ancestor_trans: "is_ancestor t a b \<Longrightarrow> is_ancestor t b c \<Longrightarrow> is_ancestor t a c"
  unfolding is_ancestor_def by (metis ancestor_after_add bind.bind_lunit)

lemma ancestor_after_genesis: "ancestor_after t n (GenGenesis x) = Some a \<longleftrightarrow> n = 0 \<and> a = GenGenesis x"
  by (cases n) auto

lemma ancestor_after_height:
  assumes "tree_ok t" and "in_tree t g" and "ancestor_after t n g = Some a"
  shows "n \<le> unat (gen_block_height g) \<and> in_tree t a \<and> unat (gen_block_height a) = unat (gen_block_height g) - n"
proof -
  have "n \<le> unat (gen_block_height g)"
  proof (rule ccontr)
    assume "\<not> n \<le> unat (gen_block_height g)"
    then obtain m where n: "n = unat (gen_block_height g) + Suc m" by (metis add_Suc_right less_imp_Suc_add not_le)
    obtain o' where o': "ancestor_after t (unat (gen_block_height g)) g = Some o'" "in_tree t o'" "gen_block_height o' = 0"
      using ancestor_after_total [OF assms(1,2) le_refl] by (auto simp: unat_eq_zero)
    then obtain x where "o' = GenGenesis x"
      using parent_in_tree [OF assms(1)] by (cases o') (fastforce simp: gen_block_height_def)+
    with o'(1) assms(3) show False by (simp only: n ancestor_after_add) simp
  qed
  with ancestor_after_total [OF assms(1,2) this] assms(3) show ?thesis by auto
qed

text \<open>An ancestor that is not higher is an ancestor of every ancestor in between.\<close>

lemma ancestor_between:
  assumes "tree_ok t" and "in_tree t g" and "is_ancestor t a g" and "is_ancestor t d g"
    and "gen_block_height d \<le> gen_block_height a"
  shows "is_ancestor t d a"
proof -
  obtain m n where a: "ancestor_after t m g = Some a" and d: "ancestor_after t n g = Some d"
    using assms(3,4) by (auto simp: is_ancestor_def)
  have "m \<le> n"
    using ancestor_after_height [OF assms(1,2) a] ancestor_after_height [OF assms(1,2) d] assms(5)
    by (auto simp: word_le_nat_alt)
  then obtain k where "n = m + k" by (auto simp: le_iff_add)
  with a d show ?thesis by (auto simp: is_ancestor_def ancestor_after_add)
qed

lemma ancestor_same_height:
  assumes "tree_ok t" and "in_tree t g" and "is_ancestor t a g" and "gen_block_height a = gen_block_height g"
  shows "a = g"
proof -
  obtain n where a: "ancestor_after t n g = Some a" using assms(3) by (auto simp: is_ancestor_def)
  from ancestor_after_height [OF assms(1,2) this] assms(4) have "n = 0" by auto
  with a show ?thesis by simp
qed

lemma height_zero_genesis:
  assumes "tree_ok t" and "in_tree t g" and "gen_block_height g = 0"
  shows "g = GenGenesis (bt_genesis t)"
proof (cases g)
  case (GenBlock b)
  then show ?thesis using parent_in_tree [OF assms(1), of b] assms(2,3) by (fastforce simp: gen_block_height_def)
next
  case (GenGenesis x)
  then show ?thesis using in_tree_genesis [OF assms(1)] assms(2) by simp
qed

definition last_common :: "'e block_tree \<Rightarrow> gen_block_index \<Rightarrow> gen_block_index \<Rightarrow> gen_block_index \<Rightarrow> bool" where
  "last_common t a b c \<longleftrightarrow> is_ancestor t c a \<and> is_ancestor t c b \<and>
     (\<forall>d. is_ancestor t d a \<longrightarrow> is_ancestor t d b \<longrightarrow> is_ancestor t d c)"

lemma last_common_parents:
  assumes "tree_ok t" and "in_tree t (GenBlock a)" and "in_tree t (GenBlock b)" and "a \<noteq> b"
    and "bi_height a = bi_height b"
    and p: "gen_block_index_getter t (bi_prev_block_id a) = Ok (Some p)"
    and q: "gen_block_index_getter t (bi_prev_block_id b) = Ok (Some q)" and "last_common t p q c"
  shows "last_common t (GenBlock a) (GenBlock b) c"
proof -
  have up: "is_ancestor t d p \<Longrightarrow> is_ancestor t d (GenBlock a)" "is_ancestor t d q \<Longrightarrow> is_ancestor t d (GenBlock b)" for d
    unfolding is_ancestor_def using p q by (metis (no_types, lifting) ancestor_after.simps(2)
        gen_block_index.simps(5) option.simps(5) sum.case(2))+
  have down: "d = GenBlock a \<or> is_ancestor t d p" if "is_ancestor t d (GenBlock a)" for d
    using that p unfolding is_ancestor_def by (metis (no_types, lifting) ancestor_after.elims
        gen_block_index.simps(5) option.inject option.simps(5) sum.case(2))
  have down': "d = GenBlock b \<or> is_ancestor t d q" if "is_ancestor t d (GenBlock b)" for d
    using that q unfolding is_ancestor_def by (metis (no_types, lifting) ancestor_after.elims
        gen_block_index.simps(5) option.inject option.simps(5) sum.case(2))
  have "\<not> is_ancestor t (GenBlock a) (GenBlock b)" "\<not> is_ancestor t (GenBlock b) (GenBlock a)"
    using ancestor_same_height [OF assms(1,3), of "GenBlock a"] ancestor_same_height [OF assms(1,2), of "GenBlock b"]
      assms(4,5) by (auto simp: gen_block_height_def)
  then show ?thesis using assms(8) up down down' unfolding last_common_def by metis
qed

lemma lockstep_walk_finds:
  assumes "tree_ok t" and "in_tree t first" and "in_tree t second"
    and "gen_block_height first = gen_block_height second"
  shows "\<exists>c. lockstep_walk t first second = Some (Ok c) \<and> last_common t first second c"
  using assms(2-)
proof (induction "unat (gen_block_height first)" arbitrary: first second rule: less_induct)
  case less
  show ?case
  proof (cases "gen_block_id first = gen_block_id second")
    case True
    then have "first = second" using in_tree_eq less.prems(1,2) by blast
    then show ?thesis by (subst lockstep_walk.simps) (simp add: last_common_def is_ancestor_self)
  next
    case False
    have "gen_block_height first \<noteq> 0"
      using height_zero_genesis [OF assms(1)] less.prems False by metis
    then obtain a b where ab: "first = GenBlock a" "second = GenBlock b"
      using less.prems(3) by (cases first; cases second) (auto simp: gen_block_height_def)
    obtain p where p: "gen_block_index_getter t (bi_prev_block_id a) = Ok (Some p)" "in_tree t p"
        "unat (bi_height a) = Suc (unat (gen_block_height p))"
      by (rule parent_in_tree [OF assms(1) less.prems(1) [unfolded ab]])
    obtain q where q: "gen_block_index_getter t (bi_prev_block_id b) = Ok (Some q)" "in_tree t q"
        "unat (bi_height b) = Suc (unat (gen_block_height q))"
      by (rule parent_in_tree [OF assms(1) less.prems(2) [unfolded ab]])
    have hts: "bi_height a = bi_height b" using less.prems(3) ab by (simp add: gen_block_height_def)
    with p(3) q(3) have "gen_block_height p = gen_block_height q" by (simp add: word_unat_eq_iff)
    moreover have "unat (gen_block_height p) < unat (gen_block_height first)"
      using p(3) ab by (simp add: gen_block_height_def)
    ultimately obtain c where c: "lockstep_walk t p q = Some (Ok c)" "last_common t p q c"
      using less.hyps p(2) q(2) by blast
    have "a \<noteq> b" using False ab by auto
    then have "last_common t first second c"
      using last_common_parents [OF assms(1) _ _ _ hts p(1) q(1) c(2)] less.prems(1,2) ab by simp
    moreover have "lockstep_walk t first second = Some (Ok c)"
      using False p(1) q(1) c(1)
      by (subst lockstep_walk.simps) (simp add: ab get_previous_block_index_def and_then_def map_err_def ok_or_def)
    ultimately show ?thesis by blast
  qed
qed

lemma last_common_sym: "last_common t a b c \<Longrightarrow> last_common t b a c"
  by (auto simp: last_common_def)

lemma last_common_lift:
  assumes "tree_ok t" and "in_tree t g" and "in_tree t h" and "is_ancestor t a g"
    and "gen_block_height h = gen_block_height a" and "last_common t a h c"
  shows "last_common t g h c"
proof -
  have "is_ancestor t d a" if d: "is_ancestor t d g" "is_ancestor t d h" for d
  proof -
    obtain n where "ancestor_after t n h = Some d" using d(2) by (auto simp: is_ancestor_def)
    from ancestor_after_height [OF assms(1,3) this] have "gen_block_height d \<le> gen_block_height a"
      using assms(5) by (simp add: word_le_nat_alt)
    then show ?thesis by (rule ancestor_between [OF assms(1,2,4) d(1)])
  qed
  then show ?thesis using assms(4,6) unfolding last_common_def by (meson is_ancestor_trans)
qed

lemma last_common_ancestor_finds:
  assumes "tree_ok t" and "in_tree t first" and "in_tree t second"
  shows "\<exists>c. last_common_ancestor t first second = Some (Ok c) \<and> last_common t first second c"
proof -
  have up: "\<exists>a. get_ancestor t g (gen_block_height h) = Some (Ok a) \<and> in_tree t a \<and> is_ancestor t a g \<and>
      gen_block_height h = gen_block_height a"
    if "in_tree t g" "gen_block_height h < gen_block_height g" for g h
    using get_ancestor_finds [OF assms(1) that(1) less_imp_le [OF that(2)]] unfolding is_ancestor_def by metis
  consider "gen_block_height second < gen_block_height first" | "gen_block_height first < gen_block_height second"
    | "gen_block_height first = gen_block_height second" by (metis linorder_cases)
  then show ?thesis
  proof cases
    case 1
    with up [OF assms(2)] obtain a where a: "get_ancestor t first (gen_block_height second) = Some (Ok a)"
        "in_tree t a" "is_ancestor t a first" "gen_block_height second = gen_block_height a" by blast
    from lockstep_walk_finds [OF assms(1) a(2) assms(3) a(4) [symmetric]] obtain c where
        "lockstep_walk t a second = Some (Ok c)" "last_common t a second c" by blast
    then show ?thesis using 1 a last_common_lift [OF assms(1,2,3) a(3,4)]
      by (simp add: last_common_ancestor_def then_walk_def Let_def)
  next
    case 2
    with up [OF assms(3)] obtain a where a: "get_ancestor t second (gen_block_height first) = Some (Ok a)"
        "in_tree t a" "is_ancestor t a second" "gen_block_height first = gen_block_height a" by blast
    from lockstep_walk_finds [OF assms(1,2) a(2,4)] obtain c where
        c: "lockstep_walk t first a = Some (Ok c)" "last_common t first a c" by blast
    have "last_common t first second c"
      using last_common_lift [OF assms(1,3,2) a(3,4)] c(2) last_common_sym by blast
    then show ?thesis using 2 less_not_sym [OF 2] a c(1) by (simp add: last_common_ancestor_def then_walk_def Let_def)
  next
    case 3
    then show ?thesis using lockstep_walk_finds [OF assms(1,2,3)] by (simp add: last_common_ancestor_def Let_def)
  qed
qed

section \<open>New blocks keep the tree navigable\<close>

text \<open>The tree with an index stored for a new block.\<close>

definition add_index :: "block_index \<Rightarrow> 'e block_tree \<Rightarrow> 'e block_tree" where
  "add_index b t = t\<lparr> bt_get_block_index := (bt_get_block_index t)(bi_block_id b := Ok (Some b)) \<rparr>"

lemma getter_add_index:
  "i \<noteq> bi_block_id b \<Longrightarrow> gen_block_index_getter (add_index b t) i = gen_block_index_getter t i"
  by (simp add: gen_block_index_getter_def add_index_def)

lemma getter_new_index:
  "bi_block_id b \<noteq> genesis_id (bt_genesis t) \<Longrightarrow>
   gen_block_index_getter (add_index b t) (bi_block_id b) = Ok (Some (GenBlock b))"
  by (simp add: gen_block_index_getter_def add_index_def and_then_def)

text \<open>The ancestors of the blocks that were there stay the same.\<close>

lemma ancestor_after_add_index:
  assumes "tree_ok t" and "gen_block_index_getter t (bi_block_id b) = Ok None" and "in_tree t g"
  shows "ancestor_after (add_index b t) n g = ancestor_after t n g"
  using assms(3)
proof (induction n arbitrary: g)
  case (Suc n)
  show ?case
  proof (cases g)
    case (GenBlock c)
    obtain p where p: "gen_block_index_getter t (bi_prev_block_id c) = Ok (Some p)" "in_tree t p"
      by (rule parent_in_tree [OF assms(1) Suc.prems [unfolded GenBlock]])
    with assms(2) have "bi_prev_block_id c \<noteq> bi_block_id b" by auto
    then show ?thesis using p Suc.IH by (simp add: GenBlock getter_add_index)
  qed simp
qed simp

lemma index_ok_add_index:
  assumes "tree_ok t" and "gen_block_index_getter t (bi_block_id b) = Ok None"
    and "in_tree t (GenBlock c)" and "index_ok t c"
  shows "index_ok (add_index b t) c"
proof -
  obtain p where "gen_block_index_getter t (bi_prev_block_id c) = Ok (Some p)"
    by (rule parent_in_tree [OF assms(1,3)])
  with assms(2) have "bi_prev_block_id c \<noteq> bi_block_id b" by auto
  moreover have "bt_genesis (add_index b t) = bt_genesis t" by (simp add: add_index_def)
  ultimately show ?thesis
    using assms(4) ancestor_after_add_index [OF assms(1-3)] by (simp add: index_ok_def getter_add_index)
qed

text \<open>What a new index is made of.\<close>

lemma case_error_Ok:
  "(case r of Inl e \<Rightarrow> Inl (g e) | Inr a \<Rightarrow> f a) = Inr b \<longleftrightarrow> (\<exists>a. r = Inr a \<and> f a = Inr b)"
  "(case r of Inl e \<Rightarrow> Some (Inl (g e)) | Inr a \<Rightarrow> h a) = Some (Inr b) \<longleftrightarrow> (\<exists>a. r = Inr a \<and> h a = Some (Inr b))"
  by (auto split: sum.splits)

lemma created_index:
  assumes "create_block_index_for_new_block w t i block status = Some (Ok b)"
  obtains p a where "gen_block_index_getter t (hdr_prev_block_id (block_header block)) = Ok (Some p)"
    "bi_block_id b = i" "bi_prev_block_id b = hdr_prev_block_id (block_header block)"
    "uint (bi_height b) = uint (gen_block_height p) + 1"
    "get_ancestor t p (get_skip_height (bi_height b)) = Some (Ok a)" "bi_some_ancestor b = gen_block_id a"
    "gen_chain_trust p \<le> bi_chain_trust b"
    "bi_chain_time_max b = max (gen_chain_timestamps_max p) (hdr_timestamp (block_header block))"
  using assms
  by (auto simp: create_block_index_for_new_block_def Let_def bind_eq_Some_conv case_error_Ok result_simps
        next_height_def checked_add_u_Some bi_prev_block_id_def word_le_def)

lemma created_index_ok:
  assumes "tree_ok t" and "create_block_index_for_new_block w t i block status = Some (Ok b)"
    and "gen_block_index_getter t i = Ok None"
  shows "index_ok (add_index b t) b"
proof -
  obtain p a where c: "gen_block_index_getter t (bi_prev_block_id b) = Ok (Some p)" "bi_block_id b = i"
      "uint (bi_height b) = uint (gen_block_height p) + 1"
      "get_ancestor t p (get_skip_height (bi_height b)) = Some (Ok a)" "bi_some_ancestor b = gen_block_id a"
    by (rule created_index [OF assms(2)]) auto
  let ?skip = "get_skip_height (bi_height b)"
  have p: "in_tree t p" by (rule getter_found(2) [OF assms(1) c(1)])
  have h: "unat (bi_height b) = Suc (unat (gen_block_height p))"
    using c(3) unfolding uint_nat by linarith
  then have "0 < bi_height b" by (metis nat.distinct(1) unat_0 word_gt_0)
  then have skip: "unat ?skip \<le> unat (gen_block_height p)"
    using get_skip_height_less [of "bi_height b"] h by (simp add: word_less_nat_alt)
  then obtain a' where "get_ancestor t p ?skip = Some (Ok a')"
      "ancestor_after t (unat (gen_block_height p) - unat ?skip) p = Some a'"
    using get_ancestor_finds [OF assms(1) p, of ?skip] by (auto simp: word_le_nat_alt)
  with c(4) have a: "ancestor_after t (unat (gen_block_height p) - unat ?skip) p = Some a" by simp
  have ne: "bi_prev_block_id b \<noteq> bi_block_id b" using c(1,2) assms(3) by auto
  have "unat (bi_height b) - unat ?skip = Suc (unat (gen_block_height p) - unat ?skip)" using h skip by simp
  then have "ancestor_after (add_index b t) (unat (bi_height b) - unat ?skip) (GenBlock b) = Some a"
    using a c(1) ne ancestor_after_add_index [OF assms(1) _ p, of b] assms(3) c(2) by (simp add: getter_add_index)
  moreover have "bi_block_id b \<noteq> genesis_id (bt_genesis t)"
    using assms(3) c(2) by (auto simp: gen_block_index_getter_def)
  moreover have "bt_genesis (add_index b t) = bt_genesis t" by (simp add: add_index_def)
  ultimately show ?thesis using c ne by (auto simp: index_ok_def getter_add_index)
qed

lemma created_index_keeps_tree:
  assumes "tree_ok t" and "create_block_index_for_new_block w t i block status = Some (Ok b)"
    and "gen_block_index_getter t i = Ok None"
  shows "tree_ok (add_index b t)"
proof -
  have id: "bi_block_id b = i" by (rule created_index [OF assms(2)])
  have "bi_block_id c = j \<and> index_ok (add_index b t) c"
    if "bt_get_block_index (add_index b t) j = Ok (Some c)" "j \<noteq> genesis_id (bt_genesis t)" for j c
  proof (cases "j = i")
    case True
    then show ?thesis using that created_index_ok [OF assms] id by (simp add: add_index_def)
  next
    case False
    then have old: "bt_get_block_index t j = Ok (Some c)" using that id by (simp add: add_index_def)
    then have "bi_block_id c = j" "index_ok t c" using assms(1) that(2) by (auto simp: tree_ok_def)
    moreover have "in_tree t (GenBlock c)"
      using old that(2) calculation(1) by (simp add: in_tree_def gen_block_id_def gen_block_index_getter_def and_then_def)
    ultimately show ?thesis using index_ok_add_index [OF assms(1)] assms(3) id by simp
  qed
  moreover have "\<exists>r. bt_get_block_index (add_index b t) j = Ok r" for j
    using assms(1) by (auto simp: add_index_def tree_ok_def)
  moreover have "bt_genesis (add_index b t) = bt_genesis t" by (simp add: add_index_def)
  ultimately show ?thesis by (auto simp: tree_ok_def)
qed

section \<open>The blocks of a new chain\<close>

definition in_main_chain :: "'e block_tree \<Rightarrow> gen_block_id \<Rightarrow> bool" where
  "in_main_chain t i \<longleftrightarrow> is_block_in_main_chain t i = Ok True"

text \<open>Each block is the parent of the next one and the parent of the first is in the main chain.\<close>

fun branch_off_main :: "'e block_tree \<Rightarrow> gen_block_id \<Rightarrow> block_index list \<Rightarrow> bool" where
  "branch_off_main t parent [] = True"
| "branch_off_main t parent (b # bs) \<longleftrightarrow>
     bi_prev_block_id b = parent \<and> \<not> in_main_chain t (bi_block_id b) \<and> branch_off_main t (bi_block_id b) bs"

lemma main_chain_decided:
  assumes "tree_ok t" and "\<forall>h. \<exists>r. bt_block_id_by_height t h = Ok r"
  shows "is_block_in_main_chain t i = Ok (in_main_chain t i)"
proof -
  obtain r where r: "bt_get_block_index t i = Ok r" using assms(1) unfolding tree_ok_def by blast
  obtain m where "bt_block_id_by_height t (bi_height (the r)) = Ok m" using assms(2) by blast
  then have "\<exists>v. is_block_in_main_chain t i = Ok v"
    using r by (cases r) (auto simp: is_block_in_main_chain_def get_block_height_in_main_chain_def result_simps
      and_then_def map_err_def)
  then show ?thesis by (auto simp: in_main_chain_def)
qed

lemma new_chain_walk_finds:
  assumes "tree_ok t" and "\<forall>h. \<exists>r. bt_block_id_by_height t h = Ok r"
    and "in_tree t (GenBlock b)" and "branch_off_main t (bi_block_id b) found"
  shows "\<exists>bs parent. new_chain_walk t found b = Some (Ok bs) \<and> branch_off_main t parent bs \<and>
    in_main_chain t parent \<and> (\<exists>pre. bs = pre @ found \<and> (pre = [] \<longrightarrow> parent = bi_block_id b) \<and>
    (pre \<noteq> [] \<longrightarrow> last pre = b))"
  using assms(3,4)
proof (induction "unat (bi_height b)" arbitrary: b found rule: less_induct)
  case less
  note dec = main_chain_decided [OF assms(1,2)]
  show ?case
  proof (cases "in_main_chain t (bi_block_id b)")
    case True
    then show ?thesis using less.prems(2)
      by (intro exI [of _ found] exI [of _ "bi_block_id b"], subst new_chain_walk.simps) (simp add: dec)
  next
    case False
    obtain p where p: "gen_block_index_getter t (bi_prev_block_id b) = Ok (Some p)" "in_tree t p"
        "unat (bi_height b) = Suc (unat (gen_block_height p))"
      by (rule parent_in_tree [OF assms(1) less.prems(1)])
    then have prev: "get_previous_block_index t b = Ok p"
      by (simp add: get_previous_block_index_def and_then_def map_err_def ok_or_def)
    have id: "gen_block_id p = bi_prev_block_id b" by (rule getter_found(1) [OF assms(1) p(1)])
    have br: "branch_off_main t (bi_prev_block_id b) (b # found)" using False less.prems(2) by simp
    show ?thesis
    proof (cases p)
      case (GenBlock c)
      have "unat (bi_height c) < unat (bi_height b)" "branch_off_main t (bi_block_id c) (b # found)"
        using p(3) br id GenBlock by (simp_all add: gen_block_height_def gen_block_id_def)
      from less.hyps [OF this(1) p(2) [unfolded GenBlock] this(2)] obtain bs parent pre where
          c: "new_chain_walk t (b # found) c = Some (Ok bs)" "branch_off_main t parent bs" "in_main_chain t parent"
            "bs = pre @ b # found" by blast
      have "new_chain_walk t found b = Some (Ok bs)"
        using c(1) prev False by (subst new_chain_walk.simps) (simp add: dec GenBlock)
      then show ?thesis using c by (intro exI [of _ bs] exI [of _ parent] conjI exI [of _ "pre @ [b]"]) auto
    next
      case (GenGenesis x)
      then have "in_main_chain t (bi_prev_block_id b)"
        using in_tree_genesis [OF assms(1)] p(2) id
        by (simp add: in_main_chain_def is_block_in_main_chain_def get_block_height_in_main_chain_def
            gen_block_id_def and_then_def)
      moreover have "new_chain_walk t found b = Some (Ok (b # found))"
        using prev False by (subst new_chain_walk.simps) (simp add: dec GenGenesis)
      ultimately show ?thesis using br
        by (intro exI [of _ "b # found"] exI [of _ "bi_prev_block_id b"] conjI exI [of _ "[b]"]) auto
    qed
  qed
qed

section \<open>Bits of the status word\<close>

lemma lsb_mask: "2 ^ n - 1 = (mask n :: u64)"
  by (simp add: mask_eq_exp_minus_1)

lemma le_mask_bits: "val \<le> mask n \<Longrightarrow> n \<le> i \<Longrightarrow> \<not> bit val i" for val :: u64
proof
  assume "val \<le> mask n" "n \<le> i" "bit val i"
  then have "uint val \<le> uint (mask n :: u64)" by (simp add: word_le_def)
  also have "\<dots> = take_bit 64 (mask n)" 
    using uint_word_of_int_eq [of "mask n", where ?'a = 64] by (simp add: of_int_mask_eq)
  also have "\<dots> \<le> mask n" 
  proof -
    have "(2::int) ^ min 64 n \<le> 2 ^ n" by (rule power_increasing) auto
    then show ?thesis unfolding take_bit_of_mask unfolding mask_eq_exp_minus_1 by linarith
  qed
  also have "\<dots> < 2 ^ n" by (simp add: mask_eq_exp_minus_1)
  finally have "take_bit n (uint val) = uint val" by (simp add: take_bit_int_eq_self)
  moreover have "bit (uint val) i" using \<open>bit val i\<close> 
    using bit_imp_le_length [of val i] by (simp add: bit_uint_iff)
  ultimately show False using \<open>n \<le> i\<close> by (metis bit_take_bit_iff not_le)
qed

lemma bit_get_bits:
  "get_bits s (lo, hi) = Some v \<Longrightarrow> bit v i \<longleftrightarrow> i < hi - lo \<and> bit (status_word s) (lo + i)"
proof (cases "hi - lo = 64")
  case True
  moreover assume "get_bits s (lo, hi) = Some v"
  ultimately have "lo = 0" "hi = 64" "v = status_word s" by (auto simp: get_bits_def split: if_splits)
  then show ?thesis by (auto dest: bit_imp_le_length)
qed (auto simp: get_bits_def Let_def lsb_mask bit_and_iff bit_drop_bit_eq bit_mask_iff split: if_splits)

lemma bit_set_bits:
  assumes "set_bits (lo, hi) val s = Some s'"
  shows "bit (status_word s') i \<longleftrightarrow> (if lo \<le> i \<and> i < hi then bit val (i - lo) else bit (status_word s) i)"
proof (cases "hi - lo = 64")
  case True
  with assms have "lo = 0" "hi = 64" "s' = BlockStatus val" by (auto simp: set_bits_def split: if_splits)
  then show ?thesis by (auto dest: bit_imp_le_length)
next
  case False
  then have s': "s' = BlockStatus (or (and (status_word s) (not (push_bit lo (mask (hi - lo))))) (push_bit lo val))"
    and le: "val \<le> mask (hi - lo)" and r: "lo < hi" "hi \<le> 64"
    using assms by (auto simp: set_bits_def Let_def lsb_mask split: if_splits)
  have "\<not> bit val j" if "hi - lo \<le> j" for j using le_mask_bits [OF le that] .
  then show ?thesis using r
    by (auto simp: s' bit_or_iff bit_and_iff bit_not_iff bit_push_bit_iff bit_mask_iff dest: bit_imp_le_length)
qed

lemma set_bits_range: "set_bits r val s = Some s' \<Longrightarrow> fst r < snd r \<and> snd r \<le> 64"
  by (auto simp: set_bits_def split: if_splits prod.splits)

lemma get_bits_range: "lo < hi \<Longrightarrow> hi \<le> 64 \<Longrightarrow> \<exists>v. get_bits s (lo, hi) = Some v"
  by (auto simp: get_bits_def Let_def)

lemma get_after_set_bits:
  assumes "set_bits r val s = Some s'"
  shows "get_bits s' r = Some val"
proof -
  obtain lo hi where r: "r = (lo, hi)" by force
  with set_bits_range [OF assms] obtain v where v: "get_bits s' r = Some v" using get_bits_range by fastforce
  have "val \<le> mask (hi - lo) \<or> hi - lo = 64"
    using assms r by (auto simp: set_bits_def Let_def lsb_mask split: if_splits)
  then have lt: "bit val i \<Longrightarrow> i < hi - lo" for i
    using le_mask_bits [of val "hi - lo" i] bit_imp_le_length [of val i] by fastforce
  have "v = val"
  proof (rule bit_word_eqI)
    fix i
    show "bit v i \<longleftrightarrow> bit val i"
      using lt [of i] bit_get_bits [OF v [unfolded r], of i] bit_set_bits [OF assms [unfolded r], of "lo + i"] by auto
  qed
  with v show ?thesis by simp
qed

lemma get_after_set_other:
  assumes "set_bits (f, l) val s = Some s'" and "l \<le> f' \<or> l' \<le> f"
  shows "get_bits s' (f', l') = get_bits s (f', l')"
proof (cases "f' < l' \<and> l' \<le> 64")
  case True
  then obtain v v' where v: "get_bits s' (f', l') = Some v'" "get_bits s (f', l') = Some v"
    using get_bits_range by metis
  have "v' = v"
    using bit_get_bits [OF v(1)] bit_get_bits [OF v(2)] bit_set_bits [OF assms(1)] assms(2)
    by (intro bit_word_eqI) auto
  with v show ?thesis by simp
qed (auto simp: get_bits_def)

lemma areas_disjoint:
  "area \<noteq> area' \<Longrightarrow> snd (bit_range_of area) \<le> fst (bit_range_of area') \<or> snd (bit_range_of area') \<le> fst (bit_range_of area)"
  by (cases area; cases area') auto

lemma set_field_independent:
  assumes "set_field area val s = Some s'"
  shows "get_field s' area = Some val" and "area' \<noteq> area \<Longrightarrow> get_field s' area' = get_field s area'"
  using get_after_set_bits get_after_set_other areas_disjoint [of area' area] assms
  unfolding get_field_def set_field_def by (metis, metis prod.collapse)

section \<open>Validity of a block\<close>

text \<open>The word of a status that was built by the operations has a stage that can be read back.\<close>

lemma stage_round_trip: "stage_from_u64 (stage_number st) = Some st"
  by (cases st) (simp_all add: stage_from_u64_def)

lemma status_is_ok_fields:
  "status_is_ok s = Some (validation_failed s = Some False \<and> has_invalid_parent s = Some False \<and>
     is_explicitly_invalidated s = Some False)"
proof -
  obtain a b c d where g: "get_bits s (8, 11) = Some a" "get_bits s (8, 9) = Some b" "get_bits s (9, 10) = Some c"
      "get_bits s (10, 11) = Some d" 
    using get_bits_range [of 8 11 s] get_bits_range [of 8 9 s] get_bits_range [of 9 10 s] get_bits_range [of 10 11 s]
    by auto
  have z: "w = 0 \<longleftrightarrow> (\<forall>i. \<not> bit w i)" for w :: u64
    using bit_word_eqI [of w 0] by auto
  let ?w = "bit (status_word s)"
  have "a = 0 \<longleftrightarrow> (\<forall>i<3. \<not> ?w (8 + i))" using z [of a] bit_get_bits [OF g(1)] by simp
  also have "\<dots> \<longleftrightarrow> \<not> ?w 8 \<and> \<not> ?w 9 \<and> \<not> ?w 10" by (simp add: numeral_3_eq_3 All_less_Suc2)
  finally have "a = 0 \<longleftrightarrow> \<not> ?w 8 \<and> \<not> ?w 9 \<and> \<not> ?w 10" .
  moreover have "v = 0 \<longleftrightarrow> \<not> ?w k" if "get_bits s (k, k') = Some v" "k' = Suc k" for v k k'
  proof -
    have "bit v i \<longleftrightarrow> i = 0 \<and> ?w (k + i)" for i using bit_get_bits [OF that(1), of i] that(2) by auto
    then show ?thesis using z [of v] by (metis add_0_right)
  qed
  ultimately have "a = 0 \<longleftrightarrow> b = 0 \<and> c = 0 \<and> d = 0"
    using g(2-) by (metis Suc_numeral semiring_norm(2) semiring_norm(5) semiring_norm(8) add_One)
  then show ?thesis using g
    by (simp add: status_is_ok_def fail_bits_range_def validation_failed_def has_invalid_parent_def
        is_explicitly_invalidated_def get_field_def)
qed

section \<open>A chain of five blocks\<close>

text \<open>In the examples a block is identified by its height.\<close>

definition sample_header :: "block_height \<Rightarrow> block_header" where
  "sample_header h = \<lparr> hdr_prev_block_id = ucast (h - 1), hdr_tx_merkle_root = 0, hdr_witness_merkle_root = 0,
     hdr_timestamp = h * 120, hdr_consensus_data = NoConsensus \<rparr>"

definition sample_index :: "block_height \<Rightarrow> block_index" where
  "sample_index h = \<lparr> bi_block_id = ucast h, bi_block_header = sample_header h,
     bi_some_ancestor = ucast (get_skip_height h), bi_chain_trust = ucast h, bi_height = h,
     bi_chain_time_max = h * 120, bi_chain_transaction_count = 0, bi_status = BlockStatus 2, bi_is_persisted = True \<rparr>"

definition sample_tree :: "unit block_tree" where
  "sample_tree = \<lparr> bt_genesis = \<lparr> genesis_id = 0, genesis_timestamp = 0 \<rparr>,
     bt_get_block_index = (\<lambda>i. Ok (if i \<in> set [1, 2, 3, 4, 5] then Some (sample_index (ucast i)) else None)),
     bt_block_id_by_height = (\<lambda>h. Ok (if h \<in> set [0, 1, 2, 3] then Some (ucast h) else None)),
     bt_best_block_id = Ok 3 \<rparr>"

definition index_ok_computed :: "'e block_tree \<Rightarrow> block_index \<Rightarrow> bool" where
  "index_ok_computed t b \<longleftrightarrow> bi_block_id b \<noteq> genesis_id (bt_genesis t) \<and>
     (case gen_block_index_getter t (bi_prev_block_id b) of
        Inr (Some p) \<Rightarrow> uint (bi_height b) = uint (gen_block_height p) + 1
      | _ \<Rightarrow> False) \<and>
     (case ancestor_after t (unat (bi_height b) - unat (get_skip_height (bi_height b))) (GenBlock b) of
        Some a \<Rightarrow> gen_block_id a = bi_some_ancestor b
      | None \<Rightarrow> False)"

lemma index_ok_computed: "index_ok_computed t b \<Longrightarrow> index_ok t b"
  by (auto simp: index_ok_computed_def index_ok_def split: sum.splits option.splits)

lemma sample_tree_ok: "tree_ok sample_tree"
proof -
  have "list_all (\<lambda>i. bi_block_id (sample_index (ucast i)) = i \<and> index_ok_computed sample_tree (sample_index (ucast i)))
      [1, 2, 3, 4, 5]" by code_simp
  then show ?thesis
    by (auto simp: tree_ok_def sample_tree_def [THEN arg_cong, of bt_get_block_index] index_ok_computed list_all_iff
        split: if_splits)
qed

lemma sample_in_tree:
  "in_tree sample_tree (GenBlock (sample_index 5))" "in_tree sample_tree (GenBlock (sample_index 2))"
  unfolding in_tree_def by code_simp+

section \<open>Properties\<close>

text \<open>
  C11: The walk that skips along the tree ends and finds the ancestor that a walk from parent to parent
  finds: for every block of a consistent tree and every height up to its own, \<open>get_ancestor\<close> returns the
  block after that many steps to the parent, which is at the height asked for. No assertion of the loop
  fails and no lookup misses.
\<close>
theorem ancestor_walk_terminates:
  assumes "tree_ok t" and "in_tree t g" and "target \<le> gen_block_height g"
  shows "\<exists>a. get_ancestor t g target = Some (Ok a) \<and> gen_block_height a = target \<and>
    ancestor_after t (unat (gen_block_height g) - unat target) g = Some a"
  using get_ancestor_finds [OF assms] by blast

theorem ancestor_walk_terminates_witness:
  "\<exists>a. get_ancestor sample_tree (GenBlock (sample_index 5)) 2 = Some (Ok a) \<and> gen_block_height a = 2 \<and>
     ancestor_after sample_tree 3 (GenBlock (sample_index 5)) = Some a"
proof -
  have "2 \<le> gen_block_height (GenBlock (sample_index 5))" by code_simp
  from ancestor_walk_terminates [OF sample_tree_ok sample_in_tree(1) this]
  show ?thesis by (simp add: gen_block_height_def sample_index_def)
qed

text \<open>
  C12: \<open>last_common_ancestor\<close> ends and returns an ancestor of both blocks of which every other common
  ancestor is an ancestor; the two walks stay in lockstep, so it never panics.
\<close>
theorem last_common_ancestor_is_last:
  assumes "tree_ok t" and "in_tree t first" and "in_tree t second"
  shows "\<exists>c. last_common_ancestor t first second = Some (Ok c) \<and> is_ancestor t c first \<and> is_ancestor t c second \<and>
    (\<forall>d. is_ancestor t d first \<longrightarrow> is_ancestor t d second \<longrightarrow> is_ancestor t d c)"
  using last_common_ancestor_finds [OF assms] by (simp add: last_common_def)

theorem last_common_ancestor_is_last_witness:
  "\<exists>c. last_common_ancestor sample_tree (GenBlock (sample_index 5)) (GenBlock (sample_index 2)) = Some (Ok c) \<and>
     is_ancestor sample_tree c (GenBlock (sample_index 5))"
  using last_common_ancestor_is_last [OF sample_tree_ok sample_in_tree] by blast

text \<open>
  C25: Storing the index made for a new block keeps the tree consistent: the parent is one block lower and
  the ancestor the index points to is the one at the skip height, so that later walks find their way.
\<close>
theorem new_block_index_keeps_tree:
  assumes "tree_ok t" and "create_block_index_for_new_block w t i block status = Some (Ok b)"
    and "gen_block_index_getter t i = Ok None"
  shows "tree_ok (add_index b t) \<and> in_tree (add_index b t) (GenBlock b)"
proof -
  have "bi_block_id b = i" by (rule created_index [OF assms(2)])
  moreover have "i \<noteq> genesis_id (bt_genesis t)" using assms(3) by (auto simp: gen_block_index_getter_def)
  ultimately have "in_tree (add_index b t) (GenBlock b)"
    using getter_new_index [of b t] by (simp add: in_tree_def gen_block_id_def)
  then show ?thesis using created_index_keeps_tree [OF assms] by blast
qed

definition sample_new_block :: block_body where
  "sample_new_block = \<lparr> block_header = sample_header 6, block_reward_outputs = [], block_transactions = [] \<rparr>"

theorem new_block_index_keeps_tree_witness:
  "\<exists>b. create_block_index_for_new_block [] sample_tree 6 sample_new_block (BlockStatus 0) = Some (Ok b) \<and>
     tree_ok (add_index b sample_tree)"
proof -
  have anc: "\<exists>a. get_ancestor sample_tree (GenBlock (sample_index 5)) 4 = Some (Ok a)"
    using get_ancestor_finds [OF sample_tree_ok sample_in_tree(1), of 4]
    by (auto simp: gen_block_height_def sample_index_def)
  have g: "gen_block_index_getter sample_tree 5 = Ok (Some (GenBlock (sample_index 5)))"
    "gen_block_index_getter sample_tree 6 = Ok None" "get_skip_height 6 = 4"
    "next_height (gen_block_height (GenBlock (sample_index 5))) = Some 6"
    "hdr_prev_block_id (sample_header 6) = 5" "hdr_consensus_data (sample_header 6) = NoConsensus"
    "checked_add_u (gen_chain_transaction_count (GenBlock (sample_index 5))) 0 = Some 0"
    "checked_add_u (gen_chain_trust (GenBlock (sample_index 5))) 1 = Some 6"
    by code_simp+
  have "\<exists>b. create_block_index_for_new_block [] sample_tree 6 sample_new_block (BlockStatus 0) = Some (Ok b)"
    using anc by (auto simp: create_block_index_for_new_block_def sample_new_block_def Let_def g and_then_def
        map_err_def ok_or_def get_block_proof_def)
  then show ?thesis using new_block_index_keeps_tree [OF sample_tree_ok _ g(2)] by blast
qed

text \<open>
  C26: \<open>get_new_chain\<close> ends and returns the branch from the main chain to a block: each block is the parent
  of the next, none of them is in the main chain, the parent of the first one is, and the last one is the
  block itself.
\<close>
theorem new_chain_is_branch:
  assumes "tree_ok t" and "\<forall>h. \<exists>r. bt_block_id_by_height t h = Ok r" and "in_tree t (GenBlock tip)"
  shows "\<exists>bs parent. get_new_chain t tip = Some (Ok bs) \<and> branch_off_main t parent bs \<and> in_main_chain t parent \<and>
    (bs = [] \<longrightarrow> parent = bi_block_id tip) \<and> (bs \<noteq> [] \<longrightarrow> last bs = tip)"
  using new_chain_walk_finds [OF assms(1,2,3), of "[]"] by (auto simp: get_new_chain_def)

theorem new_chain_is_branch_witness:
  "\<exists>bs parent. get_new_chain sample_tree (sample_index 5) = Some (Ok bs) \<and> branch_off_main sample_tree parent bs \<and>
     in_main_chain sample_tree parent"
proof -
  have "\<forall>h. \<exists>r. bt_block_id_by_height sample_tree h = Ok r" by (simp add: sample_tree_def)
  from new_chain_is_branch [OF sample_tree_ok this sample_in_tree(1)] show ?thesis by blast
qed

text \<open>
  The fields of the status word do not disturb each other: a field that is set reads back as the value
  it was set to and every other field keeps its value, reserved bits included.
\<close>
theorem status_fields_independent:
  assumes "set_field area val s = Some s'"
  shows "get_field s' area = Some val \<and> (\<forall>area'. area' \<noteq> area \<longrightarrow> get_field s' area' = get_field s area')"
  using set_field_independent [OF assms] by blast

theorem status_fields_independent_witness:
  "get_field (BlockStatus 0x102) ValidationFailedBit = Some 1 \<and>
   get_field (BlockStatus 0x102) ValidationStage = get_field (BlockStatus 2) ValidationStage"
proof -
  have "set_field ValidationFailedBit 1 (BlockStatus 2) = Some (BlockStatus 0x102)" by code_simp
  from status_fields_independent [OF this] show ?thesis by blast
qed

end
