(* ===== verification/Input_Check.thy ===== *)
theory Input_Check
  imports Mintscript Block_Index
begin

text \<open>
  The check of the inputs of a transaction or of a block reward
  (\<open>chainstate/tx-verifier/src/transaction_verifier/input_check\<close> and \<open>tx_source.rs\<close>): every input is
  translated to a script, whose time locks are checked against the block that spends it and the block that
  created it, and whose signatures are checked over the transaction. The utxo view, the accounting views
  and the tree of blocks are parameters.
\<close>

section \<open>Where a transaction comes from\<close>

datatype transaction_source_for_connect =
    ConnectChain block_index
  | ConnectMempool gen_block_index block_height

text \<open>The height a mempool declares has to be above the tip (an assertion).\<close>

definition for_mempool_with_height :: "gen_block_index \<Rightarrow> block_height \<Rightarrow> transaction_source_for_connect option" where
  "for_mempool_with_height current_best effective_height =
     (if gen_block_height current_best < effective_height then Some (ConnectMempool current_best effective_height)
      else None)"

definition for_mempool :: "gen_block_index \<Rightarrow> transaction_source_for_connect option" where
  "for_mempool current_best =
     Option.bind (next_height (gen_block_height current_best)) (for_mempool_with_height current_best)"

definition expected_block_height :: "transaction_source_for_connect \<Rightarrow> block_height" where
  "expected_block_height s = (case s of ConnectChain bi \<Rightarrow> bi_height bi | ConnectMempool _ h \<Rightarrow> h)"

definition chain_block_index :: "transaction_source_for_connect \<Rightarrow> block_index option" where
  "chain_block_index s = (case s of ConnectChain bi \<Rightarrow> Some bi | ConnectMempool _ _ \<Rightarrow> None)"

definition to_utxo_source :: "transaction_source_for_connect \<Rightarrow> utxo_source" where
  "to_utxo_source s = (case s of ConnectChain bi \<Rightarrow> Blockchain (bi_height bi) | ConnectMempool _ _ \<Rightarrow> Mempool)"

definition source_tip :: "transaction_source_for_connect \<Rightarrow> gen_block_id" where
  "source_tip s = (case s of ConnectChain bi \<Rightarrow> bi_block_id bi | ConnectMempool best _ \<Rightarrow> gen_block_id best)"

section \<open>Errors\<close>

datatype 'e timelock_context_error =
    TimelockedAccount
  | MissingUtxoSource
  | HeaderLoad "'e get_ancestor_error" block_height

datatype 'e input_check_payload =
    MissingUtxo utxo_outpoint
  | CheckPoolNotFound pool_id
  | CheckOrderNotFound order_id
  | CheckNonUtxoKernelInput tx_input
  | UtxoView utxo_error
  | UtxoInfoProvider storage_error
  | PoolInfoProvider pos_error
  | OrderInfoProvider orders_error
  | InputTranslation translation_error
  | InputVerification "(destination_sig_error, 'e timelock_context_error timelock_error, hashlock_error) script_error"

datatype 'e input_check_error = InputCheckError nat "'e input_check_payload"

type_synonym ('e, 'a) input_check = "'e input_check_error failure + 'a"

definition commitment_error ::
    "(storage_error, pos_error, orders_error) commitment_creation_error \<Rightarrow> 'e input_check_error" where
  "commitment_error e = (case e of
      UtxoProviderError e i \<Rightarrow> InputCheckError i (UtxoInfoProvider e)
    | PoolInfoProviderError e i \<Rightarrow> InputCheckError i (PoolInfoProvider e)
    | OrderInfoProviderError e i \<Rightarrow> InputCheckError i (OrderInfoProvider e)
    | NonUtxoKernelInput input i \<Rightarrow> InputCheckError i (CheckNonUtxoKernelInput input)
    | CommitmentUtxoNotFound outpoint i \<Rightarrow> InputCheckError i (MissingUtxo outpoint)
    | CommitmentPoolNotFound pool i \<Rightarrow> InputCheckError i (CheckPoolNotFound pool)
    | CommitmentOrderNotFound order i \<Rightarrow> InputCheckError i (CheckOrderNotFound order))"

section \<open>The inputs and their witnesses\<close>

definition from_input :: "'v utxos_view \<Rightarrow> nat \<Rightarrow> tx_input \<Rightarrow> input_witness \<Rightarrow>
    'e input_check_error + per_input_data" where
  "from_input utxo_view input_num input witness =
     and_then (case input of
         UtxoInput outpoint \<Rightarrow>
           and_then (map_err (\<lambda>_. InputCheckError input_num (UtxoView UtxoViewRead)) (uv_utxo utxo_view outpoint)) (\<lambda>u.
           and_then (ok_or u (InputCheckError input_num (MissingUtxo outpoint))) (\<lambda>u.
           Ok (InfoUtxo outpoint (utxo_output u) (Some (utxo_source u)))))
       | AccountInput outpoint \<Rightarrow> Ok (InfoAccount outpoint)
       | AccountCommandInput _ command \<Rightarrow> Ok (InfoAccountCommand command)
       | OrderAccountCommandInput command \<Rightarrow> Ok (InfoOrderAccountCommand command)) (\<lambda>info.
     Ok \<lparr> input_info = info, input_witness = witness \<rparr>)"

definition core_context_new :: "'v utxos_view \<Rightarrow> transactable \<Rightarrow> ('e, per_input_data list) input_check" where
  "core_context_new utxo_view tx =
     (let inputs = (case sg_inputs tx of Some i \<Rightarrow> i | None \<Rightarrow> []); sigs = tr_signatures tx in
      and_then (ensure (length inputs = length sigs) Panic) (\<lambda>_.
      map_err Fail (collect_each (\<lambda>(n, input, sig).
        and_then (ok_or sig (InputCheckError n (InputVerification (ScriptSignature SignatureNotFound)))) (\<lambda>witness.
        from_input utxo_view n input witness)) (enumerated (zip inputs sigs)))))"

text \<open>The outpoint is only compared in a debug assertion.\<close>

definition core_get_utxo :: "per_input_data list \<Rightarrow> nat \<Rightarrow> utxo_outpoint \<Rightarrow> storage_error + tx_output option" where
  "core_get_utxo core idx outpoint = Ok (Option.bind (get_index core idx) (\<lambda>d. case input_info d of
      InfoUtxo _ utxo _ \<Rightarrow> Some utxo
    | _ \<Rightarrow> None))"

section \<open>Contexts\<close>

record 'e verify_context =
  vc_tree :: "'e block_tree"
  vc_tip :: gen_block_id
  vc_spending_time :: block_timestamp
  vc_spending_height :: block_height

definition context_for_verifier ::
    "'e block_tree \<Rightarrow> transaction_source_for_connect \<Rightarrow> block_timestamp \<Rightarrow> 'e verify_context" where
  "context_for_verifier tree tx_source now = \<lparr> vc_tree = tree, vc_tip = source_tip tx_source,
     vc_spending_time = now, vc_spending_height = expected_block_height tx_source \<rparr>"

definition input_source :: "per_input_data \<Rightarrow> 'e timelock_context_error + utxo_source" where
  "input_source d = (case input_info d of
      InfoUtxo _ _ src \<Rightarrow> ok_or src MissingUtxoSource
    | _ \<Rightarrow> Err TimelockedAccount)"

definition input_source_height ::
    "'e verify_context \<Rightarrow> per_input_data \<Rightarrow> 'e timelock_context_error failure + block_height" where
  "input_source_height ctx d =
     and_then (map_err Fail (input_source d)) (\<lambda>src. Ok (case src of
         Blockchain height \<Rightarrow> height
       | Mempool \<Rightarrow> vc_spending_height ctx))"

text \<open>A walk along the chain that does not end counts as a panic.\<close>

definition input_source_time ::
    "'e verify_context \<Rightarrow> per_input_data \<Rightarrow> 'e timelock_context_error failure + block_timestamp" where
  "input_source_time ctx d =
     and_then (map_err Fail (input_source d)) (\<lambda>src. case src of
         Blockchain height \<Rightarrow>
           and_then (case block_index_ancestor_getter (vc_tree ctx) (StartBlockId (vc_tip ctx)) height of
               None \<Rightarrow> Err Panic
             | Some r \<Rightarrow> map_err (map_failure (\<lambda>e. HeaderLoad e height)) r) (\<lambda>source_block_index.
           Ok (gen_block_timestamp source_block_index))
       | Mempool \<Rightarrow> Ok (vc_spending_time ctx))"

definition input_timelock_context ::
    "'e verify_context \<Rightarrow> per_input_data \<Rightarrow> 'e timelock_context_error timelock_context" where
  "input_timelock_context ctx d = \<lparr> spending_height = vc_spending_height ctx, spending_time = vc_spending_time ctx,
     source_height = input_source_height ctx d, source_time = input_source_time ctx d \<rparr>"

definition translation_context :: "pos_error pos_view \<Rightarrow> tokens_error tokens_view \<Rightarrow> orders_error orders_view \<Rightarrow>
    per_input_data \<Rightarrow> signature_info" where
  "translation_context pos tokens orders d = \<lparr> input_info = input_info d, input_witness = input_witness d,
     get_pool_decommission_destination = (\<lambda>pool.
       and_then (pv_pool_data pos pool) (\<lambda>data. Ok (map_option decommission_destination data))),
     get_delegation_spend_destination = (\<lambda>deleg.
       and_then (pv_delegation_data pos deleg) (\<lambda>data. Ok (map_option spend_destination data))),
     get_tokens_authority = (\<lambda>tok.
       and_then (view_token_data tokens tok) (\<lambda>data. Ok (map_option (\<lambda>d. case d of FungibleToken f \<Rightarrow> ft_authority f) data))),
     get_orders_conclude_destination = (\<lambda>order.
       and_then (view_order_data orders order) (\<lambda>data. Ok (map_option conclude_key data))) \<rparr>"

section \<open>Commitments\<close>

definition view_pool_info :: "pos_error pos_view \<Rightarrow> pool_id \<Rightarrow> pos_error + pool_info option" where
  "view_pool_info pos pool =
     and_then (pv_pool_data pos pool) (\<lambda>data. case data of
         None \<Rightarrow> Ok None
       | Some d \<Rightarrow> and_then (staker_balance d) (\<lambda>b. Ok (Some (PoolInfo b))))"

definition view_order_info :: "orders_error orders_view \<Rightarrow> order_id \<Rightarrow> orders_error + order_info option" where
  "view_order_info orders order =
     and_then (view_order_data orders order) (\<lambda>data. case data of
         None \<Rightarrow> Ok None
       | Some d \<Rightarrow>
           and_then (view_ask_balance orders order) (\<lambda>ask_balance.
           and_then (view_give_balance orders order) (\<lambda>give_balance.
           Ok (Some \<lparr> oi_initially_asked = order_ask d, oi_initially_given = order_give d,
             oi_ask_balance = ask_balance, oi_give_balance = give_balance \<rparr>))))"

text \<open>What can be verified in full: a signed transaction or a block reward with the witness of its kernel.\<close>

datatype fully_verifiable =
    VerifyTransaction signed_transaction
  | VerifyReward block_reward_transactable "input_witness list option"

definition as_transactable :: "fully_verifiable \<Rightarrow> transactable" where
  "as_transactable v = (case v of
      VerifyTransaction tx \<Rightarrow> transactable_of_signed tx
    | VerifyReward reward witness \<Rightarrow> transactable_of_reward reward witness)"

definition translate_input :: "'aux crypto \<Rightarrow> fully_verifiable \<Rightarrow> signature_info \<Rightarrow>
    translation_error + witness_script" where
  "translate_input cr v ctx = (case v of
      VerifyTransaction _ \<Rightarrow> translate_transaction_input cr ctx
    | VerifyReward _ _ \<Rightarrow> translate_reward_input ctx)"

definition get_input_commitments :: "fully_verifiable \<Rightarrow> per_input_data list \<Rightarrow> pos_error pos_view \<Rightarrow>
    orders_error orders_view \<Rightarrow> chain_config \<Rightarrow> block_height \<Rightarrow> ('e, sighash_input_commitment list) input_check" where
  "get_input_commitments v core pos orders cfg height =
     (let providers = \<lparr> ip_get_utxo = core_get_utxo core, ip_get_pool_info = view_pool_info pos,
           ip_get_order_info = view_order_info orders \<rparr> in
      case v of
        VerifyTransaction tx \<Rightarrow>
          map_err (map_failure commitment_error)
            (transaction_input_commitments_at_height (tx_inputs (stx_transaction tx)) providers cfg height)
      | VerifyReward reward _ \<Rightarrow> (case reward_tx_inputs reward of
            Some inputs \<Rightarrow> map_err (Fail \<circ> commitment_error) (kernel_input_commitments inputs providers)
          | None \<Rightarrow> Ok []))"

section \<open>Verification\<close>

text \<open>The verification of a script always ends; its checkers have no state.\<close>

definition script_check :: "(unit, 's, 't, 'h) script_visitor \<Rightarrow> witness_script \<Rightarrow>
    ('s, 't, 'h) script_error failure + unit" where
  "script_check v script = fst (the (script_verify v script ()))"

definition verify_input_full :: "'aux crypto \<Rightarrow> chain_config \<Rightarrow> pos_error pos_view \<Rightarrow> tokens_error tokens_view \<Rightarrow>
    orders_error orders_view \<Rightarrow> 'e verify_context \<Rightarrow> fully_verifiable \<Rightarrow> sighash_input_commitment list \<Rightarrow>
    nat \<times> per_input_data \<Rightarrow> ('e, unit) input_check" where
  "verify_input_full cr cfg pos tokens orders ctx v commitments = (\<lambda>(n, inp).
     and_then (map_err (\<lambda>e. Fail (InputCheckError n (InputTranslation e)))
       (translate_input cr v (translation_context pos tokens orders inp))) (\<lambda>script.
     map_err (map_failure (\<lambda>e. InputCheckError n (InputVerification e)))
       (script_check (full_checker cr
          (\<lambda>dest w. verify_signature cr cfg dest (as_transactable v) w commitments n)
          (input_timelock_context ctx inp)) script)))"

definition verify_full :: "'aux crypto \<Rightarrow> chain_config \<Rightarrow> 'v utxos_view \<Rightarrow> pos_error pos_view \<Rightarrow>
    tokens_error tokens_view \<Rightarrow> orders_error orders_view \<Rightarrow> 'e block_tree \<Rightarrow> transaction_source_for_connect \<Rightarrow>
    block_timestamp \<Rightarrow> block_height \<Rightarrow> fully_verifiable \<Rightarrow> ('e, unit) input_check" where
  "verify_full cr cfg utxos pos tokens orders tree tx_source now height v =
     and_then (core_context_new utxos (as_transactable v)) (\<lambda>core.
     and_then (get_input_commitments v core pos orders cfg height) (\<lambda>commitments.
     try_each (verify_input_full cr cfg pos tokens orders (context_for_verifier tree tx_source now) v
       commitments) (enumerated core)))"

definition verify_input_timelocks :: "'aux crypto \<Rightarrow> 'e verify_context \<Rightarrow> nat \<times> per_input_data \<Rightarrow>
    ('e, unit) input_check" where
  "verify_input_timelocks cr ctx = (\<lambda>(n, inp).
     and_then (map_err (\<lambda>e. Fail (InputCheckError n (InputTranslation e))) (translate_timelock_only cr inp)) (\<lambda>script.
     map_err (map_failure (\<lambda>e. InputCheckError n (InputVerification e)))
       (script_check (timelock_only_checker (input_timelock_context ctx inp)) script)))"

definition verify_timelocks :: "'aux crypto \<Rightarrow> 'v utxos_view \<Rightarrow> 'e block_tree \<Rightarrow> gen_block_id \<Rightarrow> block_height \<Rightarrow>
    block_timestamp \<Rightarrow> transactable \<Rightarrow> ('e, unit) input_check" where
  "verify_timelocks cr utxos tree tip height now tx =
     and_then (core_context_new utxos tx) (\<lambda>core.
     try_each (verify_input_timelocks cr \<lparr> vc_tree = tree, vc_tip = tip, vc_spending_time = now,
       vc_spending_height = height \<rparr>) (enumerated core))"

text \<open>
  The check of one signature alone, where one destination stands for all that would have to be looked up.
  The signatures are indexed by the number of the input, which may be out of their range.
\<close>

definition verify_tx_signature :: "'aux crypto \<Rightarrow> chain_config \<Rightarrow> destination \<Rightarrow> transactable \<Rightarrow>
    sighash_input_commitment list \<Rightarrow> nat \<Rightarrow> tx_output option \<Rightarrow> ('e, unit) input_check" where
  "verify_tx_signature cr cfg dest tx commitments n utxo =
     (let sig_err = (\<lambda>e. Fail (InputCheckError n (InputVerification (ScriptSignature e)))) in
      and_then (ok_or (sg_inputs tx) (sig_err SignatureVerificationWithoutInputs)) (\<lambda>inputs.
      and_then (ok_or (get_index inputs n) (sig_err (InvalidInputIndex n (length inputs)))) (\<lambda>input.
      and_then (ensure (length inputs = length commitments)
        (sig_err (InvalidInputCommitmentsCountVsInputs (length commitments) (length inputs)))) (\<lambda>_.
      and_then (case input of
          UtxoInput outpoint \<Rightarrow>
            and_then (ok_or utxo (Fail (InputCheckError n (MissingUtxo outpoint)))) (\<lambda>u. Ok (InfoUtxo outpoint u None))
        | AccountInput outpoint \<Rightarrow> Ok (InfoAccount outpoint)
        | AccountCommandInput _ command \<Rightarrow> Ok (InfoAccountCommand command)
        | OrderAccountCommandInput command \<Rightarrow> Ok (InfoOrderAccountCommand command)) (\<lambda>info.
      and_then (ok_or (get_index (tr_signatures tx) n) Panic) (\<lambda>sig.
      and_then (ok_or sig (sig_err SignatureNotFound)) (\<lambda>witness.
      let ctx = \<lparr> input_info = info, input_witness = witness,
            get_pool_decommission_destination = (\<lambda>_. Ok (Some dest)),
            get_delegation_spend_destination = (\<lambda>_. Ok (Some dest)), get_tokens_authority = (\<lambda>_. Ok (Some dest)),
            get_orders_conclude_destination = (\<lambda>_. Ok (Some dest)) \<rparr> in
      and_then (map_err (\<lambda>e. Fail (InputCheckError n (InputTranslation e))) (translate_signature_only cr ctx)) (\<lambda>script.
      map_err (map_failure (\<lambda>e. InputCheckError n (InputVerification e)))
        (script_check (signature_only_checker (\<lambda>d w. verify_signature cr cfg d tx w commitments n)) script)))))))))"

section \<open>The full check and its parts\<close>

lemma script_check_eq: "script_check v script = fst (script_eval v script ())"
  by (simp add: script_check_def script_verify_evaluates)

lemma script_verify_unit: "script_verify v script () = Some (script_check v script, ())"
  by (cases "script_eval v script ()") (simp add: script_check_eq script_verify_evaluates)

lemma core_context_eq:
  "(core_context_new utxos tx :: ('e, _) input_check) = Ok core \<longleftrightarrow>
     (let inputs = (case sg_inputs tx of Some i \<Rightarrow> i | None \<Rightarrow> []) in
      length (tr_signatures tx) = length inputs \<and> length core = length inputs \<and>
      (\<forall>n<length inputs. \<exists>w. tr_signatures tx ! n = Some w \<and>
         (from_input utxos n (inputs ! n) w :: 'e input_check_error + _) = Ok (core ! n)))"
  by (auto simp: core_context_new_def Let_def result_simps collect_each_eq enumerated_def)

lemma translation_context_input [simp]:
  "input_info (translation_context pos tokens orders d) = input_info d"
  "input_witness (translation_context pos tokens orders d) = input_witness d"
  by (simp_all add: translation_context_def)

lemma translate_timelock_only_context:
  "translate_timelock_only cr (translation_context pos tokens orders d) = translate_timelock_only cr d"
proof -
  have witness: "htlc_witness cr (translation_context pos tokens orders d) = htlc_witness cr d"
    by (simp add: htlc_witness_def)
  show ?thesis unfolding translate_timelock_only_def witness translation_context_input ..
qed

text \<open>
  C28: When the full check of a signed transaction passes, the check of its time locks alone passes for the same
  tip, height and time.
\<close>

theorem full_check_includes_timelocks:
  fixes tree :: "'e block_tree"
  assumes "verify_full cr cfg utxos pos tokens orders tree tx_source now height (VerifyTransaction tx) = Ok ()"
  shows "verify_timelocks cr utxos tree (source_tip tx_source) (expected_block_height tx_source) now
    (transactable_of_signed tx) = Ok ()"
proof -
  obtain core cs where core: "(core_context_new utxos (transactable_of_signed tx) :: ('e, _) input_check) = Ok core"
    and full: "\<forall>n<length core. verify_input_full cr cfg pos tokens orders (context_for_verifier tree tx_source now)
      (VerifyTransaction tx) cs (n, core ! n) = Ok ()"
    using assms by (auto simp: verify_full_def as_transactable_def result_simps try_each_enumerated)
  have "verify_input_timelocks cr (context_for_verifier tree tx_source now) (n, core ! n) = Ok ()"
    if n: "n < length core" for n
  proof -
    obtain script where "translate_transaction_input cr (translation_context pos tokens orders (core ! n)) = Ok script"
      "script_check (full_checker cr (\<lambda>dest w. verify_signature cr cfg dest (transactable_of_signed tx) w cs n)
         (input_timelock_context (context_for_verifier tree tx_source now) (core ! n))) script = Ok ()"
      using full n by (auto simp: verify_input_full_def translate_input_def as_transactable_def result_simps)
    from full_check_partial [OF this(1)] this(2) show ?thesis
      by (auto simp: verify_input_timelocks_def result_simps script_verify_unit translate_timelock_only_context)
  qed
  with core show ?thesis
    by (simp add: verify_timelocks_def result_simps try_each_enumerated context_for_verifier_def)
qed

lemma core_of_signed:
  assumes "(core_context_new utxos (transactable_of_signed tx) :: ('e, _) input_check) = Ok core"
  shows "length (stx_signatures tx) = length (tx_inputs (stx_transaction tx))"
    "length core = length (tx_inputs (stx_transaction tx))"
    "n < length (tx_inputs (stx_transaction tx)) \<Longrightarrow>
      (from_input utxos n (tx_inputs (stx_transaction tx) ! n) (stx_signatures tx ! n) :: 'e input_check_error + _) = Ok (core ! n)"
proof -
  have fields: "sg_inputs (transactable_of_signed tx) = Some (tx_inputs (stx_transaction tx))"
    "tr_signatures (transactable_of_signed tx) = map Some (stx_signatures tx)"
    by (simp_all add: transactable_of_signed_def signable_of_transaction_def signable.defs transactable.defs)
  show "length (stx_signatures tx) = length (tx_inputs (stx_transaction tx))"
    "length core = length (tx_inputs (stx_transaction tx))"
    "n < length (tx_inputs (stx_transaction tx)) \<Longrightarrow>
      (from_input utxos n (tx_inputs (stx_transaction tx) ! n) (stx_signatures tx ! n) :: 'e input_check_error + _) = Ok (core ! n)"
    using assms by (auto simp: core_context_eq fields Let_def)
qed

text \<open>
  Who may use an input, in terms of the witnesses a destination accepts (\<open>accepts\<close>) and of the locks that
  have passed (\<open>passed\<close>): the owner the output names, the decommission key of a pool, either party of a hashed
  timelock contract; for an account, its owner as the ledger records it. Some outputs cannot be spent.
\<close>

definition htlc_authorised :: "'aux crypto \<Rightarrow> (destination \<Rightarrow> evaluated_input_witness \<Rightarrow> bool) \<Rightarrow>
    (output_time_lock \<Rightarrow> bool) \<Rightarrow> input_witness \<Rightarrow> hashed_timelock_contract \<Rightarrow> bool" where
  "htlc_authorised cr accepts passed w htlc = (case w of
      NoSignature _ \<Rightarrow> False
    | StandardSignature sig \<Rightarrow> (case cr_decode_htlc_spend cr (raw_signature sig) of
        None \<Rightarrow> False
      | Some (HtlcSpend secret raw) \<Rightarrow> cr_hash160 cr secret = secret_hash htlc \<and>
          accepts (spend_key htlc) (EvaluatedStandard \<lparr> sighash_type = sighash_type sig, raw_signature = raw \<rparr>)
      | Some (HtlcRefund raw) \<Rightarrow> passed (refund_timelock htlc) \<and>
          accepts (refund_key htlc) (EvaluatedStandard \<lparr> sighash_type = sighash_type sig, raw_signature = raw \<rparr>)))"

definition output_authorised :: "'aux crypto \<Rightarrow> pos_error pos_view \<Rightarrow> (destination \<Rightarrow> evaluated_input_witness \<Rightarrow> bool) \<Rightarrow>
    (output_time_lock \<Rightarrow> bool) \<Rightarrow> input_witness \<Rightarrow> tx_output \<Rightarrow> bool" where
  "output_authorised cr pos accepts passed w output = (case output of
      Transfer _ dest \<Rightarrow> accepts dest (evaluate_witness w)
    | LockThenTransfer _ dest lock \<Rightarrow> accepts dest (evaluate_witness w) \<and> passed lock
    | CreateStakePool _ data \<Rightarrow> accepts (sp_decommission_key data) (evaluate_witness w)
    | ProduceBlockFromStake _ pool \<Rightarrow> (case pv_pool_data pos pool of
        Inr (Some data) \<Rightarrow> accepts (decommission_destination data) (evaluate_witness w) | _ \<Rightarrow> False)
    | IssueNft _ _ dest \<Rightarrow> accepts dest (evaluate_witness w)
    | Htlc _ htlc \<Rightarrow> htlc_authorised cr accepts passed w htlc
    | Burn _ \<Rightarrow> False | CreateDelegationId _ _ \<Rightarrow> False | DelegateStaking _ _ \<Rightarrow> False
    | IssueFungibleToken _ \<Rightarrow> False | DataDeposit _ \<Rightarrow> False | CreateOrder _ \<Rightarrow> False)"

definition authority_accepts :: "tokens_error tokens_view \<Rightarrow> (destination \<Rightarrow> bool) \<Rightarrow> token_id \<Rightarrow> bool" where
  "authority_accepts tokens accepts tok = (case view_token_data tokens tok of
      Inr (Some (FungibleToken f)) \<Rightarrow> accepts (ft_authority f) | _ \<Rightarrow> False)"

definition conclude_accepts :: "orders_error orders_view \<Rightarrow> (destination \<Rightarrow> bool) \<Rightarrow> order_id \<Rightarrow> bool" where
  "conclude_accepts orders accepts order = (case view_order_data orders order of
      Inr (Some data) \<Rightarrow> accepts (conclude_key data) | _ \<Rightarrow> False)"

definition account_authorised :: "pos_error pos_view \<Rightarrow> tokens_error tokens_view \<Rightarrow> orders_error orders_view \<Rightarrow>
    (destination \<Rightarrow> bool) \<Rightarrow> tx_input \<Rightarrow> bool" where
  "account_authorised pos tokens orders accepts input = (case input of
      UtxoInput _ \<Rightarrow> False
    | AccountInput (AccountOutPoint _ (DelegationBalance deleg _)) \<Rightarrow> (case pv_delegation_data pos deleg of
        Inr (Some data) \<Rightarrow> accepts (spend_destination data) | _ \<Rightarrow> False)
    | AccountCommandInput _ command \<Rightarrow> (case command of
        ConcludeOrder order \<Rightarrow> conclude_accepts orders accepts order
      | FillOrder _ _ _ \<Rightarrow> True
      | MintTokens tok _ \<Rightarrow> authority_accepts tokens accepts tok
      | UnmintTokens tok \<Rightarrow> authority_accepts tokens accepts tok
      | LockTokenSupply tok \<Rightarrow> authority_accepts tokens accepts tok
      | FreezeToken tok _ \<Rightarrow> authority_accepts tokens accepts tok
      | UnfreezeToken tok \<Rightarrow> authority_accepts tokens accepts tok
      | ChangeTokenAuthority tok _ \<Rightarrow> authority_accepts tokens accepts tok
      | ChangeTokenMetadataUri tok _ \<Rightarrow> authority_accepts tokens accepts tok)
    | OrderAccountCommandInput command \<Rightarrow> (case command of
        FillOrderV1 _ _ \<Rightarrow> accepts AnyoneCanSpend
      | FreezeOrder order \<Rightarrow> conclude_accepts orders accepts order
      | ConcludeOrderV1 order \<Rightarrow> conclude_accepts orders accepts order))"

lemma from_input_utxo:
  "from_input utxos n (UtxoInput outpoint) w = Ok d \<Longrightarrow> \<exists>u. uv_utxo utxos outpoint = Ok (Some u) \<and>
     input_info d = InfoUtxo outpoint (utxo_output u) (Some (utxo_source u)) \<and> input_witness d = w"
  by (auto simp: from_input_def result_simps)

lemmas translated_simps = translate_transaction_input_def translation_context_def to_signature_witness_script_def
  looked_up_signature_eq leaf_simps

lemma translation_info:
  "input_info (translation_context pos tokens orders d) = input_info d"
  "input_witness (translation_context pos tokens orders d) = input_witness d"
  by (simp_all add: translation_context_def)

lemma delegation_signature_eq:
  "delegation_signature (translation_context pos tokens orders d) deleg = Ok script \<longleftrightarrow>
     (\<exists>data. pv_delegation_data pos deleg = Ok (Some data) \<and>
       script = SignatureScript (spend_destination data) (evaluate_witness (input_witness d)))"
  by (auto simp: delegation_signature_def translated_simps and_then_eq)

lemma conclude_signature_eq:
  "conclude_signature (translation_context pos tokens orders d) order = Ok script \<longleftrightarrow>
     (\<exists>data. view_order_data orders order = Ok (Some data) \<and>
       script = SignatureScript (conclude_key data) (evaluate_witness (input_witness d)))"
  by (auto simp: conclude_signature_def translated_simps and_then_eq)

lemma authority_signatureD:
  assumes "authority_signature (translation_context pos tokens orders d) tok = Ok script"
  shows "\<exists>f. view_token_data tokens tok = Ok (Some (FungibleToken f)) \<and>
    script = SignatureScript (ft_authority f) (evaluate_witness (input_witness d))"
proof -
  obtain t where "view_token_data tokens tok = Ok (Some t)"
    "script = SignatureScript (case t of FungibleToken f \<Rightarrow> ft_authority f) (evaluate_witness (input_witness d))"
    using assms by (auto simp: authority_signature_def translated_simps and_then_eq)
  then show ?thesis by (cases t) simp
qed

lemma translated_output_authorised:
  assumes "translate_transaction_input cr (translation_context pos tokens orders d) = Ok script"
    and "fst (script_eval (full_checker cr check tctx) script ()) = Ok ()" and "input_info d = InfoUtxo outpoint output source"
  shows "output_authorised cr pos (\<lambda>dest w. check dest w = Ok ()) (\<lambda>lock. check_timelock tctx lock = Ok ())
    (input_witness d) output"
proof (cases "output")
  case (Htlc amt htlc)
  obtain sig spend where "input_witness d = StandardSignature sig"
    "cr_decode_htlc_spend cr (raw_signature sig) = Some spend"
    using assms(1,3) Htlc by (auto simp: translate_transaction_input_def translation_context_def htlc_witness_def
        and_then_eq ok_or_eq split: input_witness.splits)
  then show ?thesis using assms Htlc
    by (cases spend) (auto simp: translated_simps output_authorised_def htlc_authorised_def htlc_witness_def
        htlc_signature_def check_hashlock_def ensure_hashes_equal_def ensure_def and_then_def ok_or_def
        split: sum.splits if_splits)
qed (use assms in \<open>auto simp: translated_simps output_authorised_def pool_signature_def and_then_eq split: sum.splits\<close>)

lemma translated_account_authorised:
  assumes "translate_transaction_input cr (translation_context pos tokens orders d) = Ok script"
    and "fst (script_eval (full_checker cr check tctx) script ()) = Ok ()"
    and "from_input utxos n input w = Ok d" and "\<And>outpoint. input \<noteq> UtxoInput outpoint"
  shows "account_authorised pos tokens orders (\<lambda>dest. check dest (evaluate_witness w) = Ok ()) input"
proof (cases input)
  case (AccountCommandInput nonce command)
  with assms show ?thesis
    by (cases command) (auto simp: translate_transaction_input_def from_input_def result_simps account_authorised_def
        translate_account_command_def translation_info conclude_signature_eq authority_accepts_def conclude_accepts_def
        leaf_simps dest!: authority_signatureD split: sum.splits)
qed (use assms in \<open>auto simp: translate_transaction_input_def from_input_def result_simps account_authorised_def
    translate_account_def translate_order_account_command_def translation_info to_signature_witness_script_def
    delegation_signature_eq conclude_signature_eq conclude_accepts_def leaf_simps
    split: sum.splits account_outpoint.splits account_spending.splits order_account_command.splits\<close>)

text \<open>
  C5: After the full check of a signed transaction, every input is authorised, by a witness checked over the
  whole transaction and the commitments to all its inputs. A utxo that is spent exists; its owner accepts the
  witness and its lock has passed: the destination of a transfer, of a locked transfer whose lock has passed or
  of an nft, the decommission key of a stake pool output, the recorded decommission key of the pool of a
  block production output, the party of a hashed timelock contract that shows the secret or, when the refund
  lock has passed, the one that takes the refund. No other output is spent. An account is used
  with a witness of its recorded owner: the owner of the delegation, the authority of the token, the one who
  may conclude the order. Only filling an order needs no owner.
\<close>

theorem full_check_authorises_spends:
  fixes tree :: "'e block_tree"
  assumes "verify_full cr cfg utxos pos tokens orders tree tx_source now height (VerifyTransaction tx) = Ok ()"
  shows "\<exists>core cs. (core_context_new utxos (transactable_of_signed tx) :: ('e, _) input_check) = Ok core \<and>
    (get_input_commitments (VerifyTransaction tx) core pos orders cfg height :: ('e, _) input_check) = Ok cs \<and>
    (\<forall>n < length (tx_inputs (stx_transaction tx)).
       let accepts = (\<lambda>dest w. verify_signature cr cfg dest (transactable_of_signed tx) w cs n = Ok ());
         passed = (\<lambda>lock. check_timelock (input_timelock_context (context_for_verifier tree tx_source now) (core ! n)) lock = Ok ());
         witness = stx_signatures tx ! n in
       (case tx_inputs (stx_transaction tx) ! n of
         UtxoInput outpoint \<Rightarrow> \<exists>u. uv_utxo utxos outpoint = Ok (Some u) \<and>
           output_authorised cr pos accepts passed witness (utxo_output u)
       | input \<Rightarrow> account_authorised pos tokens orders (\<lambda>dest. accepts dest (evaluate_witness witness)) input))"
proof -
  obtain core cs where core: "(core_context_new utxos (transactable_of_signed tx) :: ('e, _) input_check) = Ok core"
    and cs: "(get_input_commitments (VerifyTransaction tx) core pos orders cfg height :: ('e, _) input_check) = Ok cs"
    and full: "\<forall>n<length core. verify_input_full cr cfg pos tokens orders (context_for_verifier tree tx_source now)
      (VerifyTransaction tx) cs (n, core ! n) = Ok ()"
    using assms by (auto simp: verify_full_def as_transactable_def result_simps try_each_enumerated)
  note c = core_of_signed [OF core]
  have "case tx_inputs (stx_transaction tx) ! n of
      UtxoInput outpoint \<Rightarrow> \<exists>u. uv_utxo utxos outpoint = Ok (Some u) \<and>
        output_authorised cr pos (\<lambda>dest w. verify_signature cr cfg dest (transactable_of_signed tx) w cs n = Ok ())
          (\<lambda>lock. check_timelock (input_timelock_context (context_for_verifier tree tx_source now) (core ! n)) lock = Ok ())
          (stx_signatures tx ! n) (utxo_output u)
    | input \<Rightarrow> account_authorised pos tokens orders (\<lambda>dest. verify_signature cr cfg dest (transactable_of_signed tx)
        (evaluate_witness (stx_signatures tx ! n)) cs n = Ok ()) input" if n: "n < length (tx_inputs (stx_transaction tx))" for n
  proof -
    obtain script where run: "translate_transaction_input cr (translation_context pos tokens orders (core ! n)) = Ok script"
      "fst (script_eval (full_checker cr (\<lambda>dest w. verify_signature cr cfg dest (transactable_of_signed tx) w cs n)
         (input_timelock_context (context_for_verifier tree tx_source now) (core ! n))) script ()) = Ok ()"
      using full n c(2) by (auto simp: verify_input_full_def translate_input_def as_transactable_def result_simps
          script_check_eq)
    show ?thesis
    proof (cases "tx_inputs (stx_transaction tx) ! n")
      case (UtxoInput outpoint)
      from from_input_utxo [OF c(3) [OF n, unfolded UtxoInput]] translated_output_authorised [OF run] UtxoInput
      show ?thesis by fastforce
    qed (use translated_account_authorised [OF run c(3) [OF n]] in simp_all)
  qed
  with core cs show ?thesis by (auto simp: Let_def)
qed

section \<open>Examples\<close>

definition sample_genesis_tree :: "unit block_tree" where
  "sample_genesis_tree = \<lparr> bt_genesis = \<lparr> genesis_id = 0, genesis_timestamp = 0 \<rparr>, bt_get_block_index = (\<lambda>_. Ok None),
     bt_block_id_by_height = (\<lambda>_. Ok None), bt_best_block_id = Ok 0 \<rparr>"

definition sample_utxos_view :: "unit utxos_view" where
  "sample_utxos_view = \<lparr>
     uv_utxo = (\<lambda>k. Ok (if k = UtxoOutPoint (TransactionSource 5) 0
       then Some (Utxo (LockThenTransfer (Coin 3) (PublicKey [7]) (ForBlockCount 5)) (Blockchain 7)) else None)),
     uv_has_utxo = (\<lambda>k. Ok (k = UtxoOutPoint (TransactionSource 5) 0)), uv_best_block_hash = Ok 0 \<rparr>"

definition sample_signed_tx :: signed_transaction where
  "sample_signed_tx = \<lparr> stx_transaction = sample_key_tx 1,
     stx_signatures = [StandardSignature \<lparr> sighash_type = sighash_all, raw_signature = [7] \<rparr>] \<rparr>"

definition sample_views :: "pos_error pos_view \<times> tokens_error tokens_view \<times> orders_error orders_view" where
  "sample_views = (\<lparr> pv_pool_exists = (\<lambda>_. Ok False), pv_pool_balance = (\<lambda>_. Ok 0), pv_pool_data = (\<lambda>_. Ok None),
       pv_pool_delegations_shares = (\<lambda>_. Ok None), pv_delegation_balance = (\<lambda>_. Ok 0),
       pv_delegation_data = (\<lambda>_. Ok None), pv_pool_delegation_share = (\<lambda>_ _. Ok 0) \<rparr>,
     \<lparr> view_token_data = (\<lambda>_. Ok None), view_circulating_supply = (\<lambda>_. Ok 0) \<rparr>,
     \<lparr> view_order_data = (\<lambda>_. Ok None), view_ask_balance = (\<lambda>_. Ok 0), view_give_balance = (\<lambda>_. Ok 0) \<rparr>)"

abbreviation sample_connect_source :: transaction_source_for_connect where
  "sample_connect_source \<equiv> ConnectMempool (GenGenesis \<lparr> genesis_id = 0, genesis_timestamp = 0 \<rparr>) 12"

lemma sample_verify_full:
  "verify_full sample_crypto sample_config sample_utxos_view (fst sample_views) (fst (snd sample_views))
     (snd (snd sample_views)) sample_genesis_tree sample_connect_source 100 12 (VerifyTransaction sample_signed_tx) = Ok ()"
  unfolding verify_full_def verify_input_full_def script_check_eq
  by code_simp

theorem full_check_includes_timelocks_witness:
  "verify_timelocks sample_crypto sample_utxos_view sample_genesis_tree 0 12 100 (transactable_of_signed sample_signed_tx) = Ok ()"
  using full_check_includes_timelocks [OF sample_verify_full]
  by (simp add: source_tip_def expected_block_height_def gen_block_id_def)

theorem full_check_authorises_spends_witness:
  "\<exists>cs. verify_signature sample_crypto sample_config (PublicKey [7]) (transactable_of_signed sample_signed_tx)
     (EvaluatedStandard \<lparr> sighash_type = sighash_all, raw_signature = [7] \<rparr>) cs 0 = Ok ()"
  using full_check_authorises_spends [OF sample_verify_full]
  by (auto simp: sample_signed_tx_def sample_key_tx_def sample_utxos_view_def evaluate_witness_def output_authorised_def
      Let_def)

end
