(* ===== verification/Spec2Isabelle.thy ===== *)
theory Spec2Isabelle
  imports Value_Constraints Accounting_Reversal Reward_Distribution Check_Transaction Input_Check
begin

text \<open>
  Verification development for the ledger core of Mintlayer: what a transaction may do, what it does to the
  stored state, and how that is taken back when a block is disconnected. Paths are those under \<open>src/\<close>.

  \<^bold>\<open>The program.\<close> A node keeps a tree of block indices and a state: the set of unspent outputs, and the accounts
  of tokens, orders, and stake pools with their delegations. A transaction is first checked on its own, then
  its inputs are checked against the chain (locks, hashes, signatures), then its values must balance; its
  effects are applied to layers of caches over the database. Each effect returns a record that undoes it; the
  records are collected per block. Layers are flushed into the layer below and finally into storage. A block
  of the proof of stake also distributes its reward to the staker and the delegations of a pool.

  \<^bold>\<open>How code is modelled.\<close> Fallible code returns \<open>'e + 'a\<close> (\<open>Err\<close> and \<open>Ok\<close>); code that can panic returns the error
  type \<open>'e failure\<close>, with the value \<open>Panic\<close>, or an option. Code with mutable state is an operation
  \<open>'s \<Rightarrow> ('e + 'a) \<times> 's\<close>, composed with the combinators of \<open>Mintlayer_Prelude\<close>, so that the state after an error
  is part of the model. Machine integers are words with the checked operations of the source; a \<open>BTreeMap\<close> is a
  finite map that is iterated in the order of its keys. Loops without an evident bound are
  \<open>partial_function (option)\<close> and their termination is a theorem; no fuel is used. The storage backend, the hash
  functions, the signature schemes, the byte encodings, the identifiers that are hashes, the table of
  alphanumeric Unicode characters and the precomputed weights of time slots are parameters; where a proof needs
  a law of them, it is a hypothesis (\<open>crypto_laws\<close>) that a concrete instance is shown to satisfy.

  \<^bold>\<open>Theories, in the order of their imports.\<close>
  \<^item> \<open>Mintlayer_Prelude\<close>: results, operations, loops, checked arithmetic, ordered maps.
  \<^item> \<open>Amounts\<close> (\<open>common/src/primitives/amount\<close>): checked amounts and signed amounts, decimal forms; sums are
    exact or fail, and decimal amounts are read back.
  \<^item> \<open>Accounting\<close> (\<open>accounting/src\<close>): deltas of data and of balances; merging stacks them, undo takes it back.
  \<^item> \<open>Storage_Columns\<close> (\<open>pos-accounting/src/pool/storage\<close>): the loops that merge deltas into a store, as locales
    over the getter and setter of a column.
  \<^item> \<open>Chain_Types\<close> (\<open>common/src/chain\<close>): destinations, outputs, inputs, transactions, token and order data.
  \<^item> \<open>Cached_Views\<close>: reads of a delta over a parent view, shared by the three accounts.
  \<^item> \<open>Tokens_Accounting\<close>, \<open>Orders_Accounting\<close>, \<open>Pos_Accounting\<close> (the crates of these names): every operation with
    its undo, the flush of a cache into a parent cache and into the database. Supplies stay within their limit,
    orders stay solvent while failed creations have amounts that fit in \<open>i128\<close>, the stake of existing pools is
    conserved, flushes keep every answer while the balances can be read.
  \<^item> \<open>Accounting_Reversal\<close>: the locale \<open>reversible\<close>, interpreted on the three accounts: a sequence of operations
    is undone by its records in reverse, as disconnecting a transaction does.
  \<^item> \<open>Utxo_Cache\<close> (\<open>utxo/src\<close>): entries with their flags, the cache, connecting and disconnecting transactions and
    rewards, undo data of blocks, the database. The cache behaves as a set of outputs, but for outputs added
    unnoticed over those of a parent; a flush into a parent is refused exactly on a conflict of FRESH entries and
    keeps every output otherwise; disconnecting undoes connecting.
  \<^item> \<open>Chain_Config\<close> (\<open>common/src/chain/config\<close>, \<open>upgrades\<close>): tables of upgrades, fees, epochs, the emission schedule;
    the precomputed table gives the sum of the subsidies.
  \<^item> \<open>Value_Constraints\<close> (\<open>chainstate/constraints-value-accumulator/src\<close>): what inputs bring and outputs take, with
    locked stake; every currency is conserved, withdrawn stake stays locked, and the matching is complete.
  \<^item> \<open>Undo_Caches\<close> (\<open>transaction_verifier/utxos_undo_cache\<close>, \<open>accounting_undo_cache\<close>): undo data in layers of
    verifiers; a flush gives the parent what the layer had, and data come back in the reverse order.
  \<^item> \<open>Reward_Distribution\<close> (\<open>transaction_verifier/reward_distribution.rs\<close>, \<open>pos_accounting_delta_adapter.rs\<close>): the
    rewards of a block add up to the reward exactly and are proportional to the balances.
  \<^item> \<open>Signatures\<close> (\<open>common/src/chain/transaction/signature\<close>): what a signature hash commits to, verification and
    production of signatures, classical multisig.
  \<^item> \<open>Block_Index\<close> (\<open>chainstate/types/src\<close>, \<open>chainstate/src/detail/chainstateref\<close>, \<open>median_time.rs\<close>): status words,
    skip lists, ancestors, common ancestors, new chains and the index of a new block. The walks end and find
    what a walk from parent to parent finds, and new indices keep the tree navigable.
  \<^item> \<open>Mintscript\<close> (\<open>mintscript/src\<close>): scripts, their verification on a stack, time and hash locks, the translation of
    inputs to scripts. Verification ends; who can spend a hashed timelock contract is characterised.
  \<^item> \<open>Check_Transaction\<close> (\<open>transaction_verifier/check_transaction.rs\<close>, \<open>tokens_check\<close>): the checks without state,
    and exactly which transactions pass them.
  \<^item> \<open>Input_Check\<close> (\<open>transaction_verifier/input_check\<close>, \<open>tx_source.rs\<close>): the full check of the inputs, the check of
    locks alone and of one signature alone; the full check authorises every input and covers the others.

  \<^bold>\<open>What the theorems show of defects.\<close> Some theorems are about behaviour that a caller may not expect: minting
  can overflow a stored supply (\<open>mint_can_overflow_supply\<close>), an order whose creation fails can leave its data behind
  (\<open>create_order_leaves_data\<close>), a derived verifier can erase undo data of its parent
  (\<open>derived_disconnect_erases_parents_undo\<close>), orders may give tokens of a deprecated version
  (\<open>order_giving_v0_tokens_accepted\<close>), and a time lock or a multisig signer can panic
  (\<open>timelock_panics_iff_height_overflows\<close>, \<open>multisig_signing_panics_only_on_mismatch\<close>).

  \<^bold>\<open>Not modelled.\<close> The order in which the verifier runs these parts on a transaction or a block
  (\<open>transaction_verifier/mod.rs\<close>), its nonces, its cache of issued tokens and the policy on kinds of inputs and
  outputs; the activation and the reorganisation of chains; consensus (targets, VRF, epoch randomness); text and
  byte forms; networking, mempool, wallet, RPC and user interfaces.
\<close>

end
